(* ===== verification/Prelude.thy ===== *)
theory Prelude
  imports Main "HOL-Library.Word" "HOL-Library.Monad_Syntax"
begin

text \<open>
  Shared vocabulary of the development: the machine integers of the C code, the collections
  of rewrite rules the component theories extend, and generic facts on words, lists and
  options.

  Conventions used throughout.
  \<^item> \<open>unsigned char\<close>, \<open>u16\<close>, \<open>unsigned int\<close>/\<open>u32\<close> and the 64-bit \<open>unsigned long\<close> are
    words of their width; arithmetic on them wraps as in C.
  \<^item> A C computation that may touch memory outside an object, hit one of the kernel's
    panics (\<open>skb_over_panic\<close>, \<open>skb_under_panic\<close>, a division by zero) or loop for ever has a
    result of type \<open>'a option\<close>; \<open>None\<close> is "the code does not complete". Ordinary error
    returns are values, never \<open>None\<close>.
\<close>

unbundle bit_operations_syntax

type_synonym u8 = "8 word"
type_synonym u16 = "16 word"
type_synonym u32 = "32 word"
type_synonym u64 = "64 word"
type_synonym mac = "u8 list"

named_theorems gf_hom "the byte operations of gf.c as the operations of the field type"
named_theorems skb_simps "how the accessors read an updated socket buffer"
named_theorems step_simps "unfolding rules of handlers and loop bodies"

section \<open>Words\<close>

lemma xor_self_left [simp]: "a XOR (a XOR b) = (b :: 'a::len word)"
  by (simp flip: xor.assoc)

lemma xor_eq_0_iff [simp]: "a XOR b = 0 \<longleftrightarrow> a = (b :: 'a::len word)"
proof
  assume "a XOR b = 0"
  then have "a XOR (a XOR b) = a" by simp
  then show "a = b" by simp
qed simp

lemma unat_u8_less [simp]: "unat (a :: u8) < 256"
  using unsigned_less [of a] by simp

lemma xor_inv_swap: "x XOR c = y \<longleftrightarrow> x = y XOR (c :: 'a::len word)"
  by (metis xor.commute xor_self_left)

section \<open>Options\<close>

lemma bind_eq_Some [simp]: "Option.bind m f = Some y \<longleftrightarrow> (\<exists>x. m = Some x \<and> f x = Some y)"
  by (cases m) auto

section \<open>Loops that may fail\<close>

fun foldo :: "('a \<Rightarrow> 's \<Rightarrow> 's option) \<Rightarrow> 'a list \<Rightarrow> 's \<Rightarrow> 's option" where
  "foldo f [] s = Some s"
| "foldo f (x # xs) s = Option.bind (f x s) (foldo f xs)"

lemma foldo_append [simp]: "foldo f (xs @ ys) s = Option.bind (foldo f xs s) (foldo f ys)"
  by (induction xs arbitrary: s) (auto split: bind_splits)

lemma foldo_Some: "(\<And>x s. x \<in> set xs \<Longrightarrow> f x s = Some (g x s)) \<Longrightarrow> foldo f xs s = Some (fold g xs s)"
  by (induction xs arbitrary: s) auto

text \<open>The rule for a counting loop: an invariant indexed by the next counter value.\<close>

lemma foldo_upt_rule:
  assumes "P a s" and "a \<le> b"
    and "\<And>i s. a \<le> i \<Longrightarrow> i < b \<Longrightarrow> P i s \<Longrightarrow> \<exists>s'. f i s = Some s' \<and> P (Suc i) s'"
  shows "\<exists>s'. foldo f [a..<b] s = Some s' \<and> P b s'"
  using assms(2,3)
proof (induction b)
  case 0
  with assms(1) show ?case by simp
next
  case (Suc b)
  show ?case
  proof (cases "a = Suc b")
    case True
    with assms(1) show ?thesis by simp
  next
    case False
    with Suc obtain s' where "foldo f [a..<b] s = Some s'" "P b s'" by fastforce
    with Suc.prems(2) [of b s'] False Suc.prems(1) show ?thesis by auto
  qed
qed

text \<open>A loop with a condition and a body that may fail; \<open>None\<close> also when it never ends. The
  last lemma shows divergence: a set of states that satisfy the condition and that the body
  does not leave.\<close>

partial_function (option) loop_opt :: "('s \<Rightarrow> bool) \<Rightarrow> ('s \<Rightarrow> 's option) \<Rightarrow> 's \<Rightarrow> 's option" where
  "loop_opt b c s = (if b s then Option.bind (c s) (loop_opt b c) else Some s)"

lemma loop_opt_result: "loop_opt b c s = Some r \<Longrightarrow> \<not> b r"
  by (erule loop_opt.raw_induct [where P = "\<lambda>b c s r. \<not> b r", rotated]) (auto split: if_splits)

lemma loop_opt_diverges:
  assumes "I s" and "\<And>s. I s \<Longrightarrow> b s" and "\<And>s s'. I s \<Longrightarrow> c s = Some s' \<Longrightarrow> I s'"
  shows "loop_opt b c s = None"
proof (rule ccontr)
  assume "loop_opt b c s \<noteq> None"
  then obtain r where r: "loop_opt b c s = Some r" by blast
  have "b = b \<longrightarrow> c = c \<longrightarrow> I s \<longrightarrow> I r"
  proof (rule loop_opt.raw_induct [where P = "\<lambda>b' c' s r. b' = b \<longrightarrow> c' = c \<longrightarrow> I s \<longrightarrow> I r", OF _ r])
    fix f b' c' s r
    assume IH: "\<And>b' c' s r. f b' c' s = Some r \<Longrightarrow> b' = b \<longrightarrow> c' = c \<longrightarrow> I s \<longrightarrow> I r"
      and eq: "(if b' s then Option.bind (c' s) (f b' c') else Some s) = Some r"
    show "b' = b \<longrightarrow> c' = c \<longrightarrow> I s \<longrightarrow> I r"
    proof (intro impI)
      assume *: "b' = b" "c' = c" "I s"
      with assms(2) eq obtain s' where s': "c s = Some s'" "f b c s' = Some r" by auto
      with IH [of b c s' r] assms(3) [of s s'] * show "I r" by simp
    qed
  qed
  with assms have "b r" by blast
  with loop_opt_result [OF r] show False by blast
qed

lemma loop_opt_stop: "\<not> b s \<Longrightarrow> loop_opt b c s = Some s"
  by (subst loop_opt.simps) simp

lemma loop_opt_step: "b s \<Longrightarrow> c s = Some s' \<Longrightarrow> loop_opt b c s = loop_opt b c s'"
  by (subst loop_opt.simps) simp

lemma loop_opt_measure:
  assumes "I s" and "\<And>s. I s \<Longrightarrow> b s \<Longrightarrow> \<exists>s'. c s = Some s' \<and> I s' \<and> m s' < (m s :: nat)"
  shows "\<exists>r. loop_opt b c s = Some r \<and> I r \<and> \<not> b r"
  using assms(1)
proof (induction "m s" arbitrary: s rule: less_induct)
  case less
  show ?case
  proof (cases "b s")
    case True
    with assms(2) less.prems obtain s' where "c s = Some s'" "I s'" "m s' < m s" by blast
    with less.hyps [of s'] True show ?thesis by (simp add: loop_opt_step)
  next
    case False
    with less.prems show ?thesis by (auto simp: loop_opt_stop)
  qed
qed

text \<open>Reading a block of bytes.\<close>

lemma those_Some_iff: "those xs = Some ys \<longleftrightarrow> xs = map Some ys"
proof (induction xs arbitrary: ys)
  case (Cons x xs)
  show ?case
    by (cases x; cases ys) (auto simp: Cons split: option.splits)
qed auto

lemma those_map_Some: "(\<And>x. x \<in> set xs \<Longrightarrow> f x = Some (g x)) \<Longrightarrow> those (map f xs) = Some (map g xs)"
  by (simp add: those_Some_iff)

section \<open>Postconditions of computations that may fail\<close>

definition opt_post :: "('a \<Rightarrow> bool) \<Rightarrow> 'a option \<Rightarrow> bool" where
  "opt_post Q m \<longleftrightarrow> (\<forall>x. m = Some x \<longrightarrow> Q x)"

named_theorems opt_post_rules "syntax-directed rules for opt_post"

lemma opt_postD: "opt_post Q m \<Longrightarrow> m = Some x \<Longrightarrow> Q x"
  by (simp add: opt_post_def)

lemma opt_postI: "(\<And>x. m = Some x \<Longrightarrow> Q x) \<Longrightarrow> opt_post Q m"
  by (simp add: opt_post_def)

lemma opt_post_Some [opt_post_rules]: "Q x \<Longrightarrow> opt_post Q (Some x)"
  by (simp add: opt_post_def)

lemma opt_post_None [opt_post_rules]: "opt_post Q None"
  by (simp add: opt_post_def)

lemma opt_post_bind [opt_post_rules]:
  "(\<And>x. m = Some x \<Longrightarrow> opt_post Q (f x)) \<Longrightarrow> opt_post Q (m \<bind> f)"
  by (auto simp: opt_post_def bind_eq_Some_conv)

lemma opt_post_if [opt_post_rules]:
  "(b \<Longrightarrow> opt_post Q m) \<Longrightarrow> (\<not> b \<Longrightarrow> opt_post Q n) \<Longrightarrow> opt_post Q (if b then m else n)"
  by simp

lemma opt_post_let [opt_post_rules]: "(\<And>x. x = v \<Longrightarrow> opt_post Q (f x)) \<Longrightarrow> opt_post Q (Let v f)"
  by simp

lemma opt_post_prod [opt_post_rules]:
  "(\<And>a b. p = (a, b) \<Longrightarrow> opt_post Q (f a b)) \<Longrightarrow> opt_post Q (case p of (a, b) \<Rightarrow> f a b)"
  by (cases p) simp

lemma opt_post_option [opt_post_rules]:
  "(p = None \<Longrightarrow> opt_post Q m) \<Longrightarrow> (\<And>x. p = Some x \<Longrightarrow> opt_post Q (f x)) \<Longrightarrow>
   opt_post Q (case p of None \<Rightarrow> m | Some x \<Rightarrow> f x)"
  by (cases p) simp_all

lemma opt_post_list [opt_post_rules]:
  "(p = [] \<Longrightarrow> opt_post Q m) \<Longrightarrow> (\<And>x xs. p = x # xs \<Longrightarrow> opt_post Q (f x xs)) \<Longrightarrow>
   opt_post Q (case p of [] \<Rightarrow> m | x # xs \<Rightarrow> f x xs)"
  by (cases p) simp_all

end
