(* ===== verification/DLL.thy ===== *)
theory DLL
  imports Prelude
begin

text \<open>
  The doubly linked lists of the network-coding code at the level of pointers. The
  files \<^verbatim>\<open>mnc_rx.c\<close> and \<^verbatim>\<open>tl_rx_list.c\<close> contain the same list three times, for
  \<^verbatim>\<open>struct mnc_queue\<close>, \<^verbatim>\<open>struct dst_info\<close> and \<^verbatim>\<open>struct tr_info\<close>: a head with a pointer to the
  first node and a length, nodes with \<open>next\<close> and \<open>prev\<close>. The operations are defined once over
  a heap of nodes with any payload; a dereference of a dangling pointer is \<open>None\<close>.

  The invariant \<open>dll_ok d as\<close> ties a heap to the list of its node addresses, and every operation
  is shown to complete and to act on the list of payloads as the operation of the same name on
  lists. The component theories work with those lists.
\<close>

section \<open>Nodes and the heap\<close>

type_synonym addr = nat

record 'a node =
  n_val :: 'a
  n_next :: "addr option"
  n_prev :: "addr option"

record 'a dll =
  d_heap :: "addr \<Rightarrow> 'a node option"
  d_first :: "addr option"
  d_qlen :: u32

definition dll_init :: "'a dll \<Rightarrow> 'a dll" where
  "dll_init d = d\<lparr>d_first := None, d_qlen := 0\<rparr>"

text \<open>A freshly allocated node, not yet linked; \<open>a\<close> is the address \<open>kmalloc\<close> returned.\<close>

definition dll_create :: "addr \<Rightarrow> 'a \<Rightarrow> 'a dll \<Rightarrow> 'a dll" where
  "dll_create a v d = d\<lparr>d_heap := (d_heap d)(a \<mapsto> \<lparr>n_val = v, n_next = None, n_prev = None\<rparr>)\<rparr>"

definition set_next :: "addr \<Rightarrow> addr option \<Rightarrow> 'a dll \<Rightarrow> 'a dll option" where
  "set_next a p d = map_option (\<lambda>n. d\<lparr>d_heap := (d_heap d)(a \<mapsto> n\<lparr>n_next := p\<rparr>)\<rparr>) (d_heap d a)"

definition set_prev :: "addr \<Rightarrow> addr option \<Rightarrow> 'a dll \<Rightarrow> 'a dll option" where
  "set_prev a p d = map_option (\<lambda>n. d\<lparr>d_heap := (d_heap d)(a \<mapsto> n\<lparr>n_prev := p\<rparr>)\<rparr>) (d_heap d a)"

section \<open>The operations\<close>

definition dll_last :: "'a dll \<Rightarrow> addr \<Rightarrow> addr option" where
  "dll_last d = loop_opt (\<lambda>a. case d_heap d a of None \<Rightarrow> True | Some n \<Rightarrow> n_next n \<noteq> None)
                  (\<lambda>a. Option.bind (d_heap d a) n_next)"

definition dll_insert :: "addr \<Rightarrow> 'a dll \<Rightarrow> 'a dll option" where
  "dll_insert new d =
     (case d_first d of
        None \<Rightarrow> Some (d\<lparr>d_first := Some new, d_qlen := d_qlen d + 1\<rparr>)
      | Some p \<Rightarrow>
          do {
            l \<leftarrow> dll_last d p;
            d \<leftarrow> set_next l (Some new) d;
            d \<leftarrow> set_prev new (Some l) d;
            Some (d\<lparr>d_qlen := d_qlen d + 1\<rparr>)
          })"

definition dll_unlink :: "addr option \<Rightarrow> addr option \<Rightarrow> 'a dll \<Rightarrow> 'a dll option" where
  "dll_unlink prev nxt d =
     (case prev of
        None \<Rightarrow>
          (case nxt of
             None \<Rightarrow> Some (d\<lparr>d_first := None\<rparr>)
           | Some nx \<Rightarrow> set_prev nx None (d\<lparr>d_first := Some nx\<rparr>))
      | Some pv \<Rightarrow>
          (case nxt of
             None \<Rightarrow> set_next pv None d
           | Some nx \<Rightarrow> Option.bind (set_next pv (Some nx) d) (set_prev nx (Some pv))))"

definition dll_free :: "addr option \<Rightarrow> 'a dll \<Rightarrow> 'a dll option" where
  "dll_free p d =
     (case p of
        None \<Rightarrow> Some d
      | Some a \<Rightarrow>
          do {
            n \<leftarrow> d_heap d a;
            d \<leftarrow> dll_unlink (n_prev n) (n_next n) d;
            Some (d\<lparr>d_qlen := d_qlen d - 1, d_heap := (d_heap d)(a := None)\<rparr>)
          })"

definition dll_find :: "('a \<Rightarrow> bool) \<Rightarrow> 'a dll \<Rightarrow> addr option option" where
  "dll_find P d =
     loop_opt (\<lambda>p. case p of None \<Rightarrow> False
                 | Some a \<Rightarrow> (case d_heap d a of None \<Rightarrow> True | Some n \<Rightarrow> \<not> P (n_val n)))
       (\<lambda>p. case p of None \<Rightarrow> None | Some a \<Rightarrow> map_option n_next (d_heap d a)) (d_first d)"

definition dll_purge :: "'a dll \<Rightarrow> 'a dll option" where
  "dll_purge = loop_opt (\<lambda>d. d_first d \<noteq> None) (\<lambda>d. dll_free (d_first d) d)"

text \<open>Free every node with a property, remembering the successor before the node is freed.\<close>

definition sweep_body ::
  "('a \<Rightarrow> bool) \<Rightarrow> addr option \<times> 'a dll \<Rightarrow> (addr option \<times> 'a dll) option" where
  "sweep_body P =
     (\<lambda>(p, d). do {
        a \<leftarrow> p;
        n \<leftarrow> d_heap d a;
        d \<leftarrow> (if P (n_val n) then dll_free (Some a) d else Some d);
        Some (n_next n, d)
      })"

definition dll_sweep :: "('a \<Rightarrow> bool) \<Rightarrow> 'a dll \<Rightarrow> 'a dll option" where
  "dll_sweep P d = map_option snd (loop_opt (\<lambda>(p, d). p \<noteq> None) (sweep_body P) (d_first d, d))"

definition dll_read :: "addr \<Rightarrow> 'a dll \<Rightarrow> 'a option" where
  "dll_read a d = map_option n_val (d_heap d a)"

definition dll_modify :: "addr \<Rightarrow> ('a \<Rightarrow> 'a) \<Rightarrow> 'a dll \<Rightarrow> 'a dll option" where
  "dll_modify a f d = map_option (\<lambda>n. d\<lparr>d_heap := (d_heap d)(a \<mapsto> n\<lparr>n_val := f (n_val n)\<rparr>)\<rparr>) (d_heap d a)"

section \<open>List segments\<close>

fun dlseg :: "(addr \<Rightarrow> 'a node option) \<Rightarrow> addr option \<Rightarrow> addr list \<Rightarrow> addr option \<Rightarrow> bool" where
  "dlseg h p [] q \<longleftrightarrow> True"
| "dlseg h p (a # as) q \<longleftrightarrow>
     (\<exists>n. h a = Some n \<and> n_prev n = p \<and> n_next n = (case as of [] \<Rightarrow> q | b # _ \<Rightarrow> Some b)) \<and>
     dlseg h (Some a) as q"

definition first_of :: "addr list \<Rightarrow> addr option \<Rightarrow> addr option" where
  "first_of as q = (case as of [] \<Rightarrow> q | b # _ \<Rightarrow> Some b)"

definition last_of :: "addr option \<Rightarrow> addr list \<Rightarrow> addr option" where
  "last_of p as = (if as = [] then p else Some (last as))"

lemma first_of_simps [simp]:
  "first_of [] q = q" "first_of (a # as) q = Some a" "first_of (xs @ ys) q = first_of xs (first_of ys q)"
  by (auto simp: first_of_def split: list.splits)

lemma last_of_simps [simp]:
  "last_of p [] = p" "last_of p (a # as) = last_of (Some a) as" "last_of p (xs @ ys) = last_of (last_of p xs) ys"
  by (auto simp: last_of_def)

lemma dlseg_Cons [simp]:
  "dlseg h p (a # as) q \<longleftrightarrow>
     (\<exists>n. h a = Some n \<and> n_prev n = p \<and> n_next n = first_of as q) \<and> dlseg h (Some a) as q"
  by (simp add: first_of_def)

declare dlseg.simps(2) [simp del]

lemma dlseg_append: "dlseg h p (xs @ ys) q \<longleftrightarrow> dlseg h p xs (first_of ys q) \<and> dlseg h (last_of p xs) ys q"
  by (induction xs arbitrary: p) auto

lemma dlseg_upd [simp]: "a \<notin> set as \<Longrightarrow> dlseg (h(a := n)) p as q = dlseg h p as q"
  by (induction as arbitrary: p) auto

definition dll_ok :: "'a dll \<Rightarrow> addr list \<Rightarrow> bool" where
  "dll_ok d as \<longleftrightarrow> distinct as \<and> d_first d = first_of as None \<and> d_qlen d = of_nat (length as) \<and>
     dlseg (d_heap d) None as None \<and> dom (d_heap d) = set as"

definition val_at :: "'a dll \<Rightarrow> addr \<Rightarrow> 'a" where
  "val_at d a = n_val (the (d_heap d a))"

definition vals :: "'a dll \<Rightarrow> addr list \<Rightarrow> 'a list" where
  "vals d as = map (val_at d) as"

lemma vals_simps [simp]:
  "vals d [] = []" "vals d (a # as) = val_at d a # vals d as" "vals d (xs @ ys) = vals d xs @ vals d ys"
  by (simp_all add: vals_def)

section \<open>The operations on lists\<close>

lemma dll_ok_init: "d_heap d = Map.empty \<Longrightarrow> dll_ok (dll_init d) []"
  by (simp add: dll_ok_def dll_init_def)

lemma dlseg_last:
  "dlseg (d_heap d) p (a # as) None \<Longrightarrow> dll_last d a = Some (last (a # as))"
proof (induction as arbitrary: p a)
  case Nil
  then show ?case by (subst dll_last_def, subst loop_opt.simps) auto
next
  case (Cons b as)
  then have "dll_last d b = Some (last (b # as))" by fastforce
  with Cons.prems show ?case
    by (subst dll_last_def, subst loop_opt.simps, fold dll_last_def) auto
qed

lemma val_at_upd [simp]: "val_at (d\<lparr>d_first := f\<rparr>) = val_at d" "val_at (d\<lparr>d_qlen := l\<rparr>) = val_at d"
  by (auto simp: val_at_def)

lemma dll_insert_ok:
  assumes ok: "dll_ok d as" and new: "a \<notin> set as"
  shows "\<exists>d'. dll_insert a (dll_create a v d) = Some d' \<and> dll_ok d' (as @ [a]) \<and>
    vals d' (as @ [a]) = vals d as @ [v]"
proof (cases as rule: rev_cases)
  case Nil
  with ok new show ?thesis
    by (simp add: dll_insert_def dll_create_def dll_ok_def vals_def val_at_def)
next
  case (snoc xs l)
  let ?d = "dll_create a v d"
  obtain b bs where as: "as = b # bs" using snoc by (metis append_is_Nil_conv list.exhaust not_Cons_self2)
  have seg: "dlseg (d_heap ?d) None as None" "d_first ?d = Some b"
    using ok new as by (simp_all add: dll_ok_def dll_create_def)
  then have last: "dll_last ?d b = Some l"
    using dlseg_last [of ?d None b bs] snoc unfolding as [symmetric] by simp
  obtain n where n: "d_heap d l = Some n" "n_next n = None" and la: "l \<noteq> a"
    using ok snoc new by (auto simp: dll_ok_def dlseg_append)
  define d' where "d' = ?d\<lparr>d_heap := (d_heap d)(a \<mapsto> \<lparr>n_val = v, n_next = None, n_prev = Some l\<rparr>,
      l \<mapsto> n\<lparr>n_next := Some a\<rparr>), d_qlen := d_qlen d + 1\<rparr>"
  have "dll_insert a ?d = Some d'"
    using seg(2) last n la
    by (simp add: dll_insert_def set_next_def set_prev_def dll_create_def d'_def fun_upd_twist)
  moreover have "dll_ok d' (as @ [a])"
    using ok snoc new n la by (auto simp: dll_ok_def d'_def dll_create_def dlseg_append)
  moreover have "vals d' (as @ [a]) = vals d as @ [v]"
    using snoc new n la by (auto simp: vals_def val_at_def d'_def dll_create_def)
  ultimately show ?thesis by blast
qed

text \<open>Removing the node between two segments.\<close>

lemma dll_free_ok:
  assumes ok: "dll_ok d (xs @ a # ys)"
  shows "\<exists>d'. dll_free (Some a) d = Some d' \<and> dll_ok d' (xs @ ys) \<and>
    vals d' (xs @ ys) = vals d xs @ vals d ys \<and> d_heap d' a = None"
proof -
  obtain n where n: "d_heap d a = Some n" "n_prev n = last_of None xs" "n_next n = first_of ys None"
    and segs: "dlseg (d_heap d) None xs (Some a)" "dlseg (d_heap d) (Some a) ys None"
    and dist: "distinct (xs @ a # ys)" and first: "d_first d = first_of xs (Some a)"
    using ok by (auto simp: dll_ok_def dlseg_append)
  have dom: "dom (d_heap d) = set (xs @ a # ys)" using ok by (simp add: dll_ok_def)
  have qlen: "d_qlen d - 1 = of_nat (length (xs @ ys))" using ok by (simp add: dll_ok_def)
  show ?thesis
  proof (cases xs rule: rev_cases)
    case Nil
    show ?thesis
    proof (cases ys)
      case Nil
      with \<open>xs = []\<close> n qlen dom show ?thesis
        by (simp add: dll_free_def dll_unlink_def dll_ok_def vals_def del: dom_eq_empty_conv)
    next
      case (Cons b bs)
      with segs(2) obtain nb where "d_heap d b = Some nb" "n_next nb = first_of bs None" by auto
      with \<open>xs = []\<close> Cons n qlen segs dist dom show ?thesis
        by (auto simp: dll_free_def dll_unlink_def set_prev_def dll_ok_def vals_def val_at_def)
    qed
  next
    case (snoc xs' l)
    with segs(1) obtain nl where nl: "d_heap d l = Some nl" "n_prev nl = last_of None xs'"
      by (auto simp: dlseg_append)
    show ?thesis
    proof (cases ys)
      case Nil
      with snoc nl n qlen segs dist first dom show ?thesis
        by (auto simp: dll_free_def dll_unlink_def set_next_def dll_ok_def vals_def val_at_def dlseg_append)
    next
      case (Cons b bs)
      with segs(2) obtain nb where "d_heap d b = Some nb" "n_next nb = first_of bs None" by auto
      with snoc Cons nl n qlen segs dist first dom show ?thesis
        by (auto simp: dll_free_def dll_unlink_def set_next_def set_prev_def dll_ok_def vals_def
            val_at_def dlseg_append)
    qed
  qed
qed

lemma dll_find_seg:
  assumes "dlseg (d_heap d) p as None"
  shows "loop_opt (\<lambda>p. case p of None \<Rightarrow> False
                 | Some a \<Rightarrow> (case d_heap d a of None \<Rightarrow> True | Some n \<Rightarrow> \<not> P (n_val n)))
       (\<lambda>p. case p of None \<Rightarrow> None | Some a \<Rightarrow> map_option n_next (d_heap d a)) (first_of as None) =
    Some (List.find (\<lambda>a. P (val_at d a)) as)"
  using assms
proof (induction as arbitrary: p)
  case Nil
  show ?case by (subst loop_opt.simps) simp
next
  case (Cons a as)
  then obtain n where n: "d_heap d a = Some n" "n_next n = first_of as None"
    and seg: "dlseg (d_heap d) (Some a) as None" by auto
  show ?case
    by (subst loop_opt.simps) (use n Cons.IH [OF seg] in \<open>simp add: val_at_def\<close>)
qed

lemma dll_find_ok: "dll_ok d as \<Longrightarrow> dll_find P d = Some (List.find (\<lambda>a. P (val_at d a)) as)"
  using dll_find_seg [of d None as P] by (simp add: dll_find_def dll_ok_def)

lemma dll_purge_ok: "dll_ok d as \<Longrightarrow> \<exists>d'. dll_purge d = Some d' \<and> dll_ok d' []"
proof (induction as arbitrary: d)
  case Nil
  then show ?case by (subst dll_purge_def, subst loop_opt.simps) (simp add: dll_ok_def)
next
  case (Cons a as)
  obtain d1 where d1: "dll_free (Some a) d = Some d1" "dll_ok d1 as"
    using dll_free_ok [of d "[]" a as] Cons.prems by auto
  have "d_first d = Some a" using Cons.prems by (simp add: dll_ok_def)
  with d1 Cons.IH [OF d1(2)] show ?case
    by (subst dll_purge_def, subst loop_opt.simps, fold dll_purge_def) simp
qed

lemma dll_sweep_loop:
  assumes "dll_ok d (xs @ as)"
  shows "\<exists>d'. loop_opt (\<lambda>(p, d). p \<noteq> None) (sweep_body P) (first_of as None, d) = Some (None, d') \<and>
      (\<exists>as'. dll_ok d' (xs @ as') \<and> vals d' (xs @ as') = vals d xs @ filter (\<lambda>v. \<not> P v) (vals d as))"
  using assms
proof (induction as arbitrary: xs d)
  case Nil
  then show ?case by (subst loop_opt.simps) (auto intro: exI [of _ "[]"])
next
  case (Cons a as)
  then obtain n where n: "d_heap d a = Some n" "n_next n = first_of as None"
    by (auto simp: dll_ok_def dlseg_append)
  show ?case
  proof (cases "P (n_val n)")
    case True
    obtain d1 where d1: "dll_free (Some a) d = Some d1" "dll_ok d1 (xs @ as)"
      "vals d1 (xs @ as) = vals d xs @ vals d as"
      using dll_free_ok [OF Cons.prems] by blast
    then have same: "vals d1 xs = vals d xs" "vals d1 as = vals d as" by (simp_all add: vals_def)
    have "sweep_body P (Some a, d) = Some (first_of as None, d1)"
      using n True d1(1) by (simp add: sweep_body_def)
    with Cons.IH [OF d1(2)] n True show ?thesis
      unfolding same by (subst loop_opt.simps) (simp add: val_at_def)
  next
    case False
    have "sweep_body P (Some a, d) = Some (first_of as None, d)"
      using n False by (simp add: sweep_body_def)
    moreover obtain d' as' where
      "loop_opt (\<lambda>(p, d). p \<noteq> None) (sweep_body P) (first_of as None, d) = Some (None, d')"
      "dll_ok d' ((xs @ [a]) @ as')"
      "vals d' ((xs @ [a]) @ as') = vals d (xs @ [a]) @ filter (\<lambda>v. \<not> P v) (vals d as)"
      using Cons.IH [of d "xs @ [a]"] Cons.prems by auto
    ultimately show ?thesis
      using n False by (subst loop_opt.simps) (auto simp: val_at_def intro!: exI [of _ "a # as'"])
  qed
qed

lemma dll_sweep_ok:
  assumes "dll_ok d as"
  shows "\<exists>d' as'. dll_sweep P d = Some d' \<and> dll_ok d' as' \<and> vals d' as' = filter (\<lambda>v. \<not> P v) (vals d as)"
proof -
  have "d_first d = first_of as None" using assms by (simp add: dll_ok_def)
  with dll_sweep_loop [of d "[]" as P] assms show ?thesis
    by (auto simp: dll_sweep_def)
qed

text \<open>Changing the payload of a node.\<close>

lemma dll_modify_ok:
  assumes ok: "dll_ok d (xs @ a # ys)"
  shows "\<exists>d'. dll_modify a f d = Some d' \<and> dll_ok d' (xs @ a # ys) \<and>
    vals d' xs = vals d xs \<and> val_at d' a = f (val_at d a) \<and> vals d' ys = vals d ys"
proof -
  obtain n where n: "d_heap d a = Some n" "n_prev n = last_of None xs" "n_next n = first_of ys None"
    using ok by (auto simp: dll_ok_def dlseg_append)
  have fresh: "a \<notin> set xs" "a \<notin> set ys" using ok by (auto simp: dll_ok_def)
  with n ok show ?thesis
    by (auto simp: dll_modify_def dll_ok_def dlseg_append vals_def val_at_def)
qed

section \<open>The interface of the lists\<close>

text \<open>What the clients of a list rely on. \<open>rep d vs\<close> says that the list holds the payloads \<open>vs\<close>, in
  order; \<open>node d ys v zs p\<close> that \<open>p\<close> points to the node with payload \<open>v\<close> between \<open>ys\<close> and \<open>zs\<close>.
  A pointer is usable as long as a \<open>node\<close> fact holds for it.\<close>

locale linked_list =
  fixes rep :: "'d \<Rightarrow> 'a list \<Rightarrow> bool"
    and node :: "'d \<Rightarrow> 'a list \<Rightarrow> 'a \<Rightarrow> 'a list \<Rightarrow> 'p \<Rightarrow> bool"
    and unused :: "'d \<Rightarrow> 'p \<Rightarrow> bool"
    and insert :: "'p \<Rightarrow> 'a \<Rightarrow> 'd \<Rightarrow> 'd option"
    and find :: "('a \<Rightarrow> bool) \<Rightarrow> 'd \<Rightarrow> 'p option option"
    and read :: "'p \<Rightarrow> 'd \<Rightarrow> 'a option"
    and modify :: "'p \<Rightarrow> ('a \<Rightarrow> 'a) \<Rightarrow> 'd \<Rightarrow> 'd option"
    and free :: "'p option \<Rightarrow> 'd \<Rightarrow> 'd option"
    and purge :: "'d \<Rightarrow> 'd option"
    and sweep :: "('a \<Rightarrow> bool) \<Rightarrow> 'd \<Rightarrow> 'd option"
  assumes node_rep: "node d ys v zs p \<Longrightarrow> rep d (ys @ v # zs)"
    and insert_law: "rep d vs \<Longrightarrow> unused d p \<Longrightarrow> \<exists>d'. insert p v d = Some d' \<and> node d' vs v [] p"
    and find_law: "rep d vs \<Longrightarrow>
      (\<exists>p ys v zs. find P d = Some (Some p) \<and> node d ys v zs p \<and> vs = ys @ v # zs \<and> P v \<and>
         (\<forall>y\<in>set ys. \<not> P y)) \<or> find P d = Some None \<and> (\<forall>v\<in>set vs. \<not> P v)"
    and read_law: "node d ys v zs p \<Longrightarrow> read p d = Some v"
    and modify_law: "node d ys v zs p \<Longrightarrow> \<exists>d'. modify p f d = Some d' \<and> node d' ys (f v) zs p"
    and free_law: "node d ys v zs p \<Longrightarrow> \<exists>d'. free (Some p) d = Some d' \<and> rep d' (ys @ zs)"
    and free_null: "free None d = Some d"
    and purge_law: "rep d vs \<Longrightarrow> \<exists>d'. purge d = Some d' \<and> rep d' []"
    and sweep_law: "rep d vs \<Longrightarrow> \<exists>d'. sweep P d = Some d' \<and> rep d' (filter (\<lambda>v. \<not> P v) vs)"
begin

lemma find_none: "rep d vs \<Longrightarrow> \<forall>v\<in>set vs. \<not> P v \<Longrightarrow> find P d = Some None"
  using find_law [of d vs P] by auto

lemma find_some:
  assumes "rep d vs" and "\<exists>v\<in>set vs. P v"
  obtains p ys v zs where "find P d = Some (Some p)" "node d ys v zs p" "vs = ys @ v # zs" "P v"
    "\<forall>y\<in>set ys. \<not> P y"
  using find_law [OF assms(1), of P] assms(2) by auto

lemma find_cases:
  assumes "rep d vs"
  obtains (found) p ys v zs where "find P d = Some (Some p)" "node d ys v zs p" "vs = ys @ v # zs"
      "P v" "\<forall>y\<in>set ys. \<not> P y"
    | (absent) "find P d = Some None" "\<forall>v\<in>set vs. \<not> P v"
  using find_law [OF assms, of P] by blast

text \<open>Finding a key after its insertion, and the discipline every client follows: look a key up,
  and insert only when it is absent.\<close>

lemma insert_absent:
  assumes rep: "rep d vs" and new: "unused d p" and absent: "\<forall>w\<in>set vs. \<not> P w" and v: "P v"
  shows "\<exists>d'. insert p v d = Some d' \<and> node d' vs v [] p \<and> (\<exists>q. find P d' = Some (Some q) \<and> read q d' = Some v)"
proof -
  obtain d' where d': "insert p v d = Some d'" "node d' vs v [] p" using insert_law [OF rep new] by blast
  have "rep d' (vs @ [v])" using node_rep [OF d'(2)] by simp
  moreover have "\<exists>w\<in>set (vs @ [v]). P w" using v by simp
  ultimately obtain q ys w zs where q: "find P d' = Some (Some q)" "node d' ys w zs q"
    "vs @ [v] = ys @ w # zs" "P w" "\<forall>y\<in>set ys. \<not> P y"
    by (rule find_some)
  have "w \<notin> set vs" using q(4) absent by blast
  then have "w = v" using q(3) by (cases zs rule: rev_cases) auto
  with d' q read_law show ?thesis by blast
qed

lemma distinct_keys_insert:
  assumes "rep d vs" "unused d p" "distinct (map key vs)" "key v \<notin> key ` set vs"
  shows "\<exists>d'. insert p v d = Some d' \<and> rep d' (vs @ [v]) \<and> distinct (map key (vs @ [v]))"
  using insert_law [OF assms(1,2), of v] node_rep [of _ vs v "[]" p] assms(3,4) by fastforce

end

definition dll_rep :: "'a dll \<Rightarrow> 'a list \<Rightarrow> bool" where
  "dll_rep d vs \<longleftrightarrow> (\<exists>as. dll_ok d as \<and> vals d as = vs)"

definition dll_node :: "'a dll \<Rightarrow> 'a list \<Rightarrow> 'a \<Rightarrow> 'a list \<Rightarrow> addr \<Rightarrow> bool" where
  "dll_node d ys v zs a \<longleftrightarrow>
     (\<exists>as bs. dll_ok d (as @ a # bs) \<and> vals d as = ys \<and> val_at d a = v \<and> vals d bs = zs)"

definition dll_unused :: "'a dll \<Rightarrow> addr \<Rightarrow> bool" where
  "dll_unused d a \<longleftrightarrow> d_heap d a = None"

lemma dll_find_law:
  assumes "dll_rep d vs"
  shows "(\<exists>p ys v zs. dll_find P d = Some (Some p) \<and> dll_node d ys v zs p \<and> vs = ys @ v # zs \<and> P v \<and>
         (\<forall>y\<in>set ys. \<not> P y)) \<or> dll_find P d = Some None \<and> (\<forall>v\<in>set vs. \<not> P v)"
proof -
  obtain as where as: "dll_ok d as" "vals d as = vs" using assms by (auto simp: dll_rep_def)
  show ?thesis
  proof (cases "List.find (\<lambda>a. P (val_at d a)) as")
    case None
    with as dll_find_ok [OF as(1), of P] show ?thesis by (auto simp: find_None_iff vals_def)
  next
    case (Some a)
    then obtain i where i: "i < length as" "P (val_at d a)" "a = as ! i"
      "\<forall>j<i. \<not> P (val_at d (as ! j))" by (auto simp: find_Some_iff)
    have split: "as = take i as @ a # drop (Suc i) as" using i by (simp add: id_take_nth_drop)
    have "dll_node d (vals d (take i as)) (val_at d a) (vals d (drop (Suc i) as)) a"
      using as(1) split unfolding dll_node_def by metis
    moreover have "vs = vals d (take i as) @ val_at d a # vals d (drop (Suc i) as)"
      using as(2) by (subst (asm) split) simp
    moreover have "\<forall>y\<in>set (vals d (take i as)). \<not> P y"
      using i by (auto simp: vals_def in_set_conv_nth)
    ultimately show ?thesis using i dll_find_ok [OF as(1), of P] Some by auto
  qed
qed

lemma dll_insert_law:
  assumes "dll_rep d vs" "dll_unused d a"
  shows "\<exists>d'. dll_insert a (dll_create a v d) = Some d' \<and> dll_node d' vs v [] a"
proof -
  obtain as where as: "dll_ok d as" "vals d as = vs" using assms(1) by (auto simp: dll_rep_def)
  have "a \<notin> set as" using as(1) assms(2) by (auto simp: dll_ok_def dll_unused_def)
  from dll_insert_ok [OF as(1) this, of v] obtain d' where
    "dll_insert a (dll_create a v d) = Some d'" "dll_ok d' (as @ [a])" "vals d' (as @ [a]) = vs @ [v]"
    using as(2) by auto
  moreover from this have "dll_node d' vs v [] a"
    unfolding dll_node_def by (intro exI [of _ as] exI [of _ "[]"]) auto
  ultimately show ?thesis by blast
qed

interpretation dlist: linked_list dll_rep dll_node dll_unused "\<lambda>a v d. dll_insert a (dll_create a v d)"
  dll_find dll_read dll_modify dll_free dll_purge dll_sweep
proof (unfold_locales, goal_cases)
  case (1 d ys v zs p)
  then show ?case by (force simp: dll_node_def dll_rep_def)
next
  case (2 d vs p v)
  then show ?case by (rule dll_insert_law)
next
  case (3 d vs P)
  then show ?case by (rule dll_find_law)
next
  case (4 d ys v zs p)
  then show ?case by (auto simp: dll_node_def dll_read_def dll_ok_def dlseg_append val_at_def)
next
  case (5 d ys v zs p f)
  then obtain as bs where "dll_ok d (as @ p # bs)" "vals d as = ys" "val_at d p = v" "vals d bs = zs"
    by (auto simp: dll_node_def)
  with dll_modify_ok [of d as p bs f] show ?case by (force simp: dll_node_def)
next
  case (6 d ys v zs p)
  then obtain as bs where "dll_ok d (as @ p # bs)" "vals d as = ys" "vals d bs = zs"
    by (auto simp: dll_node_def)
  with dll_free_ok [of d as p bs] show ?case unfolding dll_rep_def by metis
next
  case (7 d)
  show ?case by (simp add: dll_free_def)
next
  case (8 d vs)
  then show ?case using dll_purge_ok unfolding dll_rep_def by (metis vals_simps(1))
next
  case (9 d vs P)
  then show ?case using dll_sweep_ok unfolding dll_rep_def by metis
qed

end
