(* ===== verification/Node_List.thy ===== *)
theory Node_List
  imports DLL
begin

text \<open>
  Lists of nodes with their addresses. The handlers of the network-coding code keep pointers to
  list nodes (a timer holds one, for instance), so the component theories describe a list as
  the sequence of its nodes, each with the address \<open>kmalloc\<close> gave it: a pointer is an address, and
  using the address of a freed node is visible as \<open>None\<close>.

  The operations here are what the pointer operations of theory \<open>DLL\<close> implement; both levels
  satisfy the interface \<open>linked_list\<close>.
\<close>

section \<open>Operations\<close>

type_synonym 'a nlist = "(addr \<times> 'a) list"

definition nl_addrs :: "'a nlist \<Rightarrow> addr list" where
  "nl_addrs l = map fst l"

definition nl_insert :: "addr \<Rightarrow> 'a \<Rightarrow> 'a nlist \<Rightarrow> 'a nlist" where
  "nl_insert a v l = l @ [(a, v)]"

definition nl_find :: "('a \<Rightarrow> bool) \<Rightarrow> 'a nlist \<Rightarrow> addr option" where
  "nl_find P l = map_option fst (List.find (\<lambda>(a, v). P v) l)"

definition nl_read :: "addr \<Rightarrow> 'a nlist \<Rightarrow> 'a option" where
  "nl_read a l = map_of l a"

definition nl_modify :: "addr \<Rightarrow> ('a \<Rightarrow> 'a) \<Rightarrow> 'a nlist \<Rightarrow> 'a nlist option" where
  "nl_modify a f l =
     (if a \<in> set (nl_addrs l) then Some (map (\<lambda>(b, v). (b, if b = a then f v else v)) l) else None)"

definition nl_free :: "addr option \<Rightarrow> 'a nlist \<Rightarrow> 'a nlist option" where
  "nl_free p l =
     (case p of
        None \<Rightarrow> Some l
      | Some a \<Rightarrow> if a \<in> set (nl_addrs l) then Some (filter (\<lambda>(b, v). b \<noteq> a) l) else None)"

definition nl_sweep :: "('a \<Rightarrow> bool) \<Rightarrow> 'a nlist \<Rightarrow> 'a nlist" where
  "nl_sweep P l = filter (\<lambda>(a, v). \<not> P v) l"

text \<open>\<open>kmalloc\<close> is a parameter of the handlers: given the addresses in use it returns a new
  one, or \<open>None\<close> when memory is exhausted.\<close>

type_synonym kmalloc = "addr list \<Rightarrow> addr option"

definition kmalloc_fresh :: "kmalloc \<Rightarrow> bool" where
  "kmalloc_fresh km \<longleftrightarrow> (\<forall>as a. km as = Some a \<longrightarrow> a \<notin> set as)"

definition kmalloc_total :: "kmalloc \<Rightarrow> bool" where
  "kmalloc_total km \<longleftrightarrow> (\<forall>as. km as \<noteq> None)"

definition bump_kmalloc :: kmalloc where
  "bump_kmalloc as = Some (Suc (fold max as 0))"

lemma fold_max_ge: "x \<in> set as \<or> x \<le> m \<Longrightarrow> x \<le> fold max as (m::nat)"
proof (induction as arbitrary: m)
  case (Cons a as)
  have "x \<in> set as \<or> x \<le> max a m" using Cons.prems by auto
  from Cons.IH [OF this] show ?case by (simp only: fold_simps)
qed simp

lemma bump_kmalloc_ok [simp]: "kmalloc_fresh bump_kmalloc" "kmalloc_total bump_kmalloc"
proof -
  have "Suc (fold max as 0) \<notin> set as" for as
  proof
    assume "Suc (fold max as 0) \<in> set as"
    then have "Suc (fold max as 0) \<le> fold max as 0" using fold_max_ge [of _ as 0] by blast
    then show False by simp
  qed
  then show "kmalloc_fresh bump_kmalloc" "kmalloc_total bump_kmalloc"
    by (simp_all add: kmalloc_fresh_def kmalloc_total_def bump_kmalloc_def)
qed

section \<open>Basic facts\<close>

definition nl_ok :: "'a nlist \<Rightarrow> bool" where
  "nl_ok l \<longleftrightarrow> distinct (nl_addrs l)"

lemma nl_addrs_simps [simp]:
  "nl_addrs [] = []" "nl_addrs ((a, v) # l) = a # nl_addrs l" "nl_addrs (l @ m) = nl_addrs l @ nl_addrs m"
  by (simp_all add: nl_addrs_def)

lemma nl_addrs_map [simp]: "nl_addrs (map (\<lambda>(b, v). (b, f b v)) l) = nl_addrs l"
  by (induction l) auto

lemma nl_addrs_filter: "set (nl_addrs (filter Q l)) \<subseteq> set (nl_addrs l)"
  by (auto simp: nl_addrs_def)

lemma nl_ok_filter [simp]: "nl_ok l \<Longrightarrow> nl_ok (filter Q l)"
  unfolding nl_ok_def nl_addrs_def by (rule distinct_map_filter)

lemma nl_ok_Nil [simp]: "nl_ok []"
  by (simp add: nl_ok_def)

lemma nl_ok_insert [simp]: "nl_ok (nl_insert a v l) \<longleftrightarrow> nl_ok l \<and> a \<notin> set (nl_addrs l)"
  by (auto simp: nl_ok_def nl_insert_def)

lemma nl_modify_split:
  assumes "nl_ok (xs @ (a, v) # ys)"
  shows "nl_modify a f (xs @ (a, v) # ys) = Some (xs @ (a, f v) # ys)"
proof -
  have "map (\<lambda>(b, v). (b, if b = a then f v else v)) l = l" if "a \<notin> set (nl_addrs l)" for l
    using that by (induction l) auto
  with assms show ?thesis by (auto simp: nl_modify_def nl_ok_def)
qed

lemma nl_free_split:
  assumes "nl_ok (xs @ (a, v) # ys)"
  shows "nl_free (Some a) (xs @ (a, v) # ys) = Some (xs @ ys)"
proof -
  have "filter (\<lambda>(b, v). b \<noteq> a) l = l" if "a \<notin> set (nl_addrs l)" for l :: "'a nlist"
    using that by (induction l) auto
  with assms show ?thesis by (auto simp: nl_free_def nl_ok_def)
qed

lemma nl_read_split: "nl_ok (xs @ (a, v) # ys) \<Longrightarrow> nl_read a (xs @ (a, v) # ys) = Some v"
  by (force simp: nl_read_def nl_ok_def map_add_def nl_addrs_def split: option.splits dest: map_of_SomeD)

lemma nl_find_Some:
  assumes "nl_find P l = Some a"
  obtains xs v ys where "l = xs @ (a, v) # ys" "P v" "\<forall>w\<in>set (map snd xs). \<not> P w"
proof -
  obtain v where "List.find (\<lambda>(a, v). P v) l = Some (a, v)"
    using assms by (auto simp: nl_find_def)
  then obtain i where i: "i < length l" "(a, v) = l ! i" "P v" "\<And>j. j < i \<Longrightarrow> \<not> P (snd (l ! j))"
    unfolding find_Some_iff by (metis (mono_tags, lifting) case_prod_beta snd_conv)
  then have "l = take i l @ (a, v) # drop (Suc i) l" by (metis id_take_nth_drop)
  moreover have "\<forall>w\<in>set (map snd (take i l)). \<not> P w"
    using i by (auto simp: in_set_conv_nth) (metis snd_conv)
  ultimately show thesis using that i(3) by blast
qed

lemma nl_find_None: "nl_find P l = None \<longleftrightarrow> (\<forall>v\<in>set (map snd l). \<not> P v)"
  by (auto simp: nl_find_def find_None_iff)

section \<open>The interface\<close>

definition nl_rep :: "'a nlist \<Rightarrow> 'a list \<Rightarrow> bool" where
  "nl_rep l vs \<longleftrightarrow> nl_ok l \<and> map snd l = vs"

definition nl_node :: "'a nlist \<Rightarrow> 'a list \<Rightarrow> 'a \<Rightarrow> 'a list \<Rightarrow> addr \<Rightarrow> bool" where
  "nl_node l ys v zs a \<longleftrightarrow>
     nl_ok l \<and> (\<exists>xs ws. l = xs @ (a, v) # ws \<and> map snd xs = ys \<and> map snd ws = zs)"

definition nl_unused :: "'a nlist \<Rightarrow> addr \<Rightarrow> bool" where
  "nl_unused l a \<longleftrightarrow> a \<notin> set (nl_addrs l)"

interpretation nlist: linked_list nl_rep nl_node nl_unused "\<lambda>a v l. Some (nl_insert a v l)"
  "\<lambda>P l. Some (nl_find P l)" nl_read nl_modify nl_free "\<lambda>l. Some []" "\<lambda>P l. Some (nl_sweep P l)"
proof (unfold_locales, goal_cases)
  case (1 d ys v zs p)
  then show ?case by (auto simp: nl_node_def nl_rep_def)
next
  case (2 d vs p v)
  then have "nl_ok (nl_insert p v d)" by (simp add: nl_rep_def nl_unused_def)
  with 2 show ?case by (auto simp: nl_rep_def nl_node_def nl_insert_def)
next
  case (3 d vs P)
  show ?case
  proof (cases "nl_find P d")
    case None
    with 3 show ?thesis by (auto simp: nl_find_None nl_rep_def)
  next
    case (Some a)
    then obtain xs v ys where "d = xs @ (a, v) # ys" "P v" "\<forall>w\<in>set (map snd xs). \<not> P w"
      by (rule nl_find_Some)
    with 3 Some have "nl_node d (map snd xs) v (map snd ys) a \<and> vs = map snd xs @ v # map snd ys \<and> P v \<and>
        (\<forall>y\<in>set (map snd xs). \<not> P y)"
      unfolding nl_rep_def nl_node_def by auto
    with Some show ?thesis by blast
  qed
next
  case (4 d ys v zs p)
  then show ?case by (auto simp: nl_node_def nl_read_split)
next
  case (5 d ys v zs p f)
  then obtain xs ws where d: "d = xs @ (p, v) # ws" "nl_ok d" "map snd xs = ys" "map snd ws = zs"
    by (auto simp: nl_node_def)
  then have "nl_ok (xs @ (p, f v) # ws)" by (simp add: nl_ok_def)
  with d show ?case by (auto simp: nl_modify_split nl_node_def)
next
  case (6 d ys v zs p)
  then obtain xs ws where d: "d = xs @ (p, v) # ws" "nl_ok d" "map snd xs = ys" "map snd ws = zs"
    by (auto simp: nl_node_def)
  then have "nl_ok (xs @ ws)" by (simp add: nl_ok_def)
  with d show ?case by (auto simp: nl_free_split nl_rep_def)
next
  case (7 d)
  then show ?case by (simp add: nl_free_def)
next
  case (8 d vs)
  then show ?case by (auto simp: nl_rep_def nl_ok_def)
next
  case (9 d vs P)
  have "map snd (nl_sweep P d) = filter (\<lambda>v. \<not> P v) (map snd d)"
    by (induction d) (auto simp: nl_sweep_def)
  with 9 show ?case by (auto simp: nl_rep_def nl_sweep_def)
qed

section \<open>Pointer lists implement node lists\<close>

definition dll_nodes :: "'a dll \<Rightarrow> 'a nlist \<Rightarrow> bool" where
  "dll_nodes d l \<longleftrightarrow> dll_ok d (nl_addrs l) \<and> vals d (nl_addrs l) = map snd l"

lemma dll_nodes_ok: "dll_nodes d l \<Longrightarrow> nl_ok l"
  by (simp add: dll_nodes_def dll_ok_def nl_ok_def)

lemma dll_nodes_heap: "dll_nodes d l \<Longrightarrow> dom (d_heap d) = set (nl_addrs l)"
  by (simp add: dll_nodes_def dll_ok_def)

lemma dll_nodes_val_at: "dll_nodes d l \<Longrightarrow> (a, v) \<in> set l \<Longrightarrow> val_at d a = v"
proof (induction l)
  case (Cons p l)
  show ?case
    using Cons.prems by (auto simp: dll_nodes_def vals_def nl_addrs_def)
qed simp

lemma dll_nodes_split:
  assumes "dll_nodes d l" "a \<in> set (nl_addrs l)"
  obtains xs v ys where "l = xs @ (a, v) # ys" "dll_ok d (nl_addrs xs @ a # nl_addrs ys)"
    "vals d (nl_addrs xs) = map snd xs" "val_at d a = v" "vals d (nl_addrs ys) = map snd ys"
proof -
  obtain xs v ys where l: "l = xs @ (a, v) # ys"
    using assms(2) by (auto simp: nl_addrs_def in_set_conv_decomp dest!: split_list)
  have len: "length (vals d (nl_addrs xs)) = length (map snd xs)" for xs :: "'a nlist"
    by (simp add: vals_def nl_addrs_def)
  from assms(1) have "vals d (nl_addrs xs) @ val_at d a # vals d (nl_addrs ys) = map snd xs @ v # map snd ys"
    by (simp add: l dll_nodes_def)
  with len [of xs] show thesis
    using assms(1) that [of xs v ys] by (simp add: l dll_nodes_def)
qed

lemma dll_nodes_outside: "dll_nodes d l \<Longrightarrow> a \<notin> set (nl_addrs l) \<Longrightarrow> d_heap d a = None"
  using dll_nodes_heap [of d l] by auto

lemma dll_insert_refines:
  assumes "dll_nodes d l" "a \<notin> set (nl_addrs l)"
  shows "\<exists>d'. dll_insert a (dll_create a v d) = Some d' \<and> dll_nodes d' (nl_insert a v l)"
  using dll_insert_ok [of d "nl_addrs l" a v] assms by (auto simp: dll_nodes_def nl_insert_def)

lemma dll_free_refines:
  assumes "dll_nodes d l"
  shows "rel_option dll_nodes (dll_free p d) (nl_free p l)"
proof (cases p)
  case None
  with assms show ?thesis by (simp add: dll_free_def nl_free_def)
next
  case (Some a)
  show ?thesis
  proof (cases "a \<in> set (nl_addrs l)")
    case True
    obtain xs v ys where s: "l = xs @ (a, v) # ys" "dll_ok d (nl_addrs xs @ a # nl_addrs ys)"
      "vals d (nl_addrs xs) = map snd xs" "vals d (nl_addrs ys) = map snd ys"
      using dll_nodes_split [OF assms True] by blast
    from dll_free_ok [OF s(2)] nl_free_split [of xs a v ys] dll_nodes_ok [OF assms] s Some show ?thesis
      by (auto simp: dll_nodes_def)
  next
    case False
    with dll_nodes_outside [OF assms] Some show ?thesis by (simp add: dll_free_def nl_free_def)
  qed
qed

lemma dll_modify_refines:
  assumes "dll_nodes d l"
  shows "rel_option dll_nodes (dll_modify a f d) (nl_modify a f l)"
proof (cases "a \<in> set (nl_addrs l)")
  case True
  obtain xs v ys where s: "l = xs @ (a, v) # ys" "dll_ok d (nl_addrs xs @ a # nl_addrs ys)"
    "vals d (nl_addrs xs) = map snd xs" "val_at d a = v" "vals d (nl_addrs ys) = map snd ys"
    using dll_nodes_split [OF assms True] by blast
  from dll_modify_ok [OF s(2), of f] nl_modify_split [of xs a v ys f] dll_nodes_ok [OF assms] s show ?thesis
    by (auto simp: dll_nodes_def)
next
  case False
  with dll_nodes_outside [OF assms] show ?thesis by (simp add: dll_modify_def nl_modify_def)
qed

lemma dll_find_refines: "dll_nodes d l \<Longrightarrow> dll_find P d = Some (nl_find P l)"
proof -
  assume n: "dll_nodes d l"
  have "List.find (\<lambda>a. P (val_at d a)) (nl_addrs m) = map_option fst (List.find (\<lambda>(a, v). P v) m)"
    if "set m \<subseteq> set l" for m
    using that dll_nodes_val_at [OF n] by (induction m) auto
  with dll_find_ok [of d "nl_addrs l" P] n show ?thesis by (simp add: dll_nodes_def nl_find_def)
qed

lemma dll_read_refines: "dll_nodes d l \<Longrightarrow> dll_read a d = nl_read a l"
proof (cases "a \<in> set (nl_addrs l)")
  case True
  assume n: "dll_nodes d l"
  obtain xs v ys where s: "l = xs @ (a, v) # ys" "val_at d a = v"
    using dll_nodes_split [OF n True] by blast
  have "d_heap d a \<noteq> None" using dll_nodes_heap [OF n] True by auto
  with s nl_read_split [of xs a v ys] dll_nodes_ok [OF n] show ?thesis
    by (auto simp: dll_read_def val_at_def)
next
  case False
  assume n: "dll_nodes d l"
  from False have "nl_read a l = None" by (simp add: nl_read_def map_of_eq_None_iff nl_addrs_def)
  with dll_nodes_outside [OF n False] show ?thesis by (simp add: dll_read_def)
qed

lemma dll_purge_refines: "dll_nodes d l \<Longrightarrow> \<exists>d'. dll_purge d = Some d' \<and> dll_nodes d' []"
  using dll_purge_ok [of d "nl_addrs l"] by (auto simp: dll_nodes_def)

section \<open>Properties\<close>

text \<open>A pointer list that was just initialised.\<close>

definition ex_dll :: "nat dll" where
  "ex_dll = dll_init \<lparr>d_heap = Map.empty, d_first = None, d_qlen = 0\<rparr>"

lemma ex_dll_nodes: "dll_nodes ex_dll []" "dll_rep ex_dll []" "dll_unused ex_dll a"
  using dll_ok_init [of "\<lparr>d_heap = Map.empty, d_first = None, d_qlen = 0\<rparr>"]
  by (auto simp: ex_dll_def dll_nodes_def dll_rep_def dll_unused_def dll_init_def)

text \<open>C10. The pointer manipulations of the lists implement the operations on sequences of nodes the
  handlers are described with: from related states each operation ends in related states and gives
  the same answer, and it follows a dangling pointer exactly when the operation on sequences fails.\<close>

theorem dll_implements_node_list:
  assumes "dll_nodes d l"
  shows "(a \<notin> set (nl_addrs l) \<longrightarrow>
      (\<exists>d'. dll_insert a (dll_create a v d) = Some d' \<and> dll_nodes d' (nl_insert a v l))) \<and>
    rel_option dll_nodes (dll_free p d) (nl_free p l) \<and>
    rel_option dll_nodes (dll_modify b f d) (nl_modify b f l) \<and>
    dll_find P d = Some (nl_find P l) \<and> dll_read b d = nl_read b l \<and>
    (\<exists>d'. dll_purge d = Some d' \<and> dll_nodes d' [])"
  using dll_insert_refines [OF assms] dll_free_refines [OF assms] dll_modify_refines [OF assms]
    dll_find_refines [OF assms] dll_read_refines [OF assms] dll_purge_refines [OF assms] by blast

theorem dll_implements_node_list_witness:
  "(\<exists>d'. dll_insert 3 (dll_create 3 42 ex_dll) = Some d' \<and> dll_nodes d' (nl_insert 3 42 [])) \<and>
    rel_option dll_nodes (dll_free (Some 3) ex_dll) (nl_free (Some 3) []) \<and> dll_find (\<lambda>v. v = 42) ex_dll = Some None"
  using dll_implements_node_list [OF ex_dll_nodes(1), of 3 42 "Some 3" _ _ "\<lambda>v. v = 42"] by (auto simp: nl_find_def)

text \<open>Looking a key up after its insertion finds it: on a well-formed pointer list that has no record
  with the key, inserting a new record succeeds, keeps the other records in order, and a search for the key returns
  a pointer to the new record.\<close>

theorem dll_insert_then_find:
  assumes "dll_rep d vs" "dll_unused d p" "\<forall>w\<in>set vs. \<not> P w" "P v"
  shows "\<exists>d'. dll_insert p (dll_create p v d) = Some d' \<and> dll_node d' vs v [] p \<and>
    (\<exists>q. dll_find P d' = Some (Some q) \<and> dll_read q d' = Some v)"
  using dlist.insert_absent [OF assms] .

theorem dll_insert_then_find_witness:
  "\<exists>d'. dll_insert 3 (dll_create 3 42 ex_dll) = Some d' \<and> dll_node d' [] 42 [] 3 \<and>
    (\<exists>q. dll_find (\<lambda>v. v = 42) d' = Some (Some q) \<and> dll_read q d' = Some 42)"
  by (rule dll_insert_then_find) (simp_all add: ex_dll_nodes)

end
