(* ===== verification/SKB.thy ===== *)
theory SKB
  imports Prelude
begin

text \<open>
  The part of the kernel's packet buffer the modelled code uses. A buffer is the memory between
  \<open>head\<close> and \<open>end\<close> as a list of bytes together with the position of \<open>data\<close> and the length;
  header positions are offsets from \<open>head\<close>, as the kernel stores them. Reading or
  writing \<open>skb->data[i]\<close> outside the buffer, and the checks of \<open>skb_put\<close>
  (\<open>skb_over_panic\<close>) and \<open>skb_push\<close> (\<open>skb_under_panic\<close>), give \<open>None\<close>; bytes between the
  end of the packet and the end of the buffer can be read and written, as in C.

  A queue of buffers (\<open>struct sk_buff_head\<close>) is a list: \<open>skb_queue_tail\<close> appends,
  \<open>skb_dequeue\<close> takes the first element, \<open>skb_queue_len\<close> is the length.
\<close>

section \<open>Buffers\<close>

record net_device =
  dev_addr :: "u8 list"

record sk_buff =
  skb_buf :: "u8 list"
  skb_data :: nat
  skb_len :: nat
  skb_mac_header :: nat
  skb_network_header :: nat
  skb_transport_header :: nat
  skb_dev :: net_device
  skb_protocol :: u16
  skb_priority :: u32
  skb_rate_idx :: nat

definition head_get :: "nat \<Rightarrow> sk_buff \<Rightarrow> u8 option" where
  "head_get pos s = (if pos < length (skb_buf s) then Some (skb_buf s ! pos) else None)"

definition head_set :: "nat \<Rightarrow> u8 \<Rightarrow> sk_buff \<Rightarrow> sk_buff option" where
  "head_set pos v s =
     (if pos < length (skb_buf s) then Some (s\<lparr>skb_buf := (skb_buf s)[pos := v]\<rparr>) else None)"

definition skb_get :: "nat \<Rightarrow> sk_buff \<Rightarrow> u8 option" where
  "skb_get i s = head_get (skb_data s + i) s"

definition skb_set :: "nat \<Rightarrow> u8 \<Rightarrow> sk_buff \<Rightarrow> sk_buff option" where
  "skb_set i v s = head_set (skb_data s + i) v s"

definition skb_put :: "nat \<Rightarrow> sk_buff \<Rightarrow> sk_buff option" where
  "skb_put n s =
     (if skb_data s + skb_len s + n \<le> length (skb_buf s)
      then Some (s\<lparr>skb_len := skb_len s + n\<rparr>) else None)"

definition skb_push :: "nat \<Rightarrow> sk_buff \<Rightarrow> sk_buff option" where
  "skb_push n s =
     (if n \<le> skb_data s
      then Some (s\<lparr>skb_data := skb_data s - n, skb_len := skb_len s + n\<rparr>) else None)"

definition skb_pull :: "nat \<Rightarrow> sk_buff \<Rightarrow> sk_buff" where
  "skb_pull n s =
     (if n \<le> skb_len s
      then s\<lparr>skb_data := skb_data s + n, skb_len := skb_len s - n\<rparr> else s)"

definition skb_trim :: "nat \<Rightarrow> sk_buff \<Rightarrow> sk_buff" where
  "skb_trim n s = (if n < skb_len s then s\<lparr>skb_len := n\<rparr> else s)"

definition skb_reset_network_header :: "sk_buff \<Rightarrow> sk_buff" where
  "skb_reset_network_header s = s\<lparr>skb_network_header := skb_data s\<rparr>"

definition skb_reset_transport_header :: "sk_buff \<Rightarrow> sk_buff" where
  "skb_reset_transport_header s = s\<lparr>skb_transport_header := skb_data s\<rparr>"

definition skb_reset_mac_header :: "sk_buff \<Rightarrow> sk_buff" where
  "skb_reset_mac_header s = s\<lparr>skb_mac_header := skb_data s\<rparr>"

text \<open>The offsets of these functions count from \<open>data\<close> and may be negative.\<close>

definition skb_set_network_header :: "int \<Rightarrow> sk_buff \<Rightarrow> sk_buff" where
  "skb_set_network_header off s = s\<lparr>skb_network_header := nat (int (skb_data s) + off)\<rparr>"

definition skb_set_transport_header :: "int \<Rightarrow> sk_buff \<Rightarrow> sk_buff" where
  "skb_set_transport_header off s = s\<lparr>skb_transport_header := nat (int (skb_data s) + off)\<rparr>"

definition skb_set_mac_header :: "int \<Rightarrow> sk_buff \<Rightarrow> sk_buff" where
  "skb_set_mac_header off s = s\<lparr>skb_mac_header := nat (int (skb_data s) + off)\<rparr>"

section \<open>What the kernel provides\<close>

text \<open>Random bytes, the outcome of each allocation and the contents of fresh memory are inputs of
  the model: the next random byte is \<open>env_rnd e 0\<close>, the next allocation succeeds if
  \<open>env_alloc e 0\<close>. A copy of a buffer has the same size and headers and the same bytes up to the
  end of the packet; what lies behind it is fresh memory.\<close>

record env =
  env_rnd :: "nat \<Rightarrow> u8"
  env_alloc :: "nat \<Rightarrow> bool"
  env_junk :: "nat \<Rightarrow> u8"

definition get_random_byte :: "env \<Rightarrow> u8 \<times> env" where
  "get_random_byte e = (env_rnd e 0, e\<lparr>env_rnd := (\<lambda>i. env_rnd e (Suc i))\<rparr>)"

definition alloc_next :: "env \<Rightarrow> env" where
  "alloc_next e = e\<lparr>env_alloc := (\<lambda>i. env_alloc e (Suc i))\<rparr>"

definition skb_copy :: "env \<Rightarrow> sk_buff \<Rightarrow> sk_buff option \<times> env" where
  "skb_copy e s =
     (if env_alloc e 0
      then Some (s\<lparr>skb_buf := map (\<lambda>i. if i < skb_data s + skb_len s then skb_buf s ! i else env_junk e i)
                                 [0..<length (skb_buf s)]\<rparr>)
      else None, alloc_next e)"

text \<open>A fresh buffer: \<open>NET_SKB_PAD\<close> bytes of headroom (64 here) and \<open>sz\<close> bytes of room.\<close>

definition dev_alloc_skb :: "env \<Rightarrow> nat \<Rightarrow> sk_buff option \<times> env" where
  "dev_alloc_skb e sz =
     (if env_alloc e 0
      then Some \<lparr>skb_buf = map (env_junk e) [0..<64 + sz], skb_data = 64, skb_len = 0,
                 skb_mac_header = 0, skb_network_header = 0, skb_transport_header = 0,
                 skb_dev = \<lparr>dev_addr = []\<rparr>, skb_protocol = 0, skb_priority = 0, skb_rate_idx = 0\<rparr>
      else None, alloc_next e)"

text \<open>A buffer that consists of the given bytes, used in examples.\<close>

definition blank_skb :: "u8 list \<Rightarrow> sk_buff" where
  "blank_skb bs = \<lparr>skb_buf = bs, skb_data = 0, skb_len = length bs, skb_mac_header = 0,
     skb_network_header = 0, skb_transport_header = 0, skb_dev = \<lparr>dev_addr = []\<rparr>,
     skb_protocol = 0, skb_priority = 0, skb_rate_idx = 0\<rparr>"

text \<open>An environment in which every allocation succeeds, used in examples.\<close>

definition plenty :: env where
  "plenty = \<lparr>env_rnd = (\<lambda>i. 1), env_alloc = (\<lambda>i. True), env_junk = (\<lambda>i. 0)\<rparr>"

section \<open>Reading back what was written\<close>

lemma skb_set_Some_iff:
  "skb_set i v s = Some s' \<longleftrightarrow>
     skb_data s + i < length (skb_buf s) \<and> s' = s\<lparr>skb_buf := (skb_buf s)[skb_data s + i := v]\<rparr>"
  by (auto simp: skb_set_def head_set_def)

lemma skb_get_set [skb_simps]:
  "skb_set i v s = Some s' \<Longrightarrow> skb_get j s' = (if j = i then Some v else skb_get j s)"
  by (auto simp: skb_set_Some_iff skb_get_def head_get_def)

lemma skb_set_fields [skb_simps]:
  "skb_set i v s = Some s' \<Longrightarrow>
     skb_data s' = skb_data s \<and> skb_len s' = skb_len s \<and> length (skb_buf s') = length (skb_buf s) \<and>
     skb_mac_header s' = skb_mac_header s \<and> skb_dev s' = skb_dev s"
  by (auto simp: skb_set_Some_iff)

lemma skb_set_possible: "skb_data s + i < length (skb_buf s) \<Longrightarrow> \<exists>s'. skb_set i v s = Some s'"
  by (simp add: skb_set_Some_iff)

lemma skb_get_Some_less: "skb_get i s = Some v \<Longrightarrow> skb_data s + i < length (skb_buf s)"
  by (auto simp: skb_get_def head_get_def split: if_splits)

lemma skb_trim_simps [simp]:
  "skb_get i (skb_trim n s) = skb_get i s" "skb_len (skb_trim n s) = min n (skb_len s)"
  "skb_data (skb_trim n s) = skb_data s"
  by (auto simp: skb_trim_def skb_get_def head_get_def)

lemma skb_push_Some [simp]:
  "skb_push n s = Some s' \<longleftrightarrow> n \<le> skb_data s \<and> s' = s\<lparr>skb_data := skb_data s - n, skb_len := skb_len s + n\<rparr>"
  by (auto simp: skb_push_def)

lemma skb_put_Some [simp]:
  "skb_put n s = Some s' \<longleftrightarrow>
     skb_data s + skb_len s + n \<le> length (skb_buf s) \<and> s' = s\<lparr>skb_len := skb_len s + n\<rparr>"
  by (auto simp: skb_put_def)

lemma skb_get_pull [skb_simps]: "n \<le> skb_len s \<Longrightarrow> skb_get i (skb_pull n s) = skb_get (n + i) s"
  by (simp add: skb_pull_def skb_get_def head_get_def add.assoc)

lemma skb_len_pull [skb_simps]: "n \<le> skb_len s \<Longrightarrow> skb_len (skb_pull n s) = skb_len s - n"
  by (simp add: skb_pull_def)

lemma skb_get_less: "skb_data s + i < length (skb_buf s) \<Longrightarrow> skb_get i s = Some (skb_buf s ! (skb_data s + i))"
  by (simp add: skb_get_def head_get_def)

lemma skb_copy_get:
  assumes "skb_copy e s = (Some c, e')"
  shows "skb_data c = skb_data s" "skb_len c = skb_len s" "length (skb_buf c) = length (skb_buf s)"
    "i < skb_len s \<Longrightarrow> skb_get i c = skb_get i s" "j < skb_data s + skb_len s \<Longrightarrow> head_get j c = head_get j s"
  using assms by (auto simp: skb_copy_def skb_get_def head_get_def split: if_splits)

section \<open>Buffers of the same shape\<close>

text \<open>Writing a byte changes neither the extent of a buffer nor the other bytes.\<close>

definition same_shape :: "sk_buff \<Rightarrow> sk_buff \<Rightarrow> bool" where
  "same_shape s s' \<longleftrightarrow> skb_data s' = skb_data s \<and> skb_len s' = skb_len s \<and>
     length (skb_buf s') = length (skb_buf s)"

lemma same_shape_refl [simp]: "same_shape s s"
  by (simp add: same_shape_def)

lemma same_shape_trans: "same_shape a b \<Longrightarrow> same_shape b c \<Longrightarrow> same_shape a c"
  by (simp add: same_shape_def)

definition room :: "nat \<Rightarrow> sk_buff \<Rightarrow> bool" where
  "room b s \<longleftrightarrow> skb_data s + b \<le> length (skb_buf s)"

lemma room_shape: "same_shape s t \<Longrightarrow> room b s \<Longrightarrow> room b t"
  by (simp add: same_shape_def room_def)

lemma room_mono: "room c s \<Longrightarrow> b \<le> c \<Longrightarrow> room b s"
  by (simp add: room_def)

lemma room_get: "room c s \<Longrightarrow> b < c \<Longrightarrow> \<exists>v. skb_get b s = Some v"
  by (simp add: room_def skb_get_def head_get_def)

lemma room_set:
  assumes "room c s" "b < c"
  obtains t where "skb_set b v s = Some t" "same_shape s t"
    "\<And>d. skb_get d t = (if d = b then Some v else skb_get d s)"
proof -
  obtain t where t: "skb_set b v s = Some t"
    using assms skb_set_possible [of s b v] by (auto simp: room_def)
  show thesis
    using that [OF t] skb_set_fields [OF t] skb_get_set [OF t] by (simp add: same_shape_def)
qed

section \<open>Blocks of bytes\<close>

text \<open>Store or read a block of bytes from position \<open>i\<close> on.\<close>

definition skb_store :: "nat \<Rightarrow> u8 list \<Rightarrow> sk_buff \<Rightarrow> sk_buff option" where
  "skb_store i bs = foldo (\<lambda>j. skb_set (i + j) (bs ! j)) [0..<length bs]"

definition skb_load :: "nat \<Rightarrow> nat \<Rightarrow> sk_buff \<Rightarrow> u8 list option" where
  "skb_load i n s = those (map (\<lambda>j. skb_get (i + j) s) [0..<n])"

definition overwrite :: "nat \<Rightarrow> 'a list \<Rightarrow> 'a list \<Rightarrow> 'a list" where
  "overwrite pos bs xs = take pos xs @ bs @ drop (pos + length bs) xs"

lemma length_overwrite [simp]: "pos + length bs \<le> length xs \<Longrightarrow> length (overwrite pos bs xs) = length xs"
  by (simp add: overwrite_def)

lemma nth_overwrite:
  "pos + length bs \<le> length xs \<Longrightarrow> i < length xs \<Longrightarrow>
   overwrite pos bs xs ! i = (if pos \<le> i \<and> i < pos + length bs then bs ! (i - pos) else xs ! i)"
  by (auto simp: overwrite_def nth_append)

lemma overwrite_snoc:
  "pos + length bs < length xs \<Longrightarrow> (overwrite pos bs xs)[pos + length bs := b] = overwrite pos (bs @ [b]) xs"
  by (rule nth_equalityI) (auto simp: nth_overwrite nth_list_update nth_append)

lemma skb_store_eq:
  assumes "room (i + length bs) s"
  shows "skb_store i bs s = Some (s\<lparr>skb_buf := overwrite (skb_data s + i) bs (skb_buf s)\<rparr>)"
proof -
  let ?P = "\<lambda>q t. t = s\<lparr>skb_buf := overwrite (skb_data s + i) (take q bs) (skb_buf s)\<rparr>"
  have "\<exists>t. skb_store i bs s = Some t \<and> ?P (length bs) t"
    unfolding skb_store_def
  proof (rule foldo_upt_rule [where P = ?P], goal_cases)
    case (3 q t)
    with assms overwrite_snoc [of "skb_data s + i" "take q bs" "skb_buf s" "bs ! q"] show ?case
      by (simp add: room_def skb_set_def head_set_def take_Suc_conv_app_nth add.assoc)
  qed (auto simp: overwrite_def)
  then show ?thesis by simp
qed

lemma skb_get_overwrite [skb_simps]:
  "room (i + length bs) s \<Longrightarrow>
   skb_get j (s\<lparr>skb_buf := overwrite (skb_data s + i) bs (skb_buf s)\<rparr>) =
     (if i \<le> j \<and> j < i + length bs then Some (bs ! (j - i)) else skb_get j s)"
  by (auto simp: room_def skb_get_def head_get_def nth_overwrite)

lemma skb_load_Some:
  "(\<And>j. j < n \<Longrightarrow> skb_get (i + j) s = Some (f j)) \<Longrightarrow> skb_load i n s = Some (map f [0..<n])"
  unfolding skb_load_def by (rule those_map_Some) simp

lemma skb_load_iff:
  "skb_load i n s = Some bs \<longleftrightarrow> length bs = n \<and> (\<forall>j<n. skb_get (i + j) s = Some (bs ! j))"
  by (auto simp: skb_load_def those_Some_iff list_eq_iff_nth_eq)

end
