(* ===== verification/TL_Param.thy ===== *)
theory TL_Param
  imports SKB
begin

text \<open>
  The parameters of the transport layer (\<^verbatim>\<open>tl_rx_param.c\<close>), the air time of a series of training
  frames (\<^verbatim>\<open>tl_rx.c\<close>) and the encoding of 32-bit numbers in the training messages.
\<close>

section \<open>Parameters\<close>

record tr_param =
  par_src :: bool
  par_sys :: bool
  par_data_k :: u8
  par_data_n :: u8
  par_tf_k :: u32
  par_tf_thre :: u32
  par_max_relay_n :: u8

definition param_init :: tr_param where
  "param_init = \<lparr>par_src = False, par_sys = False, par_data_k = 10, par_data_n = 0, par_tf_k = 0,
     par_tf_thre = 0, par_max_relay_n = 0\<rparr>"

definition tr_set_param :: "bool \<Rightarrow> bool \<Rightarrow> u8 \<Rightarrow> u8 \<Rightarrow> u32 \<Rightarrow> u32 \<Rightarrow> u8 \<Rightarrow> tr_param \<Rightarrow> tr_param" where
  "tr_set_param src sys data_k data_n tf_k tf_thre max_relay_n param =
     param\<lparr>par_src := src, par_sys := sys, par_data_k := data_k, par_data_n := data_n, par_tf_k := tf_k,
       par_tf_thre := tf_thre, par_max_relay_n := max_relay_n\<rparr>"

definition tr_get_src :: "tr_param \<Rightarrow> bool" where "tr_get_src param = par_src param"
definition tr_get_sys :: "tr_param \<Rightarrow> bool" where "tr_get_sys param = par_sys param"
definition tr_get_data_k :: "tr_param \<Rightarrow> u8" where "tr_get_data_k param = par_data_k param"
definition tr_get_data_n :: "tr_param \<Rightarrow> u8" where "tr_get_data_n param = par_data_n param"
definition tr_get_tf_k :: "tr_param \<Rightarrow> u32" where "tr_get_tf_k param = par_tf_k param"
definition tr_get_tf_thre :: "tr_param \<Rightarrow> u32" where "tr_get_tf_thre param = par_tf_thre param"
definition tr_get_max_relay_n :: "tr_param \<Rightarrow> u8" where "tr_get_max_relay_n param = par_max_relay_n param"

lemmas tr_get_defs [step_simps] =
  tr_get_src_def tr_get_sys_def tr_get_data_k_def tr_get_data_n_def tr_get_tf_k_def
  tr_get_tf_thre_def tr_get_max_relay_n_def

section \<open>Air time\<close>

definition rate11g :: "u32 list" where
  "rate11g = [1, 2, 5, 11, 6, 9, 12, 18, 24, 36, 48, 54]"

definition rate11a :: "u32 list" where
  "rate11a = [6, 9, 12, 18, 24, 36, 48, 54]"

definition WLAN_MODE :: bool where "WLAN_MODE = False"

definition cal_tx_time :: "u8 \<Rightarrow> u8 \<Rightarrow> u32 \<Rightarrow> u32 option" where
  "cal_tx_time mcs num len =
     (let len_psdu = len - 12 + 30 in
      if WLAN_MODE then
        (if unat mcs < length rate11a
         then Some ((36 + ((len_psdu * 8 + 22) div rate11a ! unat mcs) div 4 * 4 + 103) * ucast num)
         else None)
      else
        (if unat mcs < length rate11g
         then Some ((192 + (len_psdu * 8) div rate11g ! unat mcs + 103) * ucast num)
         else None))"

section \<open>Numbers in messages\<close>

text \<open>The four bytes of an \<open>unsigned int\<close> as the senders store them, and the receivers' expression
  that puts them together; \<open>skb->data[i] << 24\<close> is computed in \<open>unsigned int\<close>.\<close>

definition be32_bytes :: "u32 \<Rightarrow> u8 list" where
  "be32_bytes v = [ucast (drop_bit 24 v AND 0xff), ucast (drop_bit 16 v AND 0xff),
     ucast (drop_bit 8 v AND 0xff), ucast (v AND 0xff)]"

definition be32_value :: "u8 \<Rightarrow> u8 \<Rightarrow> u8 \<Rightarrow> u8 \<Rightarrow> u32" where
  "be32_value a b c d = push_bit 24 (ucast a) OR push_bit 16 (ucast b) OR push_bit 8 (ucast c) OR ucast d"

lemma bit_be32_value:
  "n < 32 \<Longrightarrow> bit (be32_value a b c d) n =
     (if n < 8 then bit d n else if n < 16 then bit c (n - 8) else if n < 24 then bit b (n - 16) else bit a (n - 24))"
  using bit_imp_le_length [of a "n - 24"] bit_imp_le_length [of b "n - 16"]  bit_imp_le_length [of c "n - 8"]  bit_imp_le_length [of d "n"]
  by (simp add: be32_value_def bit_simps) linarith

lemma bit_byte_of: "bit (ucast (drop_bit k v AND 0xff :: u32) :: u8) n = (n < 8 \<and> bit v (k + n))"
proof -
  have ff: "(0xff :: u32) = mask 8" by (simp add: mask_eq_exp_minus_1)
  show ?thesis unfolding ff by (auto simp: bit_simps)
qed

lemma be32_roundtrip [simp]:
  "be32_value (ucast (drop_bit 24 v AND 0xff)) (ucast (drop_bit 16 v AND 0xff))
     (ucast (drop_bit 8 v AND 0xff)) (ucast (v AND 0xff)) = v"
proof (rule bit_word_eqI)
  fix n assume "n < LENGTH(32)"
  then have n: "n < 32" by simp
  have low: "bit (ucast (v AND 0xff) :: u8) n = (n < 8 \<and> bit v n)" using bit_byte_of [of 0 v n] by simp
  from n consider "n < 8" | "8 \<le> n" "n < 16" | "16 \<le> n" "n < 24" | "24 \<le> n" by linarith
  then show "bit (be32_value (ucast (drop_bit 24 v AND 0xff)) (ucast (drop_bit 16 v AND 0xff))
     (ucast (drop_bit 8 v AND 0xff)) (ucast (v AND 0xff))) n = bit v n"
  proof cases
    case 1
    with n low show ?thesis by (simp add: bit_be32_value)
  next
    case 2
    then have "n - 8 < 8" by linarith
    with 2 n show ?thesis by (simp add: bit_be32_value bit_byte_of)
  next
    case 3
    then have "n - 16 < 8" by linarith
    with 3 n show ?thesis by (simp add: bit_be32_value bit_byte_of)
  next
    case 4
    then have "n - 24 < 8" using n by linarith
    with 4 n show ?thesis by (simp add: bit_be32_value bit_byte_of)
  qed
qed

lemma be32_bytes_length [simp]: "length (be32_bytes v) = 4"
  by (simp add: be32_bytes_def)

lemma be32_bytes_nth [simp]:
  "be32_bytes v ! 0 = ucast (drop_bit 24 v AND 0xff)" "be32_bytes v ! Suc 0 = ucast (drop_bit 16 v AND 0xff)"
  "be32_bytes v ! 2 = ucast (drop_bit 8 v AND 0xff)" "be32_bytes v ! 3 = ucast (v AND 0xff)"
  by (simp_all add: be32_bytes_def)

end
