(* ===== verification/TL_List.thy ===== *)
theory TL_List
  imports Node_List TL_Param
begin

text \<open>
  The records of the topology-learning layer and the operations of \<^verbatim>\<open>tl_rx_list.c\<close>: allocation of a
  training message, the conversions between packets sent and packets received, the lists of
  training and destination records, and the computations that prepare the choice of relays. The
  two functions that would send the relay messages, \<open>min_max_relay\<close> and \<open>mnp_relay\<close>, have bodies
  that are commented out in the source and do nothing.
\<close>

section \<open>Messages\<close>

datatype tr_type = TypeOneTF | TypeTwoTF | TypeOneTR | TypeTwoTR | SendTF | NbrRPT | SetRelay

fun tr_code :: "tr_type \<Rightarrow> u8" where
  "tr_code TypeOneTF = 1"
| "tr_code TypeTwoTF = 2"
| "tr_code TypeOneTR = 3"
| "tr_code TypeTwoTR = 4"
| "tr_code SendTF = 5"
| "tr_code NbrRPT = 6"
| "tr_code SetRelay = 7"

definition ETH_ALEN :: nat where "ETH_ALEN = 6"
definition NUM_MCS :: nat where "NUM_MCS = 8"
definition TR_SIZE :: nat where "TR_SIZE = 49"
definition TF_SIZE :: nat where "TF_SIZE = 1370"
definition SNDTF_SIZE :: nat where "SNDTF_SIZE = 19"
definition SETRELAY_SIZE :: nat where "SETRELAY_SIZE = 17"
definition HDR :: nat where "HDR = 14"

lemmas tl_consts [simp] = ETH_ALEN_def NUM_MCS_def TR_SIZE_def TF_SIZE_def SNDTF_SIZE_def SETRELAY_SIZE_def HDR_def


definition tl_alloc_skb ::
  "env \<Rightarrow> net_device \<Rightarrow> mac \<Rightarrow> mac \<Rightarrow> nat \<Rightarrow> tr_type \<Rightarrow> (sk_buff option \<times> env) option" where
  "tl_alloc_skb e dev daddr saddr sz type =
     (if sz < HDR + 1 then Some (None, e)
      else case dev_alloc_skb e sz of
             (None, e) \<Rightarrow> Some (None, e)
           | (Some rpt, e) \<Rightarrow>
               do {
                 let rpt = rpt\<lparr>skb_dev := dev, skb_protocol := 0x1180\<rparr>;
                 let rpt = skb_reset_network_header (skb_reset_transport_header rpt);
                 rpt \<leftarrow> skb_put sz rpt;
                 rpt \<leftarrow> skb_store 0 (take ETH_ALEN daddr) rpt;
                 rpt \<leftarrow> skb_store ETH_ALEN (take ETH_ALEN saddr) rpt;
                 rpt \<leftarrow> skb_set 12 0x08 rpt;
                 rpt \<leftarrow> skb_set 13 0x11 rpt;
                 rpt \<leftarrow> skb_set HDR (tr_code type) rpt;
                 Some (Some rpt, e)
               })"

section \<open>Packets sent and packets received\<close>

text \<open>The arithmetic is in 64-bit \<open>unsigned long\<close>; a division by zero traps.\<close>

definition udiv :: "u64 \<Rightarrow> u64 \<Rightarrow> u64 option" where
  "udiv a b = (if b = 0 then None else Some (a div b))"

definition n_to_k :: "u8 \<Rightarrow> u32 \<Rightarrow> u32 \<Rightarrow> u8 option" where
  "n_to_k n tot rcv =
     do {
       let result = ucast n * ucast rcv * ucast rcv * 80 * 1000000;
       result \<leftarrow> udiv result (ucast tot);
       result \<leftarrow> udiv result (ucast tot);
       result \<leftarrow> udiv result 100;
       result \<leftarrow> udiv result 1000000;
       Some (ucast result)
     }"

definition k_to_n :: "u8 \<Rightarrow> u32 \<Rightarrow> u32 \<Rightarrow> u8 option" where
  "k_to_n k tot rcv =
     do {
       let result = ucast k * ucast tot * ucast tot * 100 * 1000000;
       result \<leftarrow> udiv result (ucast rcv);
       result \<leftarrow> udiv result (ucast rcv);
       result \<leftarrow> udiv result 80;
       let result = (if result mod 1000000 \<noteq> 0 then result + 1000000 else result);
       result \<leftarrow> udiv result 1000000;
       Some (if result < 255 then ucast result else 255)
     }"

section \<open>Training records\<close>

record 'n tr_info_t =
  ti_addr :: mac
  ti_dev :: net_device
  ti_total_num :: u32
  ti_rcv_num :: "u32 list"
  ti_rssi :: u8
  ti_batt :: u8
  ti_tf_cnt :: bool
  ti_nr_cnt :: bool
  ti_nbr_list :: 'n

type_synonym nbr_info = "unit tr_info_t"
type_synonym tr_info = "nbr_info nlist tr_info_t"
type_synonym tr_info_list = "tr_info nlist"

text \<open>\<open>nbrs\<close> is the initial neighbour list, \<open>[]\<close> for a record of the first level.\<close>

definition tr_info_create :: "'n \<Rightarrow> mac \<Rightarrow> net_device \<Rightarrow> u32 \<Rightarrow> u32 list \<Rightarrow> u8 \<Rightarrow> u8 \<Rightarrow> 'n tr_info_t" where
  "tr_info_create nbrs addr dev total_num rcv_num rssi batt =
     \<lparr>ti_addr = take ETH_ALEN addr, ti_dev = dev, ti_total_num = total_num, ti_rcv_num = take NUM_MCS rcv_num,
      ti_rssi = rssi, ti_batt = batt, ti_tf_cnt = False, ti_nr_cnt = False, ti_nbr_list = nbrs\<rparr>"

definition tr_info_list_init :: "'n tr_info_t nlist" where
  "tr_info_list_init = []"

definition tr_info_insert :: "addr \<Rightarrow> 'n tr_info_t \<Rightarrow> 'n tr_info_t nlist \<Rightarrow> 'n tr_info_t nlist" where
  "tr_info_insert a newinfo l = nl_insert a newinfo l"

definition tr_info_free :: "addr option \<Rightarrow> 'n tr_info_t nlist \<Rightarrow> 'n tr_info_t nlist option" where
  "tr_info_free info l = nl_free info l"

text \<open>The loop frees the first node until the list is nbrs.\<close>

fun tr_info_list_purge :: "'n tr_info_t nlist \<Rightarrow> 'n tr_info_t nlist" where
  "tr_info_list_purge [] = []"
| "tr_info_list_purge ((a, v) # l) = tr_info_list_purge l"

definition tr_info_find_addr :: "'n tr_info_t nlist \<Rightarrow> mac \<Rightarrow> addr option" where
  "tr_info_find_addr l addr = nl_find (\<lambda>info. ti_addr info = addr) l"

fun tr_info_check_nr_cnt :: "'n tr_info_t nlist \<Rightarrow> bool" where
  "tr_info_check_nr_cnt [] = True"
| "tr_info_check_nr_cnt ((a, info) # l) = (if \<not> ti_nr_cnt info then False else tr_info_check_nr_cnt l)"

definition get_tot_rcv :: "'n tr_info_t \<Rightarrow> u32" where
  "get_tot_rcv info = fold (\<lambda>i ret. ret + ti_rcv_num info ! i) [0..<NUM_MCS] 0"

section \<open>Arrangement of the training list\<close>

text \<open>Remove the first neighbour with the address, if there is one.\<close>

fun del_first_nbr :: "mac \<Rightarrow> nbr_info nlist \<Rightarrow> nbr_info nlist" where
  "del_first_nbr addr [] = []"
| "del_first_nbr addr ((a, nbr) # l) = (if ti_addr nbr = addr then l else (a, nbr) # del_first_nbr addr l)"

definition tr_info_list_del_nbr :: "mac \<Rightarrow> tr_info_list \<Rightarrow> tr_info_list" where
  "tr_info_list_del_nbr addr l =
     map (\<lambda>(a, info). (a, if addr \<noteq> ti_addr info
                           then info\<lparr>ti_nbr_list := del_first_nbr addr (ti_nbr_list info)\<rparr> else info)) l"

text \<open>The outer loop walks over the list it changes; the addresses and counters it reads are not
  changed by the body.\<close>

definition tr_info_list_arrangement :: "tr_param \<Rightarrow> tr_info_list \<Rightarrow> tr_info_list" where
  "tr_info_list_arrangement par l =
     fold (\<lambda>(a, info) l. if tr_get_tf_thre par \<le> ti_rcv_num info ! 0
                            then tr_info_list_del_nbr (ti_addr info) l else l) l l"

definition tr_info_list_pr_dof :: "tr_param \<Rightarrow> tr_info_list \<Rightarrow> mac \<Rightarrow> u8 option" where
  "tr_info_list_pr_dof par l addr =
     (case tr_info_find_addr l addr of
        None \<Rightarrow> Some (tr_get_data_k par)
      | Some a \<Rightarrow>
          do {
            info \<leftarrow> nl_read a l;
            src_k \<leftarrow> n_to_k (tr_get_data_n par) (ti_total_num info) (ti_rcv_num info ! 0);
            Some (if src_k < tr_get_data_k par then tr_get_data_k par - src_k else 0)
          })"

definition tr_info_max_clout :: "tr_param \<Rightarrow> tr_info_list \<Rightarrow> tr_info \<Rightarrow> u8 option" where
  "tr_info_max_clout par head info =
     foldo (\<lambda>(a, nbr) max_clout. do {
         dof \<leftarrow> tr_info_list_pr_dof par head (ti_addr nbr);
         nbr_clout \<leftarrow> k_to_n dof (ti_total_num nbr) (ti_rcv_num nbr ! 0);
         Some (if max_clout < nbr_clout then nbr_clout else max_clout)
       }) (ti_nbr_list info) 0"

section \<open>Destination records\<close>

record dst_info =
  di_addr :: mac
  di_raddr1 :: mac
  di_raddr2 :: mac
  di_raddr3 :: mac
  di_min_clout1 :: u8
  di_min_clout2 :: u8
  di_min_clout3 :: u8
  di_pr_dof :: u8

type_synonym dst_info_list = "dst_info nlist"

definition dst_info_create :: "mac \<Rightarrow> u8 \<Rightarrow> dst_info" where
  "dst_info_create addr pr_dof =
     \<lparr>di_addr = take ETH_ALEN addr, di_raddr1 = replicate ETH_ALEN 0, di_raddr2 = replicate ETH_ALEN 0,
      di_raddr3 = replicate ETH_ALEN 0, di_min_clout1 = 255, di_min_clout2 = 255, di_min_clout3 = 255,
      di_pr_dof = pr_dof\<rparr>"

definition dst_info_list_init :: dst_info_list where
  "dst_info_list_init = []"

definition dst_info_insert :: "addr \<Rightarrow> dst_info \<Rightarrow> dst_info_list \<Rightarrow> dst_info_list" where
  "dst_info_insert a newinfo l = nl_insert a newinfo l"

definition dst_info_free :: "addr option \<Rightarrow> dst_info_list \<Rightarrow> dst_info_list option" where
  "dst_info_free info l = nl_free info l"

fun dst_info_list_purge :: "dst_info_list \<Rightarrow> dst_info_list" where
  "dst_info_list_purge [] = []"
| "dst_info_list_purge ((a, v) # l) = dst_info_list_purge l"

definition dst_info_find_addr :: "dst_info_list \<Rightarrow> mac \<Rightarrow> addr option" where
  "dst_info_find_addr l addr = nl_find (\<lambda>info. di_addr info = addr) l"

definition clout_insert :: "mac \<Rightarrow> u8 \<Rightarrow> dst_info \<Rightarrow> dst_info" where
  "clout_insert relay c d =
     (if c \<le> di_min_clout3 d then
        (if c \<le> di_min_clout2 d then
           (if c \<le> di_min_clout1 d then
              d\<lparr>di_raddr3 := di_raddr2 d, di_min_clout3 := di_min_clout2 d, di_raddr2 := di_raddr1 d,
                di_min_clout2 := di_min_clout1 d, di_raddr1 := relay, di_min_clout1 := c\<rparr>
            else
              d\<lparr>di_raddr3 := di_raddr2 d, di_min_clout3 := di_min_clout2 d, di_raddr2 := relay,
                di_min_clout2 := c\<rparr>)
         else d\<lparr>di_raddr3 := relay, di_min_clout3 := c\<rparr>)
      else d)"

text \<open>One training record: the first neighbour entry for the destination counts.\<close>

definition clout_of_relay :: "tr_info \<Rightarrow> dst_info \<Rightarrow> dst_info option" where
  "clout_of_relay info d =
     (case tr_info_find_addr (ti_nbr_list info) (di_addr d) of
        None \<Rightarrow> Some d
      | Some a \<Rightarrow>
          do {
            nbr \<leftarrow> nl_read a (ti_nbr_list info);
            c \<leftarrow> k_to_n (di_pr_dof d) (ti_total_num nbr) (ti_rcv_num nbr ! 0);
            Some (clout_insert (ti_addr info) c d)
          })"

definition min_dof_of_dst :: "tr_info_list \<Rightarrow> dst_info \<Rightarrow> dst_info option" where
  "min_dof_of_dst l d =
     (if di_pr_dof d \<noteq> 0 then foldo (\<lambda>(a, info). clout_of_relay info) l d else Some d)"

fun dst_info_list_get_min_dof :: "tr_info_list \<Rightarrow> dst_info_list \<Rightarrow> dst_info_list option" where
  "dst_info_list_get_min_dof l [] = Some []"
| "dst_info_list_get_min_dof l ((a, d) # dl) =
     do { d \<leftarrow> min_dof_of_dst l d; dl \<leftarrow> dst_info_list_get_min_dof l dl; Some ((a, d) # dl) }"

fun dst_info_list_all_over_threshold :: "dst_info_list \<Rightarrow> u8 \<Rightarrow> bool" where
  "dst_info_list_all_over_threshold [] thres_n = True"
| "dst_info_list_all_over_threshold ((a, d) # l) thres_n =
     (if di_pr_dof d \<noteq> 0 \<and> di_min_clout1 d \<le> thres_n then False
      else dst_info_list_all_over_threshold l thres_n)"

fun dst_info_list_all_pr_dof_zero :: "dst_info_list \<Rightarrow> bool" where
  "dst_info_list_all_pr_dof_zero [] = True"
| "dst_info_list_all_pr_dof_zero ((a, d) # l) =
     (if di_pr_dof d \<noteq> 0 then False else dst_info_list_all_pr_dof_zero l)"

section \<open>Choosing relays\<close>

definition mnp_relay :: "tr_info_list \<Rightarrow> tr_info_list" where "mnp_relay l = l"
definition min_max_relay :: "tr_info_list \<Rightarrow> tr_info_list" where "min_max_relay l = l"
definition MNPRELAY :: bool where "MNPRELAY = False"

definition tl_select_relay :: "tr_param \<Rightarrow> tr_info_list \<Rightarrow> tr_info_list" where
  "tl_select_relay par l =
     (if l = [] then l
      else
        let l = tr_info_list_arrangement par l
        in if MNPRELAY then mnp_relay l else min_max_relay l)"

lemma ucast_of_nat_unat: "(ucast (x :: 'a::len word) :: 'b::len word) = of_nat (unat x)"
  by (simp add: unsigned_word_eqI)

lemma unat_of_nat_less: "m < 2 ^ LENGTH('a) \<Longrightarrow> unat (of_nat m :: 'a::len word) = m"
  by (simp add: unsigned_of_nat take_bit_nat_eq_self)

lemma udiv_of_nat:
  assumes "a < 2 ^ 64" "b < 2 ^ 64"
  shows "udiv (of_nat a) (of_nat b) = (if b = 0 then None else Some (of_nat (a div b)))"
proof -
  have ab: "unat (of_nat a :: u64) = a" "unat (of_nat b :: u64) = b"
    using assms by (simp_all add: unat_of_nat_less)
  have "a div b < 2 ^ 64" using assms(1) div_le_dividend le_less_trans by blast
  then have "unat (of_nat (a div b) :: u64) = a div b" by (simp add: unat_of_nat_less)
  then have "(of_nat a div of_nat b :: u64) = of_nat (a div b)"
    by (simp add: word_unat_eq_iff unat_div_distrib ab del: unsigned_of_nat)
  moreover have "(of_nat b :: u64) = 0 \<longleftrightarrow> b = 0" using ab(2) by (metis of_nat_0 unat_eq_zero)
  ultimately show ?thesis by (simp add: udiv_def)
qed


section \<open>The conversions as arithmetic\<close>

lemma unat_u32_less64: "unat (a :: u32) < 2 ^ 64"
proof -
  have "unat a < 2 ^ 32" using unsigned_less [of a] by simp
  then show ?thesis by simp
qed

lemma udiv_step:
  assumes "a < 2 ^ 64" "b < 2 ^ 64" "b \<noteq> 0"
  shows "udiv (of_nat a) (of_nat b) = Some (of_nat (a div b))" "a div b < 2 ^ 64"
proof -
  show "udiv (of_nat a) (of_nat b) = Some (of_nat (a div b))" using udiv_of_nat [OF assms(1,2)] assms(3) by simp
  show "a div b < 2 ^ 64" using assms(1) div_le_dividend le_less_trans by blast
qed

lemma u64_numerals: "(100 :: u64) = of_nat 100" "(80 :: u64) = of_nat 80" "(1000000 :: u64) = of_nat 1000000"
  by (simp_all only: of_nat_numeral)

lemma div4: "a div t div t div c div (d::nat) = a div (t * t * c * d)"
  by (simp only: div_mult2_eq)

lemma n_to_k_eq:
  assumes small: "unat n * unat rcv * unat rcv * 80 * 1000000 < 2 ^ 64" and tot: "tot \<noteq> 0"
  shows "n_to_k n tot rcv = Some (of_nat (unat n * unat rcv * unat rcv * 80 * 1000000 div (unat tot * unat tot * 100 * 1000000)))"
proof -
  define X where "X = unat n * unat rcv * unat rcv * 80 * 1000000"
  define T where "T = unat tot"
  have x: "ucast n * ucast rcv * ucast rcv * 80 * 1000000 = (of_nat X :: u64)"
    unfolding X_def by (simp only: ucast_of_nat_unat of_nat_mult of_nat_numeral)
  have T: "ucast tot = (of_nat T :: u64)" "T < 2 ^ 64" "T \<noteq> 0"
    unfolding T_def using tot unat_u32_less64 by (simp_all only: ucast_of_nat_unat unat_eq_zero not_False_eq_True)
  have X: "X < 2 ^ 64" using small unfolding X_def .
  note s1 = udiv_step [OF X T(2,3)]
  note s2 = udiv_step [OF s1(2) T(2,3)]
  note s3 = udiv_step [OF s2(2), of 100]
  have s3: "udiv (of_nat (X div T div T)) (of_nat 100) = Some (of_nat (X div T div T div 100))"
    "X div T div T div 100 < 2 ^ 64" using s3 by simp_all
  have s4: "udiv (of_nat (X div T div T div 100)) (of_nat 1000000) = Some (of_nat (X div T div T div 100 div 1000000))"
    using udiv_step(1) [OF s3(2), of 1000000] by simp
  have c: "(ucast (of_nat a :: u64) :: u8) = of_nat a" for a by transfer simp
  show ?thesis
    unfolding X_def [symmetric] T_def [symmetric] div4 [symmetric]
    unfolding n_to_k_def Let_def x T(1)
    unfolding u64_numerals(1,3) s1(1) s2(1) s3(1) s4 bind.bind_lunit c ..
qed


definition ceil_million :: "nat \<Rightarrow> nat" where
  "ceil_million f = (if f mod 1000000 \<noteq> 0 then f + 1000000 else f) div 1000000"

lemma of_nat_ceil_million:
  assumes "f < 2 ^ 64 - 1000000"
  shows "udiv (if of_nat f mod 1000000 \<noteq> (0 :: u64) then of_nat f + 1000000 else of_nat f) 1000000 =
    Some (of_nat (ceil_million f))" "ceil_million f < 2 ^ 64"
proof -
  define g where "g = (if f mod 1000000 \<noteq> 0 then f + 1000000 else f)"
  have g: "g < 2 ^ 64" using assms by (simp add: g_def)
  have uf: "unat (of_nat f :: u64) = f" using assms by (simp add: unat_of_nat_less del: unsigned_of_nat)
  have um: "unat (1000000 :: u64) = 1000000" by simp
  have "unat ((of_nat f :: u64) mod 1000000) = f mod 1000000"
    unfolding unat_mod_distrib uf um ..
  then have "(of_nat f :: u64) mod 1000000 = 0 \<longleftrightarrow> f mod 1000000 = 0" by (metis unat_eq_zero)
  then have e: "(if of_nat f mod 1000000 \<noteq> (0 :: u64) then of_nat f + 1000000 else of_nat f) = (of_nat g :: u64)"
    unfolding g_def by simp
  show "udiv (if of_nat f mod 1000000 \<noteq> (0 :: u64) then of_nat f + 1000000 else of_nat f) 1000000 =
    Some (of_nat (ceil_million f))" "ceil_million f < 2 ^ 64"
    unfolding e ceil_million_def g_def [symmetric] unfolding u64_numerals(3)
    using udiv_step [OF g, of 1000000] by simp_all
qed

lemma k_to_n_eq:
  assumes small: "unat k * unat tot * unat tot * 100 * 1000000 < 2 ^ 64" and rcv: "rcv \<noteq> 0"
  defines "N \<equiv> ceil_million (unat k * unat tot * unat tot * 100 * 1000000 div (unat rcv * unat rcv * 80))"
  shows "k_to_n k tot rcv = Some (if N < 255 then of_nat N else 255)"
proof -
  define X where "X = unat k * unat tot * unat tot * 100 * 1000000"
  define R where "R = unat rcv"
  have x: "ucast k * ucast tot * ucast tot * 100 * 1000000 = (of_nat X :: u64)"
    unfolding X_def by (simp only: ucast_of_nat_unat of_nat_mult of_nat_numeral)
  have R: "ucast rcv = (of_nat R :: u64)" "R < 2 ^ 64" "R \<noteq> 0"
    unfolding R_def using rcv unat_u32_less64 by (simp_all only: ucast_of_nat_unat unat_eq_zero not_False_eq_True)
  have X: "X < 2 ^ 64" using small unfolding X_def .
  note s1 = udiv_step [OF X R(2,3)]
  note s2 = udiv_step [OF s1(2) R(2,3)]
  have s3: "udiv (of_nat (X div R div R)) (of_nat 80) = Some (of_nat (X div R div R div 80))"
    using udiv_step(1) [OF s2(2), of 80] by simp
  have "y div 80 < 2 ^ 64 - 1000000" if "y < 2 ^ 64" for y :: nat
    using that by (intro less_mult_imp_div_less) simp
  then have "X div R div R div 80 < 2 ^ 64 - 1000000" using s2(2) by blast
  note s4 = of_nat_ceil_million [OF this]
  have NN: "N = ceil_million (X div R div R div 80)"
    unfolding N_def X_def [symmetric] R_def [symmetric] by (simp only: div_mult2_eq)
  have N64: "N < 2 ^ 64" using s4(2) NN by simp
  have c: "(ucast (of_nat a :: u64) :: u8) = of_nat a" for a by transfer simp
  have lt: "(of_nat N :: u64) < 255 \<longleftrightarrow> N < 255"
    using N64 by (simp add: word_less_nat_alt unat_of_nat_less del: unsigned_of_nat)
  show ?thesis
    unfolding k_to_n_def Let_def x R(1) s1(1) s2(1) bind.bind_lunit
    unfolding u64_numerals(2) s3 bind.bind_lunit s4(1) NN [symmetric] c lt ..
qed

text \<open>Sending \<open>k_to_n k\<close> packets gives a receiver at least \<open>k\<close> by the estimate of \<open>n_to_k\<close>.\<close>

lemma ceil_million_ge: "f \<le> ceil_million f * 1000000"
proof (cases "f mod 1000000 = 0")
  case True
  then show ?thesis by (simp add: ceil_million_def) (metis mod_0_imp_dvd dvd_div_mult_self le_refl)
next
  case False
  have "(f + 1000000) div 1000000 = f div 1000000 + 1" by simp
  with False show ?thesis
    using div_mult_mod_eq [of f 1000000] mod_less_divisor [of 1000000 f] unfolding ceil_million_def by simp
qed

lemma sends_enough:
  fixes k tot rcv N :: nat
  assumes N: "N = ceil_million (k * tot * tot * 100 * 1000000 div (rcv * rcv * 80))"
    and rcv: "0 < rcv" "rcv \<le> 500" and tot: "0 < tot"
  shows "k \<le> N * rcv * rcv * 80 * 1000000 div (tot * tot * 100 * 1000000)"
proof -
  let ?A = "k * tot * tot * 5" and ?B = "rcv * rcv * 4"
  have B: "0 < ?B" using rcv by simp
  have "?B \<le> 500 * 500 * 4" using rcv(2) by (intro mult_le_mono) auto
  then have Bm: "?B \<le> 1000000" by simp
  have "k * tot * tot * 100 * 1000000 div (rcv * rcv * 80) = (20 * (?A * 1000000)) div (20 * ?B)"
    by (simp add: ac_simps)
  also have "\<dots> = ?A * 1000000 div ?B" by (rule div_mult_mult1) simp
  finally have F: "?A * 1000000 div ?B \<le> N * 1000000" using ceil_million_ge N by metis
  have "?A \<le> N * ?B"
  proof (rule ccontr)
    assume "\<not> ?A \<le> N * ?B"
    then have "(N * ?B + 1) * 1000000 \<le> ?A * 1000000" by simp
    then have "N * 1000000 * ?B + ?B \<le> ?A * 1000000" using Bm by (simp add: algebra_simps)
    then have "(N * 1000000 + 1) * ?B \<le> ?A * 1000000" by (simp add: algebra_simps)
    then have "N * 1000000 + 1 \<le> ?A * 1000000 div ?B" using B by (simp add: less_eq_div_iff_mult_less_eq)
    with F show False by simp
  qed
  then have "k * (tot * tot * 100 * 1000000) \<le> N * rcv * rcv * 80 * 1000000"
    by (simp add: algebra_simps)
  then show ?thesis using tot by (simp add: less_eq_div_iff_mult_less_eq)
qed

section \<open>The three cheapest relays\<close>

definition relays_of :: "dst_info \<Rightarrow> (u8 \<times> mac) list" where
  "relays_of d = [(di_min_clout1 d, di_raddr1 d), (di_min_clout2 d, di_raddr2 d), (di_min_clout3 d, di_raddr3 d)]"

definition clouts_sorted :: "dst_info \<Rightarrow> bool" where
  "clouts_sorted d \<longleftrightarrow> di_min_clout1 d \<le> di_min_clout2 d \<and> di_min_clout2 d \<le> di_min_clout3 d"

text \<open>The relays that have the destination as a neighbour, each with the number of packets it would
  have to send; \<open>None\<close> when that computation traps.\<close>

definition relay_candidates :: "tr_info_list \<Rightarrow> dst_info \<Rightarrow> (u8 \<times> mac) option list" where
  "relay_candidates l d =
     concat (map (\<lambda>(a, info).
       case tr_info_find_addr (ti_nbr_list info) (di_addr d) of
         None \<Rightarrow> []
       | Some n \<Rightarrow> [do {
           nbr \<leftarrow> nl_read n (ti_nbr_list info);
           c \<leftarrow> k_to_n (di_pr_dof d) (ti_total_num nbr) (ti_rcv_num nbr ! 0);
           Some (c, ti_addr info) }]) l)"

lemma relay_candidates_cong:
  "di_addr d = di_addr d' \<Longrightarrow> di_pr_dof d = di_pr_dof d' \<Longrightarrow> relay_candidates l d = relay_candidates l d'"
  unfolding relay_candidates_def by (simp only:)

lemma take_insort_take: "take n (insort_key f x (take n xs)) = take n (insort_key f x xs)"
  by (induction xs arbitrary: n) (auto simp: take_Cons split: nat.splits)

lemma clout_insert_insort:
  "clouts_sorted d \<Longrightarrow> relays_of (clout_insert r c d) = take 3 (insort_key fst (c, r) (relays_of d)) \<and>
     clouts_sorted (clout_insert r c d)"
  by (auto simp: clouts_sorted_def relays_of_def clout_insert_def numeral_3_eq_3)

lemma clout_insert_fields [simp]:
  "di_addr (clout_insert r c d) = di_addr d" "di_pr_dof (clout_insert r c d) = di_pr_dof d"
  by (auto simp: clout_insert_def)

lemma min_dof_loop:
  assumes "clouts_sorted d" and "foldo (\<lambda>(a, info). clout_of_relay info) l d = Some d'"
  shows "\<exists>cs. relay_candidates l d = map Some cs \<and> clouts_sorted d' \<and> di_addr d' = di_addr d \<and> di_pr_dof d' = di_pr_dof d \<and>
    relays_of d' = take 3 (fold (insort_key fst) cs (relays_of d))"
  using assms
proof (induction l arbitrary: d)
  case Nil
  then show ?case by (simp add: relay_candidates_def relays_of_def)
next
  case (Cons p l)
  obtain a info where p: "p = (a, info)" by (cases p)
  show ?case
  proof (cases "tr_info_find_addr (ti_nbr_list info) (di_addr d)")
    case None
    with Cons show ?thesis by (simp add: p clout_of_relay_def relay_candidates_def)
  next
    case (Some n)
    with Cons.prems(2) obtain nbr c where c: "nl_read n (ti_nbr_list info) = Some nbr"
      "k_to_n (di_pr_dof d) (ti_total_num nbr) (ti_rcv_num nbr ! 0) = Some c"
      "foldo (\<lambda>(a, info). clout_of_relay info) l (clout_insert (ti_addr info) c d) = Some d'"
      by (auto simp: p clout_of_relay_def [of info d])
    let ?d = "clout_insert (ti_addr info) c d"
    note ins = clout_insert_insort [OF Cons.prems(1), of "ti_addr info" c]
    obtain cs where cs: "relay_candidates l ?d = map Some cs" "clouts_sorted d'" "di_addr d' = di_addr d"
      "di_pr_dof d' = di_pr_dof d" "relays_of d' = take 3 (fold (insort_key fst) cs (relays_of ?d))"
      using Cons.IH [OF _ c(3)] ins by auto
    have trunc: "take 3 (fold (insort_key fst) cs (take 3 xs)) = take 3 (fold (insort_key fst) cs xs)"
      for xs :: "(u8 \<times> mac) list"
    proof (induction cs arbitrary: xs)
      case (Cons x cs)
      have "take 3 (fold (insort_key fst) cs (insort_key fst x (take 3 xs))) =
          take 3 (fold (insort_key fst) cs (take 3 (insort_key fst x (take 3 xs))))"
        by (rule Cons.IH [symmetric])
      also have "\<dots> = take 3 (fold (insort_key fst) cs (insort_key fst x xs))"
        unfolding take_insort_take by (rule Cons.IH)
      finally show ?case by simp
    qed simp
    have "relay_candidates (p # l) d = map Some ((c, ti_addr info) # cs)"
      using c Some cs(1) relay_candidates_cong [of ?d d l]
      by (simp add: p relay_candidates_def [of "(a, info) # l"] flip: relay_candidates_def [of l])
    moreover have "relays_of d' = take 3 (fold (insort_key fst) ((c, ti_addr info) # cs) (relays_of d))"
      unfolding cs(5) ins [THEN conjunct1] trunc by simp
    ultimately show ?thesis using cs by blast
  qed
qed

section \<open>Arrangement\<close>

definition nbr_addrs :: "tr_info \<Rightarrow> mac list" where
  "nbr_addrs info = map (ti_addr \<circ> snd) (ti_nbr_list info)"

lemma del_first_nbr_addrs:
  "map (ti_addr \<circ> snd) (del_first_nbr addr l) = remove1 addr (map (ti_addr \<circ> snd) l)"
  by (induction l) auto

lemma del_nbr_effect:
  assumes "(a, info') \<in> set (tr_info_list_del_nbr addr l)"
  obtains info where "(a, info) \<in> set l" "ti_addr info' = ti_addr info" "ti_rcv_num info' = ti_rcv_num info"
    "nbr_addrs info' = (if addr = ti_addr info then nbr_addrs info else remove1 addr (nbr_addrs info))"
  using assms
  by (auto simp: tr_info_list_del_nbr_def nbr_addrs_def del_first_nbr_addrs split: if_splits)

definition served_addrs :: "tr_param \<Rightarrow> tr_info_list \<Rightarrow> mac set" where
  "served_addrs par l = {ti_addr k |k b. (b, k) \<in> set l \<and> tr_get_tf_thre par \<le> ti_rcv_num k ! 0}"

lemma served_addrs_Cons:
  "served_addrs par ((b, k) # l) =
     (if tr_get_tf_thre par \<le> ti_rcv_num k ! 0 then insert (ti_addr k) (served_addrs par l) else served_addrs par l)"
  by (auto simp: served_addrs_def)

lemma remove_another:
  "A = S - (if k = x then {} else {k}) \<Longrightarrow> A - (K - {x}) = S - (insert k K - {x})"
  by auto

lemma arrangement_loop:
  assumes "(a, info') \<in> set (fold (\<lambda>(a, info) l. if tr_get_tf_thre par \<le> ti_rcv_num info ! 0
                            then tr_info_list_del_nbr (ti_addr info) l else l) ks l)"
    and "\<forall>(a, info)\<in>set l. distinct (nbr_addrs info)"
  shows "\<exists>info. (a, info) \<in> set l \<and> ti_addr info' = ti_addr info \<and>
    set (nbr_addrs info') = set (nbr_addrs info) - (served_addrs par ks - {ti_addr info})"
  using assms
proof (induction ks arbitrary: l)
  case Nil
  then show ?case by (auto simp: served_addrs_def)
next
  case (Cons p ks)
  obtain b k where p: "p = (b, k)" by (cases p)
  show ?case
  proof (cases "tr_get_tf_thre par \<le> ti_rcv_num k ! 0")
    case False
    with Cons.IH [of l] Cons.prems show ?thesis by (simp add: p served_addrs_Cons)
  next
    case True
    let ?l = "tr_info_list_del_nbr (ti_addr k) l"
    have "\<forall>(a, info)\<in>set ?l. distinct (nbr_addrs info)"
    proof (clarify)
      fix a i assume "(a, i) \<in> set ?l"
      then obtain j where "(a, j) \<in> set l" "nbr_addrs i = (if ti_addr k = ti_addr j then nbr_addrs j else remove1 (ti_addr k) (nbr_addrs j))"
        by (rule del_nbr_effect)
      with Cons.prems(2) show "distinct (nbr_addrs i)" by (auto simp: distinct_remove1)
    qed
    with Cons.IH [of ?l] Cons.prems(1) True obtain i1 where i1: "(a, i1) \<in> set ?l" "ti_addr info' = ti_addr i1"
      "set (nbr_addrs info') = set (nbr_addrs i1) - (served_addrs par ks - {ti_addr i1})"
      by (auto simp: p)
    from i1(1) obtain info where info: "(a, info) \<in> set l" "ti_addr i1 = ti_addr info"
      "nbr_addrs i1 = (if ti_addr k = ti_addr info then nbr_addrs info else remove1 (ti_addr k) (nbr_addrs info))"
      by (rule del_nbr_effect)
    have "distinct (nbr_addrs info)" using Cons.prems(2) info(1) by auto
    then have "set (nbr_addrs i1) = set (nbr_addrs info) - (if ti_addr k = ti_addr info then {} else {ti_addr k})"
      using info(3) by (simp add: set_remove1_eq)
    then have "set (nbr_addrs info') = set (nbr_addrs info) - (insert (ti_addr k) (served_addrs par ks) - {ti_addr info})"
      unfolding i1(3) info(2) by (rule remove_another)
    with i1(2) info(1,2) True show ?thesis
      by (intro exI [of _ info]) (simp add: p served_addrs_Cons)
  qed
qed

section \<open>Properties\<close>

text \<open>The two conversions agree: a relay told to send the number of packets that \<open>k_to_n\<close>
  computes for \<open>k\<close> degrees of freedom (unless that number is cut off at 255) is expected by
  \<open>n_to_k\<close> to deliver at least \<open>k\<close>, for every loss rate measured with up to 500 training frames.
  Neither conversion overflows there.\<close>

theorem k_to_n_sends_enough:
  assumes "0 < rcv" "rcv \<le> tot" "tot \<le> 500" and "k_to_n k tot rcv = Some n" "n < 255"
  shows "\<exists>k'. n_to_k n tot rcv = Some k' \<and> k \<le> k'"
proof -
  let ?k = "unat k" and ?t = "unat tot" and ?r = "unat rcv"
  have t: "?t \<le> 500" using assms(3) by (simp add: word_le_nat_alt)
  have r: "0 < ?r" "?r \<le> ?t" "?r \<le> 500" using assms(1,2) t by (simp_all add: word_le_nat_alt word_less_nat_alt)
  have "tot \<noteq> 0" "rcv \<noteq> 0" using assms(1,2) by auto
  have mono: "a * b * c * d * e \<le> 255 * 500 * 500 * 100 * 1000000" if "a \<le> 255" "b \<le> 500" "c \<le> 500" "d \<le> 100" "e \<le> 1000000" for a b c d e :: nat
    using that by (intro mult_le_mono)
  have k: "?k \<le> 255" using unat_u8_less [of k] by linarith
  have small: "?k * ?t * ?t * 100 * 1000000 < 2 ^ 64" using mono [OF k t t, of 100 1000000] by simp
  define N where "N = ceil_million (?k * ?t * ?t * 100 * 1000000 div (?r * ?r * 80))"
  have kn: "Some n = Some (if N < 255 then of_nat N else 255)"
    using k_to_n_eq [OF small \<open>rcv \<noteq> 0\<close>] assms(4) unfolding N_def by simp
  then have N: "N < 255" "n = of_nat N" using assms(5) by (auto split: if_splits)
  then have un: "unat n = N" by (simp add: unat_of_nat_less del: unsigned_of_nat)
  let ?K = "N * ?r * ?r * 80 * 1000000 div (?t * ?t * 100 * 1000000)"
  have "unat n * ?r * ?r * 80 * 1000000 < 2 ^ 64"
    using mono [of N ?r ?r 80 1000000] N(1) r un by simp
  then have nk: "n_to_k n tot rcv = Some (of_nat ?K)" using n_to_k_eq [of n rcv tot] \<open>tot \<noteq> 0\<close> un by simp
  have "N * ?r * ?r * 80 * 1000000 \<le> 254 * ?t * ?t * 100 * 1000000"
    using N(1) r by (intro mult_le_mono) auto
  also have "\<dots> < 256 * (?t * ?t * 100 * 1000000)" using r by simp
  finally have "?K < 256" by (rule less_mult_imp_div_less)
  then have "unat (of_nat ?K :: u8) = ?K" by (intro unat_of_nat_less) simp
  moreover have "?k \<le> ?K" using sends_enough [OF N_def _ r(3)] r by simp
  ultimately show ?thesis using nk by (simp add: word_le_nat_alt del: unsigned_of_nat)
qed

theorem k_to_n_sends_enough_witness:
  "k_to_n 10 20 10 = Some 50 \<and> (\<exists>k'. n_to_k 50 20 10 = Some k' \<and> 10 \<le> k')"
proof -
  have "k_to_n 10 20 10 = Some 50" by (simp add: k_to_n_def udiv_def Let_def)
  moreover from this have "\<exists>k'. n_to_k 50 20 10 = Some k' \<and> 10 \<le> k'"
    by (rule k_to_n_sends_enough [rotated 3]) simp_all
  ultimately show ?thesis ..
qed

text \<open>A relay that has one neighbour, reached by 10 of 20 training frames.\<close>

definition ex_info :: "u8 \<Rightarrow> 'n \<Rightarrow> 'n tr_info_t" where
  "ex_info b nbrs = tr_info_create nbrs [b, 0, 0, 0, 0, 0] \<lparr>dev_addr = []\<rparr> 20 (replicate 8 10) 0 0"

definition ex_dst :: dst_info where
  "ex_dst = dst_info_create [9, 0, 0, 0, 0, 0] 10"

text \<open>For a destination that still needs packets, the scan over the relays keeps exactly the
  three cheapest of the previous entries and all relays that have the destination as a neighbour,
  in order of cost, a later relay before an earlier one of equal cost.\<close>

theorem min_dof_keeps_three_cheapest:
  assumes "min_dof_of_dst l d = Some d'" and "di_pr_dof d \<noteq> 0" and "clouts_sorted d"
  shows "\<exists>cs. relay_candidates l d = map Some cs \<and> clouts_sorted d' \<and>
    relays_of d' = take 3 (fold (insort_key fst) cs (relays_of d))"
  using min_dof_loop [of d l d'] assms by (auto simp: min_dof_of_dst_def)

theorem min_dof_keeps_three_cheapest_witness:
  "\<exists>d'. min_dof_of_dst [(1, ex_info 7 [(2, ex_info 9 ())])] ex_dst = Some d' \<and> clouts_sorted d' \<and> di_min_clout1 d' = 50"
proof -
  have k: "k_to_n 10 20 10 = Some 50" by (simp add: k_to_n_def udiv_def Let_def)
  have m: "min_dof_of_dst [(1, ex_info 7 [(2, ex_info 9 ())])] ex_dst =
      Some (clout_insert [7, 0, 0, 0, 0, 0] 50 ex_dst)"
    using k by (simp add: min_dof_of_dst_def clout_of_relay_def tr_info_find_addr_def nl_find_def nl_read_def
        ex_info_def ex_dst_def tr_info_create_def dst_info_create_def)
  have "\<exists>cs. relay_candidates [(1, ex_info 7 [(2, ex_info 9 ())])] ex_dst = map Some cs \<and>
      clouts_sorted (clout_insert [7, 0, 0, 0, 0, 0] 50 ex_dst) \<and>
      relays_of (clout_insert [7, 0, 0, 0, 0, 0] 50 ex_dst) = take 3 (fold (insort_key fst) cs (relays_of ex_dst))"
    by (rule min_dof_keeps_three_cheapest [OF m]) (simp_all add: ex_dst_def dst_info_create_def clouts_sorted_def)
  then have "clouts_sorted (clout_insert [7, 0, 0, 0, 0, 0] 50 ex_dst)" by blast
  moreover have "di_min_clout1 (clout_insert [7, 0, 0, 0, 0, 0] 50 ex_dst) = 50"
    by (simp add: clout_insert_def ex_dst_def dst_info_create_def)
  ultimately show ?thesis using m by blast
qed

text \<open>After the arrangement no neighbour list mentions another node that receives the source
  well enough itself; nothing else is removed from the neighbour lists.\<close>

theorem arrangement_removes_served_nodes:
  assumes "(a, info') \<in> set (tr_info_list_arrangement par l)" and "\<forall>(a, info)\<in>set l. distinct (nbr_addrs info)"
  shows "\<exists>info. (a, info) \<in> set l \<and> ti_addr info' = ti_addr info \<and>
    set (nbr_addrs info') = set (nbr_addrs info) - (served_addrs par l - {ti_addr info})"
  using arrangement_loop [of a info' par l l] assms by (simp add: tr_info_list_arrangement_def)

theorem arrangement_removes_served_nodes_witness:
  "\<exists>info'. (1, info') \<in> set (tr_info_list_arrangement param_init
       [(1, ex_info 7 [(5, ex_info 8 ())]), (2, ex_info 8 [])]) \<and> set (nbr_addrs info') = {}"
proof -
  let ?l = "[(1, ex_info 7 [(5, ex_info 8 ())]), (2, ex_info 8 [])] :: tr_info_list"
  have "1 \<in> fst ` set (tr_info_list_arrangement param_init ?l)"
    by (simp add: tr_info_list_arrangement_def tr_info_list_del_nbr_def param_init_def step_simps)
  moreover have d: "\<forall>(a, info)\<in>set ?l. distinct (nbr_addrs info)"
    by (simp add: nbr_addrs_def ex_info_def tr_info_create_def)
  ultimately obtain info' where i: "(1, info') \<in> set (tr_info_list_arrangement param_init ?l)" by force
  obtain info where "(1, info) \<in> set ?l"
    "set (nbr_addrs info') = set (nbr_addrs info) - (served_addrs param_init ?l - {ti_addr info})"
    using arrangement_removes_served_nodes [OF i] d by blast
  then have "set (nbr_addrs info') = {}"
    by (auto simp: served_addrs_Cons param_init_def step_simps nbr_addrs_def ex_info_def tr_info_create_def)
  with i show ?thesis by blast
qed

end
