(* ===== verification/TL_Src.thy ===== *)
theory TL_Src
  imports TL_List
begin

text \<open>
  Topology learning at the source (\<^verbatim>\<open>tl_rx_src.c\<close>). A start packet sets the parameters and sends
  series of training frames, one series per rate. The clients answer with reports; 200 ms after the
  last report the source polls, one after the other, every client that received enough frames
  (\<open>SendTF\<close>), and waits for its neighbour report or a timeout of three seconds. When all clients
  are done the relays are chosen.

  The state is the file's static variables and the statics of its functions. Timers are modelled
  by what is pending: \<open>sr_tr1_timer\<close>, \<open>sr_sndtf_timer\<close> with the pointer it was set up with, and
  \<open>sr_mcs_timer\<close> with its delay in milliseconds. Frames passed to \<open>dev_queue_xmit\<close> are outputs.
\<close>

section \<open>State\<close>

record src_state =
  sr_list :: tr_info_list
  sr_polling :: bool
  sr_polling_addr :: mac
  sr_last_tr_id :: u32
  sr_dev_send :: net_device
  sr_mcs :: u8
  sr_tr_id :: u32
  sr_tr1_timer :: bool
  sr_sndtf_timer :: "addr option"
  sr_mcs_timer :: "u32 option"
  sr_for_init :: bool

definition src_init :: src_state where
  "src_init = \<lparr>sr_list = [], sr_polling = False, sr_polling_addr = replicate ETH_ALEN 0, sr_last_tr_id = 0,
     sr_dev_send = \<lparr>dev_addr = []\<rparr>, sr_mcs = 0, sr_tr_id = 0, sr_tr1_timer = False, sr_sndtf_timer = None,
     sr_mcs_timer = None, sr_for_init = True\<rparr>"

definition multicast_addr :: mac where
  "multicast_addr = [0x01, 0x00, 0x5e, 0x00, 0x00, 0x01]"

section \<open>Training frames\<close>

definition get_random_bytes :: "nat \<Rightarrow> env \<Rightarrow> u8 list \<times> env" where
  "get_random_bytes n e = (map (env_rnd e) [0..<n], e\<lparr>env_rnd := (\<lambda>i. env_rnd e (i + n))\<rparr>)"

text \<open>Four random bytes stored into an \<open>unsigned int\<close>, on a little-endian machine.\<close>

definition get_random_u32 :: "env \<Rightarrow> u32 \<times> env" where
  "get_random_u32 e = (let (bs, e) = get_random_bytes 4 e in (be32_value (bs ! 3) (bs ! 2) (bs ! 1) (bs ! 0), e))"

text \<open>The body of the loop that both senders contain; the first component of the result is what
  is passed to \<open>dev_queue_xmit\<close>.\<close>

definition send_tf ::
  "net_device \<Rightarrow> tr_type \<Rightarrow> u32 \<Rightarrow> u32 \<Rightarrow> u8 \<Rightarrow> u32 \<Rightarrow> env \<Rightarrow> (sk_buff option \<times> env) option" where
  "send_tf dev type k tr_id mcs i e =
     do {
       (r, e) \<leftarrow> tl_alloc_skb e dev multicast_addr (dev_addr dev) TF_SIZE type;
       case r of
         None \<Rightarrow> Some (None, e)
       | Some otf \<Rightarrow>
           do {
             otf \<leftarrow> skb_store (HDR + 1) (be32_bytes k) otf;
             otf \<leftarrow> skb_store (HDR + 5) (be32_bytes i) otf;
             otf \<leftarrow> skb_store (HDR + 9) (be32_bytes tr_id) otf;
             otf \<leftarrow> skb_set (HDR + 13) mcs otf;
             let (bs, e) = get_random_bytes (TF_SIZE - (HDR + 14)) e;
             otf \<leftarrow> skb_store (HDR + 14) bs otf;
             Some (Some (otf\<lparr>skb_rate_idx := unat mcs\<rparr>), e)
           }
     }"

definition send_tfs ::
  "net_device \<Rightarrow> tr_type \<Rightarrow> u32 \<Rightarrow> u32 \<Rightarrow> u8 \<Rightarrow> env \<Rightarrow> (sk_buff list \<times> env) option" where
  "send_tfs dev type k tr_id mcs e =
     foldo (\<lambda>i (out, e). do {
         (r, e) \<leftarrow> send_tf dev type k tr_id mcs (of_nat i) e;
         Some (out @ (case r of None \<Rightarrow> [] | Some otf \<Rightarrow> [otf]), e)
       }) [0..<unat k] ([], e)"

text \<open>A new training id, different from the last one unless the second draw repeats it.\<close>

definition draw_tr_id :: "u32 \<Rightarrow> env \<Rightarrow> u32 \<times> env" where
  "draw_tr_id last_id e = (let (x, e) = get_random_u32 e in if x = last_id then get_random_u32 e else (x, e))"

definition tl_mcs_send_timer_func ::
  "tr_param \<Rightarrow> env \<Rightarrow> src_state \<Rightarrow> (src_state \<times> sk_buff list \<times> env) option" where
  "tl_mcs_send_timer_func par e s =
     (let (s, e) =
        (if sr_mcs s = 0 then
           (let (tr_id, e) = draw_tr_id (sr_last_tr_id s) e
            in (s\<lparr>sr_mcs_timer := None, sr_tr_id := tr_id, sr_last_tr_id := tr_id\<rparr>, e))
         else (s, e))
      in do {
        (out, e) \<leftarrow> send_tfs (sr_dev_send s) TypeOneTF (tr_get_tf_k par) (sr_tr_id s) (sr_mcs s) e;
        if sr_mcs s < of_nat NUM_MCS - 1 then
          do {
            t \<leftarrow> cal_tx_time (sr_mcs s) (ucast (tr_get_tf_k par)) (of_nat TF_SIZE);
            let tx_time = t div 1000;
            Some (s\<lparr>sr_mcs_timer := (if sr_mcs_timer s = None then Some tx_time else sr_mcs_timer s),
                    sr_mcs := sr_mcs s + 1\<rparr>, out, e)
          }
        else Some (s\<lparr>sr_mcs_timer := None, sr_mcs := 0\<rparr>, out, e)
      })"

section \<open>Starting\<close>

definition tl_start_check ::
  "tr_param \<Rightarrow> env \<Rightarrow> sk_buff \<Rightarrow> src_state \<Rightarrow> (bool \<times> tr_param \<times> src_state \<times> sk_buff list \<times> env) option" where
  "tl_start_check par e skb s =
     (if skb_len skb < 42 + 16 + 6 then Some (False, par, s, [], e)
      else do {
        p0 \<leftarrow> head_get (skb_transport_header skb) skb;
        p1 \<leftarrow> head_get (skb_transport_header skb + 1) skb;
        d \<leftarrow> skb_load 42 22 skb;
        if \<not> list_all (\<lambda>i. d ! (2 * i) = p0 \<and> d ! (2 * i + 1) = p1) [0..<8] then Some (False, par, s, [], e)
        else if sr_polling s then Some (False, par, s, [], e)
        else do {
          let par = tr_set_param True (d ! 16 \<noteq> 0) (d ! 17) (d ! 18) (ucast (d ! 19)) (ucast (d ! 20)) (d ! 21) par;
          let s = s\<lparr>sr_dev_send := skb_dev skb, sr_list := tr_info_list_purge (sr_list s)\<rparr>;
          (s, out, e) \<leftarrow> tl_mcs_send_timer_func par e s;
          Some (True, par, s, out, e)
        }
      })"

section \<open>Polling\<close>

text \<open>The loop over the list, from the node \<open>a\<close> on; the addresses are those of the nodes when the
  loop starts, which the body does not change.\<close>

fun tr1_loop ::
  "tr_param \<Rightarrow> addr list \<Rightarrow> env \<Rightarrow> src_state \<Rightarrow> (src_state \<times> sk_buff list \<times> env) option" where
  "tr1_loop par [] e s = Some (s, [], e)"
| "tr1_loop par (a # as) e s =
     do {
       info \<leftarrow> nl_read a (sr_list s);
       if \<not> ti_tf_cnt info then
         (if tr_get_tf_thre par \<le> ti_rcv_num info ! 0 then
            do {
              (r, e) \<leftarrow> tl_alloc_skb e (ti_dev info) (ti_addr info) (dev_addr (ti_dev info)) SNDTF_SIZE SendTF;
              case r of
                Some sndtf \<Rightarrow>
                  do {
                    sndtf \<leftarrow> skb_store (HDR + 1) (be32_bytes (tr_get_tf_k par)) sndtf;
                    l \<leftarrow> nl_modify a (\<lambda>info. info\<lparr>ti_tf_cnt := True, ti_nr_cnt := False\<rparr>) (sr_list s);
                    Some (s\<lparr>sr_polling_addr := ti_addr info, sr_list := l, sr_sndtf_timer := Some a\<rparr>, [sndtf], e)
                  }
              | None \<Rightarrow> tr1_loop par as e s
            }
          else
            do {
              l \<leftarrow> nl_modify a (\<lambda>info. info\<lparr>ti_tf_cnt := True, ti_nr_cnt := True\<rparr>) (sr_list s);
              let s = s\<lparr>sr_list := l\<rparr>;
              if tr_info_check_nr_cnt l
              then Some (s\<lparr>sr_polling := False, sr_list := tl_select_relay par l\<rparr>, [], e)
              else tr1_loop par as e s
            })
       else tr1_loop par as e s
     }"

definition tl_rx_tr1_timer_func ::
  "tr_param \<Rightarrow> env \<Rightarrow> src_state \<Rightarrow> (src_state \<times> sk_buff list \<times> env) option" where
  "tl_rx_tr1_timer_func par e s = tr1_loop par (nl_addrs (sr_list s)) e (s\<lparr>sr_polling := True\<rparr>)"

text \<open>What follows once a poll is over, by a report or by the timeout.\<close>

definition poll_done :: "tr_param \<Rightarrow> env \<Rightarrow> src_state \<Rightarrow> (src_state \<times> sk_buff list \<times> env) option" where
  "poll_done par e s =
     (if tr_info_check_nr_cnt (sr_list s)
      then Some (s\<lparr>sr_polling := False, sr_list := tl_select_relay par (sr_list s)\<rparr>, [], e)
      else tl_rx_tr1_timer_func par e s)"

definition tl_rx_sndtf_timer_func ::
  "tr_param \<Rightarrow> env \<Rightarrow> addr \<Rightarrow> src_state \<Rightarrow> (src_state \<times> sk_buff list \<times> env) option" where
  "tl_rx_sndtf_timer_func par e a s =
     do {
       info \<leftarrow> nl_read a (sr_list s);
       if \<not> ti_tf_cnt info then Some (s, [], e)
       else do {
         l \<leftarrow> nl_modify a (\<lambda>info. info\<lparr>ti_nr_cnt := True\<rparr>) (sr_list s);
         poll_done par e (s\<lparr>sr_list := l\<rparr>)
       }
     }"

section \<open>Receiving\<close>

definition load_rcv :: "nat \<Rightarrow> sk_buff \<Rightarrow> u32 list option" where
  "load_rcv pos skb =
     those (map (\<lambda>i. do {
         a \<leftarrow> skb_get (pos + 4 * i) skb;
         b \<leftarrow> skb_get (pos + 1 + 4 * i) skb;
         c \<leftarrow> skb_get (pos + 2 + 4 * i) skb;
         d \<leftarrow> skb_get (pos + 3 + 4 * i) skb;
         Some (be32_value a b c d)
       }) [0..<NUM_MCS])"

definition load_be32 :: "nat \<Rightarrow> sk_buff \<Rightarrow> u32 option" where
  "load_be32 pos skb =
     do {
       a \<leftarrow> skb_get pos skb;
       b \<leftarrow> skb_get (pos + 1) skb;
       c \<leftarrow> skb_get (pos + 2) skb;
       d \<leftarrow> skb_get (pos + 3) skb;
       Some (be32_value a b c d)
     }"

text \<open>The addresses in the Ethernet header, which lies before \<open>data\<close>.\<close>

definition head_load :: "nat \<Rightarrow> nat \<Rightarrow> sk_buff \<Rightarrow> u8 list option" where
  "head_load pos n s = those (map (\<lambda>j. head_get (pos + j) s) [0..<n])"

definition skb_daddr :: "sk_buff \<Rightarrow> mac option" where
  "skb_daddr skb = head_load (skb_mac_header skb) ETH_ALEN skb"

definition skb_saddr :: "sk_buff \<Rightarrow> mac option" where
  "skb_saddr skb = head_load (skb_mac_header skb + 6) ETH_ALEN skb"

text \<open>A report of a client: a new record, or the old one reset.\<close>

definition receive_tr1 :: "kmalloc \<Rightarrow> tr_param \<Rightarrow> sk_buff \<Rightarrow> mac \<Rightarrow> src_state \<Rightarrow> src_state option" where
  "receive_tr1 km par skb saddr s =
     do {
       rssi \<leftarrow> skb_get 1 skb;
       batt \<leftarrow> skb_get 2 skb;
       n_rcv \<leftarrow> load_rcv 3 skb;
       l \<leftarrow> (case tr_info_find_addr (sr_list s) saddr of
               None \<Rightarrow>
                 do {
                   a \<leftarrow> km (nl_addrs (sr_list s));
                   Some (tr_info_insert a (tr_info_create [] saddr (skb_dev skb) (tr_get_tf_k par) n_rcv rssi batt)
                           (sr_list s))
                 }
             | Some a \<Rightarrow>
                 nl_modify a (\<lambda>info. info\<lparr>ti_dev := skb_dev skb, ti_total_num := tr_get_tf_k par,
                   ti_rcv_num := n_rcv, ti_rssi := rssi, ti_batt := batt, ti_tf_cnt := False, ti_nr_cnt := False,
                   ti_nbr_list := tr_info_list_purge (ti_nbr_list info)\<rparr>) (sr_list s));
       Some (s\<lparr>sr_list := l, sr_tr1_timer := True\<rparr>)
     }"

text \<open>One entry of a neighbour report. The signal strength and battery level are read at offsets 7
  and 8 from the entry's base, which is inside the address.\<close>

definition receive_nbr :: "kmalloc \<Rightarrow> sk_buff \<Rightarrow> u32 \<Rightarrow> nat \<Rightarrow> nbr_info nlist \<Rightarrow> nbr_info nlist option" where
  "receive_nbr km skb skb_k i l =
     do {
       let ii = i * (ETH_ALEN + 2 + 4 * NUM_MCS);
       nbr_addr \<leftarrow> skb_load (ii + 6) ETH_ALEN skb;
       rssi \<leftarrow> skb_get (ii + 7) skb;
       batt \<leftarrow> skb_get (ii + 8) skb;
       n_rcv \<leftarrow> load_rcv (ii + 6 + ETH_ALEN + 2) skb;
       case tr_info_find_addr l nbr_addr of
         None \<Rightarrow>
           do {
             a \<leftarrow> km (nl_addrs l);
             Some (tr_info_insert a (tr_info_create () nbr_addr (skb_dev skb) skb_k n_rcv rssi batt) l)
           }
       | Some a \<Rightarrow>
           nl_modify a (\<lambda>info. info\<lparr>ti_total_num := skb_k, ti_rcv_num := n_rcv, ti_rssi := rssi, ti_batt := batt,
             ti_dev := skb_dev skb\<rparr>) l
     }"

definition receive_nbr_rpt ::
  "kmalloc \<Rightarrow> tr_param \<Rightarrow> env \<Rightarrow> sk_buff \<Rightarrow> addr \<Rightarrow> src_state \<Rightarrow> (src_state \<times> sk_buff list \<times> env) option" where
  "receive_nbr_rpt km par e skb a s =
     do {
       skb_k \<leftarrow> load_be32 1 skb;
       skb_num_nbr \<leftarrow> skb_get 5 skb;
       info \<leftarrow> nl_read a (sr_list s);
       nbrs \<leftarrow> foldo (receive_nbr km skb skb_k) [0..<unat skb_num_nbr] (ti_nbr_list info);
       l \<leftarrow> nl_modify a (\<lambda>info. info\<lparr>ti_nr_cnt := True, ti_nbr_list := nbrs\<rparr>) (sr_list s);
       poll_done par e (s\<lparr>sr_list := l, sr_sndtf_timer := None\<rparr>)
     }"

definition tl_receive_skb_src ::
  "kmalloc \<Rightarrow> tr_param \<Rightarrow> env \<Rightarrow> sk_buff \<Rightarrow> src_state \<Rightarrow> (src_state \<times> sk_buff list \<times> env) option" where
  "tl_receive_skb_src km par e skb s =
     do {
       skb_type \<leftarrow> skb_get 0 skb;
       let s = (if sr_for_init s
                then s\<lparr>sr_tr1_timer := False, sr_list := tr_info_list_init, sr_for_init := False\<rparr> else s);
       if skb_type = tr_code TypeOneTR then
         do {
           daddr \<leftarrow> skb_daddr skb;
           if dev_addr (skb_dev skb) = daddr \<and> \<not> sr_polling s then
             do {
               saddr \<leftarrow> skb_saddr skb;
               s \<leftarrow> receive_tr1 km par skb saddr s;
               Some (s, [], e)
             }
           else Some (s, [], e)
         }
       else if skb_type = tr_code NbrRPT then
         do {
           daddr \<leftarrow> skb_daddr skb;
           saddr \<leftarrow> skb_saddr skb;
           if dev_addr (skb_dev skb) = daddr \<and> sr_polling s \<and> sr_polling_addr s = saddr then
             (case tr_info_find_addr (sr_list s) saddr of
                None \<Rightarrow> Some (s, [], e)
              | Some a \<Rightarrow>
                  do {
                    sa_info \<leftarrow> nl_read a (sr_list s);
                    if ti_tf_cnt sa_info then receive_nbr_rpt km par e skb a s else Some (s, [], e)
                  })
           else Some (s, [], e)
         }
       else Some (s, [], e)
     }"

section \<open>Writing messages\<close>

lemma store_ok:
  assumes "room c s" "i + length bs \<le> c"
  obtains t where "skb_store i bs s = Some t" "same_shape s t" "skb_dev t = skb_dev s"
    "\<And>j. skb_get j t = (if i \<le> j \<and> j < i + length bs then Some (bs ! (j - i)) else skb_get j s)"
proof -
  have r: "room (i + length bs) s" using assms room_mono by blast
  let ?t = "s\<lparr>skb_buf := overwrite (skb_data s + i) bs (skb_buf s)\<rparr>"
  have "length (overwrite (skb_data s + i) bs (skb_buf s)) = length (skb_buf s)"
    using r by (intro length_overwrite) (simp add: room_def)
  then have "same_shape s ?t" by (simp add: same_shape_def)
  with that [of ?t] skb_store_eq [OF r] skb_get_overwrite [OF r] show thesis by simp
qed

lemma set_ok:
  assumes "room c s" "i < c"
  obtains t where "skb_set i v s = Some t" "same_shape s t" "skb_dev t = skb_dev s"
    "\<And>j. skb_get j t = (if j = i then Some v else skb_get j s)"
proof -
  have "i + length [v] \<le> c" using assms(2) by simp
  from store_ok [OF assms(1) this] obtain t where t: "skb_store i [v] s = Some t" "same_shape s t" "skb_dev t = skb_dev s"
    "\<And>j. skb_get j t = (if i \<le> j \<and> j < i + length [v] then Some ([v] ! (j - i)) else skb_get j s)" by blast
  have "skb_set i v s = Some t" using t(1) by (simp add: skb_store_def)
  moreover have "skb_get j t = (if j = i then Some v else skb_get j s)" for j
    unfolding t(4) by auto
  ultimately show thesis using that t(2,3) by blast
qed

text \<open>Allocating a message never fails in the sense of \<open>None\<close>; the header is as requested.\<close>

lemma tl_alloc_skb_ok:
  assumes "HDR < sz"
  shows "\<exists>r e'. tl_alloc_skb e dev daddr saddr sz type = Some (r, e') \<and> (env_alloc e 0 \<longrightarrow> r \<noteq> None) \<and>
    (\<forall>t. r = Some t \<longrightarrow> skb_len t = sz \<and> room sz t \<and> skb_dev t = dev \<and> skb_get HDR t = Some (tr_code type) \<and>
       skb_get 12 t = Some 0x08 \<and> skb_get 13 t = Some 0x11)"
proof (cases "env_alloc e 0")
  case False
  with assms show ?thesis by (simp add: tl_alloc_skb_def dev_alloc_skb_def)
next
  case True
  obtain b e1 where b: "dev_alloc_skb e sz = (Some b, e1)" "skb_len b = 0" "skb_data b = 64" "length (skb_buf b) = 64 + sz"
    using True by (simp add: dev_alloc_skb_def)
  define t0 where "t0 = (skb_reset_network_header (skb_reset_transport_header (b\<lparr>skb_dev := dev, skb_protocol := 0x1180\<rparr>)))\<lparr>skb_len := sz\<rparr>"
  have t0: "skb_put sz (skb_reset_network_header (skb_reset_transport_header (b\<lparr>skb_dev := dev, skb_protocol := 0x1180\<rparr>))) = Some t0"
    "skb_len t0 = sz" "room sz t0" "skb_dev t0 = dev"
    using b by (simp_all add: t0_def skb_reset_network_header_def skb_reset_transport_header_def room_def)
  have sz: "15 \<le> sz" using assms by simp
  obtain t1 where t1: "skb_store 0 (take ETH_ALEN daddr) t0 = Some t1" "same_shape t0 t1" "skb_dev t1 = dev"
    by (rule store_ok [OF t0(3), of 0 "take ETH_ALEN daddr"]) (use sz t0(4) in auto)
  obtain t2 where t2: "skb_store ETH_ALEN (take ETH_ALEN saddr) t1 = Some t2" "same_shape t1 t2" "skb_dev t2 = dev"
    by (rule store_ok [OF room_shape [OF t1(2) t0(3)], of ETH_ALEN "take ETH_ALEN saddr"]) (use sz t1(3) in auto)
  have sh2: "same_shape t0 t2" using t1 t2 same_shape_trans by blast
  obtain t3 where t3: "skb_set 12 0x08 t2 = Some t3" "same_shape t2 t3" "skb_dev t3 = dev"
    "\<And>j. skb_get j t3 = (if j = 12 then Some 0x08 else skb_get j t2)"
    by (rule set_ok [OF room_shape [OF sh2 t0(3)], of 12 "0x08"]) (use sz t2(3) in auto)
  have sh3: "same_shape t0 t3" using sh2 t3 same_shape_trans by blast
  obtain t4 where t4: "skb_set 13 0x11 t3 = Some t4" "same_shape t3 t4" "skb_dev t4 = dev"
    "\<And>j. skb_get j t4 = (if j = 13 then Some 0x11 else skb_get j t3)"
    by (rule set_ok [OF room_shape [OF sh3 t0(3)], of 13 "0x11"]) (use sz t3(3) in auto)
  have sh4: "same_shape t0 t4" using sh3 t4 same_shape_trans by blast
  obtain t5 where t5: "skb_set HDR (tr_code type) t4 = Some t5" "same_shape t4 t5" "skb_dev t5 = dev"
    "\<And>j. skb_get j t5 = (if j = HDR then Some (tr_code type) else skb_get j t4)"
    by (rule set_ok [OF room_shape [OF sh4 t0(3)], of HDR "tr_code type"]) (use sz t4(3) in auto)
  have sh5: "same_shape t0 t5" using sh4 t5 same_shape_trans by blast
  have "tl_alloc_skb e dev daddr saddr sz type = Some (Some t5, e1)"
    unfolding tl_alloc_skb_def Let_def b(1) using assms t0(1) t1(1) t2(1) t3(1) t4(1) t5(1) by simp
  moreover have "skb_len t5 = sz" using sh5 t0(2) by (simp add: same_shape_def)
  moreover have "room sz t5" using room_shape [OF sh5 t0(3)] .
  ultimately show ?thesis using t5(3) by (simp add: t5(4) t4(4) t3(4))
qed

text \<open>A training frame carries its fields.\<close>

lemma send_tf_ok:
  "\<exists>r e'. send_tf dev type k tr_id mcs i e = Some (r, e') \<and> (env_alloc e 0 \<longrightarrow> r \<noteq> None) \<and>
    (\<forall>t. r = Some t \<longrightarrow> skb_len t = TF_SIZE \<and> skb_get HDR t = Some (tr_code type) \<and>
       (\<forall>j<4. skb_get (HDR + 1 + j) t = Some (be32_bytes k ! j) \<and> skb_get (HDR + 5 + j) t = Some (be32_bytes i ! j) \<and>
              skb_get (HDR + 9 + j) t = Some (be32_bytes tr_id ! j)) \<and>
       skb_get (HDR + 13) t = Some mcs \<and> skb_rate_idx t = unat mcs)"
proof -
  have "HDR < TF_SIZE" by simp
  from tl_alloc_skb_ok [OF this, of e dev multicast_addr "dev_addr dev" type] obtain r e1 where
    r: "tl_alloc_skb e dev multicast_addr (dev_addr dev) TF_SIZE type = Some (r, e1)" "env_alloc e 0 \<longrightarrow> r \<noteq> None"
    "\<forall>t. r = Some t \<longrightarrow> skb_len t = TF_SIZE \<and> room TF_SIZE t \<and> skb_dev t = dev \<and> skb_get HDR t = Some (tr_code type)"
    by blast
  show ?thesis
  proof (cases r)
    case None
    with r show ?thesis by (simp add: send_tf_def)
  next
    case (Some t0)
    then have t0: "skb_len t0 = TF_SIZE" "room TF_SIZE t0" "skb_get HDR t0 = Some (tr_code type)" using r(3) by auto
    obtain t1 where t1: "skb_store (HDR + 1) (be32_bytes k) t0 = Some t1" "same_shape t0 t1"
      "\<And>j. skb_get j t1 = (if HDR + 1 \<le> j \<and> j < HDR + 1 + length (be32_bytes k) then Some (be32_bytes k ! (j - (HDR + 1))) else skb_get j t0)"
      by (rule store_ok [OF t0(2), of "HDR + 1" "be32_bytes k"]) auto
    obtain t2 where t2: "skb_store (HDR + 5) (be32_bytes i) t1 = Some t2" "same_shape t1 t2"
      "\<And>j. skb_get j t2 = (if HDR + 5 \<le> j \<and> j < HDR + 5 + length (be32_bytes i) then Some (be32_bytes i ! (j - (HDR + 5))) else skb_get j t1)"
      by (rule store_ok [OF room_shape [OF t1(2) t0(2)], of "HDR + 5" "be32_bytes i"]) auto
    have sh2: "same_shape t0 t2" using t1 t2 same_shape_trans by blast
    obtain t3 where t3: "skb_store (HDR + 9) (be32_bytes tr_id) t2 = Some t3" "same_shape t2 t3"
      "\<And>j. skb_get j t3 = (if HDR + 9 \<le> j \<and> j < HDR + 9 + length (be32_bytes tr_id) then Some (be32_bytes tr_id ! (j - (HDR + 9))) else skb_get j t2)"
      by (rule store_ok [OF room_shape [OF sh2 t0(2)], of "HDR + 9" "be32_bytes tr_id"]) auto
    have sh3: "same_shape t0 t3" using sh2 t3 same_shape_trans by blast
    obtain t4 where t4: "skb_set (HDR + 13) mcs t3 = Some t4" "same_shape t3 t4"
      "\<And>j. skb_get j t4 = (if j = HDR + 13 then Some mcs else skb_get j t3)"
      by (rule set_ok [OF room_shape [OF sh3 t0(2)], of "HDR + 13" mcs]) auto
    have sh4: "same_shape t0 t4" using sh3 t4 same_shape_trans by blast
    obtain bs e2 where bs: "get_random_bytes (TF_SIZE - (HDR + 14)) e1 = (bs, e2)" "length bs = TF_SIZE - (HDR + 14)"
      by (simp add: get_random_bytes_def)
    have le: "HDR + 14 + length bs \<le> TF_SIZE" using bs(2) by simp
    obtain t5 where t5: "skb_store (HDR + 14) bs t4 = Some t5" "same_shape t4 t5"
      "\<And>j. skb_get j t5 = (if HDR + 14 \<le> j \<and> j < HDR + 14 + length bs then Some (bs ! (j - (HDR + 14))) else skb_get j t4)"
      by (rule store_ok [OF room_shape [OF sh4 t0(2)] le]) blast
    have sh5: "same_shape t0 t5" using sh4 t5 same_shape_trans by blast
    let ?t = "t5\<lparr>skb_rate_idx := unat mcs\<rparr>"
    have "send_tf dev type k tr_id mcs i e = Some (Some ?t, e2)"
      unfolding send_tf_def r(1) Some using t1(1) t2(1) t3(1) t4(1) t5(1) bs(1) by simp
    moreover have get: "skb_get j ?t = skb_get j t5" for j by (simp add: skb_get_def head_get_def)
    have "skb_len ?t = TF_SIZE \<and> skb_get HDR ?t = Some (tr_code type) \<and>
       (\<forall>j<4. skb_get (HDR + 1 + j) ?t = Some (be32_bytes k ! j) \<and> skb_get (HDR + 5 + j) ?t = Some (be32_bytes i ! j) \<and>
              skb_get (HDR + 9 + j) ?t = Some (be32_bytes tr_id ! j)) \<and>
       skb_get (HDR + 13) ?t = Some mcs \<and> skb_rate_idx ?t = unat mcs"
      using sh5 t0 unfolding get t5(3) t4(3) t3(3) t2(3) t1(3) by (auto simp: same_shape_def)
    ultimately show ?thesis using r(2) by blast
  qed
qed

lemma send_tfs_ok:
  "\<exists>out e'. send_tfs dev type k tr_id mcs e = Some (out, e') \<and> length out \<le> unat k \<and>
    (\<forall>t\<in>set out. skb_len t = TF_SIZE \<and> skb_get HDR t = Some (tr_code type) \<and> skb_get (HDR + 13) t = Some mcs)"
proof -
  let ?P = "\<lambda>q (out, e'). length out \<le> q \<and>
    (\<forall>t\<in>set out. skb_len t = TF_SIZE \<and> skb_get HDR t = Some (tr_code type) \<and> skb_get (HDR + 13) t = Some mcs)"
  have "\<exists>s'. send_tfs dev type k tr_id mcs e = Some s' \<and> ?P (unat k) s'"
    unfolding send_tfs_def
  proof (rule foldo_upt_rule [where P = ?P], goal_cases)
    case (3 q s)
    obtain out e' where s: "s = (out, e')" by fastforce
    obtain r e2 where r: "send_tf dev type k tr_id mcs (of_nat q) e' = Some (r, e2)"
      "\<forall>t. r = Some t \<longrightarrow> skb_len t = TF_SIZE \<and> skb_get HDR t = Some (tr_code type) \<and> skb_get (HDR + 13) t = Some mcs"
      using send_tf_ok [of dev type k tr_id mcs "of_nat q" e'] by blast
    then show ?case using 3 by (cases r) (auto simp: s)
  qed auto
  then show ?thesis by auto
qed

section \<open>Invariant of the training list\<close>

definition addrs_of :: "'n tr_info_t nlist \<Rightarrow> mac list" where
  "addrs_of l = map (ti_addr \<circ> snd) l"

definition info_ok :: "tr_info \<Rightarrow> bool" where
  "info_ok info \<longleftrightarrow> length (ti_rcv_num info) = NUM_MCS \<and> nl_ok (ti_nbr_list info) \<and> distinct (nbr_addrs info)"

definition list_inv :: "tr_info_list \<Rightarrow> bool" where
  "list_inv l \<longleftrightarrow> nl_ok l \<and> distinct (addrs_of l) \<and> (\<forall>p\<in>set l. info_ok (snd p))"

lemma nl_modify_Some:
  "nl_modify a f l = Some l' \<longleftrightarrow>
     a \<in> set (nl_addrs l) \<and> l' = map (\<lambda>(b, v). (b, if b = a then f v else v)) l"
  by (auto simp: nl_modify_def)

lemma nl_read_map: "nl_read b (map (\<lambda>(b, v). (b, g b v)) l) = map_option (g b) (nl_read b l)"
  by (induction l) (auto simp: nl_read_def)

lemma nl_read_in: "b \<in> set (nl_addrs l) \<Longrightarrow> \<exists>v. nl_read b l = Some v"
  by (auto simp: nl_read_def nl_addrs_def dest: weak_map_of_SomeI)

lemma nl_read_SomeD: "nl_read b l = Some v \<Longrightarrow> (b, v) \<in> set l \<and> b \<in> set (nl_addrs l)"
  by (force simp: nl_read_def nl_addrs_def dest: map_of_SomeD)

lemma addrs_of_map:
  "(\<And>b v. ti_addr (g b v) = ti_addr v) \<Longrightarrow> addrs_of (map (\<lambda>(b, v). (b, g b v)) l) = addrs_of l"
  by (induction l) (auto simp: addrs_of_def)

lemma list_inv_Nil [simp]: "list_inv []"
  by (simp add: list_inv_def addrs_of_def)

lemma list_inv_modify:
  assumes "list_inv l" and "nl_modify a f l = Some l'"
    and "\<And>v. ti_addr (f v) = ti_addr v" and "\<And>v. info_ok v \<Longrightarrow> info_ok (f v)"
  shows "list_inv l'"
proof -
  have l': "l' = map (\<lambda>(b, v). (b, if b = a then f v else v)) l" using assms(2) by (simp add: nl_modify_Some)
  have "addrs_of l' = addrs_of l" unfolding l' by (rule addrs_of_map) (simp add: assms(3))
  moreover have "info_ok (snd p)" if "p \<in> set l'" for p
    using that assms(1,4) by (auto simp: l' list_inv_def)
  ultimately show ?thesis using assms(1) by (simp add: list_inv_def l' nl_ok_def)
qed

lemma info_ok_flags [simp]:
  "info_ok (info\<lparr>ti_tf_cnt := b\<rparr>) = info_ok info"
  "info_ok (info\<lparr>ti_nr_cnt := c\<rparr>) = info_ok info"
  by (simp_all add: info_ok_def nbr_addrs_def)

lemma del_first_nbr_addrs_sub: "x \<in> set (nl_addrs (del_first_nbr addr l)) \<Longrightarrow> x \<in> set (nl_addrs l)"
  by (induction l) (auto split: if_splits)

lemma del_first_nbr_ok: "nl_ok l \<Longrightarrow> nl_ok (del_first_nbr addr l)"
  by (induction l) (auto simp: nl_ok_def dest: del_first_nbr_addrs_sub)

lemma list_inv_del_nbr: "list_inv l \<Longrightarrow> list_inv (tr_info_list_del_nbr addr l)"
proof -
  assume inv: "list_inv l"
  let ?g = "\<lambda>a info. if addr \<noteq> ti_addr info
      then info\<lparr>ti_nbr_list := del_first_nbr addr (ti_nbr_list info)\<rparr> else info"
  have eq: "tr_info_list_del_nbr addr l = map (\<lambda>(b, v). (b, ?g b v)) l"
    by (simp add: tr_info_list_del_nbr_def)
  have "addrs_of (map (\<lambda>(b, v). (b, ?g b v)) l) = addrs_of l" by (rule addrs_of_map) simp
  moreover have "info_ok (?g b v)" if "info_ok v" for b v
    using that by (auto simp: info_ok_def nbr_addrs_def del_first_nbr_addrs del_first_nbr_ok distinct_remove1)
  ultimately show ?thesis
    using inv unfolding eq by (auto simp: list_inv_def nl_ok_def)
qed

lemma list_inv_select_relay: "list_inv l \<Longrightarrow> list_inv (tl_select_relay par l)"
proof -
  have "list_inv (fold (\<lambda>(a, info) l. if tr_get_tf_thre par \<le> ti_rcv_num info ! 0
                            then tr_info_list_del_nbr (ti_addr info) l else l) ks l)" if "list_inv l" for ks l :: tr_info_list
    using that by (induction ks arbitrary: l) (auto simp: list_inv_del_nbr)
  then show "list_inv l \<Longrightarrow> list_inv (tl_select_relay par l)"
    by (simp add: tl_select_relay_def Let_def tr_info_list_arrangement_def mnp_relay_def min_max_relay_def)
qed

section \<open>Invariant of the source\<close>

text \<open>While a poll is outstanding its timer points to the polled node, which is in the list, has
  been sent \<open>SendTF\<close> and has not reported; no report of the first hop is accepted.\<close>

definition poll_inv :: "src_state \<Rightarrow> bool" where
  "poll_inv s \<longleftrightarrow>
     (case sr_sndtf_timer s of
        None \<Rightarrow> True
      | Some a \<Rightarrow> sr_polling s \<and>
          (case nl_read a (sr_list s) of
             None \<Rightarrow> False
           | Some info \<Rightarrow> ti_tf_cnt info \<and> \<not> ti_nr_cnt info \<and> sr_polling_addr s = ti_addr info))"

lemma poll_inv_cong:
  "sr_sndtf_timer s' = sr_sndtf_timer s \<Longrightarrow> sr_polling s' = sr_polling s \<Longrightarrow> sr_list s' = sr_list s \<Longrightarrow>
   sr_polling_addr s' = sr_polling_addr s \<Longrightarrow> poll_inv s' = poll_inv s"
  unfolding poll_inv_def by (simp only:)

definition mcs_inv :: "src_state \<Rightarrow> bool" where
  "mcs_inv s \<longleftrightarrow> unat (sr_mcs s) < NUM_MCS \<and> (sr_mcs s = 0 \<longrightarrow> sr_mcs_timer s = None)"

definition src_inv :: "src_state \<Rightarrow> bool" where
  "src_inv s \<longleftrightarrow> list_inv (sr_list s) \<and> (sr_polling s \<longrightarrow> \<not> sr_tr1_timer s) \<and> poll_inv s \<and> mcs_inv s \<and>
     (sr_for_init s \<longrightarrow> sr_list s = [] \<and> \<not> sr_tr1_timer s)"

lemma src_inv_init: "src_inv src_init"
  by (simp add: src_inv_def src_init_def list_inv_def addrs_of_def poll_inv_def mcs_inv_def)

lemma purge_Nil [simp]: "tr_info_list_purge l = []"
  by (induction l rule: tr_info_list_purge.induct) auto

lemma mcs_step:
  assumes "mcs_inv s"
  shows "\<exists>s' out e'. tl_mcs_send_timer_func par e s = Some (s', out, e') \<and> mcs_inv s' \<and> sr_list s' = sr_list s \<and>
    sr_polling s' = sr_polling s \<and> sr_polling_addr s' = sr_polling_addr s \<and> sr_tr1_timer s' = sr_tr1_timer s \<and>
    sr_sndtf_timer s' = sr_sndtf_timer s \<and> sr_for_init s' = sr_for_init s"
proof -
  obtain s1 e1 where s1: "(if sr_mcs s = 0 then
           (let (tr_id, e) = draw_tr_id (sr_last_tr_id s) e
            in (s\<lparr>sr_mcs_timer := None, sr_tr_id := tr_id, sr_last_tr_id := tr_id\<rparr>, e))
         else (s, e)) = (s1, e1)" "sr_mcs s1 = sr_mcs s" "sr_list s1 = sr_list s"
    "sr_polling s1 = sr_polling s" "sr_polling_addr s1 = sr_polling_addr s" "sr_tr1_timer s1 = sr_tr1_timer s"
    "sr_sndtf_timer s1 = sr_sndtf_timer s" "sr_for_init s1 = sr_for_init s"
    by (cases "sr_mcs s = 0") (auto simp: Let_def case_prod_beta)
  obtain out e2 where out: "send_tfs (sr_dev_send s1) TypeOneTF (tr_get_tf_k par) (sr_tr_id s1) (sr_mcs s1) e1 = Some (out, e2)"
    using send_tfs_ok [of "sr_dev_send s1" TypeOneTF "tr_get_tf_k par" "sr_tr_id s1" "sr_mcs s1" e1] by blast
  have m: "unat (sr_mcs s) < 8" using assms by (simp add: mcs_inv_def)
  show ?thesis
  proof (cases "sr_mcs s < of_nat NUM_MCS - 1")
    case True
    then have m7: "unat (sr_mcs s) < 7" by (simp add: word_less_nat_alt)
    then have suc: "unat (sr_mcs s + 1) = unat (sr_mcs s) + 1" by (simp add: unat_word_ariths)
    have t: "cal_tx_time (sr_mcs s1) (ucast (tr_get_tf_k par)) (of_nat TF_SIZE) \<noteq> None"
      using m7 s1(2) by (simp add: cal_tx_time_def WLAN_MODE_def rate11g_def Let_def)
    then obtain t where t: "cal_tx_time (sr_mcs s1) (ucast (tr_get_tf_k par)) (of_nat TF_SIZE) = Some t" by blast
    have nz: "sr_mcs s + 1 \<noteq> 0" using suc by (metis add_is_0 one_neq_zero unat_0)
    show ?thesis
      using True s1 out t suc m7 nz
      by (simp add: tl_mcs_send_timer_func_def Let_def mcs_inv_def)
  next
    case False
    then show ?thesis
      using s1 out by (simp add: tl_mcs_send_timer_func_def Let_def mcs_inv_def)
  qed
qed

lemma src_inv_start:
  assumes "src_inv s" "tl_start_check par e skb s = Some (b, par', s', out, e')"
  shows "src_inv s'"
proof (cases "s' = s")
  case False
  from assms(2) False obtain d where pol: "\<not> sr_polling s" and
    call: "tl_mcs_send_timer_func par' e (s\<lparr>sr_dev_send := skb_dev skb, sr_list := []\<rparr>) = Some (s', out, e')"
    by (auto simp: tl_start_check_def Let_def split: if_splits)
  let ?s = "s\<lparr>sr_dev_send := skb_dev skb, sr_list := []\<rparr>"
  have "mcs_inv ?s" using assms(1) by (simp add: src_inv_def mcs_inv_def)
  from mcs_step [OF this, of par' e] call have "mcs_inv s'" "sr_list s' = []" "\<not> sr_polling s'" "sr_sndtf_timer s' = sr_sndtf_timer s"
      "sr_for_init s' = sr_for_init s" "sr_tr1_timer s' = sr_tr1_timer s"
    using pol by auto
  moreover have "sr_sndtf_timer s = None" "sr_for_init s \<longrightarrow> \<not> sr_tr1_timer s"
    using assms(1) pol by (auto simp: src_inv_def poll_inv_def split: option.splits)
  ultimately show ?thesis by (simp add: src_inv_def poll_inv_def)
qed (use assms in simp)

text \<open>The polling loop, started with no poll outstanding.\<close>

lemma tr1_loop_ok:
  assumes "list_inv (sr_list s)" "set as \<subseteq> set (nl_addrs (sr_list s))" "sr_polling s" "\<not> sr_tr1_timer s"
    "sr_sndtf_timer s = None" "mcs_inv s" "\<not> sr_for_init s"
  shows "\<exists>s' out e'. tr1_loop par as e s = Some (s', out, e') \<and> src_inv s'"
  using assms
proof (induction as arbitrary: e s)
  case Nil
  then show ?case by (simp add: src_inv_def poll_inv_def)
next
  case (Cons a as)
  note inv = Cons.prems
  have a: "a \<in> set (nl_addrs (sr_list s))" "set as \<subseteq> set (nl_addrs (sr_list s))" using inv(2) by auto
  obtain info where info: "nl_read a (sr_list s) = Some info" using a nl_read_in by fastforce
  note again = Cons.IH [OF inv(1) a(2) inv(3-7)]
  show ?case
  proof (cases "ti_tf_cnt info")
    case True
    with info again [of e] show ?thesis by simp
  next
    case todo: False
    show ?thesis
    proof (cases "tr_get_tf_thre par \<le> ti_rcv_num info ! 0")
      case poll: True
      have "HDR < SNDTF_SIZE" by simp
      from tl_alloc_skb_ok [OF this, of e "ti_dev info" "ti_addr info" "dev_addr (ti_dev info)" SendTF]
      obtain r e1 where r: "tl_alloc_skb e (ti_dev info) (ti_addr info) (dev_addr (ti_dev info)) SNDTF_SIZE SendTF = Some (r, e1)"
        "\<And>t. r = Some t \<Longrightarrow> room SNDTF_SIZE t" by blast
      show ?thesis
      proof (cases r)
        case None
        with info todo poll r again [of e1] show ?thesis by simp
      next
        case (Some t)
        obtain t1 where t1: "skb_store (HDR + 1) (be32_bytes (tr_get_tf_k par)) t = Some t1"
          by (rule store_ok [OF r(2) [OF Some], of "HDR + 1" "be32_bytes (tr_get_tf_k par)"]) auto
        obtain l where l: "nl_modify a (\<lambda>info. info\<lparr>ti_tf_cnt := True, ti_nr_cnt := False\<rparr>) (sr_list s) = Some l"
          using a by (simp add: nl_modify_def)
        let ?s = "s\<lparr>sr_polling_addr := ti_addr info, sr_list := l, sr_sndtf_timer := Some a\<rparr>"
        have "list_inv l" by (rule list_inv_modify [OF inv(1) l]) simp_all
        moreover have "nl_read a l = Some (info\<lparr>ti_tf_cnt := True, ti_nr_cnt := False\<rparr>)"
          using l info by (simp add: nl_modify_Some nl_read_map)
        ultimately have "src_inv ?s"
          using inv by (simp add: src_inv_def poll_inv_def mcs_inv_def)
        moreover have "tr1_loop par (a # as) e s = Some (?s, [t1], e1)"
          using info todo poll r(1) Some t1 l by simp
        ultimately show ?thesis by blast
      qed
    next
      case skip: False
      obtain l where l: "nl_modify a (\<lambda>info. info\<lparr>ti_tf_cnt := True, ti_nr_cnt := True\<rparr>) (sr_list s) = Some l"
        using a by (simp add: nl_modify_def)
      have li: "list_inv l" by (rule list_inv_modify [OF inv(1) l]) simp_all
      show ?thesis
      proof (cases "tr_info_check_nr_cnt l")
        case True
        have "src_inv (s\<lparr>sr_list := l, sr_polling := False, sr_list := tl_select_relay par l\<rparr>)"
          using inv li list_inv_select_relay by (simp add: src_inv_def poll_inv_def mcs_inv_def)
        with info todo skip l True show ?thesis by (simp add: Let_def)
      next
        case False
        have "set as \<subseteq> set (nl_addrs l)" using a l by (simp add: nl_modify_Some)
        with Cons.IH [of "s\<lparr>sr_list := l\<rparr>" e] inv li info todo skip l False show ?thesis
          by (simp add: Let_def mcs_inv_def)
      qed
    qed
  qed
qed

lemma tr1_fire_ok:
  assumes "list_inv (sr_list s)" "\<not> sr_tr1_timer s" "sr_sndtf_timer s = None" "mcs_inv s" "\<not> sr_for_init s"
  shows "\<exists>s' out e'. tl_rx_tr1_timer_func par e s = Some (s', out, e') \<and> src_inv s'"
  unfolding tl_rx_tr1_timer_func_def
  using tr1_loop_ok [of "s\<lparr>sr_polling := True\<rparr>" "nl_addrs (sr_list s)" par e] assms by (simp add: mcs_inv_def)

lemma poll_done_ok:
  assumes "list_inv (sr_list s)" "\<not> sr_tr1_timer s" "sr_sndtf_timer s = None" "mcs_inv s" "\<not> sr_for_init s"
  shows "\<exists>s' out e'. poll_done par e s = Some (s', out, e') \<and> src_inv s'"
proof (cases "tr_info_check_nr_cnt (sr_list s)")
  case True
  with assms list_inv_select_relay show ?thesis
    by (simp add: poll_done_def src_inv_def poll_inv_def mcs_inv_def)
next
  case False
  with tr1_fire_ok [OF assms] show ?thesis by (simp add: poll_done_def)
qed

lemma src_inv_sndtf:
  assumes "src_inv s" "sr_sndtf_timer s = Some a"
  shows "\<exists>s' out e'. tl_rx_sndtf_timer_func par e a (s\<lparr>sr_sndtf_timer := None\<rparr>) = Some (s', out, e') \<and> src_inv s'"
proof -
  obtain info where info: "nl_read a (sr_list s) = Some info" "ti_tf_cnt info"
    using assms by (auto simp: src_inv_def poll_inv_def split: option.splits)
  obtain l where l: "nl_modify a (\<lambda>info. info\<lparr>ti_nr_cnt := True\<rparr>) (sr_list s) = Some l"
    using nl_read_SomeD [OF info(1)] by (simp add: nl_modify_def)
  have "list_inv l" by (rule list_inv_modify [OF _ l]) (use assms in \<open>simp_all add: src_inv_def\<close>)
  moreover have "\<not> sr_for_init s" using assms(1) info by (auto simp: src_inv_def nl_read_def)
  moreover have "\<not> sr_tr1_timer s" "mcs_inv s" using assms by (auto simp: src_inv_def poll_inv_def split: option.splits)
  ultimately show ?thesis
    using poll_done_ok [of "s\<lparr>sr_sndtf_timer := None, sr_list := l\<rparr>" par e] info l
    by (simp add: tl_rx_sndtf_timer_func_def mcs_inv_def)
qed

lemma src_inv_tr1:
  assumes "src_inv s" "sr_tr1_timer s"
  shows "\<exists>s' out e'. tl_rx_tr1_timer_func par e (s\<lparr>sr_tr1_timer := False\<rparr>) = Some (s', out, e') \<and> src_inv s'"
proof -
  have "\<not> sr_polling s" using assms by (auto simp: src_inv_def)
  then have "sr_sndtf_timer s = None" using assms(1) by (auto simp: src_inv_def poll_inv_def split: option.splits)
  with assms show ?thesis
    by (intro tr1_fire_ok) (simp_all add: src_inv_def mcs_inv_def)
qed

lemma src_inv_mcs:
  assumes "src_inv s" "sr_mcs_timer s = Some t"
  shows "\<exists>s' out e'. tl_mcs_send_timer_func par e (s\<lparr>sr_mcs_timer := None\<rparr>) = Some (s', out, e') \<and> src_inv s'"
proof -
  have "mcs_inv (s\<lparr>sr_mcs_timer := None\<rparr>)" using assms by (simp add: src_inv_def mcs_inv_def)
  from mcs_step [OF this, of par e] obtain s' out e' where
    s': "tl_mcs_send_timer_func par e (s\<lparr>sr_mcs_timer := None\<rparr>) = Some (s', out, e')" "mcs_inv s'"
    "sr_list s' = sr_list s" "sr_polling s' = sr_polling s" "sr_polling_addr s' = sr_polling_addr s"
    "sr_tr1_timer s' = sr_tr1_timer s" "sr_sndtf_timer s' = sr_sndtf_timer s" "sr_for_init s' = sr_for_init s" by auto
  then have "src_inv s'" using assms(1) poll_inv_cong [of s' s] by (simp add: src_inv_def)
  with s'(1) show ?thesis by blast
qed


section \<open>Receiving keeps the invariant\<close>

lemma load_length: "skb_load i n s = Some bs \<Longrightarrow> length bs = n"
  by (simp add: skb_load_iff)

lemma head_load_length: "head_load i n s = Some bs \<Longrightarrow> length bs = n"
  by (auto simp: head_load_def those_Some_iff dest!: arg_cong [where f = length])

lemma load_rcv_length: "load_rcv i s = Some ns \<Longrightarrow> length ns = NUM_MCS"
  by (auto simp: load_rcv_def those_Some_iff dest!: arg_cong [where f = length])

lemma find_addr_None: "tr_info_find_addr l addr = None \<longleftrightarrow> addr \<notin> set (addrs_of l)"
  by (auto simp: tr_info_find_addr_def nl_find_None addrs_of_def)

lemma find_addr_Some: "tr_info_find_addr l addr = Some a \<Longrightarrow> a \<in> set (nl_addrs l)"
  unfolding tr_info_find_addr_def by (erule nl_find_Some) simp

lemma addrs_of_insert [simp]: "addrs_of (tr_info_insert a v l) = addrs_of l @ [ti_addr v]"
  by (simp add: addrs_of_def tr_info_insert_def nl_insert_def)

lemma addrs_of_modify:
  "nl_modify a f l = Some l' \<Longrightarrow> (\<And>v. ti_addr (f v) = ti_addr v) \<Longrightarrow> addrs_of l' = addrs_of l"
  by (simp add: nl_modify_Some addrs_of_map)

lemma nl_ok_modify: "nl_modify a f l = Some l' \<Longrightarrow> nl_ok l \<Longrightarrow> nl_ok l'"
  by (simp add: nl_modify_Some nl_ok_def)

lemma receive_nbr_inv:
  assumes km: "kmalloc_fresh km" and l: "nl_ok l" "distinct (addrs_of l)" and r: "receive_nbr km skb k i l = Some l'"
  shows "nl_ok l' \<and> distinct (addrs_of l')"
proof -
  obtain addr rssi batt n where get: "skb_load (i * (ETH_ALEN + 2 + 4 * NUM_MCS) + 6) ETH_ALEN skb = Some addr"
    "load_rcv (i * (ETH_ALEN + 2 + 4 * NUM_MCS) + 6 + ETH_ALEN + 2) skb = Some n" and
    upd: "(case tr_info_find_addr l addr of
         None \<Rightarrow>
           do {
             a \<leftarrow> km (nl_addrs l);
             Some (tr_info_insert a (tr_info_create () addr (skb_dev skb) k n rssi batt) l)
           }
       | Some a \<Rightarrow>
           nl_modify a (\<lambda>info. info\<lparr>ti_total_num := k, ti_rcv_num := n, ti_rssi := rssi, ti_batt := batt,
             ti_dev := skb_dev skb\<rparr>) l) = Some l'"
    using r by (auto simp: receive_nbr_def Let_def)
  have len: "length addr = 6" using load_length [OF get(1)] by simp
  show ?thesis
  proof (cases "tr_info_find_addr l addr")
    case None
    with upd obtain a where a: "km (nl_addrs l) = Some a"
      "l' = tr_info_insert a (tr_info_create () addr (skb_dev skb) k n rssi batt) l" by auto
    have "a \<notin> set (nl_addrs l)" using km a(1) by (simp add: kmalloc_fresh_def)
    with None l len a(2) show ?thesis
      by (simp add: find_addr_None tr_info_create_def) (simp add: tr_info_insert_def)
  next
    case (Some a)
    with upd have m: "nl_modify a (\<lambda>info. info\<lparr>ti_total_num := k, ti_rcv_num := n, ti_rssi := rssi, ti_batt := batt,
             ti_dev := skb_dev skb\<rparr>) l = Some l'" by simp
    show ?thesis using addrs_of_modify [OF m] nl_ok_modify [OF m l(1)] l(2) by simp
  qed
qed

lemma receive_nbrs_inv:
  assumes km: "kmalloc_fresh km"
  shows "foldo (receive_nbr km skb k) js l = Some l' \<Longrightarrow> nl_ok l \<Longrightarrow> distinct (addrs_of l) \<Longrightarrow>
    nl_ok l' \<and> distinct (addrs_of l')"
proof (induction js arbitrary: l)
  case (Cons i js)
  from Cons.prems(1) obtain l1 where "receive_nbr km skb k i l = Some l1" "foldo (receive_nbr km skb k) js l1 = Some l'"
    by auto
  with receive_nbr_inv [OF km Cons.prems(2,3)] Cons.IH show ?case by blast
qed simp

lemma nbr_addrs_addrs_of: "nbr_addrs info = addrs_of (ti_nbr_list info)"
  by (simp add: nbr_addrs_def addrs_of_def)

lemma receive_tr1_inv:
  assumes km: "kmalloc_fresh km" and inv: "src_inv s" "\<not> sr_polling s" "\<not> sr_for_init s" and saddr: "length saddr = 6"
    and r: "receive_tr1 km par skb saddr s = Some s'"
  shows "src_inv s'"
proof -
  obtain rssi batt n l where n: "load_rcv 3 skb = Some n" and s': "s' = s\<lparr>sr_list := l, sr_tr1_timer := True\<rparr>" and
    upd: "(case tr_info_find_addr (sr_list s) saddr of
               None \<Rightarrow>
                 do {
                   a \<leftarrow> km (nl_addrs (sr_list s));
                   Some (tr_info_insert a (tr_info_create [] saddr (skb_dev skb) (tr_get_tf_k par) n rssi batt)
                           (sr_list s))
                 }
             | Some a \<Rightarrow>
                 nl_modify a (\<lambda>info. info\<lparr>ti_dev := skb_dev skb, ti_total_num := tr_get_tf_k par,
                   ti_rcv_num := n, ti_rssi := rssi, ti_batt := batt, ti_tf_cnt := False, ti_nr_cnt := False,
                   ti_nbr_list := tr_info_list_purge (ti_nbr_list info)\<rparr>) (sr_list s)) = Some l"
    using r by (auto simp: receive_tr1_def)
  have li: "list_inv (sr_list s)" using inv(1) by (simp add: src_inv_def)
  have len: "length n = 8" using load_rcv_length [OF n] by simp
  have "list_inv l"
  proof (cases "tr_info_find_addr (sr_list s) saddr")
    case None
    with upd obtain a where a: "km (nl_addrs (sr_list s)) = Some a"
      "l = tr_info_insert a (tr_info_create [] saddr (skb_dev skb) (tr_get_tf_k par) n rssi batt) (sr_list s)" by auto
    have "a \<notin> set (nl_addrs (sr_list s))" using km a(1) by (simp add: kmalloc_fresh_def)
    then have "nl_ok l" using li by (simp add: a(2) tr_info_insert_def list_inv_def)
    moreover have "distinct (addrs_of l)"
      using None li saddr by (simp add: a(2) find_addr_None tr_info_create_def list_inv_def)
    moreover have "info_ok (tr_info_create [] saddr (skb_dev skb) (tr_get_tf_k par) n rssi batt)"
      using len by (simp add: info_ok_def tr_info_create_def nbr_addrs_def)
    ultimately show ?thesis using li by (auto simp: list_inv_def a(2) tr_info_insert_def nl_insert_def)
  next
    case (Some a)
    with upd have m: "nl_modify a (\<lambda>info. info\<lparr>ti_dev := skb_dev skb, ti_total_num := tr_get_tf_k par,
                   ti_rcv_num := n, ti_rssi := rssi, ti_batt := batt, ti_tf_cnt := False, ti_nr_cnt := False,
                   ti_nbr_list := tr_info_list_purge (ti_nbr_list info)\<rparr>) (sr_list s) = Some l" by simp
    show ?thesis by (rule list_inv_modify [OF li m]) (auto simp: info_ok_def nbr_addrs_def len)
  qed
  moreover have "sr_sndtf_timer s = None" using inv by (auto simp: src_inv_def poll_inv_def split: option.splits)
  ultimately show ?thesis using inv by (simp add: s' src_inv_def poll_inv_def mcs_inv_def)
qed

lemma receive_nbr_rpt_inv:
  assumes km: "kmalloc_fresh km" and inv: "src_inv s" "sr_polling s" "\<not> sr_for_init s"
    and r: "receive_nbr_rpt km par e skb a s = Some (s', out, e')"
  shows "src_inv s'"
proof -
  obtain k m info nbrs l where info: "nl_read a (sr_list s) = Some info" and
    nbrs: "foldo (receive_nbr km skb k) [0..<m] (ti_nbr_list info) = Some nbrs" and
    l: "nl_modify a (\<lambda>info. info\<lparr>ti_nr_cnt := True, ti_nbr_list := nbrs\<rparr>) (sr_list s) = Some l" and
    fin: "poll_done par e (s\<lparr>sr_list := l, sr_sndtf_timer := None\<rparr>) = Some (s', out, e')"
    using r by (auto simp: receive_nbr_rpt_def)
  have li: "list_inv (sr_list s)" and tr1: "\<not> sr_tr1_timer s" and mcs: "mcs_inv s" using inv by (auto simp: src_inv_def)
  have "info_ok info" using li nl_read_SomeD [OF info] by (auto simp: list_inv_def)
  then have "nl_ok nbrs \<and> distinct (addrs_of nbrs)"
    using receive_nbrs_inv [OF km nbrs] by (simp add: info_ok_def nbr_addrs_addrs_of)
  then have "list_inv l"
    by (intro list_inv_modify [OF li l]) (simp_all add: info_ok_def nbr_addrs_addrs_of)
  then show ?thesis
    using poll_done_ok [of "s\<lparr>sr_list := l, sr_sndtf_timer := None\<rparr>" par e] tr1 mcs inv(3) fin by (simp add: mcs_inv_def)
qed

lemma src_inv_receive:
  assumes km: "kmalloc_fresh km" and inv: "src_inv s" and r: "tl_receive_skb_src km par e skb s = Some (s', out, e')"
  shows "src_inv s'"
proof -
  let ?s = "if sr_for_init s then s\<lparr>sr_tr1_timer := False, sr_list := tr_info_list_init, sr_for_init := False\<rparr> else s"
  have s: "src_inv ?s" "\<not> sr_for_init ?s"
    using inv by (auto simp: src_inv_def tr_info_list_init_def poll_inv_def nl_read_def mcs_inv_def split: option.splits)
  from r consider "s' = ?s" |
      (tr1) saddr where "skb_saddr skb = Some saddr" "\<not> sr_polling ?s" "receive_tr1 km par skb saddr ?s = Some s'" |
      (rpt) a where "sr_polling ?s" "receive_nbr_rpt km par e skb a ?s = Some (s', out, e')"
    unfolding tl_receive_skb_src_def Let_def
    by (auto split: if_splits option.splits)
  then show ?thesis
  proof cases
    case tr1
    have "length saddr = 6" using tr1(1) head_load_length by (fastforce simp: skb_saddr_def)
    then show ?thesis using receive_tr1_inv [OF km s(1) tr1(2) s(2) _ tr1(3)] by blast
  next
    case rpt
    then show ?thesis using receive_nbr_rpt_inv [OF km s(1) rpt(1) s(2) rpt(2)] by blast
  qed (use s in simp)
qed

section \<open>The source as a transition system\<close>

text \<open>One step is a start packet, a received training message, or a pending timer that fires (it is
  no longer pending when its function runs). The parameters may change between steps.\<close>

inductive src_step :: "kmalloc \<Rightarrow> tr_param \<times> src_state \<Rightarrow> tr_param \<times> src_state \<Rightarrow> bool" for km where
  start: "tl_start_check par e skb s = Some (b, par', s', out, e') \<Longrightarrow> src_step km (par, s) (par', s')"
| receive: "tl_receive_skb_src km par e skb s = Some (s', out, e') \<Longrightarrow> src_step km (par, s) (par, s')"
| tr1_timer: "sr_tr1_timer s \<Longrightarrow> tl_rx_tr1_timer_func par e (s\<lparr>sr_tr1_timer := False\<rparr>) = Some (s', out, e') \<Longrightarrow>
    src_step km (par, s) (par, s')"
| sndtf_timer: "sr_sndtf_timer s = Some a \<Longrightarrow>
    tl_rx_sndtf_timer_func par e a (s\<lparr>sr_sndtf_timer := None\<rparr>) = Some (s', out, e') \<Longrightarrow> src_step km (par, s) (par, s')"
| mcs_timer: "sr_mcs_timer s = Some t \<Longrightarrow>
    tl_mcs_send_timer_func par e (s\<lparr>sr_mcs_timer := None\<rparr>) = Some (s', out, e') \<Longrightarrow> src_step km (par, s) (par, s')"
| set_param: "src_step km (par, s) (par', s)"

inductive_cases src_stepE: "src_step km (par, s) (par', s')"

inductive src_reachable :: "kmalloc \<Rightarrow> tr_param \<times> src_state \<Rightarrow> bool" for km where
  init: "src_reachable km (param_init, src_init)"
| step: "src_reachable km c \<Longrightarrow> src_step km c c' \<Longrightarrow> src_reachable km c'"

lemma src_step_inv:
  assumes km: "kmalloc_fresh km" and st: "src_step km c c'" and inv: "src_inv (snd c)"
  shows "src_inv (snd c')"
  using st inv
proof (cases rule: src_step.cases)
  case (start par e skb s b par' s' out e')
  with inv src_inv_start show ?thesis by auto
next
  case (receive par e skb s s' out e')
  with inv src_inv_receive [OF km] show ?thesis by auto
next
  case (tr1_timer s par e s' out e')
  with inv src_inv_tr1 [of s par e] show ?thesis by auto
next
  case (sndtf_timer s a par e s' out e')
  with inv src_inv_sndtf [of s a par e] show ?thesis by auto
next
  case (mcs_timer s t par e s' out e')
  with inv src_inv_mcs [of s t par e] show ?thesis by auto
qed simp

lemma src_reachable_inv: "src_reachable km c \<Longrightarrow> kmalloc_fresh km \<Longrightarrow> src_inv (snd c)"
  by (induction rule: src_reachable.induct) (auto simp: src_inv_init intro: src_step_inv)

section \<open>A source that polls nobody\<close>

definition stuck :: "src_state \<Rightarrow> bool" where
  "stuck s \<longleftrightarrow> sr_polling s \<and> sr_list s = [] \<and> sr_sndtf_timer s = None \<and> \<not> sr_tr1_timer s \<and> \<not> sr_for_init s \<and> mcs_inv s"

lemma stuck_mcs:
  assumes "stuck s" "tl_mcs_send_timer_func par e (s\<lparr>sr_mcs_timer := None\<rparr>) = Some (s', out, e')"
  shows "stuck s'"
proof -
  have "mcs_inv (s\<lparr>sr_mcs_timer := None\<rparr>)" using assms(1) by (simp add: stuck_def mcs_inv_def)
  from mcs_step [OF this, of par e] assms show ?thesis by (auto simp: stuck_def)
qed

lemma stuck_step:
  assumes "src_step km c c'" "stuck (snd c)"
  shows "stuck (snd c')"
  using assms
proof (cases rule: src_step.cases)
  case (start par e skb s b par' s' out e')
  then have "s' = s" using assms(2) by (auto simp: tl_start_check_def stuck_def split: if_splits)
  with start assms(2) show ?thesis by simp
next
  case (receive par e skb s s' out e')
  then have "s' = s"
    using assms(2) by (auto simp: tl_receive_skb_src_def stuck_def Let_def tr_info_find_addr_def nl_find_def split: if_splits)
  with receive assms(2) show ?thesis by simp
next
  case (mcs_timer s t par e s' out e')
  with assms(2) stuck_mcs show ?thesis by auto
qed (auto simp: stuck_def)

section \<open>Properties\<close>

text \<open>C29. Invariant of the source: in every reachable state the nodes of the training list are
  distinct and have distinct addresses, every record has eight counters and a neighbour list with
  distinct addresses; while polling no first-hop timer is pending; and an outstanding poll timer
  points to a node of the list that has been polled and has not answered.\<close>

theorem src_invariant:
  assumes "src_reachable km (par, s)" and "kmalloc_fresh km"
  shows "src_inv s"
  using src_reachable_inv [OF assms] by simp

text \<open>C30. No timer of the source ever runs into freed memory: in every reachable state the function
  of each pending timer completes, whatever memory and random numbers it gets.\<close>

theorem src_timers_complete:
  assumes "src_reachable km (par, s)" and "kmalloc_fresh km"
  shows "(\<forall>a. sr_sndtf_timer s = Some a \<longrightarrow> tl_rx_sndtf_timer_func par e a (s\<lparr>sr_sndtf_timer := None\<rparr>) \<noteq> None) \<and>
    (sr_tr1_timer s \<longrightarrow> tl_rx_tr1_timer_func par e (s\<lparr>sr_tr1_timer := False\<rparr>) \<noteq> None) \<and>
    (\<forall>t. sr_mcs_timer s = Some t \<longrightarrow> tl_mcs_send_timer_func par e (s\<lparr>sr_mcs_timer := None\<rparr>) \<noteq> None)"
  using src_inv_sndtf [of s _ par e] src_inv_tr1 [of s par e] src_inv_mcs [of s _ par e] src_reachable_inv [OF assms]
  by fastforce

text \<open>C34. The source can lock itself up: once the first-hop timer has fired on an empty training
  list, every later state is still polling, with nobody to poll, so no report, no start packet and
  no timer is ever acted on again.\<close>

theorem src_stuck_forever:
  assumes "sr_list s = []" "\<not> sr_for_init s" "sr_sndtf_timer s = None" "mcs_inv s" "sr_tr1_timer s"
    and fire: "tl_rx_tr1_timer_func par e (s\<lparr>sr_tr1_timer := False\<rparr>) = Some (s', out, e')"
    and later: "(src_step km)\<^sup>*\<^sup>* (par, s') (par'', s'')"
  shows "sr_polling s'' \<and> sr_list s'' = [] \<and> sr_sndtf_timer s'' = None \<and> \<not> sr_tr1_timer s''"
proof -
  have "stuck s'" using assms by (auto simp: tl_rx_tr1_timer_func_def stuck_def mcs_inv_def)
  with later have "stuck (snd (par'', s''))"
    by (induction rule: rtranclp_induct) (auto intro: stuck_step)
  then show ?thesis by (simp add: stuck_def)
qed

text \<open>A report of a client, and a start packet with all parameters 0.\<close>

definition ex_tr1 :: sk_buff where
  "ex_tr1 = (blank_skb (replicate 6 1 @ replicate 6 2 @ [8, 0x11] @ 3 # replicate 34 0))
     \<lparr>skb_data := 14, skb_len := 35, skb_dev := \<lparr>dev_addr = replicate 6 1\<rparr>\<rparr>"

definition ex_start :: sk_buff where
  "ex_start = blank_skb (replicate 64 0)"

definition ex_env0 :: env where
  "ex_env0 = \<lparr>env_rnd = (\<lambda>i. 1), env_alloc = (\<lambda>i. True), env_junk = (\<lambda>i. 0)\<rparr>"

lemma head_load_const:
  "(\<And>j. j < n \<Longrightarrow> head_get (pos + j) s = Some v) \<Longrightarrow> head_load pos n s = Some (replicate n v)"
  unfolding head_load_def by (rule trans [OF those_map_Some [where g = "\<lambda>j. v"]]) (auto simp: map_replicate_const)

lemma ex_received: "\<exists>s. tl_receive_skb_src bump_kmalloc param_init ex_env0 ex_tr1 src_init = Some (s, [], ex_env0) \<and>
    sr_tr1_timer s \<and> \<not> sr_polling s \<and> \<not> sr_for_init s \<and> sr_sndtf_timer s = None \<and> sr_mcs s = 0 \<and> sr_mcs_timer s = None \<and>
    sr_list s \<noteq> []"
proof -
  have byte: "skb_get j ex_tr1 = Some (if j = 0 then 3 else 0)" if "j < 35" for j
    using that by (simp add: ex_tr1_def blank_skb_def skb_get_def head_get_def nth_append nth_Cons')
  have rcv: "load_rcv 3 ex_tr1 = Some (map (\<lambda>i. be32_value 0 0 0 0) [0..<8])"
    unfolding load_rcv_def by (rule trans [OF those_map_Some]) (auto simp: byte)
  have d: "skb_daddr ex_tr1 = Some (replicate 6 1)" "skb_saddr ex_tr1 = Some (replicate 6 2)"
    unfolding skb_daddr_def skb_saddr_def ETH_ALEN_def
    by (rule head_load_const, simp add: head_get_def ex_tr1_def blank_skb_def nth_append)+
  have dev: "skb_dev ex_tr1 = \<lparr>dev_addr = replicate 6 1\<rparr>" by (simp add: ex_tr1_def)
  show ?thesis
    by (simp add: tl_receive_skb_src_def receive_tr1_def byte rcv d dev src_init_def tr_info_list_init_def
        tr_info_find_addr_def nl_find_def bump_kmalloc_def tr_info_insert_def nl_insert_def)
qed

lemma ex_started:
  assumes "\<not> sr_polling s" "sr_mcs s = 0"
  shows "\<exists>par s' out e'. tl_start_check param_init ex_env0 ex_start s = Some (True, par, s', out, e') \<and>
    sr_list s' = [] \<and> sr_tr1_timer s' = sr_tr1_timer s \<and> sr_sndtf_timer s' = sr_sndtf_timer s \<and> sr_for_init s' = sr_for_init s"
proof -
  have load: "skb_load 42 22 ex_start = Some (replicate 22 0)"
    by (simp add: skb_load_iff ex_start_def blank_skb_def skb_get_def head_get_def)
  have "list_all (\<lambda>i. replicate 22 0 ! (2 * i) = (0 :: u8) \<and> replicate 22 0 ! (2 * i + 1) = (0 :: u8)) [0..<8]"
    by (simp add: list_all_iff)
  moreover obtain s' out e' where "tl_mcs_send_timer_func (tr_set_param True False 0 0 0 0 0 param_init) ex_env0
      (s\<lparr>sr_dev_send := skb_dev ex_start, sr_list := []\<rparr>) = Some (s', out, e')" "sr_list s' = []"
      "sr_tr1_timer s' = sr_tr1_timer s" "sr_sndtf_timer s' = sr_sndtf_timer s" "sr_for_init s' = sr_for_init s"
    using assms(2)
    by (simp add: tl_mcs_send_timer_func_def send_tfs_def Let_def case_prod_beta tr_set_param_def step_simps
        cal_tx_time_def WLAN_MODE_def rate11g_def)
  ultimately show ?thesis
    using assms(1) load
    by (simp add: tl_start_check_def ex_start_def blank_skb_def head_get_def)
qed

theorem src_stuck_forever_witness:
  "\<exists>par s. src_reachable bump_kmalloc (par, s) \<and> sr_polling s \<and> sr_list s = [] \<and> sr_sndtf_timer s = None \<and> \<not> sr_tr1_timer s"
proof -
  obtain s1 where s1: "tl_receive_skb_src bump_kmalloc param_init ex_env0 ex_tr1 src_init = Some (s1, [], ex_env0)"
    "sr_tr1_timer s1" "\<not> sr_polling s1" "\<not> sr_for_init s1" "sr_sndtf_timer s1 = None" "sr_mcs s1 = 0"
    using ex_received by blast
  obtain par s2 out e2 where s2: "tl_start_check param_init ex_env0 ex_start s1 = Some (True, par, s2, out, e2)"
    "sr_list s2 = []" "sr_tr1_timer s2" "sr_sndtf_timer s2 = None" "\<not> sr_for_init s2"
    using ex_started [OF s1(3,6)] s1 by auto
  have r2: "src_reachable bump_kmalloc (par, s2)"
    using src_reachable.init src_step.receive [OF s1(1)] src_step.start [OF s2(1)] by (meson src_reachable.step)
  then have inv: "src_inv s2" using src_reachable_inv [OF r2] by simp
  then obtain s3 out3 e3 where s3: "tl_rx_tr1_timer_func par ex_env0 (s2\<lparr>sr_tr1_timer := False\<rparr>) = Some (s3, out3, e3)"
    using src_inv_tr1 [OF _ s2(3)] by blast
  have r3: "src_reachable bump_kmalloc (par, s3)"
    using src_reachable.step [OF r2 src_step.tr1_timer [OF s2(3) s3]] .
  have "mcs_inv s2" using inv by (simp add: src_inv_def)
  with src_stuck_forever [OF s2(2,5,4) _ s2(3) s3, of bump_kmalloc par s3] r3 show ?thesis by blast
qed

theorem src_invariant_witness:
  "\<exists>s. src_reachable bump_kmalloc (param_init, s) \<and> sr_list s \<noteq> [] \<and> sr_tr1_timer s \<and> src_inv s"
proof -
  obtain s where s: "tl_receive_skb_src bump_kmalloc param_init ex_env0 ex_tr1 src_init = Some (s, [], ex_env0)" "sr_tr1_timer s" "sr_list s \<noteq> []"
    using ex_received by blast
  have r: "src_reachable bump_kmalloc (param_init, s)"
    using src_reachable.init src_step.receive [OF s(1)] by (meson src_reachable.step)
  with src_invariant [OF r] s(2,3) show ?thesis by auto
qed

theorem src_timers_complete_witness:
  "\<exists>s. src_reachable bump_kmalloc (param_init, s) \<and> sr_tr1_timer s \<and>
    tl_rx_tr1_timer_func param_init ex_env0 (s\<lparr>sr_tr1_timer := False\<rparr>) \<noteq> None"
proof -
  obtain s where s: "tl_receive_skb_src bump_kmalloc param_init ex_env0 ex_tr1 src_init = Some (s, [], ex_env0)" "sr_tr1_timer s"
    using ex_received by blast
  have r: "src_reachable bump_kmalloc (param_init, s)"
    using src_reachable.init src_step.receive [OF s(1)] by (meson src_reachable.step)
  with src_timers_complete [OF r] s(2) show ?thesis by auto
qed

end
