(* ===== verification/TL_Dst.thy ===== *)
theory TL_Dst
  imports TL_Src
begin

text \<open>
  Topology learning at clients and relays (\<^verbatim>\<open>tl_rx_dst.c\<close>). A client counts the training frames it
  receives per rate and reports the counts once no frame has arrived for a while; a relay candidate
  that is polled sends training frames of its own, collects the reports of its neighbours and
  forwards them to the source; a chosen relay is told how many packets to send.

  The records \<open>tf1_info\<close>, \<open>tf2_info\<close> and \<open>sdf_info\<close> are \<open>None\<close> when the pointer is \<open>NULL\<close>; using such a
  pointer, or a counter index outside the eight counters, is \<open>None\<close>.
\<close>

section \<open>State\<close>

record dst_state =
  ds_tf1_info :: "nbr_info option"
  ds_tf2_info :: "nbr_info option"
  ds_sdf_info :: "nbr_info option"
  ds_tr2_list :: "nbr_info nlist"
  ds_tf1_prev_rcv_num :: u32
  ds_tf2_prev_rcv_num :: u32
  ds_tf1_cur_index :: u32
  ds_tf2_cur_index :: u32
  ds_last_tf2_id :: u32
  ds_dev_send2 :: net_device
  ds_mcs :: u8
  ds_tr_id :: u32
  ds_tf1_timer :: bool
  ds_tf2_timer :: bool
  ds_tr2_timer :: bool
  ds_mcs_timer :: "u32 option"
  ds_for_init :: bool

definition dst_init :: dst_state where
  "dst_init = \<lparr>ds_tf1_info = None, ds_tf2_info = None, ds_sdf_info = None, ds_tr2_list = [],
     ds_tf1_prev_rcv_num = 0, ds_tf2_prev_rcv_num = 0, ds_tf1_cur_index = 0, ds_tf2_cur_index = 0,
     ds_last_tf2_id = 0, ds_dev_send2 = \<lparr>dev_addr = []\<rparr>, ds_mcs = 0, ds_tr_id = 0,
     ds_tf1_timer = False, ds_tf2_timer = False, ds_tr2_timer = False, ds_mcs_timer = None, ds_for_init = True\<rparr>"

definition tr_info_count :: "nat \<Rightarrow> 'n tr_info_t \<Rightarrow> 'n tr_info_t option" where
  "tr_info_count mcs info =
     (if mcs < length (ti_rcv_num info)
      then Some (info\<lparr>ti_rcv_num := (ti_rcv_num info)[mcs := ti_rcv_num info ! mcs + 1]\<rparr>) else None)"

section \<open>The neighbour report\<close>

definition rcv_bytes :: "u32 list \<Rightarrow> u8 list" where
  "rcv_bytes rcv_num = concat (map (\<lambda>j. be32_bytes (rcv_num ! j)) [0..<NUM_MCS])"

definition nbr_entry :: "nbr_info \<Rightarrow> u8 list" where
  "nbr_entry info = take ETH_ALEN (ti_addr info) @ [ti_rssi info, ti_batt info] @ rcv_bytes (ti_rcv_num info)"

text \<open>The loop writes one entry per node and frees the node.\<close>

fun write_nbrs :: "nat \<Rightarrow> nat \<Rightarrow> nbr_info nlist \<Rightarrow> sk_buff \<Rightarrow> (nbr_info nlist \<times> sk_buff) option" where
  "write_nbrs qlen i [] rpt = Some ([], rpt)"
| "write_nbrs qlen i ((a, info) # l) rpt =
     (if i < qlen then
        do {
          let ii = i * (ETH_ALEN + 2 + 4 * NUM_MCS);
          rpt \<leftarrow> skb_store (HDR + 6 + ii) (nbr_entry info) rpt;
          write_nbrs qlen (i + 1) l rpt
        }
      else Some ((a, info) # l, rpt))"

definition tl_rx_tr2_timer_func ::
  "env \<Rightarrow> dst_state \<Rightarrow> (dst_state \<times> sk_buff list \<times> env) option" where
  "tl_rx_tr2_timer_func e s =
     (let l = ds_tr2_list s; qlen = length l; sz = HDR + 6 + (ETH_ALEN + 2 + 4 * NUM_MCS) * qlen in
      case l of
        [] \<Rightarrow> Some (s, [], e)
      | (a, info) # _ \<Rightarrow>
          (case ds_sdf_info s of
             None \<Rightarrow> Some (s, [], e)
           | Some sdf \<Rightarrow>
               do {
                 (r, e) \<leftarrow> tl_alloc_skb e (ti_dev info) (ti_addr sdf) (dev_addr (ti_dev info)) sz NbrRPT;
                 case r of
                   None \<Rightarrow> Some (s\<lparr>ds_sdf_info := None\<rparr>, [], e)
                 | Some rpt \<Rightarrow>
                     do {
                       rpt \<leftarrow> skb_store (HDR + 1) (be32_bytes (ti_total_num sdf)) rpt;
                       rpt \<leftarrow> skb_set (HDR + 5) (of_nat qlen) rpt;
                       (l, rpt) \<leftarrow> write_nbrs qlen 0 l rpt;
                       Some (s\<lparr>ds_tr2_list := l, ds_sdf_info := None\<rparr>, [rpt], e)
                     }
               }))"

section \<open>Training reports\<close>

definition write_report :: "nbr_info \<Rightarrow> sk_buff \<Rightarrow> sk_buff option" where
  "write_report info rpt =
     do {
       rpt \<leftarrow> skb_set (HDR + 1) (ti_rssi info) rpt;
       rpt \<leftarrow> skb_set (HDR + 2) (ti_batt info) rpt;
       skb_store (HDR + 3) (rcv_bytes (ti_rcv_num info)) rpt
     }"

text \<open>\<open>two\<close> selects the second-hop variant, \<open>TypeTwoTR\<close>. The total is read before the pointer is
  compared with \<open>NULL\<close>.\<close>

definition tl_rx_tf_timer_func ::
  "bool \<Rightarrow> env \<Rightarrow> dst_state \<Rightarrow> (dst_state \<times> sk_buff list \<times> env) option" where
  "tl_rx_tf_timer_func two e s =
     do {
       info \<leftarrow> (if two then ds_tf2_info s else ds_tf1_info s);
       let prev = (if two then ds_tf2_prev_rcv_num s else ds_tf1_prev_rcv_num s);
       if prev < get_tot_rcv info then
         Some (if two then s\<lparr>ds_tf2_prev_rcv_num := get_tot_rcv info, ds_tf2_timer := True\<rparr>
               else s\<lparr>ds_tf1_prev_rcv_num := get_tot_rcv info, ds_tf1_timer := True\<rparr>, [], e)
       else do {
         let s = (if two then s\<lparr>ds_tf2_timer := False\<rparr> else s\<lparr>ds_tf1_timer := False\<rparr>);
         (r, e) \<leftarrow> tl_alloc_skb e (ti_dev info) (ti_addr info) (dev_addr (ti_dev info)) TR_SIZE
                      (if two then TypeTwoTR else TypeOneTR);
         case r of
           None \<Rightarrow> Some (s, [], e)
         | Some rpt \<Rightarrow> do { rpt \<leftarrow> write_report info rpt; Some (s, [rpt], e) }
       }
     }"

section \<open>Second-hop training frames\<close>

definition tl_2hop_mcs_send_timer_func ::
  "env \<Rightarrow> dst_state \<Rightarrow> (dst_state \<times> sk_buff list \<times> env) option" where
  "tl_2hop_mcs_send_timer_func e s =
     (let (s, e) =
        (if ds_mcs s = 0 then
           (let (tr_id, e) = draw_tr_id (ds_last_tf2_id s) e
            in (s\<lparr>ds_mcs_timer := None, ds_tr_id := tr_id, ds_last_tf2_id := tr_id\<rparr>, e))
         else (s, e))
      in do {
        sdf \<leftarrow> ds_sdf_info s;
        (out, e) \<leftarrow> send_tfs (ds_dev_send2 s) TypeTwoTF (ti_total_num sdf) (ds_tr_id s) (ds_mcs s) e;
        if ds_mcs s < of_nat NUM_MCS - 1 then
          do {
            t \<leftarrow> cal_tx_time (ds_mcs s) (ucast (ti_total_num sdf)) (of_nat TF_SIZE);
            let tx_time = t div 1000;
            Some (s\<lparr>ds_mcs_timer := (if ds_mcs_timer s = None then Some tx_time else ds_mcs_timer s),
                    ds_mcs := ds_mcs s + 1\<rparr>, out, e)
          }
        else Some (s\<lparr>ds_mcs_timer := None, ds_mcs := 0\<rparr>, out, e)
      })"

section \<open>Receiving\<close>

definition zero_rcv :: "u32 list" where
  "zero_rcv = replicate NUM_MCS 0"

definition receive_tf1 :: "tr_param \<Rightarrow> sk_buff \<Rightarrow> mac \<Rightarrow> dst_state \<Rightarrow> (tr_param \<times> dst_state) option" where
  "receive_tf1 par skb saddr s =
     do {
       tf1_k \<leftarrow> load_be32 1 skb;
       tf1_seq \<leftarrow> load_be32 5 skb;
       tf1_index \<leftarrow> load_be32 9 skb;
       mcs \<leftarrow> skb_get 13 skb;
       if of_nat NUM_MCS < mcs then Some (par, s)
       else if tf1_k < tf1_seq then Some (par, s)
       else do {
         let s = (case ds_tf1_info s of
                    None \<Rightarrow> s\<lparr>ds_tf1_info := Some (tr_info_create () saddr (skb_dev skb) tf1_k zero_rcv 0 0),
                             ds_tf1_cur_index := tf1_index\<rparr>
                  | Some _ \<Rightarrow> s);
         info \<leftarrow> ds_tf1_info s;
         if ti_addr info = saddr \<and> ds_tf1_cur_index s = tf1_index then
           do {
             info \<leftarrow> tr_info_count (unat mcs) info;
             Some (par, s\<lparr>ds_tf1_info := Some info, ds_tf1_timer := True\<rparr>)
           }
         else
           do {
             let par = tr_set_param False False 10 0 0 0 0 par;
             let s = s\<lparr>ds_tf2_info := None, ds_tr2_list := tr_info_list_purge (ds_tr2_list s), ds_sdf_info := None\<rparr>;
             info \<leftarrow> tr_info_count (unat mcs)
                        (info\<lparr>ti_addr := saddr, ti_dev := skb_dev skb, ti_total_num := tf1_k, ti_rcv_num := zero_rcv\<rparr>);
             Some (par, s\<lparr>ds_tf1_info := Some info, ds_tf1_prev_rcv_num := 0, ds_tf1_cur_index := tf1_index\<rparr>)
           }
       }
     }"

definition receive_tf2 :: "tr_param \<Rightarrow> sk_buff \<Rightarrow> mac \<Rightarrow> dst_state \<Rightarrow> (tr_param \<times> dst_state) option" where
  "receive_tf2 par skb saddr s =
     do {
       tf2_k \<leftarrow> load_be32 1 skb;
       tf2_seq \<leftarrow> load_be32 5 skb;
       tf2_index \<leftarrow> load_be32 9 skb;
       mcs \<leftarrow> skb_get 13 skb;
       if tf2_k < tf2_seq then Some (par, s)
       else do {
         let s = (case ds_tf2_info s of
                    None \<Rightarrow> s\<lparr>ds_tf2_info := Some (tr_info_create () saddr (skb_dev skb) tf2_k zero_rcv 0 0)\<rparr>
                  | Some _ \<Rightarrow> s);
         info \<leftarrow> ds_tf2_info s;
         if ti_addr info = saddr \<and> ds_tf2_cur_index s = tf2_index then
           do {
             info \<leftarrow> tr_info_count (unat mcs) info;
             Some (par, s\<lparr>ds_tf2_info := Some info, ds_tf2_timer := True\<rparr>)
           }
         else
           do {
             let info = tr_info_create () saddr (skb_dev skb) tf2_k zero_rcv 0 0;
             let par = tr_set_param False False 10 0 0 0 0 par;
             info \<leftarrow> tr_info_count (unat mcs)
                        (info\<lparr>ti_addr := saddr, ti_dev := skb_dev skb, ti_total_num := tf2_k, ti_rcv_num := zero_rcv\<rparr>);
             Some (par, s\<lparr>ds_tf1_info := None, ds_tf2_info := Some info, ds_tf2_prev_rcv_num := 0,
                         ds_tf2_cur_index := tf2_index\<rparr>)
           }
       }
     }"

definition note_nbr ::
  "kmalloc \<Rightarrow> net_device \<Rightarrow> mac \<Rightarrow> u32 \<Rightarrow> u32 list \<Rightarrow> u8 \<Rightarrow> u8 \<Rightarrow> nbr_info nlist \<Rightarrow> nbr_info nlist option" where
  "note_nbr km dev saddr num n_rcv rssi batt l =
     (case tr_info_find_addr l saddr of
        None \<Rightarrow>
          do {
            a \<leftarrow> km (nl_addrs l);
            Some (tr_info_insert a (tr_info_create () saddr dev num n_rcv rssi batt) l)
          }
      | Some a \<Rightarrow>
          nl_modify a (\<lambda>info. info\<lparr>ti_dev := dev, ti_total_num := num, ti_rcv_num := n_rcv, ti_rssi := rssi,
            ti_batt := batt, ti_tf_cnt := False, ti_nr_cnt := False\<rparr>) l)"

definition receive_tr2 :: "kmalloc \<Rightarrow> sk_buff \<Rightarrow> mac \<Rightarrow> mac \<Rightarrow> dst_state \<Rightarrow> dst_state option" where
  "receive_tr2 km skb daddr saddr s =
     do {
       rssi \<leftarrow> skb_get 1 skb;
       batt \<leftarrow> skb_get 2 skb;
       n_rcv \<leftarrow> load_rcv 3 skb;
       if dev_addr (skb_dev skb) = daddr then
         (case ds_sdf_info s of
            None \<Rightarrow> Some s
          | Some sdf \<Rightarrow>
              do {
                l \<leftarrow> note_nbr km (skb_dev skb) saddr (ti_total_num sdf) n_rcv rssi batt (ds_tr2_list s);
                Some (s\<lparr>ds_tr2_list := l, ds_tr2_timer := True\<rparr>)
              })
       else Some s
     }"

definition receive_sendtf ::
  "env \<Rightarrow> sk_buff \<Rightarrow> mac \<Rightarrow> mac \<Rightarrow> dst_state \<Rightarrow> (dst_state \<times> sk_buff list \<times> env) option" where
  "receive_sendtf e skb daddr saddr s =
     do {
       skb_k \<leftarrow> load_be32 1 skb;
       if dev_addr (skb_dev skb) = daddr \<and> ds_sdf_info s = None
       then tl_2hop_mcs_send_timer_func e
              (s\<lparr>ds_dev_send2 := skb_dev skb,
                 ds_sdf_info := Some (tr_info_create () saddr (skb_dev skb) skb_k zero_rcv 0 0)\<rparr>)
       else Some (s, [], e)
     }"

definition tl_receive_skb_dst ::
  "kmalloc \<Rightarrow> tr_param \<Rightarrow> env \<Rightarrow> sk_buff \<Rightarrow> dst_state \<Rightarrow> (tr_param \<times> dst_state \<times> sk_buff list \<times> env) option" where
  "tl_receive_skb_dst km par e skb s =
     do {
       skb_type \<leftarrow> skb_get 0 skb;
       daddr \<leftarrow> skb_daddr skb;
       saddr \<leftarrow> skb_saddr skb;
       let s = (if ds_for_init s
                then s\<lparr>ds_tr2_list := tr_info_list_init, ds_tf1_timer := False, ds_tf2_timer := False,
                       ds_tr2_timer := False, ds_for_init := False\<rparr> else s);
       if skb_type = tr_code TypeOneTF then
         do { (par, s) \<leftarrow> receive_tf1 par skb saddr s; Some (par, s, [], e) }
       else if skb_type = tr_code TypeTwoTF then
         do { (par, s) \<leftarrow> receive_tf2 par skb saddr s; Some (par, s, [], e) }
       else if skb_type = tr_code TypeTwoTR then
         do { s \<leftarrow> receive_tr2 km skb daddr saddr s; Some (par, s, [], e) }
       else if skb_type = tr_code SendTF then
         do { (s, out, e) \<leftarrow> receive_sendtf e skb daddr saddr s; Some (par, s, out, e) }
       else if skb_type = tr_code SetRelay then
         (if dev_addr (skb_dev skb) = daddr then
            do {
              skb_k \<leftarrow> skb_get 1 skb;
              skb_n \<leftarrow> skb_get 2 skb;
              Some (tr_set_param False False skb_k skb_n 0 0 0 par, s, [], e)
            }
          else Some (par, s, [], e))
       else Some (par, s, [], e)
     }"

section \<open>Reading numbers back\<close>

lemma load_be32_ok:
  assumes "\<And>j. j < 4 \<Longrightarrow> skb_get (pos + j) s = Some (be32_bytes v ! j)"
  shows "load_be32 pos s = Some v"
  using assms [of 0] assms [of 1] assms [of 2] assms [of 3]
  by (simp add: load_be32_def)

lemma rcv_bytes_nth:
  assumes "j < 8" "b < 4"
  shows "rcv_bytes rcv ! (4 * j + b) = be32_bytes (rcv ! j) ! b"
proof -
  have "concat (map (\<lambda>j. be32_bytes (rcv ! j)) [0..<m]) ! (4 * j + b) = be32_bytes (rcv ! j) ! b" if "j < m" for m
    using that
  proof (induction m)
    case (Suc m)
    have len: "length (concat (map (\<lambda>j. be32_bytes (rcv ! j)) [0..<m])) = 4 * m"
      by (induction m) auto
    show ?case
    proof (cases "j < m")
      case True
      then have "4 * j + b < 4 * m" using assms(2) by simp
      with Suc.IH [OF True] show ?thesis by (simp add: nth_append len)
    next
      case False
      then have "j = m" using Suc.prems by simp
      then show ?thesis using assms(2) by (simp add: nth_append len)
    qed
  qed simp
  from this [of 8] assms(1) show ?thesis by (simp add: rcv_bytes_def)
qed

lemma rcv_bytes_length [simp]: "length (rcv_bytes rcv) = 32"
  by (simp add: rcv_bytes_def length_concat comp_def sum_list_triv)

lemma load_rcv_ok:
  assumes "\<And>j. j < 32 \<Longrightarrow> skb_get (pos + j) s = Some (rcv_bytes rcv ! j)" and "length rcv = NUM_MCS"
  shows "load_rcv pos s = Some rcv"
proof -
  have "do { a \<leftarrow> skb_get (pos + 4 * i) s; b \<leftarrow> skb_get (pos + 1 + 4 * i) s; c \<leftarrow> skb_get (pos + 2 + 4 * i) s;
         d \<leftarrow> skb_get (pos + 3 + 4 * i) s; Some (be32_value a b c d) } = Some (rcv ! i)" if "i < 8" for i
    using that assms(1) [of "4 * i + 0"] assms(1) [of "4 * i + 1"] assms(1) [of "4 * i + 2"] assms(1) [of "4 * i + 3"]
      rcv_bytes_nth [of i 0 rcv] rcv_bytes_nth [of i 1 rcv] rcv_bytes_nth [of i 2 rcv] rcv_bytes_nth [of i 3 rcv]
    by (simp add: add.assoc add.commute [of "4 * i"])
  then have "load_rcv pos s = Some (map ((!) rcv) [0..<8])"
    unfolding load_rcv_def NUM_MCS_def by (intro those_map_Some) simp
  also have "map ((!) rcv) [0..<8] = rcv" using assms(2) map_nth [of rcv] by simp
  finally show ?thesis .
qed

lemma get_payload: "skb_len t = sz \<Longrightarrow> HDR \<le> sz \<Longrightarrow> skb_get j (skb_pull HDR t) = skb_get (HDR + j) t"
  by (simp add: skb_get_pull)

section \<open>Reports\<close>

lemma write_report_ok:
  assumes "room TR_SIZE t" "skb_len t = TR_SIZE" "length (ti_rcv_num info) = NUM_MCS" "skb_get HDR t = Some ty"
  shows "\<exists>t'. write_report info t = Some t' \<and> skb_get 0 (skb_pull HDR t') = Some ty \<and>
    skb_get 1 (skb_pull HDR t') = Some (ti_rssi info) \<and> skb_get 2 (skb_pull HDR t') = Some (ti_batt info) \<and>
    load_rcv 3 (skb_pull HDR t') = Some (ti_rcv_num info) \<and> skb_dev t' = skb_dev t"
proof -
  obtain t1 where t1: "skb_set (HDR + 1) (ti_rssi info) t = Some t1" "same_shape t t1"
    "\<And>j. skb_get j t1 = (if j = HDR + 1 then Some (ti_rssi info) else skb_get j t)" "skb_dev t1 = skb_dev t"
    by (rule set_ok [OF assms(1), of "HDR + 1" "ti_rssi info"]) auto
  obtain t2 where t2: "skb_set (HDR + 2) (ti_batt info) t1 = Some t2" "same_shape t1 t2"
    "\<And>j. skb_get j t2 = (if j = HDR + 2 then Some (ti_batt info) else skb_get j t1)" "skb_dev t2 = skb_dev t1"
    by (rule set_ok [OF room_shape [OF t1(2) assms(1)], of "HDR + 2" "ti_batt info"]) auto
  have sh2: "same_shape t t2" using t1 t2 same_shape_trans by blast
  obtain t3 where t3: "skb_store (HDR + 3) (rcv_bytes (ti_rcv_num info)) t2 = Some t3" "same_shape t2 t3"
    "\<And>j. skb_get j t3 = (if HDR + 3 \<le> j \<and> j < HDR + 3 + length (rcv_bytes (ti_rcv_num info))
       then Some (rcv_bytes (ti_rcv_num info) ! (j - (HDR + 3))) else skb_get j t2)" "skb_dev t3 = skb_dev t2"
    by (rule store_ok [OF room_shape [OF sh2 assms(1)], of "HDR + 3" "rcv_bytes (ti_rcv_num info)"]) auto
  have sh3: "same_shape t t3" using sh2 t3 same_shape_trans by blast
  have len: "skb_len t3 = TR_SIZE" "HDR \<le> TR_SIZE" using sh3 assms(2) by (simp_all add: same_shape_def)
  note get = get_payload [OF len]
  have "write_report info t = Some t3" using t1(1) t2(1) t3(1) by (simp add: write_report_def)
  moreover have "load_rcv 3 (skb_pull HDR t3) = Some (ti_rcv_num info)"
    by (rule load_rcv_ok [OF _ assms(3)]) (simp only: get t3(3), simp)
  moreover have "skb_get 0 (skb_pull HDR t3) = Some ty" "skb_get 1 (skb_pull HDR t3) = Some (ti_rssi info)"
    "skb_get 2 (skb_pull HDR t3) = Some (ti_batt info)"
    unfolding get t3(3) t2(3) t1(3) using assms(4) by simp_all
  moreover have "skb_dev t3 = skb_dev t" using t1(4) t2(4) t3(4) by simp
  ultimately show ?thesis by blast
qed

section \<open>The neighbour report\<close>

definition entry_ok :: "nbr_info \<Rightarrow> bool" where
  "entry_ok info \<longleftrightarrow> length (ti_addr info) = ETH_ALEN \<and> length (ti_rcv_num info) = NUM_MCS"

lemma nbr_entry_length: "entry_ok info \<Longrightarrow> length (nbr_entry info) = 40"
  by (simp add: entry_ok_def nbr_entry_def)

lemma write_nbrs_ok:
  assumes "list_all (entry_ok \<circ> snd) l" "i + length l = qlen" "room (HDR + 6 + 40 * qlen) t"
  shows "\<exists>t'. write_nbrs qlen i l t = Some ([], t') \<and> same_shape t t' \<and>
    (\<forall>m<length l. \<forall>j<40. skb_get (HDR + 6 + 40 * (i + m) + j) t' = Some (nbr_entry (snd (l ! m)) ! j)) \<and>
    (\<forall>x<HDR + 6 + 40 * i. skb_get x t' = skb_get x t)"
  using assms
proof (induction l arbitrary: i t)
  case (Cons p l)
  obtain a info where p: "p = (a, info)" by (cases p)
  have info: "entry_ok info" and rest: "list_all (entry_ok \<circ> snd) l" using Cons.prems(1) by (simp_all add: p comp_def)
  note len = nbr_entry_length [OF info]
  have le: "HDR + 6 + i * 40 + length (nbr_entry info) \<le> HDR + 6 + 40 * qlen"
    using Cons.prems(2) len by simp
  obtain t1 where t1: "skb_store (HDR + 6 + i * 40) (nbr_entry info) t = Some t1" "same_shape t t1"
    "\<And>j. skb_get j t1 = (if HDR + 6 + i * 40 \<le> j \<and> j < HDR + 6 + i * 40 + length (nbr_entry info)
       then Some (nbr_entry info ! (j - (HDR + 6 + i * 40))) else skb_get j t)"
    by (rule store_ok [OF Cons.prems(3) le]) blast
  have "Suc i + length l = qlen" using Cons.prems(2) by simp
  from Cons.IH [OF rest this room_shape [OF t1(2) Cons.prems(3)]] obtain t' where
    t': "write_nbrs qlen (Suc i) l t1 = Some ([], t')" "same_shape t1 t'"
    "\<And>m j. m < length l \<Longrightarrow> j < 40 \<Longrightarrow> skb_get (HDR + 6 + 40 * (Suc i + m) + j) t' = Some (nbr_entry (snd (l ! m)) ! j)"
    "\<And>x. x < HDR + 6 + 40 * Suc i \<Longrightarrow> skb_get x t' = skb_get x t1" by blast
  have "write_nbrs qlen i (p # l) t = Some ([], t')"
    using t1(1) t'(1) Cons.prems(2) by (simp add: p)
  moreover have "skb_get (HDR + 6 + 40 * (i + m) + j) t' = Some (nbr_entry (snd ((p # l) ! m)) ! j)"
    if "m < length (p # l)" "j < 40" for m j
  proof (cases m)
    case 0
    then show ?thesis using that t'(4) [of "HDR + 6 + 40 * i + j"] t1(3) len by (simp add: p)
  next
    case (Suc n)
    then show ?thesis using that t'(3) [of n j] by simp
  qed
  moreover have "skb_get x t' = skb_get x t" if "x < HDR + 6 + 40 * i" for x
    using that t'(4) [of x] t1(3) [of x] by simp
  ultimately show ?case using t1(2) t'(2) same_shape_trans by blast
qed simp

lemma tr2_report:
  assumes l: "ds_tr2_list s = l" "l \<noteq> []" "length l < 256" "list_all (entry_ok \<circ> snd) l"
    and sdf: "ds_sdf_info s = Some sdf" and mem: "env_alloc e 0"
  shows "\<exists>rpt e'. tl_rx_tr2_timer_func e s = Some (s\<lparr>ds_tr2_list := [], ds_sdf_info := None\<rparr>, [rpt], e') \<and>
    skb_len rpt = HDR + 6 + 40 * length l \<and> skb_get HDR rpt = Some (tr_code NbrRPT) \<and>
    load_be32 1 (skb_pull HDR rpt) = Some (ti_total_num sdf) \<and> skb_get 5 (skb_pull HDR rpt) = Some (of_nat (length l)) \<and>
    (\<forall>m<length l. \<forall>j<40. skb_get (6 + 40 * m + j) (skb_pull HDR rpt) = Some (nbr_entry (snd (l ! m)) ! j))"
proof -
  let ?q = "length l" and ?sz = "HDR + 6 + (ETH_ALEN + 2 + 4 * NUM_MCS) * length l"
  obtain a info l' where hd: "l = (a, info) # l'" using l(2) by (metis list.exhaust surj_pair)
  have sz: "HDR < ?sz" "?sz = HDR + 6 + 40 * ?q" by simp_all
  from tl_alloc_skb_ok [OF sz(1), of e "ti_dev info" "ti_addr sdf" "dev_addr (ti_dev info)" NbrRPT] mem
  obtain t0 e1 where t0: "tl_alloc_skb e (ti_dev info) (ti_addr sdf) (dev_addr (ti_dev info)) ?sz NbrRPT = Some (Some t0, e1)"
    "skb_len t0 = ?sz" "room ?sz t0" "skb_get HDR t0 = Some (tr_code NbrRPT)" by blast
  obtain t1 where t1: "skb_store (HDR + 1) (be32_bytes (ti_total_num sdf)) t0 = Some t1" "same_shape t0 t1"
    "\<And>j. skb_get j t1 = (if HDR + 1 \<le> j \<and> j < HDR + 1 + length (be32_bytes (ti_total_num sdf))
       then Some (be32_bytes (ti_total_num sdf) ! (j - (HDR + 1))) else skb_get j t0)"
    by (rule store_ok [OF t0(3), of "HDR + 1" "be32_bytes (ti_total_num sdf)"]) auto
  obtain t2 where t2: "skb_set (HDR + 5) (of_nat ?q) t1 = Some t2" "same_shape t1 t2"
    "\<And>j. skb_get j t2 = (if j = HDR + 5 then Some (of_nat ?q) else skb_get j t1)"
    by (rule set_ok [OF room_shape [OF t1(2) t0(3)], of "HDR + 5" "of_nat ?q"]) auto
  have sh2: "same_shape t0 t2" using t1 t2 same_shape_trans by blast
  have "0 + length l = ?q" "room (HDR + 6 + 40 * ?q) t2" using room_shape [OF sh2 t0(3)] by simp_all
  from write_nbrs_ok [OF l(4) this] obtain t3 where t3: "write_nbrs ?q 0 l t2 = Some ([], t3)" "same_shape t2 t3"
    "\<And>m j. m < ?q \<Longrightarrow> j < 40 \<Longrightarrow> skb_get (HDR + 6 + 40 * m + j) t3 = Some (nbr_entry (snd (l ! m)) ! j)"
    "\<And>x. x < HDR + 6 \<Longrightarrow> skb_get x t3 = skb_get x t2" by auto
  have sh3: "same_shape t0 t3" using sh2 t3 same_shape_trans by blast
  have len: "skb_len t3 = ?sz" "HDR \<le> ?sz" using sh3 t0(2) by (simp_all add: same_shape_def)
  note get = get_payload [OF len]
  have "tl_rx_tr2_timer_func e s = Some (s\<lparr>ds_tr2_list := [], ds_sdf_info := None\<rparr>, [t3], e1)"
    unfolding tl_rx_tr2_timer_func_def Let_def l(1)
    using t0(1) t1(1) t2(1) t3(1) sdf by (auto simp: hd)
  moreover have "load_be32 1 (skb_pull HDR t3) = Some (ti_total_num sdf)"
    by (rule load_be32_ok, unfold get) (simp add: t3(4) t2(3) t1(3))
  moreover have "skb_get 5 (skb_pull HDR t3) = Some (of_nat ?q)" "skb_get HDR t3 = Some (tr_code NbrRPT)"
    unfolding get using t0(4) by (simp_all add: t3(4) t2(3) t1(3))
  moreover have "skb_get (6 + 40 * m + j) (skb_pull HDR t3) = Some (nbr_entry (snd (l ! m)) ! j)"
    if "m < ?q" "j < 40" for m j
    using t3(3) [OF that] unfolding get by (simp only: add.assoc)
  ultimately show ?thesis using len(1) sz(2) by auto
qed

section \<open>Invariant\<close>

definition counters_ok :: "nbr_info option \<Rightarrow> bool" where
  "counters_ok p \<longleftrightarrow> (\<forall>info. p = Some info \<longrightarrow> length (ti_rcv_num info) = NUM_MCS)"

definition nbrs_inv :: "nbr_info nlist \<Rightarrow> bool" where
  "nbrs_inv l \<longleftrightarrow> nl_ok l \<and> distinct (addrs_of l) \<and> (\<forall>p\<in>set l. entry_ok (snd p))"

definition dst_inv :: "dst_state \<Rightarrow> bool" where
  "dst_inv s \<longleftrightarrow> counters_ok (ds_tf1_info s) \<and> counters_ok (ds_tf2_info s) \<and> nbrs_inv (ds_tr2_list s) \<and>
     unat (ds_mcs s) < NUM_MCS \<and> (ds_mcs s = 0 \<longrightarrow> ds_mcs_timer s = None)"

lemma counters_ok_simps [simp]:
  "counters_ok None" "counters_ok (Some info) \<longleftrightarrow> length (ti_rcv_num info) = 8"
  by (simp_all add: counters_ok_def)

lemma nbrs_inv_Nil [simp]: "nbrs_inv []"
  by (simp add: nbrs_inv_def addrs_of_def)

lemma dst_inv_init: "dst_inv dst_init"
  by (simp add: dst_inv_def dst_init_def)

lemma tr_info_count_Some:
  "tr_info_count m info = Some info' \<Longrightarrow> length (ti_rcv_num info') = length (ti_rcv_num info)"
  by (auto simp: tr_info_count_def split: if_splits)

lemma create_counters [simp]: "length (ti_rcv_num (tr_info_create n a d k zero_rcv x y)) = 8"
  by (simp add: tr_info_create_def zero_rcv_def)

lemma zero_rcv_length [simp]: "length zero_rcv = 8"
  by (simp add: zero_rcv_def)

lemma receive_tf1_inv: "dst_inv s \<Longrightarrow> opt_post (\<lambda>(_, s'). dst_inv s') (receive_tf1 par skb saddr s)"
  unfolding receive_tf1_def
  by (intro opt_post_rules)
    (auto simp: dst_inv_def tr_info_create_def dest!: tr_info_count_Some split: if_splits option.splits)

lemma receive_tf2_inv: "dst_inv s \<Longrightarrow> opt_post (\<lambda>(_, s'). dst_inv s') (receive_tf2 par skb saddr s)"
  unfolding receive_tf2_def
  by (intro opt_post_rules)
    (auto simp: dst_inv_def tr_info_create_def dest!: tr_info_count_Some split: if_splits option.splits)

lemma note_nbr_inv:
  assumes km: "kmalloc_fresh km" and li: "nbrs_inv l" and upd: "note_nbr km dev saddr num n rssi batt l = Some l'"
    and len: "length saddr = 6" "length n = 8"
  shows "nbrs_inv l'"
proof (cases "tr_info_find_addr l saddr")
  case None
  with upd obtain a where a: "km (nl_addrs l) = Some a"
    "l' = tr_info_insert a (tr_info_create () saddr dev num n rssi batt) l" by (auto simp: note_nbr_def)
  have fresh: "a \<notin> set (nl_addrs l)" using km a(1) by (simp add: kmalloc_fresh_def)
  have "distinct (addrs_of l')"
    using None li len by (simp add: a(2) find_addr_None tr_info_create_def nbrs_inv_def)
  moreover have "entry_ok (tr_info_create () saddr dev num n rssi batt)"
    using len by (simp add: entry_ok_def tr_info_create_def)
  ultimately show ?thesis using li fresh by (auto simp: nbrs_inv_def a(2) tr_info_insert_def nl_ok_def nl_insert_def)
next
  case (Some a)
  with upd have m: "nl_modify a (\<lambda>info. info\<lparr>ti_dev := dev, ti_total_num := num, ti_rcv_num := n, ti_rssi := rssi,
            ti_batt := batt, ti_tf_cnt := False, ti_nr_cnt := False\<rparr>) l = Some l'" by (simp add: note_nbr_def)
  have "entry_ok (snd p)" if "p \<in> set l'" for p
    using that m li len by (auto simp: nl_modify_Some nbrs_inv_def entry_ok_def)
  then show ?thesis using addrs_of_modify [OF m] nl_ok_modify [OF m] li by (simp add: nbrs_inv_def)
qed

lemma receive_tr2_inv:
  assumes km: "kmalloc_fresh km" and inv: "dst_inv s" and saddr: "length saddr = 6"
  shows "opt_post dst_inv (receive_tr2 km skb daddr saddr s)"
proof -
  have "nbrs_inv l" if "load_rcv 3 skb = Some n"
    "note_nbr km (skb_dev skb) saddr num n rssi batt (ds_tr2_list s) = Some l" for n num rssi batt l
    using note_nbr_inv [OF km _ that(2) saddr] load_rcv_length [OF that(1)] inv by (simp add: dst_inv_def)
  then show ?thesis unfolding receive_tr2_def
    by (intro opt_post_rules) (use inv in \<open>simp_all add: dst_inv_def\<close>)
qed

lemma mcs_suc:
  assumes "unat (m :: u8) < 7"
  shows "unat (m + 1) = unat m + 1" "m + 1 \<noteq> 0"
proof -
  show "unat (m + 1) = unat m + 1" using assms by (simp add: unat_word_ariths)
  then show "m + 1 \<noteq> 0" by (metis add_is_0 one_neq_zero unat_0)
qed

lemma mcs2_inv: "dst_inv s \<Longrightarrow> opt_post (\<lambda>(s', _). dst_inv s') (tl_2hop_mcs_send_timer_func e s)"
  unfolding tl_2hop_mcs_send_timer_func_def
  by (intro opt_post_rules)
    (auto simp: dst_inv_def mcs_suc word_less_nat_alt case_prod_beta split: if_splits)

lemma write_nbrs_shrinks: "write_nbrs qlen i l rpt = Some (l', rpt') \<Longrightarrow> nbrs_inv l \<Longrightarrow> nbrs_inv l'"
proof (induction qlen i l rpt rule: write_nbrs.induct)
  case (2 qlen i a info l rpt)
  have "nbrs_inv l" using 2(3) by (simp add: nbrs_inv_def nl_ok_def addrs_of_def)
  with 2 show ?case by (auto simp: Let_def split: if_splits)
qed simp

lemma tr2_inv: "dst_inv s \<Longrightarrow> opt_post (\<lambda>(s', _). dst_inv s') (tl_rx_tr2_timer_func e s)"
  unfolding tl_rx_tr2_timer_func_def
  by (intro opt_post_rules) (auto simp: dst_inv_def dest: write_nbrs_shrinks simp del: write_nbrs.simps)

lemma tf_timer_inv: "dst_inv s \<Longrightarrow> opt_post (\<lambda>(s', _). dst_inv s') (tl_rx_tf_timer_func two e s)"
  unfolding tl_rx_tf_timer_func_def by (intro opt_post_rules) (auto simp: dst_inv_def)

lemma receive_sendtf_inv:
  assumes "dst_inv s"
  shows "opt_post (\<lambda>(s', _). dst_inv s') (receive_sendtf e skb daddr saddr s)"
  unfolding receive_sendtf_def
proof (intro opt_post_rules)
  fix k
  show "opt_post (\<lambda>(s', _). dst_inv s') (tl_2hop_mcs_send_timer_func e (s\<lparr>ds_dev_send2 := skb_dev skb,
                 ds_sdf_info := Some (tr_info_create () saddr (skb_dev skb) k zero_rcv 0 0)\<rparr>))"
    by (rule mcs2_inv) (use assms in \<open>simp add: dst_inv_def\<close>)
qed (use assms in simp)

lemma receive_dst_inv:
  assumes km: "kmalloc_fresh km" and inv: "dst_inv s"
  shows "opt_post (\<lambda>(_, s', _). dst_inv s') (tl_receive_skb_dst km par e skb s)"
proof -
  have len: "length saddr = 6" if "skb_saddr skb = Some saddr" for saddr
    using that head_load_length by (fastforce simp: skb_saddr_def)
  have start: "dst_inv (if ds_for_init s
                then s\<lparr>ds_tr2_list := tr_info_list_init, ds_tf1_timer := False, ds_tf2_timer := False,
                       ds_tr2_timer := False, ds_for_init := False\<rparr> else s)" (is "dst_inv ?s")
    using inv by (simp add: dst_inv_def tr_info_list_init_def)
  note invs = opt_postD [OF receive_tf1_inv] opt_postD [OF receive_tf2_inv] opt_postD [OF receive_sendtf_inv]
    opt_postD [OF receive_tr2_inv [OF km _ len]]
  show ?thesis unfolding tl_receive_skb_dst_def
  proof (intro opt_post_rules; hypsubst; unfold prod.case)
  qed (use invs [OF start] start in \<open>fastforce+\<close>)
qed

section \<open>The client as a transition system\<close>

inductive dst_step :: "kmalloc \<Rightarrow> tr_param \<times> dst_state \<Rightarrow> tr_param \<times> dst_state \<Rightarrow> bool" for km where
  receive: "tl_receive_skb_dst km par e skb s = Some (par', s', out, e') \<Longrightarrow> dst_step km (par, s) (par', s')"
| tf1_timer: "ds_tf1_timer s \<Longrightarrow> tl_rx_tf_timer_func False e (s\<lparr>ds_tf1_timer := False\<rparr>) = Some (s', out, e') \<Longrightarrow>
    dst_step km (par, s) (par, s')"
| tf2_timer: "ds_tf2_timer s \<Longrightarrow> tl_rx_tf_timer_func True e (s\<lparr>ds_tf2_timer := False\<rparr>) = Some (s', out, e') \<Longrightarrow>
    dst_step km (par, s) (par, s')"
| tr2_timer: "ds_tr2_timer s \<Longrightarrow> tl_rx_tr2_timer_func e (s\<lparr>ds_tr2_timer := False\<rparr>) = Some (s', out, e') \<Longrightarrow>
    dst_step km (par, s) (par, s')"
| mcs_timer: "ds_mcs_timer s = Some t \<Longrightarrow>
    tl_2hop_mcs_send_timer_func e (s\<lparr>ds_mcs_timer := None\<rparr>) = Some (s', out, e') \<Longrightarrow> dst_step km (par, s) (par, s')"

inductive dst_reachable :: "kmalloc \<Rightarrow> tr_param \<times> dst_state \<Rightarrow> bool" for km where
  init: "dst_reachable km (par, dst_init)"
| step: "dst_reachable km c \<Longrightarrow> dst_step km c c' \<Longrightarrow> dst_reachable km c'"

lemma dst_inv_timers:
  "dst_inv s \<Longrightarrow> dst_inv (s\<lparr>ds_tf1_timer := b\<rparr>)" "dst_inv s \<Longrightarrow> dst_inv (s\<lparr>ds_tf2_timer := b\<rparr>)"
  "dst_inv s \<Longrightarrow> dst_inv (s\<lparr>ds_tr2_timer := b\<rparr>)" "dst_inv s \<Longrightarrow> dst_inv (s\<lparr>ds_mcs_timer := None\<rparr>)"
  by (simp_all add: dst_inv_def)

lemma dst_step_inv:
  assumes km: "kmalloc_fresh km" and st: "dst_step km c c'" and inv: "dst_inv (snd c)"
  shows "dst_inv (snd c')"
  using st inv
proof (cases rule: dst_step.cases)
  case receive
  with inv opt_postD [OF receive_dst_inv [OF km]] show ?thesis by fastforce
next
  case tf1_timer
  with inv opt_postD [OF tf_timer_inv [OF dst_inv_timers(1)]] show ?thesis by fastforce
next
  case tf2_timer
  with inv opt_postD [OF tf_timer_inv [OF dst_inv_timers(2)]] show ?thesis by fastforce
next
  case tr2_timer
  with inv opt_postD [OF tr2_inv [OF dst_inv_timers(3)]] show ?thesis by fastforce
next
  case mcs_timer
  with inv opt_postD [OF mcs2_inv [OF dst_inv_timers(4)]] show ?thesis by fastforce
qed

lemma dst_reachable_inv: "dst_reachable km c \<Longrightarrow> kmalloc_fresh km \<Longrightarrow> dst_inv (snd c)"
  by (induction rule: dst_reachable.induct) (auto simp: dst_inv_init intro: dst_step_inv)

lemma skb_pull_dev [simp]: "skb_dev (skb_pull n t) = skb_dev t"
  by (simp add: skb_pull_def)

text \<open>Examples: a client with a record, a relay with one neighbour report, a training frame at rate 0 and one
  at rate 8.\<close>

definition ex_info :: nbr_info where
  "ex_info = tr_info_create () [1, 2, 3, 4, 5, 6] \<lparr>dev_addr = replicate 6 9\<rparr> 1 zero_rcv 7 8"

definition ex_client :: dst_state where
  "ex_client = dst_init\<lparr>ds_tf1_info := Some ex_info, ds_tf1_timer := True, ds_tr2_list := [(0, ex_info)],
     ds_sdf_info := Some ex_info\<rparr>"

definition ex_tf :: "u8 \<Rightarrow> sk_buff" where
  "ex_tf mcs = blank_skb [0, 0, 0, 0, 0, 0, 0, 0, 0, 0, 0, 0, 1, mcs]"

lemma ex_info_simps [simp]:
  "ti_addr ex_info = [1, 2, 3, 4, 5, 6]" "ti_rcv_num ex_info = replicate 8 0" "ti_rssi ex_info = 7" "ti_batt ex_info = 8"
  "ti_dev ex_info = \<lparr>dev_addr = replicate 6 9\<rparr>" "get_tot_rcv ex_info = 0"
  by (simp_all add: ex_info_def tr_info_create_def zero_rcv_def get_tot_rcv_def upt_rec)

lemma ex_client_simps [simp]:
  "ds_tf1_info ex_client = Some ex_info" "ds_tr2_list ex_client = [(0, ex_info)]" "ds_sdf_info ex_client = Some ex_info"
  "ds_tf1_timer ex_client" "ds_tf1_prev_rcv_num ex_client = 0" "ds_tf2_cur_index ex_client = 0"
  by (simp_all add: ex_client_def dst_init_def)

lemma ex_tf_simps [simp]:
  "load_be32 (Suc 0) (ex_tf m) = Some 0" "load_be32 5 (ex_tf m) = Some 0" "load_be32 9 (ex_tf m) = Some 1"
  "skb_get 13 (ex_tf m) = Some m"
  by (simp_all add: ex_tf_def blank_skb_def load_be32_def skb_get_def head_get_def be32_value_def)

section \<open>Properties\<close>

text \<open>C31. Invariant of a client: in every reachable state the records have eight counters, the
  nodes of the list of neighbour reports are distinct and have distinct addresses of six bytes and
  eight counters, and the rate in use is one of the eight.\<close>

theorem dst_invariant:
  assumes "dst_reachable km (par, s)" and "kmalloc_fresh km"
  shows "dst_inv s"
  using dst_reachable_inv [OF assms] by simp

text \<open>The first training frame that a client receives, with the header in front of it.\<close>

definition ex_tf1 :: sk_buff where
  "ex_tf1 = (blank_skb (replicate 6 1 @ replicate 6 2 @ [8, 0x11] @ [1, 0, 0, 0, 0, 0, 0, 0, 0, 0, 0, 0, 1, 2]))\<lparr>skb_data := 14, skb_len := 14\<rparr>"

lemma ex_trained: "\<exists>s. tl_receive_skb_dst bump_kmalloc param_init ex_env0 ex_tf1 dst_init = Some (param_init, s, [], ex_env0) \<and>
    ds_tf1_timer s \<and> ds_tf1_info s \<noteq> None"
proof -
  have byte: "skb_get j ex_tf1 = Some ([1, 0, 0, 0, 0, 0, 0, 0, 0, 0, 0, 0, 1, 2] ! j)" if "j < 14" for j
    using that by (simp add: ex_tf1_def blank_skb_def skb_get_def head_get_def nth_append)
  have load: "load_be32 (Suc 0) ex_tf1 = Some 0" "load_be32 5 ex_tf1 = Some 0" "load_be32 9 ex_tf1 = Some 1"
    by (simp_all add: load_be32_def byte be32_value_def)
  have d: "skb_daddr ex_tf1 = Some (replicate 6 1)" "skb_saddr ex_tf1 = Some (replicate 6 2)"
    unfolding skb_daddr_def skb_saddr_def ETH_ALEN_def
    by (rule head_load_const, simp add: head_get_def ex_tf1_def blank_skb_def nth_append)+
  show ?thesis
    by (simp add: tl_receive_skb_dst_def receive_tf1_def byte load d dst_init_def tr_info_count_def tr_info_create_def zero_rcv_def Let_def)
qed

theorem dst_invariant_witness:
  "\<exists>s. dst_reachable bump_kmalloc (param_init, s) \<and> ds_tf1_timer s \<and> ds_tf1_info s \<noteq> None \<and> dst_inv s"
proof -
  obtain s where s: "tl_receive_skb_dst bump_kmalloc param_init ex_env0 ex_tf1 dst_init = Some (param_init, s, [], ex_env0)"
    "ds_tf1_timer s" "ds_tf1_info s \<noteq> None" using ex_trained by blast
  have r: "dst_reachable bump_kmalloc (param_init, s)"
    using dst_reachable.step [OF dst_reachable.init dst_step.receive [OF s(1)]] .
  with dst_invariant [OF r] s(2,3) show ?thesis by auto
qed

text \<open>C32. A client's report comes through: once the counters have not changed since the timer last
  fired, the timer function sends one report to the sender of the training frames, and a source that
  does not know the client adds a record with exactly the client's counters, signal strength and
  battery level.\<close>

theorem report_roundtrip:
  assumes info: "ds_tf1_info s = Some info" "length (ti_rcv_num info) = NUM_MCS"
    and stable: "\<not> ds_tf1_prev_rcv_num s < get_tot_rcv info" and mem: "env_alloc e 0"
    and new: "tr_info_find_addr (sr_list src) saddr = None" "km (nl_addrs (sr_list src)) = Some a"
  shows "\<exists>rpt e'. tl_rx_tf_timer_func False e s = Some (s\<lparr>ds_tf1_timer := False\<rparr>, [rpt], e') \<and>
    skb_get 0 (skb_pull HDR rpt) = Some (tr_code TypeOneTR) \<and>
    receive_tr1 km par (skb_pull HDR rpt) saddr src =
      Some (src\<lparr>sr_list := tr_info_insert a (tr_info_create [] saddr (ti_dev info) (tr_get_tf_k par)
                 (ti_rcv_num info) (ti_rssi info) (ti_batt info)) (sr_list src), sr_tr1_timer := True\<rparr>)"
proof -
  have "HDR < TR_SIZE" by simp
  from tl_alloc_skb_ok [OF this, of e "ti_dev info" "ti_addr info" "dev_addr (ti_dev info)" TypeOneTR] mem
  obtain t e1 where t: "tl_alloc_skb e (ti_dev info) (ti_addr info) (dev_addr (ti_dev info)) TR_SIZE TypeOneTR = Some (Some t, e1)"
    "skb_len t = TR_SIZE" "room TR_SIZE t" "skb_get HDR t = Some (tr_code TypeOneTR)" "skb_dev t = ti_dev info" by blast
  from write_report_ok [OF t(3,2) info(2) t(4)] obtain t' where t': "write_report info t = Some t'"
    "skb_get 0 (skb_pull HDR t') = Some (tr_code TypeOneTR)" "skb_get 1 (skb_pull HDR t') = Some (ti_rssi info)"
    "skb_get 2 (skb_pull HDR t') = Some (ti_batt info)" "load_rcv 3 (skb_pull HDR t') = Some (ti_rcv_num info)"
    "skb_dev t' = skb_dev t"
    by blast
  have "tl_rx_tf_timer_func False e s = Some (s\<lparr>ds_tf1_timer := False\<rparr>, [t'], e1)"
    using info stable t(1) t'(1) by (simp add: tl_rx_tf_timer_func_def Let_def)
  moreover have "receive_tr1 km par (skb_pull HDR t') saddr src =
      Some (src\<lparr>sr_list := tr_info_insert a (tr_info_create [] saddr (ti_dev info) (tr_get_tf_k par)
                 (ti_rcv_num info) (ti_rssi info) (ti_batt info)) (sr_list src), sr_tr1_timer := True\<rparr>)"
    unfolding receive_tr1_def using t' t(5) new by simp
  ultimately show ?thesis using t'(2) by blast
qed

theorem report_roundtrip_witness:
  "\<exists>rpt e'. tl_rx_tf_timer_func False ex_env0 ex_client = Some (ex_client\<lparr>ds_tf1_timer := False\<rparr>, [rpt], e') \<and>
    skb_get 0 (skb_pull HDR rpt) = Some (tr_code TypeOneTR) \<and>
    receive_tr1 bump_kmalloc param_init (skb_pull HDR rpt) (replicate 6 2) src_init =
      Some (src_init\<lparr>sr_list := tr_info_insert 1 (tr_info_create [] (replicate 6 2) \<lparr>dev_addr = replicate 6 9\<rparr>
        (tr_get_tf_k param_init) (replicate 8 0) 7 8) [], sr_tr1_timer := True\<rparr>)"
  using report_roundtrip [of ex_client ex_info ex_env0 src_init "replicate 6 2" bump_kmalloc 1 param_init]
  by (simp add: ex_env0_def src_init_def tr_info_find_addr_def nl_find_def bump_kmalloc_def)

text \<open>C36. A relay's report on its neighbours does not come through completely: the source reads every
  neighbour's address and counters as the relay stored them, but takes the second and third byte of
  the address for the signal strength and the battery level.\<close>

theorem nbr_report_misread:
  assumes l: "ds_tr2_list s = l" "l \<noteq> []" "length l < 256" "list_all (entry_ok \<circ> snd) l"
    and sdf: "ds_sdf_info s = Some sdf" and mem: "env_alloc e 0"
  shows "\<exists>rpt e'. tl_rx_tr2_timer_func e s = Some (s\<lparr>ds_tr2_list := [], ds_sdf_info := None\<rparr>, [rpt], e') \<and>
    (\<forall>m<length l. \<forall>km q k a. tr_info_find_addr q (ti_addr (snd (l ! m))) = None \<longrightarrow> km (nl_addrs q) = Some a \<longrightarrow>
       receive_nbr km (skb_pull HDR rpt) k m q =
         Some (tr_info_insert a (tr_info_create () (ti_addr (snd (l ! m))) (skb_dev rpt) k (ti_rcv_num (snd (l ! m)))
                 (ti_addr (snd (l ! m)) ! 1) (ti_addr (snd (l ! m)) ! 2)) q))"
proof -
  from tr2_report [OF assms] obtain rpt e' where
    rpt: "tl_rx_tr2_timer_func e s = Some (s\<lparr>ds_tr2_list := [], ds_sdf_info := None\<rparr>, [rpt], e')"
    "\<And>m j. m < length l \<Longrightarrow> j < 40 \<Longrightarrow> skb_get (6 + 40 * m + j) (skb_pull HDR rpt) = Some (nbr_entry (snd (l ! m)) ! j)"
    by blast
  have "receive_nbr km (skb_pull HDR rpt) k m q =
         Some (tr_info_insert a (tr_info_create () (ti_addr (snd (l ! m))) (skb_dev rpt) k (ti_rcv_num (snd (l ! m)))
                 (ti_addr (snd (l ! m)) ! 1) (ti_addr (snd (l ! m)) ! 2)) q)"
    if m: "m < length l" and q: "tr_info_find_addr q (ti_addr (snd (l ! m))) = None" "km (nl_addrs q) = Some a" for m km q k a
  proof -
    let ?i = "snd (l ! m)"
    have ok: "length (ti_addr ?i) = 6" "length (ti_rcv_num ?i) = 8"
      using l(4) m by (auto simp: list_all_length entry_ok_def)
    note get = rpt(2) [OF m]
    have addr: "skb_load (m * 40 + 6) 6 (skb_pull HDR rpt) = Some (ti_addr ?i)"
      unfolding skb_load_iff using ok get by (auto simp: nbr_entry_def nth_append algebra_simps)
    have bytes: "skb_get (m * 40 + 7) (skb_pull HDR rpt) = Some (ti_addr ?i ! 1)"
      "skb_get (m * 40 + 8) (skb_pull HDR rpt) = Some (ti_addr ?i ! 2)"
      using get [of 1] get [of 2] ok by (simp_all add: nbr_entry_def nth_append algebra_simps)
    have "load_rcv (m * 40 + 6 + 6 + 2) (skb_pull HDR rpt) = Some (ti_rcv_num ?i)"
    proof (rule load_rcv_ok)
      fix j :: nat
      assume "j < 32"
      then show "skb_get (m * 40 + 6 + 6 + 2 + j) (skb_pull HDR rpt) = Some (rcv_bytes (ti_rcv_num ?i) ! j)"
        using get [of "8 + j"] ok by (simp add: nbr_entry_def nth_append algebra_simps)
    qed (simp add: ok)
    then show ?thesis using addr bytes q by (simp add: receive_nbr_def)
  qed
  with rpt(1) show ?thesis by blast
qed

theorem nbr_report_misread_witness:
  "\<exists>rpt e'. tl_rx_tr2_timer_func ex_env0 ex_client = Some (ex_client\<lparr>ds_tr2_list := [], ds_sdf_info := None\<rparr>, [rpt], e') \<and>
    receive_nbr bump_kmalloc (skb_pull HDR rpt) 1 0 [] =
      Some (tr_info_insert 1 (tr_info_create () [1, 2, 3, 4, 5, 6] (skb_dev rpt) 1 (replicate 8 0) 2 3) [])"
proof -
  from nbr_report_misread [of ex_client "[(0, ex_info)]" ex_info ex_env0] obtain rpt e' where
    "tl_rx_tr2_timer_func ex_env0 ex_client = Some (ex_client\<lparr>ds_tr2_list := [], ds_sdf_info := None\<rparr>, [rpt], e')"
    "\<And>km q k a. tr_info_find_addr q [1, 2, 3, 4, 5, 6] = None \<Longrightarrow> km (nl_addrs q) = Some a \<Longrightarrow>
       receive_nbr km (skb_pull HDR rpt) k 0 q =
         Some (tr_info_insert a (tr_info_create () [1, 2, 3, 4, 5, 6] (skb_dev rpt) k (replicate 8 0) 2 3) q)"
    by (auto simp: entry_ok_def ex_env0_def)
  then show ?thesis by (auto simp: tr_info_find_addr_def nl_find_def bump_kmalloc_def)
qed

text \<open>C35. A second-hop training frame can make the first-hop timer of a client use a null pointer: when such a frame,
  with the number of a new training run, or from another sender than the second-hop record, arrives while the first-hop
  timer is pending, the first-hop record is freed and its pointer set to \<open>NULL\<close>, but the timer stays pending; when it fires, its
  function counts the frames of the record through the null pointer. The code's test for \<open>NULL\<close> comes after that access.\<close>

theorem tf2_frame_crashes_tf1_timer:
  assumes "ds_tf1_timer s" "load_be32 1 skb = Some k" "load_be32 5 skb = Some sq" "load_be32 9 skb = Some ix"
    and "skb_get 13 skb = Some mcs" "sq \<le> k" "unat mcs < NUM_MCS"
    and "ds_tf2_cur_index s \<noteq> ix \<or> (\<exists>info. ds_tf2_info s = Some info \<and> ti_addr info \<noteq> saddr)"
  shows "\<exists>par' s'. receive_tf2 par skb saddr s = Some (par', s') \<and> ds_tf1_timer s' \<and> ds_tf1_info s' = None \<and>
    (\<forall>e. tl_rx_tf_timer_func False e (s'\<lparr>ds_tf1_timer := False\<rparr>) = None)"
  using assms leD [OF assms(6)] by (cases "ds_tf2_info s")
    (auto simp: receive_tf2_def tl_rx_tf_timer_func_def Let_def tr_info_count_def zero_rcv_def)

theorem tf2_frame_crashes_tf1_timer_witness:
  "\<exists>par' s'. receive_tf2 param_init (ex_tf 0) (replicate 6 2) ex_client = Some (par', s') \<and> ds_tf1_timer s' \<and> ds_tf1_info s' = None \<and>
    (\<forall>e. tl_rx_tf_timer_func False e (s'\<lparr>ds_tf1_timer := False\<rparr>) = None)"
  by (rule tf2_frame_crashes_tf1_timer [where k = 0 and sq = 0 and ix = 1 and mcs = 0]) simp_all

text \<open>The test of the rate in a first-hop training frame lets through a rate that has no counter:
  rate 8 makes the client write behind its eight counters.\<close>

theorem rate_eight_overruns:
  assumes "dst_reachable km (par, s)" "kmalloc_fresh km" "load_be32 1 skb = Some k" "load_be32 5 skb = Some sq"
    and "load_be32 9 skb = Some ix" "sq \<le> k"
  shows "receive_tf1 par skb saddr s = None \<longleftrightarrow> skb_get 13 skb = None \<or> skb_get 13 skb = Some 8"
proof -
  have inv: "counters_ok (ds_tf1_info s)" using dst_reachable_inv [OF assms(1,2)] by (simp add: dst_inv_def)
  have cnt: "tr_info_count m info = None \<longleftrightarrow> \<not> m < 8" if "length (ti_rcv_num info) = 8" for m and info :: nbr_info
    using that by (simp add: tr_info_count_def)
  have eight: "unat m < 8 \<longleftrightarrow> m \<noteq> 8" if "\<not> 8 < m" for m :: u8
  proof -
    have "unat m \<le> 8" using that by (simp add: word_less_nat_alt)
    moreover have "unat m = 8 \<longleftrightarrow> m = 8" using word_unat_eq_iff [of m 8] by simp
    ultimately show ?thesis by auto
  qed
  show ?thesis using leD [OF assms(6)] assms(3-5) inv
    by (cases "skb_get 13 skb"; cases "ds_tf1_info s")
      (auto simp: receive_tf1_def Let_def cnt eight bind_eq_None_conv)
qed

theorem rate_eight_overruns_witness: "receive_tf1 param_init (ex_tf 8) (replicate 6 2) dst_init = None"
proof -
  have "receive_tf1 param_init (ex_tf 8) (replicate 6 2) dst_init = None \<longleftrightarrow>
      skb_get 13 (ex_tf 8) = None \<or> skb_get 13 (ex_tf 8) = Some 8"
    by (rule rate_eight_overruns [OF dst_reachable.init [of bump_kmalloc], where k = 0 and sq = 0 and ix = 1]) simp_all
  then show ?thesis by simp
qed

end
