(* ===== verification/GF.thy ===== *)
theory GF
  imports Prelude
begin

text \<open>
  The arithmetic of \<^verbatim>\<open>gf.c\<close>: bytes as elements of a field with 256 elements, addition as
  exclusive or, multiplication and division through a logarithm and an antilogarithm table
  with generator 229 (0xe5).

  The laws are proved from three finite checks of the tables (consecutive antilogarithms
  differ by the factor 0xe5, the logarithm inverts the antilogarithm, the antilogarithm is
  never 0) and the linearity of multiplication by the generator; no check runs over pairs
  of bytes. A copy \<open>gf256\<close> of the type of bytes is an instance of the library's
  class of fields, with the operations of \<^verbatim>\<open>gf.c\<close> as its operations, so that sums and the
  algebraic simplifier apply to what the decoder computes.
\<close>

section \<open>The operations\<close>

definition gadd :: "u8 \<Rightarrow> u8 \<Rightarrow> u8" where
  "gadd a b = a XOR b"

definition gsub :: "u8 \<Rightarrow> u8 \<Rightarrow> u8" where
  "gsub a b = a XOR b"

definition ltable :: "u8 list" where
  "ltable =
    [
     0x00, 0xff, 0xc8, 0x08, 0x91, 0x10, 0xd0, 0x36,
     0x5a, 0x3e, 0xd8, 0x43, 0x99, 0x77, 0xfe, 0x18,
     0x23, 0x20, 0x07, 0x70, 0xa1, 0x6c, 0x0c, 0x7f,
     0x62, 0x8b, 0x40, 0x46, 0xc7, 0x4b, 0xe0, 0x0e,
     0xeb, 0x16, 0xe8, 0xad, 0xcf, 0xcd, 0x39, 0x53,
     0x6a, 0x27, 0x35, 0x93, 0xd4, 0x4e, 0x48, 0xc3,
     0x2b, 0x79, 0x54, 0x28, 0x09, 0x78, 0x0f, 0x21,
     0x90, 0x87, 0x14, 0x2a, 0xa9, 0x9c, 0xd6, 0x74,
     0xb4, 0x7c, 0xde, 0xed, 0xb1, 0x86, 0x76, 0xa4,
     0x98, 0xe2, 0x96, 0x8f, 0x02, 0x32, 0x1c, 0xc1,
     0x33, 0xee, 0xef, 0x81, 0xfd, 0x30, 0x5c, 0x13,
     0x9d, 0x29, 0x17, 0xc4, 0x11, 0x44, 0x8c, 0x80,
     0xf3, 0x73, 0x42, 0x1e, 0x1d, 0xb5, 0xf0, 0x12,
     0xd1, 0x5b, 0x41, 0xa2, 0xd7, 0x2c, 0xe9, 0xd5,
     0x59, 0xcb, 0x50, 0xa8, 0xdc, 0xfc, 0xf2, 0x56,
     0x72, 0xa6, 0x65, 0x2f, 0x9f, 0x9b, 0x3d, 0xba,
     0x7d, 0xc2, 0x45, 0x82, 0xa7, 0x57, 0xb6, 0xa3,
     0x7a, 0x75, 0x4f, 0xae, 0x3f, 0x37, 0x6d, 0x47,
     0x61, 0xbe, 0xab, 0xd3, 0x5f, 0xb0, 0x58, 0xaf,
     0xca, 0x5e, 0xfa, 0x85, 0xe4, 0x4d, 0x8a, 0x05,
     0xfb, 0x60, 0xb7, 0x7b, 0xb8, 0x26, 0x4a, 0x67,
     0xc6, 0x1a, 0xf8, 0x69, 0x25, 0xb3, 0xdb, 0xbd,
     0x66, 0xdd, 0xf1, 0xd2, 0xdf, 0x03, 0x8d, 0x34,
     0xd9, 0x92, 0x0d, 0x63, 0x55, 0xaa, 0x49, 0xec,
     0xbc, 0x95, 0x3c, 0x84, 0x0b, 0xf5, 0xe6, 0xe7,
     0xe5, 0xac, 0x7e, 0x6e, 0xb9, 0xf9, 0xda, 0x8e,
     0x9a, 0xc9, 0x24, 0xe1, 0x0a, 0x15, 0x6b, 0x3a,
     0xa0, 0x51, 0xf4, 0xea, 0xb2, 0x97, 0x9e, 0x5d,
     0x22, 0x88, 0x94, 0xce, 0x19, 0x01, 0x71, 0x4c,
     0xa5, 0xe3, 0xc5, 0x31, 0xbb, 0xcc, 0x1f, 0x2d,
     0x3b, 0x52, 0x6f, 0xf6, 0x2e, 0x89, 0xf7, 0xc0,
     0x68, 0x1b, 0x64, 0x04, 0x06, 0xbf, 0x83, 0x38]"

definition atable :: "u8 list" where
  "atable =
    [
     0x01, 0xe5, 0x4c, 0xb5, 0xfb, 0x9f, 0xfc, 0x12,
     0x03, 0x34, 0xd4, 0xc4, 0x16, 0xba, 0x1f, 0x36,
     0x05, 0x5c, 0x67, 0x57, 0x3a, 0xd5, 0x21, 0x5a,
     0x0f, 0xe4, 0xa9, 0xf9, 0x4e, 0x64, 0x63, 0xee,
     0x11, 0x37, 0xe0, 0x10, 0xd2, 0xac, 0xa5, 0x29,
     0x33, 0x59, 0x3b, 0x30, 0x6d, 0xef, 0xf4, 0x7b,
     0x55, 0xeb, 0x4d, 0x50, 0xb7, 0x2a, 0x07, 0x8d,
     0xff, 0x26, 0xd7, 0xf0, 0xc2, 0x7e, 0x09, 0x8c,
     0x1a, 0x6a, 0x62, 0x0b, 0x5d, 0x82, 0x1b, 0x8f,
     0x2e, 0xbe, 0xa6, 0x1d, 0xe7, 0x9d, 0x2d, 0x8a,
     0x72, 0xd9, 0xf1, 0x27, 0x32, 0xbc, 0x77, 0x85,
     0x96, 0x70, 0x08, 0x69, 0x56, 0xdf, 0x99, 0x94,
     0xa1, 0x90, 0x18, 0xbb, 0xfa, 0x7a, 0xb0, 0xa7,
     0xf8, 0xab, 0x28, 0xd6, 0x15, 0x8e, 0xcb, 0xf2,
     0x13, 0xe6, 0x78, 0x61, 0x3f, 0x89, 0x46, 0x0d,
     0x35, 0x31, 0x88, 0xa3, 0x41, 0x80, 0xca, 0x17,
     0x5f, 0x53, 0x83, 0xfe, 0xc3, 0x9b, 0x45, 0x39,
     0xe1, 0xf5, 0x9e, 0x19, 0x5e, 0xb6, 0xcf, 0x4b,
     0x38, 0x04, 0xb9, 0x2b, 0xe2, 0xc1, 0x4a, 0xdd,
     0x48, 0x0c, 0xd0, 0x7d, 0x3d, 0x58, 0xde, 0x7c,
     0xd8, 0x14, 0x6b, 0x87, 0x47, 0xe8, 0x79, 0x84,
     0x73, 0x3c, 0xbd, 0x92, 0xc9, 0x23, 0x8b, 0x97,
     0x95, 0x44, 0xdc, 0xad, 0x40, 0x65, 0x86, 0xa2,
     0xa4, 0xcc, 0x7f, 0xec, 0xc0, 0xaf, 0x91, 0xfd,
     0xf7, 0x4f, 0x81, 0x2f, 0x5b, 0xea, 0xa8, 0x1c,
     0x02, 0xd1, 0x98, 0x71, 0xed, 0x25, 0xe3, 0x24,
     0x06, 0x68, 0xb3, 0x93, 0x2c, 0x6f, 0x3e, 0x6c,
     0x0a, 0xb8, 0xce, 0xae, 0x74, 0xb1, 0x42, 0xb4,
     0x1e, 0xd3, 0x49, 0xe9, 0x9c, 0xc8, 0xc6, 0xc7,
     0x22, 0x6e, 0xdb, 0x20, 0xbf, 0x43, 0x51, 0x52,
     0x66, 0xb2, 0x76, 0x60, 0xda, 0xc5, 0xf3, 0xf6,
     0xaa, 0xcd, 0x9a, 0xa0, 0x75, 0x54, 0x0e, 0x01]"

text \<open>The local \<open>q\<close> of the C code is dead after its second assignment and is kept only
  where its value is read.\<close>

definition gmul :: "u8 \<Rightarrow> u8 \<Rightarrow> u8" where
  "gmul a b =
     (let s = unat (ltable ! unat a) + unat (ltable ! unat b);
          s = s mod 255;
          s = atable ! s;
          q = s;
          s = (if a = 0 then 0 else q);
          s = (if b = 0 then 0 else s)
      in s)"

definition gmul_inverse :: "u8 \<Rightarrow> u8" where
  "gmul_inverse a = (if a = 0 then 0 else atable ! (255 - unat (ltable ! unat a)))"

definition gdiv :: "u8 \<Rightarrow> u8 \<Rightarrow> u8" where
  "gdiv a b = (if b = 0 then 0 else gmul a (gmul_inverse b))"

section \<open>Reference arithmetic: polynomials over GF(2)\<close>

text \<open>Multiplication by the polynomial \<open>x\<close> modulo \<open>x\<^sup>8 + x\<^sup>4 + x\<^sup>3 + x + 1\<close>, and the
  schoolbook product built from it: one conditional addition per bit of the first factor.\<close>

definition xtime :: "u8 \<Rightarrow> u8" where
  "xtime a = push_bit 1 a XOR (if bit a 7 then 0x1b else 0)"

fun pmul_bits :: "nat \<Rightarrow> u8 \<Rightarrow> u8 \<Rightarrow> u8" where
  "pmul_bits 0 a b = 0"
| "pmul_bits (Suc n) a b = (if bit a 0 then b else 0) XOR pmul_bits n (drop_bit 1 a) (xtime b)"

definition pmul :: "u8 \<Rightarrow> u8 \<Rightarrow> u8" where
  "pmul a b = pmul_bits 8 a b"

definition mul_e5 :: "u8 \<Rightarrow> u8" where
  "mul_e5 a = pmul 0xe5 a"

section \<open>Finite checks of the tables\<close>

lemma length_ltable [simp]: "length ltable = 256"
  by (simp add: ltable_def)

lemma length_atable [simp]: "length atable = 256"
  by (simp add: atable_def)

lemma pmul_bits_numeral [simp]:
  "pmul_bits (numeral k) a b =
     (if bit a 0 then b else 0) XOR pmul_bits (pred_numeral k) (drop_bit 1 a) (xtime b)"
  by (simp only: numeral_eq_Suc pmul_bits.simps)

lemma mul_e5_unfold:
  "mul_e5 a = a XOR (let a2 = xtime (xtime a); a5 = xtime (xtime (xtime a2));
                         a6 = xtime a5; a7 = xtime a6 in a2 XOR (a5 XOR (a6 XOR a7)))"
  by (simp add: mul_e5_def pmul_def Let_def bit_simps)

lemma atable_step: "map mul_e5 (butlast atable) = tl atable"
  by (simp add: atable_def mul_e5_unfold xtime_def Let_def bit_simps)

lemma atable_hd: "hd atable = 1"
  by (simp add: atable_def)

lemma atable_last: "last atable = 1"
  by (simp add: atable_def)

lemma atable_nonzero: "0 \<notin> set atable"
  by (simp add: atable_def)

lemma ltable_atable: "map (\<lambda>x. ltable ! unat x) atable = 255 # map word_of_nat [1..<256]"
  by (simp add: atable_def ltable_def upt_rec)

section \<open>Powers of the generator\<close>

lemma atable_Suc: "i < 255 \<Longrightarrow> atable ! Suc i = mul_e5 (atable ! i)"
proof -
  assume i: "i < 255"
  have "atable ! Suc i = tl atable ! i"
    using i by (simp add: nth_tl)
  also have "\<dots> = map mul_e5 (butlast atable) ! i"
    by (simp only: atable_step)
  also have "\<dots> = mul_e5 (atable ! i)"
    using i by (simp add: nth_butlast)
  finally show ?thesis .
qed

lemma atable_pow: "i < 256 \<Longrightarrow> atable ! i = (mul_e5 ^^ i) 1"
proof (induction i)
  case 0
  show ?case using atable_hd by (simp add: hd_conv_nth flip: length_greater_0_conv)
next
  case (Suc i)
  then show ?case by (simp add: atable_Suc)
qed

lemma mul_e5_period: "(mul_e5 ^^ 255) 1 = 1"
  using atable_pow [of 255] atable_last by (simp add: last_conv_nth flip: length_greater_0_conv)

lemma mul_e5_mod: "(mul_e5 ^^ (n mod 255)) 1 = (mul_e5 ^^ n) 1"
proof (induction n rule: less_induct)
  case (less n)
  show ?case
  proof (cases "n < 255")
    case False
    then have "(mul_e5 ^^ n) 1 = (mul_e5 ^^ (n - 255)) ((mul_e5 ^^ 255) 1)"
      by (simp flip: funpow_add comp_apply [of "mul_e5 ^^ _"])
    also have "\<dots> = (mul_e5 ^^ ((n - 255) mod 255)) 1"
      using less.IH [of "n - 255"] False unfolding mul_e5_period by simp
    also have "(n - 255) mod 255 = n mod 255"
      using False by (simp flip: le_mod_geq)
    finally show ?thesis ..
  qed simp
qed

section \<open>Linearity\<close>

lemma xtime_xor: "xtime (a XOR b) = xtime a XOR xtime b"
  by (auto simp: xtime_def bit_simps push_bit_xor xor.assoc xor.left_commute)

lemma pmul_bits_xor: "pmul_bits n a (b XOR c) = pmul_bits n a b XOR pmul_bits n a c"
  by (induction n arbitrary: a b c) (auto simp: xtime_xor xor.assoc xor.left_commute)

lemma pmul_bits_xor_left: "pmul_bits n (a XOR b) c = pmul_bits n a c XOR pmul_bits n b c"
  by (induction n arbitrary: a b c) (auto simp: bit_simps drop_bit_xor xor.assoc xor.left_commute)

lemma mul_e5_xor: "mul_e5 (a XOR b) = mul_e5 a XOR mul_e5 b"
  by (simp add: mul_e5_def pmul_def pmul_bits_xor)

lemma mul_e5_0 [simp]: "mul_e5 0 = 0"
  using mul_e5_xor [of 0 0] by simp

lemma mul_e5_pow_xor: "(mul_e5 ^^ n) (a XOR b) = (mul_e5 ^^ n) a XOR (mul_e5 ^^ n) b"
  by (induction n) (auto simp: mul_e5_xor)

lemma mul_e5_pow_0 [simp]: "(mul_e5 ^^ n) 0 = 0"
  by (induction n) auto

section \<open>Logarithms\<close>

abbreviation glog :: "u8 \<Rightarrow> nat" where
  "glog a \<equiv> unat (ltable ! unat a)"

lemma glog_atable: "0 < i \<Longrightarrow> i < 256 \<Longrightarrow> glog (atable ! i) = i"
proof -
  assume i: "0 < i" "i < 256"
  have "map (\<lambda>x. ltable ! unat x) atable ! i = (255 # map word_of_nat [1..<256]) ! i"
    by (simp only: ltable_atable)
  with i have "ltable ! unat (atable ! i) = word_of_nat i"
    by (simp add: nth_Cons')
  with i show ?thesis by (simp add: unat_of_nat)
qed

lemma atable_inj: "inj_on ((!) atable) {1..<256}"
  by (rule inj_on_inverseI [of _ "glog"]) (simp add: glog_atable)

lemma atable_image: "(!) atable ` {1..<256} = - {0}"
proof (rule card_subset_eq)
  show "(!) atable ` {1..<256} \<subseteq> - {0}"
    using atable_nonzero by (auto simp: in_set_conv_nth)
  have "card (- {0} :: u8 set) = 255"
    by (simp add: Compl_eq_Diff_UNIV card_Diff_singleton card_word)
  then show "card ((!) atable ` {1..<256}) = card (- {0} :: u8 set)"
    by (subst card_image [OF atable_inj]) simp
qed simp

lemma pow_glog: "a \<noteq> 0 \<Longrightarrow> (mul_e5 ^^ glog a) 1 = a"
proof -
  assume "a \<noteq> 0"
  then have "a \<in> (!) atable ` {1..<256}" by (simp only: atable_image) simp
  then obtain i where "0 < i" "i < 256" "a = atable ! i" by (auto simp: Suc_le_eq)
  then show ?thesis by (simp add: glog_atable flip: atable_pow)
qed

lemma gmul_pow: "a \<noteq> 0 \<Longrightarrow> gmul a b = (mul_e5 ^^ glog a) b"
proof (cases "b = 0")
  case False
  assume a: "a \<noteq> 0"
  have "gmul a b = (mul_e5 ^^ (glog a + glog b)) 1"
    using a False by (simp add: gmul_def atable_pow mul_e5_mod)
  also have "\<dots> = (mul_e5 ^^ glog a) ((mul_e5 ^^ glog b) 1)"
    by (simp add: funpow_add)
  finally show ?thesis by (simp add: pow_glog False)
qed (simp add: gmul_def)

lemma gmul_0 [simp]: "gmul 0 b = 0" "gmul a 0 = 0"
  by (simp_all add: gmul_def)

section \<open>Field laws\<close>

lemma gmul_commute: "gmul a b = gmul b a"
  by (simp add: gmul_def add.commute)

lemma gmul_xor_right: "gmul a (b XOR c) = gmul a b XOR gmul a c"
  by (cases "a = 0") (simp_all add: gmul_pow mul_e5_pow_xor)

lemma gmul_assoc: "gmul (gmul a b) c = gmul a (gmul b c)"
proof (cases "a = 0 \<or> c = 0")
  case False
  have "gmul (gmul a b) c = gmul c (gmul a b)" by (rule gmul_commute)
  also have "\<dots> = (mul_e5 ^^ glog c) ((mul_e5 ^^ glog a) b)"
    using False by (simp add: gmul_pow)
  also have "\<dots> = (mul_e5 ^^ glog a) ((mul_e5 ^^ glog c) b)"
    by (simp flip: comp_apply [of "mul_e5 ^^ _"] funpow_add add: add.commute)
  also have "\<dots> = gmul a (gmul c b)"
    using False by (simp add: gmul_pow)
  finally show ?thesis by (simp add: gmul_commute [of c b])
qed auto

lemma gmul_1 [simp]: "gmul 1 b = b" "gmul b 1 = b"
proof -
  have "gmul b 1 = b"
    by (cases "b = 0") (simp_all add: gmul_pow pow_glog)
  then show "gmul b 1 = b" "gmul 1 b = b"
    by (simp_all add: gmul_commute [of 1])
qed

lemma glog_le: "glog a \<le> 255"
  using unat_u8_less [of "ltable ! unat a"] by linarith

lemma gmul_inverse_right: "a \<noteq> 0 \<Longrightarrow> gmul a (gmul_inverse a) = 1"
proof -
  assume a: "a \<noteq> 0"
  have "gmul a (gmul_inverse a) = (mul_e5 ^^ glog a) ((mul_e5 ^^ (255 - glog a)) 1)"
    using a by (simp add: gmul_pow gmul_inverse_def atable_pow)
  also have "\<dots> = (mul_e5 ^^ (glog a + (255 - glog a))) 1"
    by (simp add: funpow_add)
  also have "\<dots> = 1"
    using glog_le [of a] mul_e5_period by simp
  finally show ?thesis .
qed

section \<open>The field type\<close>

typedef gf256 = "UNIV :: u8 set"
  morphisms byte_of gf_of ..

setup_lifting type_definition_gf256

instantiation gf256 :: field
begin

lift_definition zero_gf256 :: gf256 is 0 .
lift_definition one_gf256 :: gf256 is 1 .
lift_definition plus_gf256 :: "gf256 \<Rightarrow> gf256 \<Rightarrow> gf256" is gadd .
lift_definition minus_gf256 :: "gf256 \<Rightarrow> gf256 \<Rightarrow> gf256" is gsub .
lift_definition uminus_gf256 :: "gf256 \<Rightarrow> gf256" is "\<lambda>a. gsub 0 a" .
lift_definition times_gf256 :: "gf256 \<Rightarrow> gf256 \<Rightarrow> gf256" is gmul .
lift_definition inverse_gf256 :: "gf256 \<Rightarrow> gf256" is gmul_inverse .
lift_definition divide_gf256 :: "gf256 \<Rightarrow> gf256 \<Rightarrow> gf256" is gdiv .

instance
proof
  fix a b c :: gf256
  show "a * b * c = a * (b * c)" by transfer (rule gmul_assoc)
  show "a * b = b * a" by transfer (rule gmul_commute)
  show "a + b + c = a + (b + c)" by transfer (simp add: gadd_def xor.assoc)
  show "a + b = b + a" by transfer (simp add: gadd_def xor.commute)
  show "0 + a = a" by transfer (simp add: gadd_def)
  show "- a + a = 0" by transfer (simp add: gadd_def gsub_def)
  show "a - b = a + - b" by transfer (simp add: gadd_def gsub_def)
  show "1 * a = a" by transfer simp
  show "(0 :: gf256) \<noteq> 1" by transfer simp
  show "(a + b) * c = a * c + b * c"
    by transfer (metis gadd_def gmul_commute gmul_xor_right)
  show "inverse a * a = 1" if "a \<noteq> 0"
    using that by transfer (metis gmul_commute gmul_inverse_right)
  show "a div b = a * inverse b" by transfer (simp add: gdiv_def gmul_inverse_def)
  show "inverse (0 :: gf256) = 0" by transfer (simp add: gmul_inverse_def)
qed
end

lemma gf_of_eq_iff [simp]: "gf_of a = gf_of b \<longleftrightarrow> a = b"
  by (simp add: gf_of_inject)

lemma gf_of_ops [gf_hom]:
  "gf_of (gadd a b) = gf_of a + gf_of b"
  "gf_of (gsub a b) = gf_of a - gf_of b"
  "gf_of (gmul a b) = gf_of a * gf_of b"
  "gf_of (gdiv a b) = gf_of a / gf_of b"
  "gf_of (gmul_inverse a) = inverse (gf_of a)"
  "gf_of 0 = 0"
  "gf_of 1 = 1"
  by (transfer; simp)+

lemma gf_of_0_iff [simp]: "gf_of a = 0 \<longleftrightarrow> a = 0"
  using gf_of_eq_iff [of a 0] by (simp add: gf_hom)

section \<open>Equivalence with the reference product\<close>

lemma xtime_gmul: "xtime b = gmul 2 b"
proof -
  have "xtime 1 = 2" by (simp add: xtime_def bit_simps)
  moreover have "xtime (mul_e5 c) = mul_e5 (xtime c)" for c
    by (simp add: mul_e5_unfold Let_def xtime_xor)
  ultimately have pow: "xtime ((mul_e5 ^^ n) 1) = (mul_e5 ^^ n) 2" for n
    by (induction n) simp_all
  show ?thesis
  proof (cases "b = 0")
    case False
    have "xtime b = (mul_e5 ^^ glog b) 2"
      using pow [of "glog b"] by (simp add: pow_glog False)
    also have "\<dots> = gmul 2 b"
      using False by (simp add: gmul_pow gmul_commute [of 2])
    finally show ?thesis .
  qed (simp add: xtime_def)
qed

lemma u8_split_low: "(a :: u8) = (if bit a 0 then 1 else 0) XOR push_bit 1 (drop_bit 1 a)"
proof (rule bit_word_eqI)
  fix n
  show "bit a n = bit ((if bit a 0 then 1 else 0) XOR push_bit 1 (drop_bit 1 a)) n"
    if "n < LENGTH(8)"
    using that by (cases n) (auto simp: bit_simps simp del: push_bit_Suc)
qed

lemma pmul_bits_gmul: "(\<And>m. n \<le> m \<Longrightarrow> \<not> bit a m) \<Longrightarrow> pmul_bits n a b = gmul a b"
proof (induction n arbitrary: a b)
  case (Suc n)
  let ?c = "drop_bit 1 a"
  have small: "\<not> bit ?c m" if "n \<le> m" for m
    using Suc.prems that by (simp add: bit_simps)
  have "bit ?c 7 = False"
    using bit_imp_le_length [of a 8] by (auto simp: bit_simps)
  then have shift: "push_bit 1 ?c = gmul 2 ?c"
    by (simp flip: xtime_gmul add: xtime_def)
  have "gmul a b = gmul ((if bit a 0 then 1 else 0) XOR push_bit 1 ?c) b"
    by (subst u8_split_low) (rule refl)
  also have "\<dots> = (if bit a 0 then b else 0) XOR gmul ?c (gmul 2 b)"
    unfolding shift by (simp add: gmul_commute [of _ b] gmul_xor_right)
      (metis gmul_assoc gmul_commute)
  also have "gmul ?c (gmul 2 b) = pmul_bits n ?c (xtime b)"
    using Suc.IH [of ?c, OF small] by (simp add: xtime_gmul)
  finally show ?case by simp
next
  case 0
  then have "a = 0" by (intro bit_word_eqI) simp
  then show ?case by simp
qed

lemma gmul_eq_pmul: "gmul a b = pmul a b"
  unfolding pmul_def by (rule pmul_bits_gmul [symmetric]) (auto dest: bit_imp_le_length)

section \<open>Properties\<close>

text \<open>C9. The byte operations of \<^verbatim>\<open>gf.c\<close> form a field: addition and multiplication are
  commutative and associative, multiplication distributes over addition, 1 is neutral,
  subtraction undoes addition, and dividing by a non-zero byte undoes multiplying by it;
  division by 0 gives 0.\<close>

theorem gf_field_laws:
  "gadd a b = gadd b a \<and> gadd (gadd a b) c = gadd a (gadd b c) \<and> gsub (gadd a b) b = a \<and>
   gmul a b = gmul b a \<and> gmul (gmul a b) c = gmul a (gmul b c) \<and> gmul 1 a = a \<and>
   gmul a (gadd b c) = gadd (gmul a b) (gmul a c) \<and>
   gdiv (gmul a b) b = (if b = 0 then 0 else a) \<and>
   gmul b (gdiv a b) = (if b = 0 then 0 else a)"
  by (subst gf_of_eq_iff [symmetric])+ (simp add: gf_hom algebra_simps)

text \<open>C8. The table-driven product is the product of polynomials over GF(2) modulo
  \<open>x\<^sup>8 + x\<^sup>4 + x\<^sup>3 + x + 1\<close>, computed bit by bit.\<close>

theorem gmul_is_polynomial_product: "gmul a b = pmul a b"
  by (rule gmul_eq_pmul)

end
