(* ===== verification/LU.thy ===== *)
theory LU
  imports GF
begin

text \<open>
  The linear algebra of the network-coding receiver (\<^verbatim>\<open>lu_fac\<close> and the inner loops of
  \<^verbatim>\<open>skb_substi\<close> in \<^verbatim>\<open>mnc_rx.c\<close>). A C matrix \<open>M[][n]\<close> is a function of its two indices; all
  loops of the code keep the indices below \<open>n\<close>, and the results speak about indices below
  \<open>n\<close> only. The locals \<open>U\<close> and \<open>L\<close> of the caller start with unspecified contents, so they
  are arguments.

  Shown here: row pivoting keeps \<open>Arr\<close> a row permutation of its initial value recorded in
  \<open>pivot\<close>; on return \<open>Arr = L U\<close> with \<open>L\<close> unit lower and \<open>U\<close> upper triangular; and if no
  diagonal entry of \<open>U\<close> is zero, forward and back substitution compute the one solution of
  the linear system.
\<close>

section \<open>Definitions\<close>

type_synonym matrix = "nat \<Rightarrow> nat \<Rightarrow> u8"
type_synonym vector = "nat \<Rightarrow> u8"

definition upd2 :: "matrix \<Rightarrow> nat \<Rightarrow> nat \<Rightarrow> u8 \<Rightarrow> matrix" where
  "upd2 M i j v = M(i := (M i)(j := v))"

record lu_state =
  lu_Arr :: matrix
  lu_U :: matrix
  lu_L :: matrix
  lu_pivot :: "nat \<Rightarrow> nat"

definition swap_cell :: "nat \<Rightarrow> nat \<Rightarrow> nat \<Rightarrow> matrix \<Rightarrow> matrix" where
  "swap_cell a b k M = (let temp_c = M a k; M = upd2 M a k (M b k) in upd2 M b k temp_c)"

text \<open>The search for a row with a non-zero entry; the loop variable is \<open>n\<close> when there is none.\<close>

definition find_change :: "matrix \<Rightarrow> nat \<Rightarrow> nat \<Rightarrow> nat" where
  "find_change U j n = (case List.find (\<lambda>k. U k j \<noteq> 0) [j + 1..<n] of Some k \<Rightarrow> k | None \<Rightarrow> n)"

definition lu_swap :: "nat \<Rightarrow> nat \<Rightarrow> nat \<Rightarrow> lu_state \<Rightarrow> lu_state" where
  "lu_swap n j change s =
     s\<lparr>lu_Arr := fold (swap_cell j change) [0..<n] (lu_Arr s),
       lu_U := fold (swap_cell j change) [j..<n] (lu_U s),
       lu_L := fold (swap_cell j change) [0..<j] (lu_L s),
       lu_pivot := (lu_pivot s)(change := lu_pivot s j, j := lu_pivot s change)\<rparr>"

definition elim_cell :: "nat \<Rightarrow> nat \<Rightarrow> u8 \<Rightarrow> nat \<Rightarrow> matrix \<Rightarrow> matrix" where
  "elim_cell i j l k U = upd2 U i k (gsub (U i k) (gmul (U j k) l))"

definition lu_elim :: "nat \<Rightarrow> nat \<Rightarrow> nat \<Rightarrow> lu_state \<Rightarrow> lu_state" where
  "lu_elim n j i s =
     (let s = s\<lparr>lu_L := upd2 (lu_L s) i j (gdiv (lu_U s i j) (lu_U s j j))\<rparr>
      in if lu_L s i j = 0 then s
         else s\<lparr>lu_U := fold (elim_cell i j (lu_L s i j)) [j..<n] (lu_U s)\<rparr>)"

definition lu_row :: "nat \<Rightarrow> nat \<Rightarrow> nat \<Rightarrow> lu_state \<Rightarrow> lu_state" where
  "lu_row n j i s =
     (if lu_U s j j = 0 then
        let change = find_change (lu_U s) j n
        in if change = n then s else lu_elim n j i (lu_swap n j change s)
      else lu_elim n j i s)"

definition lu_col :: "nat \<Rightarrow> nat \<Rightarrow> lu_state \<Rightarrow> lu_state" where
  "lu_col n j s = fold (lu_row n j) [j + 1..<n] (s\<lparr>lu_L := upd2 (lu_L s) j j 1\<rparr>)"

definition lu_fac :: "nat \<Rightarrow> nat \<Rightarrow> lu_state \<Rightarrow> lu_state" where
  "lu_fac m n s =
     (if m > n then s
      else fold (lu_col n) [0..<n]
        (s\<lparr>lu_U := (\<lambda>i j. if i < n \<and> j < n then (if i < m then lu_Arr s i j else 0) else lu_U s i j),
           lu_L := (\<lambda>i j. if i < n \<and> j < n then 0 else lu_L s i j)\<rparr>))"

text \<open>One column of right-hand sides: \<open>b\<close> is the permuted column, then \<open>L y = b\<close> and \<open>U x = y\<close>.
  The array \<open>x\<close> is uninitialised in the C code and a zero pivot leaves its entry alone.\<close>

definition forward_cell :: "matrix \<Rightarrow> nat \<Rightarrow> nat \<Rightarrow> vector \<Rightarrow> vector" where
  "forward_cell L j l y = y(j := gsub (y j) (gmul (L j l) (y l)))"

definition forward_row :: "matrix \<Rightarrow> vector \<Rightarrow> nat \<Rightarrow> vector \<Rightarrow> vector" where
  "forward_row L b j y = fold (forward_cell L j) [0..<j] (y(j := b j))"

definition back_cell :: "matrix \<Rightarrow> nat \<Rightarrow> nat \<Rightarrow> vector \<Rightarrow> vector" where
  "back_cell U n l x = x(n := gsub (x n) (gmul (U n l) (x l)))"

definition back_row :: "nat \<Rightarrow> matrix \<Rightarrow> vector \<Rightarrow> nat \<Rightarrow> vector \<Rightarrow> vector" where
  "back_row msize U y j x =
     (let n = msize - 1 - j
      in if U n n = 0 then x
         else let x = fold (back_cell U n) [n + 1..<msize] (x(n := y n))
              in x(n := gdiv (x n) (U n n)))"

definition solve_column ::
  "nat \<Rightarrow> matrix \<Rightarrow> matrix \<Rightarrow> (nat \<Rightarrow> nat) \<Rightarrow> vector \<Rightarrow> vector \<Rightarrow> vector \<Rightarrow> vector \<times> vector" where
  "solve_column msize U L pivot t y x =
     (let b = (\<lambda>j. t (pivot j));
          y = fold (forward_row L b) [0..<msize] y
      in (y, fold (back_row msize U y) [0..<msize] x))"

section \<open>The loops in closed form\<close>

lemma gdiv_eq_0_iff [simp]: "gdiv a b = 0 \<longleftrightarrow> a = 0 \<or> b = 0"
  by (subst gf_of_0_iff [symmetric]) (simp add: gf_hom)

lemma upd2_apply [simp]: "upd2 M i j v i' j' = (if i' = i \<and> j' = j then v else M i' j')"
  by (simp add: upd2_def)

lemma swap_cells:
  "a \<noteq> b \<Longrightarrow> fold (swap_cell a b) [lo..<hi] M i c =
     (if lo \<le> c \<and> c < hi then M (if i = a then b else if i = b then a else i) c else M i c)"
  by (induction hi arbitrary: i c) (auto simp: swap_cell_def Let_def less_Suc_eq)

lemma elim_cells:
  "i \<noteq> j \<Longrightarrow> fold (elim_cell i j l) [lo..<hi] U i' c =
     (if i' = i \<and> lo \<le> c \<and> c < hi then gsub (U i c) (gmul (U j c) l) else U i' c)"
  by (induction hi arbitrary: i' c) (auto simp: elim_cell_def less_Suc_eq)

lemma find_change_less: "find_change U j n \<noteq> n \<Longrightarrow>
  j < find_change U j n \<and> find_change U j n < n \<and> U (find_change U j n) j \<noteq> 0"
  by (auto simp: find_change_def find_Some_iff split: option.splits)

lemma find_change_none: "find_change U j n = n \<Longrightarrow> j < k \<Longrightarrow> k < n \<Longrightarrow> U k j = 0"
  by (auto simp: find_change_def find_None_iff find_Some_iff split: option.splits)

section \<open>The factorisation invariant\<close>

text \<open>\<open>lu_inv n A j r s\<close>: the columns below \<open>j\<close> are finished, and in column \<open>j\<close> the rows below
  \<open>r\<close>; \<open>A\<close> is the matrix the factorisation started from.\<close>

definition lu_done :: "nat \<Rightarrow> nat \<Rightarrow> nat \<Rightarrow> nat \<Rightarrow> bool" where
  "lu_done j r i k \<longleftrightarrow> k < j \<or> k = j \<and> i < r"

definition lu_inv :: "nat \<Rightarrow> matrix \<Rightarrow> nat \<Rightarrow> nat \<Rightarrow> lu_state \<Rightarrow> bool" where
  "lu_inv n A j r s \<longleftrightarrow>
     (\<forall>i<n. \<forall>c<n. gf_of (lu_Arr s i c) =
        gf_of (lu_U s i c) + (\<Sum>k<i. gf_of (lu_L s i k) * gf_of (lu_U s k c))) \<and>
     (\<forall>i<n. \<forall>k<i. \<not> lu_done j r i k \<longrightarrow> lu_L s i k = 0) \<and>
     (\<forall>i<n. \<forall>k<i. lu_done j r i k \<longrightarrow> lu_U s i k = 0) \<and>
     (\<forall>i<n. lu_pivot s i < n \<and> (\<forall>c<n. lu_Arr s i c = A (lu_pivot s i) c)) \<and>
     inj_on (lu_pivot s) {..<n} \<and>
     (lu_U s j j = 0 \<longrightarrow> Suc j < r \<longrightarrow> (\<forall>k. j < k \<longrightarrow> k < n \<longrightarrow> lu_U s k j = 0))"

lemma lu_invD:
  assumes "lu_inv n A j r s"
  shows lu_inv_eq: "\<And>i c. i < n \<Longrightarrow> c < n \<Longrightarrow> gf_of (lu_Arr s i c) =
        gf_of (lu_U s i c) + (\<Sum>k<i. gf_of (lu_L s i k) * gf_of (lu_U s k c))"
    and lu_inv_L: "\<And>i k. i < n \<Longrightarrow> k < i \<Longrightarrow> \<not> lu_done j r i k \<Longrightarrow> lu_L s i k = 0"
    and lu_inv_U: "\<And>i k. i < n \<Longrightarrow> k < i \<Longrightarrow> lu_done j r i k \<Longrightarrow> lu_U s i k = 0"
    and lu_inv_pivot: "\<And>i. i < n \<Longrightarrow> lu_pivot s i < n"
    and lu_inv_Arr: "\<And>i c. i < n \<Longrightarrow> c < n \<Longrightarrow> lu_Arr s i c = A (lu_pivot s i) c"
    and lu_inv_inj: "inj_on (lu_pivot s) {..<n}"
    and lu_inv_none: "\<And>k. lu_U s j j = 0 \<Longrightarrow> Suc j < r \<Longrightarrow> j < k \<Longrightarrow> k < n \<Longrightarrow> lu_U s k j = 0"
  using assms unfolding lu_inv_def by blast+

lemma lu_invI:
  assumes "\<And>i c. i < n \<Longrightarrow> c < n \<Longrightarrow> gf_of (lu_Arr s i c) =
        gf_of (lu_U s i c) + (\<Sum>k<i. gf_of (lu_L s i k) * gf_of (lu_U s k c))"
    and "\<And>i k. i < n \<Longrightarrow> k < i \<Longrightarrow> \<not> lu_done j r i k \<Longrightarrow> lu_L s i k = 0"
    and "\<And>i k. i < n \<Longrightarrow> k < i \<Longrightarrow> lu_done j r i k \<Longrightarrow> lu_U s i k = 0"
    and "\<And>i. i < n \<Longrightarrow> lu_pivot s i < n"
    and "\<And>i c. i < n \<Longrightarrow> c < n \<Longrightarrow> lu_Arr s i c = A (lu_pivot s i) c"
    and "inj_on (lu_pivot s) {..<n}"
    and "\<And>k. lu_U s j j = 0 \<Longrightarrow> Suc j < r \<Longrightarrow> j < k \<Longrightarrow> k < n \<Longrightarrow> lu_U s k j = 0"
  shows "lu_inv n A j r s"
  unfolding lu_inv_def by (intro conjI allI impI) (fact assms | rule assms; assumption)+

text \<open>In a row that elimination has not reached, only the finished columns contribute.\<close>

lemma lu_inv_eq_below:
  assumes "lu_inv n A j (Suc j) s" and "j \<le> i" and "i < n" and "c < n"
  shows "gf_of (lu_Arr s i c) =
    gf_of (lu_U s i c) + (\<Sum>k<j. gf_of (lu_L s i k) * gf_of (lu_U s k c))"
proof -
  have "lu_L s i k = 0" if "k < i" "j \<le> k" for k
    using that assms lu_inv_L [OF assms(1) \<open>i < n\<close> that(1)] by (auto simp: lu_done_def)
  then have "(\<Sum>k<i. gf_of (lu_L s i k) * gf_of (lu_U s k c)) =
    (\<Sum>k<j. gf_of (lu_L s i k) * gf_of (lu_U s k c))"
    using assms(2) by (intro sum.mono_neutral_right) (auto simp: gf_hom)
  with lu_inv_eq [OF assms(1,3,4)] show ?thesis by simp
qed

lemma lu_swap_inv:
  assumes inv: "lu_inv n A j (Suc j) s" and ch: "j < ch" "ch < n"
    and nz: "lu_U s ch j \<noteq> 0"
  shows "lu_inv n A j (Suc j) (lu_swap n j ch s)" and "lu_U (lu_swap n j ch s) j j \<noteq> 0"
proof -
  let ?s = "lu_swap n j ch s"
  let ?t = "\<lambda>i. if i = j then ch else if i = ch then j else i"
  have Arr: "lu_Arr ?s i c = lu_Arr s (?t i) c" if "c < n" for i c
    using that ch by (simp add: lu_swap_def swap_cells)
  have Uz: "lu_U s i c = 0" if "c < j" "i = j \<or> i = ch" for i c
    using that ch lu_inv_U [OF inv, of i c] by (auto simp: lu_done_def)
  have U: "lu_U ?s i c = lu_U s (?t i) c" if "c < n" for i c
    using that ch Uz by (auto simp: lu_swap_def swap_cells)
  have L: "lu_L ?s i k = (if k < j then lu_L s (?t i) k else lu_L s i k)" for i k
    using ch by (simp add: lu_swap_def swap_cells)
  have piv: "lu_pivot ?s i = lu_pivot s (?t i)" for i
    using ch by (simp add: lu_swap_def)
  have tn: "?t i < n" if "i < n" for i using that ch by simp
  show nzj: "lu_U ?s j j \<noteq> 0" using U [of j j] ch nz by simp
  have eq: "gf_of (lu_Arr ?s i c) =
      gf_of (lu_U ?s i c) + (\<Sum>k<i. gf_of (lu_L ?s i k) * gf_of (lu_U ?s k c))"
    if i: "i < n" and c: "c < n" for i c
  proof (cases "i < j")
    case True
    then have "lu_L ?s i k = lu_L s i k" "lu_U ?s k c = lu_U s k c" if "k < i" for k
      using that ch c by (simp_all add: L U)
    with True ch lu_inv_eq [OF inv i c] show ?thesis by (simp add: Arr U c)
  next
    case False
    have "lu_L ?s i k = 0" if "k < i" "j \<le> k" for k
      using that lu_inv_L [OF inv i that(1)] by (simp add: L lu_done_def)
    then have "(\<Sum>k<i. gf_of (lu_L ?s i k) * gf_of (lu_U ?s k c)) =
      (\<Sum>k<j. gf_of (lu_L ?s i k) * gf_of (lu_U ?s k c))"
      using False by (intro sum.mono_neutral_right) (auto simp: gf_hom)
    also have "\<dots> = (\<Sum>k<j. gf_of (lu_L s (?t i) k) * gf_of (lu_U s k c))"
      using ch c by (intro sum.cong) (auto simp: L U)
    finally show ?thesis
      using lu_inv_eq_below [OF inv, of "?t i" c] False ch i c tn [OF i] by (simp add: Arr U)
  qed
  have inj: "inj_on (lu_pivot ?s) {..<n}"
    using lu_inv_inj [OF inv] ch unfolding inj_on_def piv by (auto split: if_splits)
  show "lu_inv n A j (Suc j) ?s"
    unfolding lu_inv_def
  proof (intro conjI allI impI)
    fix i k assume *: "i < n" "k < i"
    show "lu_L ?s i k = 0" if "\<not> lu_done j (Suc j) i k"
      using that * lu_inv_L [OF inv *] by (auto simp: L lu_done_def)
    show "lu_U ?s i k = 0" if "lu_done j (Suc j) i k"
      using that * ch lu_inv_U [OF inv, of "?t i" k] tn [OF *(1)]
      by (auto simp: U lu_done_def split: if_splits)
  qed (use eq inj nzj lu_inv_pivot [OF inv tn] lu_inv_Arr [OF inv tn] in \<open>auto simp: piv Arr\<close>)
qed

lemma lu_elim_inv:
  assumes inv: "lu_inv n A j i s" and ji: "j < i" "i < n" and nz: "lu_U s j j \<noteq> 0"
  shows "lu_inv n A j (Suc i) (lu_elim n j i s)" and "lu_U (lu_elim n j i s) j j = lu_U s j j"
proof -
  let ?s = "lu_elim n j i s" and ?l = "gdiv (lu_U s i j) (lu_U s j j)"
  have L: "lu_L ?s = upd2 (lu_L s) i j ?l"
    by (simp add: lu_elim_def Let_def)
  have same: "lu_Arr ?s = lu_Arr s" "lu_pivot ?s = lu_pivot s"
    by (simp_all add: lu_elim_def Let_def)
  have Urow: "lu_U ?s i' = lu_U s i'" if "i' \<noteq> i" for i'
    using that ji by (auto simp: lu_elim_def Let_def elim_cells)
  then show "lu_U ?s j j = lu_U s j j" using ji by simp
  have Uz: "lu_U s i c = 0" "lu_U s j c = 0" if "c < j" for c
    using that ji lu_inv_U [OF inv, of i c] lu_inv_U [OF inv, of j c] by (auto simp: lu_done_def)
  have Ui: "gf_of (lu_U ?s i c) = gf_of (lu_U s i c) - gf_of ?l * gf_of (lu_U s j c)" if "c < n" for c
    using that ji Uz by (auto simp: lu_elim_def Let_def elim_cells gf_hom mult.commute)
  have Lij: "lu_L s i j = 0"
    using lu_inv_L [OF inv ji(2,1)] by (simp add: lu_done_def)
  have eq: "gf_of (lu_Arr ?s i' c) =
      gf_of (lu_U ?s i' c) + (\<Sum>k<i'. gf_of (lu_L ?s i' k) * gf_of (lu_U ?s k c))"
    if i': "i' < n" and c: "c < n" for i' c
  proof (cases "i' = i")
    case True
    have "(\<Sum>k<i. gf_of (lu_L ?s i k) * gf_of (lu_U ?s k c)) =
      gf_of ?l * gf_of (lu_U s j c) + (\<Sum>k\<in>{..<i} - {j}. gf_of (lu_L s i k) * gf_of (lu_U s k c))"
      using ji by (subst sum.remove [of _ j]) (auto simp: L Urow intro!: sum.cong)
    also have "(\<Sum>k\<in>{..<i} - {j}. gf_of (lu_L s i k) * gf_of (lu_U s k c)) =
      (\<Sum>k<i. gf_of (lu_L s i k) * gf_of (lu_U s k c))"
      using ji Lij by (subst (2) sum.remove [of _ j]) (auto simp: gf_hom)
    finally show ?thesis
      using lu_inv_eq [OF inv ji(2) c] by (simp add: True same Ui c)
  next
    case False
    have "gf_of (lu_L ?s i' k) * gf_of (lu_U ?s k c) = gf_of (lu_L s i' k) * gf_of (lu_U s k c)"
      if "k < i'" for k
      using that False ji lu_inv_L [OF inv i', of i] by (cases "k = i") (auto simp: L Urow lu_done_def gf_hom)
    then show ?thesis
      using lu_inv_eq [OF inv i' c] False by (simp add: same Urow)
  qed
  have "gf_of (lu_U ?s i j) = 0"
    using nz ji by (simp add: Ui gf_hom)
  then have Uij: "lu_U ?s i j = 0" by simp
  show "lu_inv n A j (Suc i) ?s"
    unfolding lu_inv_def
  proof (intro conjI allI impI)
    fix i' k assume *: "i' < n" "k < i'"
    show "lu_L ?s i' k = 0" if "\<not> lu_done j (Suc i) i' k"
      using that * lu_inv_L [OF inv *] by (auto simp: L lu_done_def)
    show "lu_U ?s i' k = 0" if "lu_done j (Suc i) i' k"
    proof (cases "i' = i")
      case True
      show ?thesis
      proof (cases "k = j")
        case False
        then have "k < j" using that by (simp add: lu_done_def)
        then have "gf_of (lu_U ?s i k) = 0" using Uz [of k] ji Ui [of k] by (simp add: gf_hom)
        with True show ?thesis by simp
      qed (use True Uij in simp)
    qed (use that * lu_inv_U [OF inv *] in \<open>auto simp: Urow lu_done_def\<close>)
  qed (use eq lu_inv_pivot [OF inv] lu_inv_Arr [OF inv] lu_inv_inj [OF inv] nz ji in
       \<open>auto simp: same Urow\<close>)
qed

lemma lu_row_inv:
  assumes inv: "lu_inv n A j i s" and ji: "j < i" "i < n"
  shows "lu_inv n A j (Suc i) (lu_row n j i s)"
proof (cases "lu_U s j j = 0")
  case zero: True
  let ?ch = "find_change (lu_U s) j n"
  show ?thesis
  proof (cases "?ch = n")
    case True
    have col: "lu_U s k j = 0" if "j < k" "k < n" for k
      using find_change_none [OF True that] .
    have "lu_inv n A j (Suc i) s"
    proof (rule lu_invI)
      show "lu_L s i' k = 0" if "i' < n" "k < i'" "\<not> lu_done j (Suc i) i' k" for i' k
        using that lu_inv_L [OF inv that(1,2)] by (auto simp: lu_done_def)
      show "lu_U s i' k = 0" if "i' < n" "k < i'" "lu_done j (Suc i) i' k" for i' k
        using that col [of i'] lu_inv_U [OF inv that(1,2)] by (auto simp: lu_done_def)
    qed (fact lu_invD [OF inv] col | rule lu_invD [OF inv] col; assumption)+
    with zero True show ?thesis by (simp add: lu_row_def)
  next
    case False
    then have ch: "j < ?ch" "?ch < n" "lu_U s ?ch j \<noteq> 0"
      using find_change_less by blast+
    with lu_inv_none [OF inv zero, of ?ch] ji have "i = Suc j" by force
    with inv have "lu_inv n A j i (lu_swap n j ?ch s)" "lu_U (lu_swap n j ?ch s) j j \<noteq> 0"
      using lu_swap_inv [of n A j s ?ch] ch by simp_all
    then have "lu_inv n A j (Suc i) (lu_elim n j i (lu_swap n j ?ch s))"
      using ji by (intro lu_elim_inv(1))
    with zero False show ?thesis by (simp add: lu_row_def)
  qed
next
  case False
  with lu_elim_inv(1) [OF inv ji] show ?thesis by (simp add: lu_row_def)
qed

lemma lu_inv_diag: "lu_inv n A j r s \<Longrightarrow> lu_inv n A j r (s\<lparr>lu_L := upd2 (lu_L s) d d v\<rparr>)"
  (is "_ \<Longrightarrow> lu_inv n A j r ?s")
proof -
  assume inv: "lu_inv n A j r s"
  have "lu_L ?s i k = lu_L s i k" if "k < i" for i k using that by auto
  with lu_invD [OF inv] show ?thesis by (intro lu_invI) simp_all
qed

lemma lu_inv_next: "lu_inv n A j n s \<Longrightarrow> lu_inv n A (Suc j) (Suc (Suc j)) s"
proof -
  assume inv: "lu_inv n A j n s"
  have "lu_done (Suc j) (Suc (Suc j)) i k \<longleftrightarrow> lu_done j n i k" if "i < n" "k < i" for i k
    using that by (auto simp: lu_done_def)
  with lu_invD [OF inv] show ?thesis by (intro lu_invI) auto
qed

lemma lu_rows_inv:
  "lu_inv n A j (Suc j) s \<Longrightarrow> r \<le> n \<Longrightarrow> j < r \<Longrightarrow>
   lu_inv n A j r (fold (lu_row n j) [Suc j..<r] s)"
proof (induction r)
  case (Suc r)
  show ?case
  proof (cases "j = r")
    case False
    with Suc show ?thesis by (simp add: lu_row_inv)
  qed (use Suc in simp)
qed simp

lemma lu_col_inv: "lu_inv n A j (Suc j) s \<Longrightarrow> j < n \<Longrightarrow>
  lu_inv n A (Suc j) (Suc (Suc j)) (lu_col n j s)"
  by (auto simp: lu_col_def intro!: lu_inv_next lu_rows_inv lu_inv_diag)

lemma lu_cols_inv: "lu_inv n A 0 (Suc 0) s \<Longrightarrow> j \<le> n \<Longrightarrow>
  lu_inv n A j (Suc j) (fold (lu_col n) [0..<j] s)"
  by (induction j) (auto intro: lu_col_inv)

text \<open>The unit diagonal of \<open>L\<close> is not read by the substitution, but completes the picture.\<close>

lemma lu_elim_L_diag: "j < i \<Longrightarrow> lu_L (lu_elim n j i s) d d = lu_L s d d"
  by (auto simp: lu_elim_def Let_def)

lemma lu_row_L_diag: "j < i \<Longrightarrow> d \<le> j \<Longrightarrow> lu_L (lu_row n j i s) d d = lu_L s d d"
  using find_change_less [of "lu_U s" j n]
  by (auto simp: lu_row_def Let_def lu_elim_L_diag lu_swap_def swap_cells)

lemma lu_rows_L_diag: "d \<le> j \<Longrightarrow> lu_L (fold (lu_row n j) [Suc j..<r] s) d d = lu_L s d d"
  by (induction r) (auto simp: lu_row_L_diag)

lemma lu_cols_L_diag: "d < j \<Longrightarrow> lu_L (fold (lu_col n) [0..<j] s) d d = 1"
  by (induction j) (auto simp: lu_col_def lu_rows_L_diag less_Suc_eq)

section \<open>Substitution\<close>

lemma forward_cells:
  "m \<le> j \<Longrightarrow> gf_of (fold (forward_cell L j) [0..<m] y j) =
     gf_of (y j) - (\<Sum>l<m. gf_of (L j l) * gf_of (y l)) \<and>
   (\<forall>i. i \<noteq> j \<longrightarrow> fold (forward_cell L j) [0..<m] y i = y i)"
  by (induction m) (auto simp: forward_cell_def gf_hom)

lemma forward_row_other: "i \<noteq> j \<Longrightarrow> forward_row L b j y i = y i"
  using forward_cells [of j j L "y(j := b j)"] by (simp add: forward_row_def)

lemma forward_rows:
  "j < m \<Longrightarrow> gf_of (b j) =
     gf_of (fold (forward_row L b) [0..<m] y j) +
     (\<Sum>l<j. gf_of (L j l) * gf_of (fold (forward_row L b) [0..<m] y l))"
proof (induction m)
  case (Suc m)
  let ?y = "fold (forward_row L b) [0..<m] y"
  have new: "gf_of (forward_row L b m ?y m) = gf_of (b m) - (\<Sum>l<m. gf_of (L m l) * gf_of (?y l))"
    using forward_cells [of m m L "?y(m := b m)"] by (simp add: forward_row_def)
  show ?case
  proof (cases "j = m")
    case True
    with new show ?thesis by (simp add: forward_row_other)
  next
    case False
    with Suc show ?thesis by (simp add: forward_row_other)
  qed
qed simp

lemma back_cells:
  "n < lo \<Longrightarrow> gf_of (fold (back_cell U n) [lo..<m] x n) =
     gf_of (x n) - (\<Sum>l\<in>{lo..<m}. gf_of (U n l) * gf_of (x l)) \<and>
   (\<forall>i. i \<noteq> n \<longrightarrow> fold (back_cell U n) [lo..<m] x i = x i)"
proof (induction m)
  case (Suc m)
  then show ?case
    by (cases "lo \<le> m") (auto simp: back_cell_def gf_hom sum.atLeastLessThan_Suc)
qed simp

lemma back_row_other: "i \<noteq> msize - 1 - j \<Longrightarrow> back_row msize U y j x i = x i"
  using back_cells [of "msize - 1 - j" "msize - 1 - j + 1"] by (simp add: back_row_def Let_def)

lemma back_row_new:
  assumes "U n n \<noteq> 0" and n: "n = msize - 1 - j"
  shows "gf_of (U n n) * gf_of (back_row msize U y j x n) =
    gf_of (y n) - (\<Sum>l\<in>{n + 1..<msize}. gf_of (U n l) * gf_of (x l))"
proof -
  have "back_row msize U y j x n =
      gdiv (fold (back_cell U n) [n + 1..<msize] (x(n := y n)) n) (U n n)"
    using assms(1) unfolding back_row_def Let_def n [symmetric] by simp
  with assms(1) back_cells [of n "n + 1" U msize "x(n := y n)"] show ?thesis
    by (simp add: gf_hom)
qed

lemma back_rows:
  assumes nz: "\<And>i. i < msize \<Longrightarrow> U i i \<noteq> 0"
  shows "m \<le> msize \<Longrightarrow> msize - m \<le> i \<Longrightarrow> i < msize \<Longrightarrow>
    (\<Sum>c\<in>{i..<msize}. gf_of (U i c) * gf_of (fold (back_row msize U y) [0..<m] x c)) = gf_of (y i)"
proof (induction m arbitrary: i)
  case (Suc m)
  let ?x = "fold (back_row msize U y) [0..<m] x" and ?n = "msize - 1 - m"
  let ?x' = "back_row msize U y m ?x"
  have old: "?x' c = ?x c" if "?n < c" for c using that by (simp add: back_row_other)
  show ?case
  proof (cases "i = ?n")
    case True
    have "(\<Sum>c\<in>{i..<msize}. gf_of (U i c) * gf_of (?x' c)) =
      gf_of (U i i) * gf_of (?x' i) + (\<Sum>c\<in>{i + 1..<msize}. gf_of (U i c) * gf_of (?x c))"
      using Suc.prems True old by (subst sum.atLeast_Suc_lessThan) auto
    also have "gf_of (U i i) * gf_of (?x' i) =
      gf_of (y i) - (\<Sum>c\<in>{i + 1..<msize}. gf_of (U i c) * gf_of (?x c))"
      using Suc.prems True nz by (intro back_row_new) auto
    finally show ?thesis by simp
  next
    case False
    then have "?n < i" using Suc.prems by linarith
    then have "(\<Sum>c\<in>{i..<msize}. gf_of (U i c) * gf_of (?x' c)) =
      (\<Sum>c\<in>{i..<msize}. gf_of (U i c) * gf_of (?x c))"
      by (intro sum.cong) (auto simp: old)
    also have "\<dots> = gf_of (y i)" using Suc.prems \<open>?n < i\<close> by (intro Suc.IH) linarith+
    finally show ?thesis by simp
  qed
qed simp

section \<open>The result of the factorisation\<close>

definition L_upper_zero :: "nat \<Rightarrow> lu_state \<Rightarrow> bool" where
  "L_upper_zero n s \<longleftrightarrow> (\<forall>i<n. \<forall>k<n. i < k \<longrightarrow> lu_L s i k = 0)"

lemma L_upper_zero_row: "L_upper_zero n s \<Longrightarrow> j < i \<Longrightarrow> L_upper_zero n (lu_row n j i s)"
  using find_change_less [of "lu_U s" j n]
  by (auto simp: L_upper_zero_def lu_row_def lu_elim_def lu_swap_def Let_def swap_cells)

lemma L_upper_zero_rows: "L_upper_zero n s \<Longrightarrow> L_upper_zero n (fold (lu_row n j) [Suc j..<r] s)"
  by (induction r) (auto intro: L_upper_zero_row)

lemma L_upper_zero_cols: "L_upper_zero n s \<Longrightarrow> L_upper_zero n (fold (lu_col n) [0..<j] s)"
  by (induction j) (auto simp: lu_col_def L_upper_zero_def intro!: L_upper_zero_rows [unfolded L_upper_zero_def, rule_format])

lemma lu_fac_inv:
  assumes "\<And>i. i < n \<Longrightarrow> lu_pivot s i = i"
  shows "lu_inv n (lu_Arr s) n (Suc n) (lu_fac n n s)"
  unfolding lu_fac_def using assms
  by (auto intro!: lu_cols_inv lu_invI inj_onI simp: lu_done_def gf_hom)

lemma lu_fac_upper: "i < k \<Longrightarrow> k < n \<Longrightarrow> lu_L (lu_fac n n s) i k = 0"
  using L_upper_zero_cols [of n "s\<lparr>lu_U := _, lu_L := _\<rparr>" n]
  by (simp add: lu_fac_def L_upper_zero_def)

lemma lu_fac_diag: "i < n \<Longrightarrow> lu_L (lu_fac n n s) i i = 1"
  by (simp add: lu_fac_def lu_cols_L_diag)

lemma lu_fac_product:
  assumes piv: "\<And>i. i < n \<Longrightarrow> lu_pivot s i = i" and i: "i < n" and c: "c < n"
  defines "f \<equiv> lu_fac n n s"
  shows "gf_of (lu_Arr s (lu_pivot f i) c) = (\<Sum>k<n. gf_of (lu_L f i k) * gf_of (lu_U f k c))"
proof -
  have inv: "lu_inv n (lu_Arr s) n (Suc n) f"
    unfolding f_def by (rule lu_fac_inv) (rule piv)
  have "(\<Sum>k<n. gf_of (lu_L f i k) * gf_of (lu_U f k c)) =
    (\<Sum>k<Suc i. gf_of (lu_L f i k) * gf_of (lu_U f k c))"
    using i by (intro sum.mono_neutral_right) (auto simp: f_def lu_fac_upper gf_hom)
  also have "\<dots> = gf_of (lu_Arr f i c)"
    using i lu_inv_eq [OF inv i c] by (simp add: f_def lu_fac_diag gf_hom)
  finally show ?thesis using lu_inv_Arr [OF inv i c] by simp
qed

lemma lu_fac_U_lower:
  assumes "\<And>i. i < n \<Longrightarrow> lu_pivot s i = i" and "k < i" and "i < n"
  shows "lu_U (lu_fac n n s) i k = 0"
  using assms lu_inv_U [OF lu_fac_inv [of n s]] by (simp add: lu_done_def)

lemma lu_fac_bij:
  assumes "\<And>i. i < n \<Longrightarrow> lu_pivot s i = i"
  shows "bij_betw (lu_pivot (lu_fac n n s)) {..<n} {..<n}"
proof -
  note inv = lu_fac_inv [of n s, OF assms]
  have "lu_pivot (lu_fac n n s) ` {..<n} \<subseteq> {..<n}"
    using lu_inv_pivot [OF inv] by auto
  then show ?thesis
    using lu_inv_inj [OF inv] by (simp add: bij_betw_def endo_inj_surj)
qed

section \<open>Triangular systems\<close>

lemma unit_lower_unique:
  fixes y z :: "nat \<Rightarrow> gf256"
  assumes "\<And>j. j < n \<Longrightarrow> y j + (\<Sum>k<j. l j k * y k) = z j + (\<Sum>k<j. l j k * z k)"
  shows "j < n \<Longrightarrow> y j = z j"
proof (induction j rule: less_induct)
  case (less j)
  then have "(\<Sum>k<j. l j k * y k) = (\<Sum>k<j. l j k * z k)"
    by (intro sum.cong) auto
  with assms [OF less.prems] show ?case by simp
qed

lemma upper_unique:
  fixes x z :: "nat \<Rightarrow> gf256"
  assumes nz: "\<And>i. i < n \<Longrightarrow> u i i \<noteq> 0"
    and eq: "\<And>i. i < n \<Longrightarrow> (\<Sum>c\<in>{i..<n}. u i c * x c) = (\<Sum>c\<in>{i..<n}. u i c * z c)"
  shows "i < n \<Longrightarrow> x i = z i"
proof (induction "n - i" arbitrary: i rule: less_induct)
  case less
  have "(\<Sum>c\<in>{Suc i..<n}. u i c * x c) = (\<Sum>c\<in>{Suc i..<n}. u i c * z c)"
    using less by (intro sum.cong) auto
  with eq [OF less.prems] nz [OF less.prems] less.prems show ?case
    by (simp add: sum.atLeast_Suc_lessThan)
qed

text \<open>With \<open>P A = L U\<close>, the matrix applied to \<open>x\<close> is \<open>L\<close> applied to \<open>U x\<close>, row by row.\<close>

lemma lu_apply:
  fixes z :: "nat \<Rightarrow> gf256"
  assumes piv: "\<And>i. i < n \<Longrightarrow> lu_pivot s i = i" and j: "j < n"
  defines "f \<equiv> lu_fac n n s"
  defines "uz \<equiv> \<lambda>k. \<Sum>c\<in>{k..<n}. gf_of (lu_U f k c) * z c"
  shows "(\<Sum>c<n. gf_of (lu_Arr s (lu_pivot f j) c) * z c) = uz j + (\<Sum>k<j. gf_of (lu_L f j k) * uz k)"
proof -
  have uz: "uz k = (\<Sum>c<n. gf_of (lu_U f k c) * z c)" if "k < n" for k
    unfolding uz_def using that
    by (intro sum.mono_neutral_left) (auto simp: f_def lu_fac_U_lower [OF piv] gf_hom)
  have "(\<Sum>c<n. gf_of (lu_Arr s (lu_pivot f j) c) * z c) =
    (\<Sum>c<n. \<Sum>k<n. gf_of (lu_L f j k) * gf_of (lu_U f k c) * z c)"
    using lu_fac_product [OF piv j] by (intro sum.cong) (simp_all add: f_def sum_distrib_right)
  also have "\<dots> = (\<Sum>k<n. gf_of (lu_L f j k) * uz k)"
    by (subst sum.swap) (simp add: uz sum_distrib_left mult.assoc)
  also have "\<dots> = (\<Sum>k<Suc j. gf_of (lu_L f j k) * uz k)"
    using j by (intro sum.mono_neutral_right) (auto simp: f_def lu_fac_upper gf_hom)
  finally show ?thesis
    using j by (simp add: f_def lu_fac_diag gf_hom)
qed

lemma solve_column_unique:
  fixes t y x x0 :: vector
  assumes piv: "\<And>i. i < n \<Longrightarrow> lu_pivot s i = i"
  defines "f \<equiv> lu_fac n n s"
  assumes nz: "\<And>i. i < n \<Longrightarrow> lu_U f i i \<noteq> 0"
  defines "sol \<equiv> snd (solve_column n (lu_U f) (lu_L f) (lu_pivot f) t y x)"
  shows "(\<forall>i<n. gf_of (t i) = (\<Sum>c<n. gf_of (lu_Arr s i c) * gf_of (x0 c))) \<longleftrightarrow>
    (\<forall>c<n. sol c = x0 c)"
proof -
  define b where "b = (\<lambda>j. t (lu_pivot f j))"
  define y' where "y' = fold (forward_row (lu_L f) b) [0..<n] y"
  define uz where "uz z k = (\<Sum>c\<in>{k..<n}. gf_of (lu_U f k c) * gf_of (z c))" for z :: vector and k
  have fwd: "gf_of (b j) = gf_of (y' j) + (\<Sum>l<j. gf_of (lu_L f j l) * gf_of (y' l))" if "j < n" for j
    unfolding y'_def using that by (rule forward_rows)
  have bwd: "uz sol i = gf_of (y' i)" if "i < n" for i
    using back_rows [of n "lu_U f" n i y' x] nz that
    by (simp add: uz_def sol_def solve_column_def Let_def y'_def b_def)
  have perm: "(\<forall>i<n. P i) \<longleftrightarrow> (\<forall>j<n. P (lu_pivot f j))" for P
  proof -
    have "lu_pivot f ` {..<n} = {..<n}"
      using lu_fac_bij [of n s, OF piv] by (simp add: f_def bij_betw_def)
    then have "(\<forall>i\<in>{..<n}. P i) \<longleftrightarrow> (\<forall>i\<in>lu_pivot f ` {..<n}. P i)" by (simp only:)
    then show ?thesis unfolding ball_simps(9) by (simp only: Ball_def lessThan_iff)
  qed
  have app: "(\<Sum>c<n. gf_of (lu_Arr s (lu_pivot f j) c) * gf_of (z c)) =
      uz z j + (\<Sum>k<j. gf_of (lu_L f j k) * uz z k)" if "j < n" for z j
    using lu_apply [of n s j "\<lambda>c. gf_of (z c)", OF piv that] by (simp add: uz_def f_def)
  have "(\<forall>i<n. gf_of (t i) = (\<Sum>c<n. gf_of (lu_Arr s i c) * gf_of (x0 c))) \<longleftrightarrow>
    (\<forall>j<n. gf_of (y' j) + (\<Sum>l<j. gf_of (lu_L f j l) * gf_of (y' l)) =
           uz x0 j + (\<Sum>k<j. gf_of (lu_L f j k) * uz x0 k))"
    by (subst perm) (simp add: app fwd [unfolded b_def])
  also have "\<dots> \<longleftrightarrow> (\<forall>j<n. gf_of (y' j) = uz x0 j)"
  proof (intro iffI allI impI)
    fix j assume "j < n"
      and "\<forall>j<n. gf_of (y' j) + (\<Sum>l<j. gf_of (lu_L f j l) * gf_of (y' l)) =
           uz x0 j + (\<Sum>k<j. gf_of (lu_L f j k) * uz x0 k)"
    then show "gf_of (y' j) = uz x0 j"
      by (intro unit_lower_unique [of n "\<lambda>j. gf_of (y' j)" "\<lambda>j k. gf_of (lu_L f j k)"]) blast+
  qed simp
  also have "\<dots> \<longleftrightarrow> (\<forall>j<n. uz sol j = uz x0 j)"
    by (simp add: bwd)
  also have "\<dots> \<longleftrightarrow> (\<forall>c<n. sol c = x0 c)"
  proof
    assume "\<forall>j<n. uz sol j = uz x0 j"
    then have eq: "(\<Sum>c\<in>{i..<n}. gf_of (lu_U f i c) * gf_of (sol c)) =
        (\<Sum>c\<in>{i..<n}. gf_of (lu_U f i c) * gf_of (x0 c))" if "i < n" for i
      using that unfolding uz_def by blast
    have "gf_of (sol c) = gf_of (x0 c)" if "c < n" for c
      by (rule upper_unique [of n "\<lambda>i c. gf_of (lu_U f i c)", OF _ eq that]) (simp_all add: nz)
    then show "\<forall>c<n. sol c = x0 c" by simp
  qed (auto simp: uz_def intro!: sum.cong)
  finally show ?thesis .
qed

section \<open>Properties\<close>

text \<open>C5. \<^verbatim>\<open>lu_fac\<close> called with the identity permutation factorises every square matrix over the
  field: the permutation it returns is one of the row indices, \<open>L\<close> is unit lower triangular,
  \<open>U\<close> is upper triangular, and row \<open>pivot[i]\<close> of the given matrix is row \<open>i\<close> of \<open>L U\<close>.\<close>

theorem lu_fac_factorises:
  assumes "\<And>i. i < n \<Longrightarrow> lu_pivot s i = i"
  shows "bij_betw (lu_pivot (lu_fac n n s)) {..<n} {..<n} \<and>
    (\<forall>i<n. \<forall>c<n.
       (i < c \<longrightarrow> lu_L (lu_fac n n s) i c = 0) \<and> (i = c \<longrightarrow> lu_L (lu_fac n n s) i c = 1) \<and>
       (c < i \<longrightarrow> lu_U (lu_fac n n s) i c = 0) \<and>
       gf_of (lu_Arr s (lu_pivot (lu_fac n n s) i) c) =
         (\<Sum>k<n. gf_of (lu_L (lu_fac n n s) i k) * gf_of (lu_U (lu_fac n n s) k c)))"
  using lu_fac_bij [of n s] lu_fac_product [of n s] lu_fac_U_lower [of n s] assms
  by (simp add: lu_fac_upper lu_fac_diag)

text \<open>A 2 by 2 matrix whose first diagonal entry is 0, so that the rows are exchanged.\<close>

definition lu_example :: lu_state where
  "lu_example =
     \<lparr>lu_Arr = (\<lambda>i j. if i = 0 then (if j = 0 then 0 else 2) else (if j = 0 then 3 else 1)),
      lu_U = (\<lambda>i j. 7), lu_L = (\<lambda>i j. 9), lu_pivot = (\<lambda>i. i)\<rparr>"

theorem lu_fac_factorises_witness:
  "lu_pivot lu_example 0 = 0 \<and> lu_pivot lu_example 1 = 1 \<and>
   bij_betw (lu_pivot (lu_fac 2 2 lu_example)) {..<2} {..<2} \<and>
   lu_pivot (lu_fac 2 2 lu_example) 0 = 1"
proof -
  have "lu_pivot lu_example i = i" for i by (simp add: lu_example_def)
  moreover from this have "bij_betw (lu_pivot (lu_fac 2 2 lu_example)) {..<2} {..<2}"
    using lu_fac_factorises [of 2 lu_example] by blast
  moreover have "lu_pivot (lu_fac 2 2 lu_example) 0 = 1"
    by (simp add: lu_fac_def lu_col_def lu_row_def lu_swap_def lu_elim_def find_change_def
        lu_example_def Let_def upt_rec)
  ultimately show ?thesis by blast
qed

text \<open>C6. If the factorisation finds full rank (no zero on the diagonal of \<open>U\<close>), the two
  substitutions compute the unique solution of the linear system: a vector solves the system
  exactly if it is the one they return, whatever the arrays held before.\<close>

theorem solve_column_is_the_solution:
  assumes "\<And>i. i < n \<Longrightarrow> lu_pivot s i = i"
    and "\<And>i. i < n \<Longrightarrow> lu_U (lu_fac n n s) i i \<noteq> 0"
  shows "(\<forall>i<n. gf_of (t i) = (\<Sum>c<n. gf_of (lu_Arr s i c) * gf_of (x0 c))) \<longleftrightarrow>
    (\<forall>c<n. snd (solve_column n (lu_U (lu_fac n n s)) (lu_L (lu_fac n n s))
                 (lu_pivot (lu_fac n n s)) t y x) c = x0 c)"
  using assms by (rule solve_column_unique)

definition lu_example_solution :: vector where
  "lu_example_solution = snd (solve_column 2 (lu_U (lu_fac 2 2 lu_example))
     (lu_L (lu_fac 2 2 lu_example)) (lu_pivot (lu_fac 2 2 lu_example))
     (\<lambda>i. if i = 0 then 2 else 1) (\<lambda>_. 5) (\<lambda>_. 6))"

theorem solve_column_is_the_solution_witness:
  "lu_U (lu_fac 2 2 lu_example) 0 0 = 3 \<and> lu_U (lu_fac 2 2 lu_example) 1 1 = 2 \<and>
   lu_example_solution 0 = 0 \<and> lu_example_solution 1 = 1"
proof -
  have piv: "lu_pivot lu_example i = i" for i by (simp add: lu_example_def)
  have U: "lu_U (lu_fac 2 2 lu_example) 0 0 = 3" "lu_U (lu_fac 2 2 lu_example) 1 1 = 2"
    by (simp_all add: lu_fac_def lu_col_def lu_row_def lu_swap_def lu_elim_def find_change_def
        lu_example_def Let_def upt_rec swap_cell_def elim_cell_def)
  then have nz: "lu_U (lu_fac 2 2 lu_example) i i \<noteq> 0" if "i < 2" for i
    using that by (auto simp: less_2_cases_iff)
  have "\<forall>i<2. gf_of ((if i = 0 then 2 else 1) :: u8) =
      (\<Sum>c<2. gf_of (lu_Arr lu_example i c) * gf_of (if c = 0 then 0 else 1))"
    by (auto simp: lu_example_def less_2_cases_iff gf_hom lessThan_Suc numeral_2_eq_2)
  then have "\<forall>c<2. lu_example_solution c = (if c = 0 then 0 else 1)"
    unfolding lu_example_solution_def
    using solve_column_is_the_solution [of 2 lu_example, OF piv nz,
      where t = "\<lambda>i. if i = 0 then 2 else 1" and ?x0.0 = "\<lambda>c. if c = 0 then 0 else 1"] by blast
  then show ?thesis using U by simp
qed

end
