(* ===== verification/MNC_Decode.thy ===== *)
theory MNC_Decode
  imports LU SKB
begin

text \<open>
  Decoding one generation of network-coded packets (\<^verbatim>\<open>skbs_decoding\<close> and \<^verbatim>\<open>skb_substi\<close> in
  \<^verbatim>\<open>mnc_rx.c\<close>). A packet starts with three bytes: \<open>kp\<close> (six bits \<open>k\<close>, the number of packets
  of the generation, and two bits \<open>p\<close>, the size of the coefficient blocks), the generation id,
  and six bits that hold the index of a systematic packet or 0x3f for a coded one. A coded
  packet continues with \<open>k\<close> blocks of \<open>p * p\<close> coefficients and the combined payload.

  The main result is that decoding is sound and total for well-formed queues: it either
  reproduces exactly the payloads that were missing, or gives back a shorter queue.
\<close>

section \<open>Definitions\<close>

text \<open>The uninitialised arrays on the stack of \<^verbatim>\<open>skbs_decoding\<close> and \<^verbatim>\<open>skb_substi\<close>.\<close>

record decode_locals =
  loc_U :: matrix
  loc_L :: matrix
  loc_y :: vector
  loc_x :: vector

definition fill_b ::
  "nat \<Rightarrow> nat \<Rightarrow> sk_buff list \<Rightarrow> bool list \<Rightarrow> nat \<Rightarrow> nat \<Rightarrow> vector option" where
  "fill_b k p skb is_sys mncheadsize i =
     map_option (\<lambda>bs r. bs ! r)
       (those (map (\<lambda>r. skb_get ((if is_sys ! (r div p) then 3 else mncheadsize) + i + r mod p)
                         (skb ! (r div p))) [0..<k * p]))"

definition store_x :: "nat \<Rightarrow> nat \<Rightarrow> nat \<Rightarrow> vector \<Rightarrow> sk_buff list \<Rightarrow> sk_buff list option" where
  "store_x k p i x newskb =
     foldo (\<lambda>r ns. do { s \<leftarrow> skb_set (i + r mod p) (x r) (ns ! (r div p)); Some (ns[r div p := s]) })
       [0..<k * p] newskb"

text \<open>The loop over the payload advances by \<open>p\<close>, so it does not end when \<open>p\<close> is 0; the
  arrays \<open>y\<close> and \<open>x\<close> keep their contents from one round to the next.\<close>

definition substi_body ::
  "nat \<Rightarrow> nat \<Rightarrow> matrix \<Rightarrow> matrix \<Rightarrow> (nat \<Rightarrow> nat) \<Rightarrow> sk_buff list \<Rightarrow> bool list \<Rightarrow> nat \<Rightarrow>
   nat \<times> vector \<times> vector \<times> sk_buff list \<Rightarrow> (nat \<times> vector \<times> vector \<times> sk_buff list) option" where
  "substi_body k p U L pivot skb is_sys mncheadsize =
     (\<lambda>(i, y, x, newskb). do {
        t \<leftarrow> fill_b k p skb is_sys mncheadsize i;
        let (y, x) = solve_column (k * p) U L pivot t y x;
        newskb \<leftarrow> store_x k p i x newskb;
        Some (i + p, y, x, newskb)
      })"

definition substi_loop ::
  "nat \<Rightarrow> nat \<Rightarrow> matrix \<Rightarrow> matrix \<Rightarrow> (nat \<Rightarrow> nat) \<Rightarrow> sk_buff list \<Rightarrow> bool list \<Rightarrow> nat \<Rightarrow> nat \<Rightarrow>
   nat \<Rightarrow> vector \<Rightarrow> vector \<Rightarrow> sk_buff list \<Rightarrow> sk_buff list option" where
  "substi_loop k p U L pivot skb is_sys mncheadsize len i y x newskb =
     map_option (\<lambda>(i, y, x, newskb). newskb)
       (loop_opt (\<lambda>(i, y, x, newskb). i < len) (substi_body k p U L pivot skb is_sys mncheadsize)
         (i, y, x, newskb))"

definition skb_substi ::
  "decode_locals \<Rightarrow> nat \<Rightarrow> nat \<Rightarrow> matrix \<Rightarrow> matrix \<Rightarrow> (nat \<Rightarrow> nat) \<Rightarrow> sk_buff list \<Rightarrow>
   sk_buff list \<Rightarrow> nat \<Rightarrow> nat \<Rightarrow> bool list \<Rightarrow> sk_buff list option" where
  "skb_substi loc k p U L pivot skb newskb len mncheadsize is_sys =
     substi_loop k p U L pivot skb is_sys mncheadsize len 0 (loc_y loc) (loc_x loc) newskb"

text \<open>The pointers of an array of buffers that are not \<open>NULL\<close>, in order.\<close>

definition live :: "'a option list \<Rightarrow> 'a list" where
  "live arr = map the (filter (\<lambda>p. p \<noteq> None) arr)"

definition mindex :: "sk_buff \<Rightarrow> nat option" where
  "mindex s = map_option (\<lambda>b. unat (drop_bit 2 b)) (skb_get 2 s)"

text \<open>The first loop: systematic packets move to their slot, coded ones to the end of the queue;
  \<open>Inl\<close> is the early return when two packets have the same index. An index outside the arrays
  \<open>is_sys[k]\<close> and \<open>skb[k]\<close> is an access outside the object.\<close>

fun arrange_sys ::
  "nat \<Rightarrow> nat \<Rightarrow> sk_buff list \<Rightarrow> sk_buff option list \<Rightarrow> bool list \<Rightarrow>
   (sk_buff list + sk_buff list \<times> sk_buff option list \<times> bool list) option" where
  "arrange_sys k 0 q skb is_sys = Some (Inr (q, skb, is_sys))"
| "arrange_sys k (Suc n) [] skb is_sys = None"
| "arrange_sys k (Suc n) (s # q) skb is_sys =
     (case mindex s of
        None \<Rightarrow> None
      | Some m \<Rightarrow>
          if m \<noteq> 0x3f then
            (if k \<le> m then None
             else if is_sys ! m then Some (Inl (q @ live skb))
             else arrange_sys k n q (skb[m := Some s]) (is_sys[m := True]))
          else arrange_sys k n (q @ [s]) skb is_sys)"

fun fill_nonsys ::
  "bool list \<Rightarrow> sk_buff option list \<Rightarrow> sk_buff list \<Rightarrow> (sk_buff list \<times> sk_buff list) option" where
  "fill_nonsys (False # ss) (_ # arr) (s # q) =
     map_option (\<lambda>(skb, q). (s # skb, q)) (fill_nonsys ss arr q)"
| "fill_nonsys (True # ss) (Some s # arr) q =
     map_option (\<lambda>(skb, q). (s # skb, q)) (fill_nonsys ss arr q)"
| "fill_nonsys [] [] q = Some ([], q)"
| "fill_nonsys _ _ _ = None"

definition coef_cell :: "nat \<Rightarrow> bool list \<Rightarrow> sk_buff list \<Rightarrow> nat \<Rightarrow> nat \<Rightarrow> u8 option" where
  "coef_cell p is_sys skb r c =
     (if is_sys ! (r div p) then Some (if c = r then 1 else 0)
      else skb_get (3 + (c div p) * p * p + (r mod p) * p + c mod p) (skb ! (r div p)))"

definition fill_coefficient :: "nat \<Rightarrow> nat \<Rightarrow> bool list \<Rightarrow> sk_buff list \<Rightarrow> matrix option" where
  "fill_coefficient k p is_sys skb =
     map_option (\<lambda>rows r c. rows ! r ! c)
       (those (map (\<lambda>r. those (map (coef_cell p is_sys skb r) [0..<k * p])) [0..<k * p]))"

definition rank_step ::
  "nat \<Rightarrow> matrix \<Rightarrow> (nat \<Rightarrow> nat) \<Rightarrow> nat \<Rightarrow> nat \<times> sk_buff option list \<Rightarrow> nat \<times> sk_buff option list" where
  "rank_step p U pivot i rs =
     (if U i i = 0 then (fst rs - 1, (snd rs)[pivot i div p := None]) else rs)"

definition check_rank ::
  "nat \<Rightarrow> nat \<Rightarrow> matrix \<Rightarrow> (nat \<Rightarrow> nat) \<Rightarrow> sk_buff option list \<Rightarrow> nat \<times> sk_buff option list" where
  "check_rank msize p U pivot skb = fold (rank_step p U pivot) [0..<msize] (msize, skb)"

text \<open>Subtraction of \<open>unsigned int\<close>.\<close>

definition usub32 :: "nat \<Rightarrow> nat \<Rightarrow> nat" where
  "usub32 a b = nat ((int a - int b) mod 2 ^ 32)"

text \<open>The copies the payloads are decoded into. A copy that fails leaves a \<open>NULL\<close> pointer, which is
  followed right after, by the substitution or by \<open>skb_trim\<close>.\<close>

fun copy_skbs :: "sk_buff list \<Rightarrow> env \<Rightarrow> (sk_buff list \<times> env) option" where
  "copy_skbs [] e = Some ([], e)"
| "copy_skbs (s # ss) e =
     (case skb_copy e s of
        (None, e) \<Rightarrow> None
      | (Some t, e) \<Rightarrow> map_option (\<lambda>(ts, e). (t # ts, e)) (copy_skbs ss e))"

text \<open>The result is the return value with the queues \<open>skbs\<close> and \<open>newskbs\<close> on return.\<close>

definition skbs_decoding ::
  "decode_locals \<Rightarrow> env \<Rightarrow> sk_buff list \<Rightarrow> u8 \<Rightarrow> (bool \<times> sk_buff list \<times> sk_buff list \<times> env) option" where
  "skbs_decoding loc e skbs kp =
     (let k = unat (drop_bit 2 kp); p = unat (kp AND 3); msize = k * p;
          mncheadsize = 3 + p * p * k
      in case arrange_sys k k skbs (replicate k None) (replicate k False) of
           None \<Rightarrow> None
         | Some (Inl q) \<Rightarrow> Some (False, q, [], e)
         | Some (Inr (q, arr, is_sys)) \<Rightarrow>
             do {
               (skb, q) \<leftarrow> fill_nonsys is_sys arr q;
               coefficient \<leftarrow> fill_coefficient k p is_sys skb;
               let lu = lu_fac msize msize
                     \<lparr>lu_Arr = coefficient, lu_U = loc_U loc, lu_L = loc_L loc, lu_pivot = (\<lambda>i. i)\<rparr>;
                   (rank, arr) = check_rank msize p (lu_U lu) (lu_pivot lu) (map Some skb)
               in if rank \<noteq> msize then Some (False, q @ live arr, [], e)
                  else if k = 0 then None
                  else do {
                    (newskb, e) \<leftarrow> copy_skbs skb e;
                    let len = usub32 (skb_len (newskb ! 0)) (if is_sys ! 0 then 3 else mncheadsize);
                    newskb \<leftarrow> skb_substi loc k p (lu_U lu) (lu_L lu) (lu_pivot lu) skb newskb len
                                 mncheadsize is_sys;
                    Some (True, q, map (\<lambda>i. skb_trim len (newskb ! i))
                                    (filter (\<lambda>i. \<not> is_sys ! i) [0..<k]), e)
                  }
             })"

section \<open>Well-formed packets of a generation\<close>

text \<open>\<open>orig j b\<close> is byte \<open>b\<close> of the \<open>j\<close>-th original payload. The code works on blocks of \<open>p\<close>
  bytes, so the last block may reach beyond the payload length \<open>n\<close>; the bytes there only have
  to be readable and combined like the others.\<close>

definition block_starts :: "nat \<Rightarrow> nat \<Rightarrow> nat list" where
  "block_starts p n = filter (\<lambda>i. p dvd i) [0..<n]"

definition coef_at :: "nat \<Rightarrow> nat \<Rightarrow> nat \<Rightarrow> nat" where
  "coef_at p m c = 3 + (c div p) * p * p + m * p + c mod p"

definition sys_packet :: "nat \<Rightarrow> nat \<Rightarrow> nat \<Rightarrow> (nat \<Rightarrow> vector) \<Rightarrow> nat \<Rightarrow> sk_buff \<Rightarrow> bool" where
  "sys_packet k p n orig j s \<longleftrightarrow>
     j < k \<and> mindex s = Some j \<and> skb_len s = 3 + n \<and>
     (\<forall>i\<in>set (block_starts p n). \<forall>m<p. skb_get (3 + i + m) s = Some (orig j (i + m)))"

definition coded_packet :: "nat \<Rightarrow> nat \<Rightarrow> nat \<Rightarrow> (nat \<Rightarrow> vector) \<Rightarrow> sk_buff \<Rightarrow> bool" where
  "coded_packet k p n orig s \<longleftrightarrow>
     mindex s = Some 0x3f \<and> skb_len s = 3 + p * p * k + n \<and>
     (\<forall>m<p. \<forall>c<k * p. skb_get (coef_at p m c) s \<noteq> None) \<and>
     (\<forall>i\<in>set (block_starts p n). \<forall>m<p.
        \<exists>v. skb_get (3 + p * p * k + i + m) s = Some v \<and>
            gf_of v = (\<Sum>c<k * p. gf_of (the (skb_get (coef_at p m c) s)) *
                                   gf_of (orig (c div p) (i + c mod p))))"

definition packet_ok :: "nat \<Rightarrow> nat \<Rightarrow> nat \<Rightarrow> (nat \<Rightarrow> vector) \<Rightarrow> sk_buff \<Rightarrow> bool" where
  "packet_ok k p n orig s \<longleftrightarrow> (\<exists>j. sys_packet k p n orig j s) \<or> coded_packet k p n orig s"

definition payload_is :: "nat \<Rightarrow> vector \<Rightarrow> sk_buff \<Rightarrow> bool" where
  "payload_is n o_j s \<longleftrightarrow> skb_len s = n \<and> (\<forall>b<n. skb_get b s = Some (o_j b))"

section \<open>The payload loop\<close>

lemma substi_loop_unfold:
  "substi_loop k p U L pivot skb is_sys h len i y x newskb =
     (if i < len then
        do {
          t \<leftarrow> fill_b k p skb is_sys h i;
          newskb \<leftarrow> store_x k p i (snd (solve_column (k * p) U L pivot t y x)) newskb;
          substi_loop k p U L pivot skb is_sys h len (i + p)
            (fst (solve_column (k * p) U L pivot t y x))
            (snd (solve_column (k * p) U L pivot t y x)) newskb
        }
      else Some newskb)"
  unfolding substi_loop_def
  by (subst loop_opt.simps)
     (auto simp: substi_body_def case_prod_beta Let_def map_option_case split: bind_splits)

lemma block_index:
  fixes r k p :: nat
  assumes "r < k * p"
  shows "r div p < k" "r mod p < p" "0 < p"
proof -
  show p: "0 < p" using assms by (cases p) auto
  then show "r mod p < p" by simp
  show "r div p < k" using assms by (simp add: less_mult_imp_div_less)
qed

lemma fill_b_Some:
  assumes "\<And>r. r < k * p \<Longrightarrow>
    skb_get ((if is_sys ! (r div p) then 3 else h) + i + r mod p) (skb ! (r div p)) = Some (t r)"
  shows "\<exists>t'. fill_b k p skb is_sys h i = Some t' \<and> (\<forall>r<k * p. t' r = t r)"
proof -
  have "those (map (\<lambda>r. skb_get ((if is_sys ! (r div p) then 3 else h) + i + r mod p)
                         (skb ! (r div p))) [0..<k * p]) = Some (map t [0..<k * p])"
    using assms by (intro those_map_Some) auto
  then show ?thesis by (simp add: fill_b_def)
qed

lemma block_split: "d < p \<Longrightarrow> r = j * p + d \<longleftrightarrow> r div p = j \<and> r mod p = (d::nat)"
  by (metis add.commute div_mult_mod_eq div_mult_self3 div_less add.right_neutral mod_less
      mod_mult_self3 less_nat_zero_code)

lemma store_x_Some:
  assumes "length ns = k"
    and room: "\<And>j m. j < k \<Longrightarrow> m < p \<Longrightarrow> skb_data (ns ! j) + i + m < length (skb_buf (ns ! j))"
  shows "\<exists>ns'. store_x k p i x ns = Some ns' \<and> length ns' = k \<and>
    (\<forall>j<k. same_shape (ns ! j) (ns' ! j) \<and>
       (\<forall>d<p. skb_get (i + d) (ns' ! j) = Some (x (j * p + d))) \<and>
       (\<forall>b. b < i \<or> i + p \<le> b \<longrightarrow> skb_get b (ns' ! j) = skb_get b (ns ! j)))"
proof -
  let ?J = "\<lambda>r j s s'. same_shape s s' \<and>
     (\<forall>d<p. skb_get (i + d) s' = (if j * p + d < r then Some (x (j * p + d)) else skb_get (i + d) s)) \<and>
     (\<forall>b. b < i \<or> i + p \<le> b \<longrightarrow> skb_get b s' = skb_get b s)"
  let ?P = "\<lambda>r ns'. length ns' = k \<and> (\<forall>j<k. ?J r j (ns ! j) (ns' ! j))"
  have "\<exists>ns'. store_x k p i x ns = Some ns' \<and> ?P (k * p) ns'"
    unfolding store_x_def
  proof (rule foldo_upt_rule [where P = ?P])
    fix r ns' assume r: "r < k * p" and P: "?P r ns'"
    note b = block_index [OF r]
    from b P room [of "r div p" "r mod p"]
    have "skb_data (ns' ! (r div p)) + (i + r mod p) < length (skb_buf (ns' ! (r div p)))"
      by (simp add: same_shape_def add.assoc)
    then obtain s' where s': "skb_set (i + r mod p) (x r) (ns' ! (r div p)) = Some s'"
      using skb_set_possible by blast
    have "?J (Suc r) j (ns ! j) (ns'[r div p := s'] ! j)" if j: "j < k" for j
    proof (cases "j = r div p")
      case True
      have J: "?J r j (ns ! j) (ns' ! j)" using P j by blast
      have "same_shape (ns ! j) s'"
        using J skb_set_fields [OF s'] True by (simp add: same_shape_def)
      moreover have "skb_get (i + d) s' =
          (if j * p + d < Suc r then Some (x (j * p + d)) else skb_get (i + d) (ns ! j))" if "d < p" for d
        using J that skb_get_set [OF s', of "i + d"] block_split [OF that, of r j] True
        by (auto simp: less_Suc_eq)
      moreover have "skb_get b s' = skb_get b (ns ! j)" if "b < i \<or> i + p \<le> b" for b
        using J that skb_get_set [OF s', of b] True \<open>r mod p < p\<close> by auto
      ultimately show ?thesis using True P j by simp
    next
      case False
      then have "j * p + d < Suc r \<longleftrightarrow> j * p + d < r" if "d < p" for d
        using block_split [OF that, of r j] by (auto simp: less_Suc_eq)
      with False P j show ?thesis by simp
    qed
    with s' P show "\<exists>ns''. do { s \<leftarrow> skb_set (i + r mod p) (x r) (ns' ! (r div p));
        Some (ns'[r div p := s]) } = Some ns'' \<and> ?P (Suc r) ns''" by simp
  qed (use assms in auto)
  moreover have "j * p + d < k * p" if "j < k" "d < p" for j d
    using that mult_le_mono1 [of "Suc j" k p] by simp
  ultimately show ?thesis by auto
qed

text \<open>A block column of a queue that carries the generation \<open>orig\<close>.\<close>

definition column_ok ::
  "nat \<Rightarrow> nat \<Rightarrow> matrix \<Rightarrow> (nat \<Rightarrow> vector) \<Rightarrow> sk_buff list \<Rightarrow> bool list \<Rightarrow> nat \<Rightarrow> nat \<Rightarrow> bool" where
  "column_ok k p A orig skb is_sys h i \<longleftrightarrow>
     (\<forall>r<k * p. \<exists>v. skb_get ((if is_sys ! (r div p) then 3 else h) + i + r mod p) (skb ! (r div p)) = Some v \<and>
        gf_of v = (\<Sum>c<k * p. gf_of (A r c) * gf_of (orig (c div p) (i + c mod p))))"

lemma solve_block:
  assumes f: "f = lu_fac n n s" and piv: "\<And>i. lu_pivot s i = i"
    and nz: "\<And>i. i < n \<Longrightarrow> lu_U f i i \<noteq> 0"
    and t: "\<And>r. r < n \<Longrightarrow> gf_of (t r) = (\<Sum>c<n. gf_of (lu_Arr s r c) * gf_of (z c))" and c: "c < n"
  shows "snd (solve_column n (lu_U f) (lu_L f) (lu_pivot f) t y x) c = z c"
  using solve_column_unique [of n s t z y x] piv nz t c unfolding f by blast

lemma substi_loop_correct:
  assumes f: "f = lu_fac (k * p) (k * p) s" and piv: "\<And>i. lu_pivot s i = i"
    and nz: "\<And>i. i < k * p \<Longrightarrow> lu_U f i i \<noteq> 0" and p: "0 < p"
    and col: "\<And>i. i < n \<Longrightarrow> p dvd i \<Longrightarrow> column_ok k p (lu_Arr s) orig skb is_sys h i"
    and room: "\<And>i j m. i < n \<Longrightarrow> p dvd i \<Longrightarrow> j < k \<Longrightarrow> m < p \<Longrightarrow>
                skb_data (ns0 ! j) + i + m < length (skb_buf (ns0 ! j))"
  shows "p dvd i \<Longrightarrow> length ns = k \<Longrightarrow> \<forall>j<k. same_shape (ns0 ! j) (ns ! j) \<Longrightarrow>
    \<forall>j<k. \<forall>b<min i n. skb_get b (ns ! j) = Some (orig j b) \<Longrightarrow>
    \<exists>ns'. substi_loop k p (lu_U f) (lu_L f) (lu_pivot f) skb is_sys h n i y x ns = Some ns' \<and>
      length ns' = k \<and>
      (\<forall>j<k. same_shape (ns0 ! j) (ns' ! j) \<and> (\<forall>b<n. skb_get b (ns' ! j) = Some (orig j b)))"
proof (induction "n - i" arbitrary: i y x ns rule: less_induct)
  case less
  show ?case
  proof (cases "i < n")
    case False
    with less.prems show ?thesis by (subst substi_loop_unfold) (auto simp: min_def)
  next
    case True
    define t where "t r = the (skb_get ((if is_sys ! (r div p) then 3 else h) + i + r mod p)
      (skb ! (r div p)))" for r
    have t: "skb_get ((if is_sys ! (r div p) then 3 else h) + i + r mod p) (skb ! (r div p)) = Some (t r)"
      and t_eq: "gf_of (t r) =
        (\<Sum>c<k * p. gf_of (lu_Arr s r c) * gf_of (orig (c div p) (i + c mod p)))" if "r < k * p" for r
      using col [OF True less.prems(1)] that unfolding column_ok_def t_def by fastforce+
    obtain t' where fill: "fill_b k p skb is_sys h i = Some t'" and t': "\<And>r. r < k * p \<Longrightarrow> t' r = t r"
      using fill_b_Some [of k p is_sys h i skb t, OF t] by blast
    define yx where "yx = solve_column (k * p) (lu_U f) (lu_L f) (lu_pivot f) t' y x"
    have sol: "snd yx c = orig (c div p) (i + c mod p)" if "c < k * p" for c
      unfolding yx_def using that
      by (intro solve_block [OF f piv nz, where z = "\<lambda>c. orig (c div p) (i + c mod p)"])
         (simp_all add: t' t_eq)
    obtain ns1 where st: "store_x k p i (snd yx) ns = Some ns1" and len1: "length ns1 = k"
      and sh1: "\<And>j. j < k \<Longrightarrow> same_shape (ns ! j) (ns1 ! j)"
      and get1: "\<And>j d. j < k \<Longrightarrow> d < p \<Longrightarrow> skb_get (i + d) (ns1 ! j) = Some (snd yx (j * p + d))"
      and get2: "\<And>j b. j < k \<Longrightarrow> b < i \<or> i + p \<le> b \<Longrightarrow> skb_get b (ns1 ! j) = skb_get b (ns ! j)"
    proof -
      have "skb_data (ns ! j) + i + m < length (skb_buf (ns ! j))" if "j < k" "m < p" for j m
        using room [OF True less.prems(1) that] less.prems(3) that(1) by (simp add: same_shape_def)
      from store_x_Some [of ns k p i "snd yx", OF less.prems(2) this] that show ?thesis by blast
    qed
    have blk: "snd yx (j * p + d) = orig j (i + d)" if "j < k" "d < p" for j d
    proof -
      have "j * p + d < k * p" using that mult_le_mono1 [of "Suc j" k p] by simp
      then show ?thesis using sol [of "j * p + d"] that(2) by simp
    qed
    have done': "skb_get b (ns1 ! j) = Some (orig j b)" if "j < k" "b < min (i + p) n" for j b
    proof (cases "b < i")
      case True
      with that less.prems(4) show ?thesis by (simp add: get2)
    next
      case False
      with that have "b - i < p" by simp linarith
      with False that(1) get1 [of j "b - i"] blk [of j "b - i"] show ?thesis by simp
    qed
    have "\<exists>ns'. substi_loop k p (lu_U f) (lu_L f) (lu_pivot f) skb is_sys h n (i + p) (fst yx) (snd yx) ns1
        = Some ns' \<and> length ns' = k \<and>
        (\<forall>j<k. same_shape (ns0 ! j) (ns' ! j) \<and> (\<forall>b<n. skb_get b (ns' ! j) = Some (orig j b)))"
    proof (rule less.hyps)
      show "\<forall>j<k. \<forall>b<min (i + p) n. skb_get b (ns1 ! j) = Some (orig j b)"
        using done' by blast
    qed (use True p less.prems len1 sh1 same_shape_trans in auto)
    with True fill st show ?thesis
      by (subst substi_loop_unfold) (simp add: yx_def)
  qed
qed

section \<open>Sorting the queue\<close>

lemma live_simps [simp]:
  "live [] = []" "live (Some s # arr) = s # live arr" "live (None # arr) = live arr"
  by (simp_all add: live_def)

lemma length_live_le: "length (live arr) \<le> length arr"
  by (simp add: live_def)

lemma set_live: "set (live arr) = {s. Some s \<in> set arr}"
  by (induction arr) (auto simp: live_def split: option.splits)

lemma live_map_Some [simp]: "live (map Some xs) = xs"
  by (induction xs) auto

lemma live_replicate [simp]: "live (replicate k None) = []"
  by (induction k) auto

lemma length_live_update:
  "m < length arr \<Longrightarrow> arr ! m = None \<Longrightarrow> length (live (arr[m := Some s])) = Suc (length (live arr))"
proof (induction arr arbitrary: m)
  case (Cons a arr)
  then show ?case by (cases m; cases a) auto
qed simp

lemma set_live_update:
  "m < length arr \<Longrightarrow> arr ! m = None \<Longrightarrow> set (live (arr[m := Some s])) = insert s (set (live arr))"
proof (induction arr arbitrary: m)
  case (Cons a arr)
  then show ?case by (cases m; cases a) auto
qed simp

text \<open>What the two arrays hold: \<open>is_sys\<close> marks the slots in use, and each slot holds a packet of
  the queue with that index.\<close>

definition slots_ok :: "nat \<Rightarrow> sk_buff set \<Rightarrow> sk_buff option list \<Rightarrow> bool list \<Rightarrow> bool" where
  "slots_ok k Q arr is_sys \<longleftrightarrow> length arr = k \<and> length is_sys = k \<and>
     (\<forall>i<k. is_sys ! i = (arr ! i \<noteq> None)) \<and>
     (\<forall>i<k. \<forall>s. arr ! i = Some s \<longrightarrow> s \<in> Q \<and> mindex s = Some i)"

lemma slots_okD:
  assumes "slots_ok k Q arr is_sys"
  shows "length arr = k" "length is_sys = k" "\<And>i. i < k \<Longrightarrow> is_sys ! i = (arr ! i \<noteq> None)"
    "\<And>i s. i < k \<Longrightarrow> arr ! i = Some s \<Longrightarrow> s \<in> Q \<and> mindex s = Some i"
  using assms by (auto simp: slots_ok_def)

lemma slots_ok_live: "slots_ok k Q arr is_sys \<Longrightarrow> set (live arr) \<subseteq> Q"
  by (fastforce simp: set_live in_set_conv_nth slots_ok_def)

lemma slots_ok_insert:
  assumes "slots_ok k Q arr is_sys" and "m < k" and "s \<in> Q" and "mindex s = Some m"
  shows "slots_ok k Q (arr[m := Some s]) (is_sys[m := True])"
  using assms by (auto simp: slots_ok_def nth_list_update)

lemma arrange_sys_result:
  assumes "\<forall>s\<in>set (xs @ ys). s \<in> Q \<and> (\<exists>m. mindex s = Some m \<and> (m < k \<or> m = 0x3f))"
    and "\<forall>s\<in>set ys. mindex s = Some 0x3f" and "slots_ok k Q arr is_sys" and "k \<le> 0x3f"
    and "length xs + length ys + length (live arr) = k"
  shows "(\<exists>q. arrange_sys k (length xs) (xs @ ys) arr is_sys = Some (Inl q) \<and>
             length q < k \<and> set q \<subseteq> Q) \<or>
         (\<exists>q arr' is_sys'. arrange_sys k (length xs) (xs @ ys) arr is_sys = Some (Inr (q, arr', is_sys')) \<and>
             slots_ok k Q arr' is_sys' \<and> set q \<subseteq> Q \<and> (\<forall>s\<in>set q. mindex s = Some 0x3f) \<and>
             length q + length (live arr') = k \<and>
             set (xs @ ys @ live arr) \<subseteq> set (q @ live arr'))"
  using assms
proof (induction xs arbitrary: ys arr is_sys)
  case Nil
  then show ?case by auto
next
  case (Cons s xs)
  then obtain m where m: "mindex s = Some m" "m < k \<or> m = 0x3f" and sQ: "s \<in> Q" by auto
  show ?case
  proof (cases "m = 0x3f")
    case True
    with Cons.IH [of "ys @ [s]" arr is_sys] Cons.prems m show ?thesis by simp
  next
    case False
    with m Cons.prems(4) have mk: "m < k" by simp
    show ?thesis
    proof (cases "is_sys ! m")
      case True
      have "length (xs @ ys @ live arr) < k" "set (xs @ ys @ live arr) \<subseteq> Q"
        using Cons.prems slots_ok_live [OF Cons.prems(3)] by auto
      with True False m(1) mk show ?thesis by simp
    next
      case notin: False
      have "arr ! m = None" using notin slots_okD(3) [OF Cons.prems(3) mk] by simp
      then have "length (live (arr[m := Some s])) = Suc (length (live arr))"
        "set (live (arr[m := Some s])) = insert s (set (live arr))"
        using mk slots_okD(1) [OF Cons.prems(3)] by (simp_all add: length_live_update set_live_update)
      then show ?thesis
        using Cons.IH [of ys "arr[m := Some s]" "is_sys[m := True]"] Cons.prems False m(1) mk notin
          slots_ok_insert [OF Cons.prems(3) mk sQ m(1)] by simp
    qed
  qed
qed

lemma fill_nonsys_result:
  assumes "length arr = length is_sys"
    and "\<forall>i<length is_sys. is_sys ! i = (arr ! i \<noteq> None)"
    and "length q + length (live arr) = length is_sys"
  shows "\<exists>skb. fill_nonsys is_sys arr q = Some (skb, []) \<and> length skb = length is_sys \<and>
    (\<forall>i<length is_sys. if is_sys ! i then arr ! i = Some (skb ! i) else skb ! i \<in> set q)"
  using assms(1) [symmetric] assms(2,3)
proof (induction is_sys arr arbitrary: q rule: list_induct2)
  case (Cons b ss a arr)
  from Cons.prems have b: "b = (a \<noteq> None)" and rest: "\<forall>i<length ss. ss ! i = (arr ! i \<noteq> None)"
    by (auto simp: All_less_Suc2)
  show ?case
  proof (cases a)
    case (Some s)
    with Cons.IH [OF rest, of q] Cons.prems(2) obtain skb where
      "fill_nonsys ss arr q = Some (skb, [])" "length skb = length ss"
      "\<forall>i<length ss. if ss ! i then arr ! i = Some (skb ! i) else skb ! i \<in> set q" by auto
    with Some b show ?thesis by (intro exI [of _ "s # skb"]) (auto simp: All_less_Suc2)
  next
    case None
    with Cons.prems(2) length_live_le [of arr] Cons.hyps obtain s q' where q: "q = s # q'"
      by (cases q) auto
    with None Cons.IH [OF rest, of q'] Cons.prems(2) obtain skb where
      "fill_nonsys ss arr q' = Some (skb, [])" "length skb = length ss"
      "\<forall>i<length ss. if ss ! i then arr ! i = Some (skb ! i) else skb ! i \<in> set q'" by auto
    with None b q show ?thesis by (intro exI [of _ "s # skb"]) (auto simp: All_less_Suc2)
  qed
qed simp

section \<open>The coefficient matrix and its rank\<close>

lemma fill_coefficient_Some:
  assumes "\<And>r c. r < k * p \<Longrightarrow> c < k * p \<Longrightarrow> coef_cell p is_sys skb r c = Some (A r c)"
  shows "\<exists>A'. fill_coefficient k p is_sys skb = Some A' \<and> (\<forall>r<k * p. \<forall>c<k * p. A' r c = A r c)"
proof -
  have "those (map (coef_cell p is_sys skb r) [0..<k * p]) = Some (map (A r) [0..<k * p])"
    if "r < k * p" for r
    using that assms by (intro those_map_Some) simp
  then have "those (map (\<lambda>r. those (map (coef_cell p is_sys skb r) [0..<k * p])) [0..<k * p]) =
    Some (map (\<lambda>r. map (A r) [0..<k * p]) [0..<k * p])"
    by (rule those_map_Some) simp
  then show ?thesis by (simp add: fill_coefficient_def)
qed

definition rank_inv :: "nat \<Rightarrow> nat \<Rightarrow> nat \<Rightarrow> matrix \<Rightarrow> (nat \<Rightarrow> nat) \<Rightarrow> sk_buff list \<Rightarrow> nat \<times> sk_buff option list \<Rightarrow> bool" where
  "rank_inv m msize p U pivot skb rs \<longleftrightarrow>
     fst rs + card {i. i < m \<and> U i i = 0} = msize \<and> length (snd rs) = length skb \<and>
     (\<forall>j<length skb. snd rs ! j = Some (skb ! j) \<or> snd rs ! j = None) \<and>
     (\<forall>i<m. U i i = 0 \<longrightarrow> pivot i div p < length skb \<longrightarrow> snd rs ! (pivot i div p) = None)"

lemma zeros_Suc: "{i. i < Suc m \<and> U i i = (0 :: u8)} =
    (if U m m = 0 then insert m {i. i < m \<and> U i i = 0} else {i. i < m \<and> U i i = 0})"
  by (auto simp: less_Suc_eq)

lemma rank_inv_steps:
  "m \<le> msize \<Longrightarrow> rank_inv m msize p U pivot skb (fold (rank_step p U pivot) [0..<m] (msize, map Some skb))"
proof (induction m)
  case 0
  show ?case by (simp add: rank_inv_def)
next
  case (Suc m)
  let ?rs = "fold (rank_step p U pivot) [0..<m] (msize, map Some skb)"
  from Suc have inv: "rank_inv m msize p U pivot skb ?rs" by simp
  have "card {i. i < m \<and> U i i = 0} \<le> m"
    using card_mono [of "{..<m}" "{i. i < m \<and> U i i = 0}"] by auto
  with inv Suc.prems have "fst (rank_step p U pivot m ?rs) + card {i. i < Suc m \<and> U i i = 0} = msize"
    unfolding zeros_Suc by (auto simp: rank_inv_def rank_step_def)
  moreover have "length (snd (rank_step p U pivot m ?rs)) = length skb \<and>
     (\<forall>j<length skb. snd (rank_step p U pivot m ?rs) ! j = Some (skb ! j) \<or>
        snd (rank_step p U pivot m ?rs) ! j = None)"
    using inv by (cases "pivot m div p < length skb")
      (auto simp: rank_inv_def rank_step_def nth_list_update list_update_beyond)
  moreover have "snd (rank_step p U pivot m ?rs) ! (pivot i div p) = None"
    if "i < Suc m" "U i i = 0" "pivot i div p < length skb" for i
    using inv that by (cases "pivot m div p < length skb")
      (auto simp: rank_inv_def rank_step_def nth_list_update list_update_beyond less_Suc_eq)
  ultimately show ?case by (simp add: rank_inv_def)
qed

lemma check_rank_full:
  assumes "\<And>i. i < msize \<Longrightarrow> U i i \<noteq> 0"
  shows "check_rank msize p U pivot (map Some skb) = (msize, map Some skb)"
proof -
  have "m \<le> msize \<Longrightarrow> fold (rank_step p U pivot) [0..<m] (msize, map Some skb) = (msize, map Some skb)" for m
    using assms by (induction m) (auto simp: rank_step_def)
  then show ?thesis by (simp add: check_rank_def)
qed

lemma live_fewer:
  assumes "length arr = length skb" and "\<forall>j<length skb. arr ! j = Some (skb ! j) \<or> arr ! j = None"
    and "j < length skb" and "arr ! j = None"
  shows "length (live arr) < length skb \<and> set (live arr) \<subseteq> set skb"
proof
  have "None \<in> set arr" using assms by (metis nth_mem)
  then have "length (filter (\<lambda>p. p \<noteq> None) arr) < length arr"
    by (rule length_filter_less) simp
  then show "length (live arr) < length skb" using assms(1) by (simp add: live_def)
  show "set (live arr) \<subseteq> set skb"
    using assms(1,2) by (force simp: set_live in_set_conv_nth)
qed

lemma check_rank_deficient:
  assumes "i < msize" and "U i i = 0" and "pivot i div p < length skb"
    and "check_rank msize p U pivot (map Some skb) = (rank, arr)"
  shows "rank \<noteq> msize \<and> length (live arr) < length skb \<and> set (live arr) \<subseteq> set skb"
proof -
  have inv: "rank_inv msize msize p U pivot skb (rank, arr)"
    using rank_inv_steps [of msize msize p U pivot skb] assms(4) by (simp add: check_rank_def)
  have "finite {i. i < msize \<and> U i i = 0}" by simp
  with assms(1,2) have "card {i. i < msize \<and> U i i = 0} \<noteq> 0" by (auto simp: card_eq_0_iff)
  with inv have "rank \<noteq> msize" by (auto simp: rank_inv_def)
  moreover have "length (live arr) < length skb \<and> set (live arr) \<subseteq> set skb"
    using inv assms by (intro live_fewer [of arr skb "pivot i div p"]) (auto simp: rank_inv_def)
  ultimately show ?thesis by blast
qed

section \<open>Decoding a well-formed queue\<close>

lemma kp_k_le: "unat (drop_bit 2 (kp :: u8)) \<le> 0x3f"
proof -
  have "unat (drop_bit 2 kp) = unat kp div 4" by (simp add: drop_bit_eq_div unat_div)
  with unat_u8_less [of kp] show ?thesis by linarith
qed

lemma packet_mindex:
  "packet_ok k p n orig s \<Longrightarrow> \<exists>m. mindex s = Some m \<and> (m < k \<or> m = 0x3f)"
  by (auto simp: packet_ok_def sys_packet_def coded_packet_def)

text \<open>After sorting, slot \<open>i\<close> holds the systematic packet \<open>i\<close> or a coded packet.\<close>

definition sorted_slots ::
  "nat \<Rightarrow> nat \<Rightarrow> nat \<Rightarrow> (nat \<Rightarrow> vector) \<Rightarrow> sk_buff list \<Rightarrow> bool list \<Rightarrow> bool" where
  "sorted_slots k p n orig skb is_sys \<longleftrightarrow> length skb = k \<and>
     (\<forall>i<k. if is_sys ! i then sys_packet k p n orig i (skb ! i) else coded_packet k p n orig (skb ! i))"

lemma packet_kind:
  assumes "packet_ok k p n orig s" and "k \<le> 0x3f"
  shows "mindex s = Some 0x3f \<Longrightarrow> coded_packet k p n orig s"
    and "i < k \<Longrightarrow> mindex s = Some i \<Longrightarrow> sys_packet k p n orig i s"
  using assms by (auto simp: packet_ok_def sys_packet_def coded_packet_def)

text \<open>The systematic indices present in a queue.\<close>

definition sys_indices :: "sk_buff list \<Rightarrow> nat list" where
  "sys_indices q = map the (filter (\<lambda>m. m \<noteq> None \<and> m \<noteq> Some 0x3f) (map mindex q))"

lemma sys_indices_iff: "i \<in> set (sys_indices q) \<longleftrightarrow> i \<noteq> 0x3f \<and> (\<exists>s\<in>set q. mindex s = Some i)"
  by (force simp: sys_indices_def)

lemma sort_queue:
  assumes ok: "\<forall>s\<in>set q. packet_ok k p n orig s" and len: "length q = k" and k: "k \<le> 0x3f"
  shows "(\<exists>q'. arrange_sys k k q (replicate k None) (replicate k False) = Some (Inl q') \<and>
             length q' < k \<and> set q' \<subseteq> set q) \<or>
         (\<exists>q' arr is_sys skb. arrange_sys k k q (replicate k None) (replicate k False) = Some (Inr (q', arr, is_sys)) \<and>
             fill_nonsys is_sys arr q' = Some (skb, []) \<and> set skb \<subseteq> set q \<and>
             sorted_slots k p n orig skb is_sys \<and> (\<forall>i<k. is_sys ! i \<longleftrightarrow> i \<in> set (sys_indices q)))"
proof -
  have "slots_ok k (set q) (replicate k None) (replicate k False)"
    by (simp add: slots_ok_def)
  with ok len k packet_mindex
  consider (dup) q' where "arrange_sys k k q (replicate k None) (replicate k False) = Some (Inl q')"
      "length q' < k" "set q' \<subseteq> set q"
    | (sorted) q' arr is_sys where
      "arrange_sys k k q (replicate k None) (replicate k False) = Some (Inr (q', arr, is_sys))"
      "slots_ok k (set q) arr is_sys" "set q' \<subseteq> set q" "\<forall>s\<in>set q'. mindex s = Some 0x3f"
      "length q' + length (live arr) = k" "set q \<subseteq> set (q' @ live arr)"
    using arrange_sys_result [of q "[]" "set q" k "replicate k None" "replicate k False"]
    by (simp add: len) blast
  then show ?thesis
  proof cases
    case dup
    then show ?thesis by blast
  next
    case sorted
    note sl = slots_okD [OF sorted(2)]
    obtain skb where skb: "fill_nonsys is_sys arr q' = Some (skb, [])" "length skb = k"
      and slot: "\<And>i. i < k \<Longrightarrow> if is_sys ! i then arr ! i = Some (skb ! i) else skb ! i \<in> set q'"
      using fill_nonsys_result [of arr is_sys q'] sl sorted(5) by auto
    have each: "skb ! i \<in> set q \<and> mindex (skb ! i) = Some (if is_sys ! i then i else 0x3f)" if "i < k" for i
      using slot [OF that] sl(4) [OF that] sorted(3,4) by (auto split: if_splits)
    then have "set skb \<subseteq> set q" using skb(2) by (auto simp: in_set_conv_nth)
    moreover have "if is_sys ! i then sys_packet k p n orig i (skb ! i)
        else coded_packet k p n orig (skb ! i)" if "i < k" for i
      using each [OF that] ok packet_kind [OF _ k, of p n orig "skb ! i"] that by (simp split: if_splits)
    then have "sorted_slots k p n orig skb is_sys"
      using skb(2) by (simp add: sorted_slots_def)
    moreover have "is_sys ! i \<longleftrightarrow> i \<in> set (sys_indices q)" if "i < k" for i
    proof
      assume "is_sys ! i"
      with each [OF that] that k show "i \<in> set (sys_indices q)" by (force simp: sys_indices_iff)
    next
      assume "i \<in> set (sys_indices q)"
      then obtain s where s: "s \<in> set q" "mindex s = Some i" "i \<noteq> 0x3f" by (auto simp: sys_indices_iff)
      with sorted(4,6) have "Some s \<in> set arr" by (fastforce simp: set_live)
      then obtain j where "j < k" "arr ! j = Some s" using sl(1) by (auto simp: in_set_conv_nth)
      with sl(3,4) s(2) show "is_sys ! i" by fastforce
    qed
    ultimately show ?thesis using sorted(1) skb(1) by blast
  qed
qed

lemma block_starts_iff [simp]: "i \<in> set (block_starts p n) \<longleftrightarrow> i < n \<and> p dvd i"
  by (auto simp: block_starts_def)

lemma sorted_slotsD:
  assumes "sorted_slots k p n orig skb is_sys" and "i < k"
  shows "is_sys ! i \<Longrightarrow> sys_packet k p n orig i (skb ! i)"
    and "\<not> is_sys ! i \<Longrightarrow> coded_packet k p n orig (skb ! i)"
  using assms by (auto simp: sorted_slots_def split: if_splits)

definition coef_matrix :: "nat \<Rightarrow> bool list \<Rightarrow> sk_buff list \<Rightarrow> matrix" where
  "coef_matrix p is_sys skb r c = the (coef_cell p is_sys skb r c)"

lemma coef_cell_Some:
  assumes "sorted_slots k p n orig skb is_sys" and "r < k * p" and "c < k * p"
  shows "coef_cell p is_sys skb r c = Some (coef_matrix p is_sys skb r c)"
proof (cases "is_sys ! (r div p)")
  case False
  note b = block_index [OF assms(2)]
  have "skb_get (coef_at p (r mod p) c) (skb ! (r div p)) \<noteq> None"
    using sorted_slotsD(2) [OF assms(1) b(1) False] b(2) assms(3) by (simp add: coded_packet_def)
  with False show ?thesis by (auto simp: coef_matrix_def coef_cell_def coef_at_def)
qed (simp add: coef_matrix_def coef_cell_def)

lemma column_ok_sorted:
  assumes ok: "sorted_slots k p n orig skb is_sys" and i: "i < n" "p dvd i"
  shows "column_ok k p (coef_matrix p is_sys skb) orig skb is_sys (3 + p * p * k) i"
  unfolding column_ok_def
proof (intro allI impI)
  fix r assume r: "r < k * p"
  note b = block_index [OF r]
  let ?z = "\<lambda>c. gf_of (orig (c div p) (i + c mod p))"
  show "\<exists>v. skb_get ((if is_sys ! (r div p) then 3 else 3 + p * p * k) + i + r mod p) (skb ! (r div p)) = Some v \<and>
      gf_of v = (\<Sum>c<k * p. gf_of (coef_matrix p is_sys skb r c) * ?z c)"
  proof (cases "is_sys ! (r div p)")
    case True
    have "(\<Sum>c<k * p. gf_of (coef_matrix p is_sys skb r c) * ?z c) = (\<Sum>c<k * p. if c = r then ?z c else 0)"
      using True by (intro sum.cong) (auto simp: coef_matrix_def coef_cell_def gf_hom)
    also have "\<dots> = ?z r" using r by simp
    finally show ?thesis
      using True b i sorted_slotsD(1) [OF ok b(1) True] by (simp add: sys_packet_def)
  next
    case False
    then show ?thesis
      using b i sorted_slotsD(2) [OF ok b(1) False]
      by (simp add: coded_packet_def coef_matrix_def coef_cell_def coef_at_def)
  qed
qed

lemma room_sorted:
  assumes ok: "sorted_slots k p n orig skb is_sys" and "i < n" "p dvd i" "j < k" "m < p"
  shows "skb_data (skb ! j) + i + m < length (skb_buf (skb ! j))"
proof (cases "is_sys ! j")
  case True
  with assms sorted_slotsD(1) [OF ok] have "skb_get (3 + i + m) (skb ! j) = Some (orig j (i + m))"
    by (simp add: sys_packet_def)
  from skb_get_Some_less [OF this] show ?thesis by simp
next
  case False
  with assms sorted_slotsD(2) [OF ok] obtain v where "skb_get (3 + p * p * k + i + m) (skb ! j) = Some v"
    unfolding coded_packet_def by (metis block_starts_iff)
  from skb_get_Some_less [OF this] show ?thesis by simp
qed

lemma usub32_cancel: "n < 2 ^ 32 \<Longrightarrow> usub32 (h + n) h = n"
  by (simp add: usub32_def)

lemma fill_coefficient_sorted:
  assumes "sorted_slots k p n orig skb is_sys"
  shows "\<exists>A. fill_coefficient k p is_sys skb = Some A \<and>
    (\<forall>r<k * p. \<forall>c<k * p. A r c = coef_matrix p is_sys skb r c)"
  using coef_cell_Some [OF assms] by (intro fill_coefficient_Some) auto

lemma column_ok_cong:
  assumes "\<forall>r<k * p. \<forall>c<k * p. A r c = A' r c"
  shows "column_ok k p A orig skb is_sys h i = column_ok k p A' orig skb is_sys h i"
  unfolding column_ok_def using assms by simp

lemma copy_skbs_ok:
  assumes "\<forall>i. env_alloc e i"
  shows "\<exists>ts e'. copy_skbs ss e = Some (ts, e') \<and> length ts = length ss \<and>
    (\<forall>j<length ss. same_shape (ss ! j) (ts ! j)) \<and> (\<forall>i. env_alloc e' i)"
  using assms
proof (induction ss arbitrary: e)
  case (Cons s ss)
  let ?e = "alloc_next e"
  obtain t where t: "skb_copy e s = (Some t, ?e)" "same_shape s t"
    using Cons.prems by (simp add: skb_copy_def same_shape_def)
  have "\<forall>i. env_alloc ?e i" using Cons.prems by (simp add: alloc_next_def)
  from Cons.IH [OF this] obtain ts e' where ts: "copy_skbs ss ?e = Some (ts, e')" "length ts = length ss"
    "\<forall>j<length ss. same_shape (ss ! j) (ts ! j)" "\<forall>i. env_alloc e' i" by blast
  have "same_shape ((s # ss) ! j) ((t # ts) ! j)" if "j < length (s # ss)" for j
    using that t(2) ts(3) by (cases j) auto
  with t(1) ts show ?case by auto
qed simp

lemma decoded_output:
  assumes cp: "length cs = k" "\<forall>j<k. same_shape (skb ! j) (cs ! j)" and ok: "sorted_slots k p n orig skb is_sys" and k: "0 < k" and p: "0 < p" and n: "n < 2 ^ 32"
    and A: "\<forall>r<k * p. \<forall>c<k * p. A r c = coef_matrix p is_sys skb r c"
    and f: "f = lu_fac (k * p) (k * p) \<lparr>lu_Arr = A, lu_U = U, lu_L = L, lu_pivot = (\<lambda>i. i)\<rparr>"
    and nz: "\<forall>i<k * p. lu_U f i i \<noteq> 0"
  shows "usub32 (skb_len (cs ! 0)) (if is_sys ! 0 then 3 else 3 + p * p * k) = n"
    and "\<exists>ns. skb_substi loc k p (lu_U f) (lu_L f) (lu_pivot f) skb cs n (3 + p * p * k) is_sys = Some ns \<and>
      (\<forall>j<k. \<not> is_sys ! j \<longrightarrow> payload_is n (orig j) (skb_trim n (ns ! j)))"
proof -
  have "skb_len (skb ! 0) = (if is_sys ! 0 then 3 else 3 + p * p * k) + n"
    using sorted_slotsD [OF ok k] by (auto simp: sys_packet_def coded_packet_def)
  moreover have "skb_len (cs ! 0) = skb_len (skb ! 0)" using cp k by (simp add: same_shape_def)
  ultimately show "usub32 (skb_len (cs ! 0)) (if is_sys ! 0 then 3 else 3 + p * p * k) = n"
    by (simp only: usub32_cancel [OF n])
  have "\<exists>ns. substi_loop k p (lu_U f) (lu_L f) (lu_pivot f) skb is_sys (3 + p * p * k) n 0
      (loc_y loc) (loc_x loc) cs = Some ns \<and> length ns = k \<and>
      (\<forall>j<k. same_shape (cs ! j) (ns ! j) \<and> (\<forall>b<n. skb_get b (ns ! j) = Some (orig j b)))"
  proof (rule substi_loop_correct [OF f])
    show "column_ok k p (lu_Arr \<lparr>lu_Arr = A, lu_U = U, lu_L = L, lu_pivot = \<lambda>i. i\<rparr>) orig skb is_sys
        (3 + p * p * k) i" if "i < n" "p dvd i" for i
      using column_ok_sorted [OF ok that] by (simp add: column_ok_cong [OF A])
    show "skb_data (cs ! j) + i + m < length (skb_buf (cs ! j))"
      if "i < n" "p dvd i" "j < k" "m < p" for i j m
      using room_sorted [OF ok that] cp(2) that(3) by (simp add: same_shape_def)
  qed (use nz p ok cp in auto)
  then obtain ns where ns: "skb_substi loc k p (lu_U f) (lu_L f) (lu_pivot f) skb cs n (3 + p * p * k) is_sys = Some ns"
    and out: "\<And>j. j < k \<Longrightarrow> same_shape (cs ! j) (ns ! j) \<and> (\<forall>b<n. skb_get b (ns ! j) = Some (orig j b))"
    by (auto simp: skb_substi_def)
  have "payload_is n (orig j) (skb_trim n (ns ! j))" if "j < k" "\<not> is_sys ! j" for j
    using out [OF that(1)] sorted_slotsD(2) [OF ok that] cp(2) that(1)
    by (simp add: payload_is_def same_shape_def coded_packet_def)
  with ns show "\<exists>ns. skb_substi loc k p (lu_U f) (lu_L f) (lu_pivot f) skb cs n (3 + p * p * k) is_sys = Some ns \<and>
      (\<forall>j<k. \<not> is_sys ! j \<longrightarrow> payload_is n (orig j) (skb_trim n (ns ! j)))" by blast
qed

lemma decode_sorted:
  assumes ok: "sorted_slots k p n orig skb is_sys" and k: "k = unat (drop_bit 2 kp)" "0 < k"
    and p: "p = unat (kp AND 3)" "0 < p" and n: "n < 2 ^ 32"
    and arr: "arrange_sys k k q (replicate k None) (replicate k False) = Some (Inr (q', arr, is_sys))"
    and fill: "fill_nonsys is_sys arr q' = Some (skb, [])" and mem: "\<forall>i. env_alloc e i"
  shows "(\<exists>rest. skbs_decoding loc e q kp = Some (False, rest, [], e) \<and> length rest < k \<and> set rest \<subseteq> set skb) \<or>
    (\<exists>out e'. skbs_decoding loc e q kp = Some (True, [], out, e') \<and>
       list_all2 (\<lambda>i s. payload_is n (orig i) s) (filter (\<lambda>i. \<not> is_sys ! i) [0..<k]) out)"
proof -
  obtain A where fc: "fill_coefficient k p is_sys skb = Some A"
    and A: "\<forall>r<k * p. \<forall>c<k * p. A r c = coef_matrix p is_sys skb r c"
    using fill_coefficient_sorted [OF ok] by blast
  define f where "f = lu_fac (k * p) (k * p)
    \<lparr>lu_Arr = A, lu_U = loc_U loc, lu_L = loc_L loc, lu_pivot = (\<lambda>i. i)\<rparr>"
  obtain rank arr' where cr: "check_rank (k * p) p (lu_U f) (lu_pivot f) (map Some skb) = (rank, arr')"
    by fastforce
  have "length skb = k" using ok by (simp add: sorted_slots_def)
  with copy_skbs_ok [OF mem, of skb] obtain cs e' where cs: "copy_skbs skb e = Some (cs, e')" "length cs = k"
    "\<forall>j<k. same_shape (skb ! j) (cs ! j)" by blast
  have unf: "skbs_decoding loc e q kp =
     (if rank \<noteq> k * p then Some (False, live arr', [], e)
      else do {
        let len = usub32 (skb_len (cs ! 0)) (if is_sys ! 0 then 3 else 3 + p * p * k);
        newskb \<leftarrow> skb_substi loc k p (lu_U f) (lu_L f) (lu_pivot f) skb cs len (3 + p * p * k) is_sys;
        Some (True, [], map (\<lambda>i. skb_trim len (newskb ! i)) (filter (\<lambda>i. \<not> is_sys ! i) [0..<k]), e')
      })"
    unfolding skbs_decoding_def k(1) [symmetric] p(1) [symmetric] Let_def arr
    using k(2) fc cr cs(1) by (simp add: fill Let_def flip: f_def)
  show ?thesis
  proof (cases "\<exists>i<k * p. lu_U f i i = 0")
    case True
    then obtain i where i: "i < k * p" "lu_U f i i = 0" by blast
    have "lu_pivot f ` {..<k * p} = {..<k * p}"
      using lu_fac_bij [of "k * p"] by (simp add: f_def bij_betw_def)
    with i(1) have "lu_pivot f i < k * p" by auto
    then have "lu_pivot f i div p < length skb"
      using ok by (simp add: sorted_slots_def less_mult_imp_div_less)
    with check_rank_deficient [OF i _ cr] ok unf show ?thesis by (simp add: sorted_slots_def)
  next
    case False
    then have nz: "\<forall>i<k * p. lu_U f i i \<noteq> 0" by blast
    note out = decoded_output [OF cs(2,3) ok k(2) p(2) n A f_def nz]
    have "rank = k * p" using check_rank_full [of "k * p" "lu_U f"] nz cr by simp
    obtain ns where ns: "skb_substi loc k p (lu_U f) (lu_L f) (lu_pivot f) skb cs n (3 + p * p * k) is_sys = Some ns"
      and pl: "\<And>j. j < k \<Longrightarrow> \<not> is_sys ! j \<Longrightarrow> payload_is n (orig j) (skb_trim n (ns ! j))"
      using out(2) [of loc] by blast
    have "skbs_decoding loc e q kp =
        Some (True, [], map (\<lambda>i. skb_trim n (ns ! i)) (filter (\<lambda>i. \<not> is_sys ! i) [0..<k]), e')"
      using unf ns \<open>rank = k * p\<close> unfolding Let_def out(1) by simp
    moreover have "list_all2 (\<lambda>i s. payload_is n (orig i) s) (filter (\<lambda>i. \<not> is_sys ! i) [0..<k])
        (map (\<lambda>i. skb_trim n (ns ! i)) (filter (\<lambda>i. \<not> is_sys ! i) [0..<k]))"
      unfolding list_all2_map2 list_all2_same using pl by simp
    ultimately show ?thesis by blast
  qed
qed

lemma decode_queue:
  assumes ok: "\<forall>s\<in>set q. packet_ok k p n orig s" and len: "length q = k"
    and k: "k = unat (drop_bit 2 kp)" "0 < k" and p: "p = unat (kp AND 3)" "0 < p" and n: "n < 2 ^ 32"
    and mem: "\<forall>i. env_alloc e i"
  shows "(\<exists>rest. skbs_decoding loc e q kp = Some (False, rest, [], e) \<and> length rest < k \<and> set rest \<subseteq> set q) \<or>
    (\<exists>out e'. skbs_decoding loc e q kp = Some (True, [], out, e') \<and>
       list_all2 (\<lambda>i s. payload_is n (orig i) s) (filter (\<lambda>i. i \<notin> set (sys_indices q)) [0..<k]) out)"
proof -
  have k63: "k \<le> 0x3f" using kp_k_le [of kp] k(1) by simp
  from sort_queue [OF ok len k63] show ?thesis
  proof (elim disjE exE conjE)
    fix q' assume "arrange_sys k k q (replicate k None) (replicate k False) = Some (Inl q')"
      "length q' < k" "set q' \<subseteq> set q"
    then show ?thesis by (simp add: skbs_decoding_def Let_def flip: k(1))
  next
    fix q' arr is_sys skb
    assume *: "arrange_sys k k q (replicate k None) (replicate k False) = Some (Inr (q', arr, is_sys))"
      "fill_nonsys is_sys arr q' = Some (skb, [])" "set skb \<subseteq> set q"
      "sorted_slots k p n orig skb is_sys" "\<forall>i<k. is_sys ! i \<longleftrightarrow> i \<in> set (sys_indices q)"
    have "filter (\<lambda>i. \<not> is_sys ! i) [0..<k] = filter (\<lambda>i. i \<notin> set (sys_indices q)) [0..<k]"
      using *(5) by (intro filter_cong) auto
    with decode_sorted [OF *(4) k p n *(1,2) mem, of loc] *(3) show ?thesis by auto
  qed
qed

section \<open>The loop does not end for \<open>p = 0\<close>\<close>

lemma substi_loop_zero_None: "i < n \<Longrightarrow> substi_loop k 0 U L pivot skb is_sys h n i y x ns = None"
  unfolding substi_loop_def
  by (subst loop_opt_diverges [where I = "\<lambda>(i, y, x, ns). i < n"])
     (auto simp: substi_body_def case_prod_beta Let_def split: bind_splits)

section \<open>Properties\<close>

text \<open>C1. Decoding a full queue of well-formed packets of one generation (\<open>k\<close> packets, each
  systematic or a linear combination with its coefficients in the header) always completes when all allocations succeed.
  Either it fails, delivers nothing and leaves a queue of fewer than \<open>k\<close> of the packets, so
  that more packets are awaited; or it succeeds, empties the queue and returns, in increasing
  order, exactly the payloads of the indices that had not arrived systematically, byte for
  byte.\<close>

theorem skbs_decoding_sound_and_total:
  assumes "\<forall>s\<in>set q. packet_ok k p n orig s" and "length q = k"
    and "k = unat (drop_bit 2 kp)" "0 < k" and "p = unat (kp AND 3)" "0 < p" and "n < 2 ^ 32"
    and "\<forall>i. env_alloc e i"
  shows "(\<exists>rest. skbs_decoding loc e q kp = Some (False, rest, [], e) \<and> length rest < k \<and> set rest \<subseteq> set q) \<or>
    (\<exists>out e'. skbs_decoding loc e q kp = Some (True, [], out, e') \<and>
       list_all2 (\<lambda>i s. payload_is n (orig i) s) (filter (\<lambda>i. i \<notin> set (sys_indices q)) [0..<k]) out)"
  using assms by (rule decode_queue)

definition junk_locals :: decode_locals where
  "junk_locals = \<lparr>loc_U = (\<lambda>i j. 1), loc_L = (\<lambda>i j. 2), loc_y = (\<lambda>i. 3), loc_x = (\<lambda>i. 4)\<rparr>"

text \<open>One coded packet of a generation of one packet with payload \<open>[7]\<close> and coefficient 2.\<close>

lemma example_packet: "packet_ok 1 1 1 (\<lambda>j b. 7) (blank_skb [5, 9, 0xfc, 2, 14])"
proof -
  have "gf_of 14 = gf_of (gmul 2 7)" by (simp add: gmul_eq_pmul pmul_def xtime_def bit_simps)
  then show ?thesis
    by (simp add: packet_ok_def coded_packet_def mindex_def skb_get_def head_get_def blank_skb_def
        block_starts_def coef_at_def gf_hom)
qed

theorem skbs_decoding_sound_and_total_witness:
  "\<exists>out e'. skbs_decoding junk_locals plenty [blank_skb [5, 9, 0xfc, 2, 14]] 5 = Some (True, [], out, e') \<and>
     list_all2 (\<lambda>i s. payload_is 1 (\<lambda>b. 7) s) [0::nat] out"
proof -
  have "lu_U (lu_fac 1 1 \<lparr>lu_Arr = A, lu_U = U, lu_L = L, lu_pivot = P\<rparr>) 0 0 = A 0 0" for A U L P
    by (simp add: lu_fac_def lu_col_def)
  then have "skbs_decoding junk_locals plenty [blank_skb [5, 9, 0xfc, 2, 14]] 5 \<noteq> Some (False, rest, [], e)" for rest e
    by (auto simp: skbs_decoding_def mindex_def skb_get_def head_get_def blank_skb_def
        fill_coefficient_def coef_cell_def check_rank_def rank_step_def Let_def)
  moreover have "filter (\<lambda>i. i \<notin> set (sys_indices [blank_skb [5, 9, 0xfc, 2, 14]])) [0..<1] = [0]"
    by (simp add: sys_indices_def mindex_def skb_get_def head_get_def blank_skb_def)
  ultimately show ?thesis
    using skbs_decoding_sound_and_total [of "[blank_skb [5, 9, 0xfc, 2, 14]]" 1 1 1 "\<lambda>j b. 7" 5 plenty junk_locals]
      example_packet by (simp add: plenty_def)
qed

text \<open>C33. A coded packet whose header announces \<open>k = 1\<close> and \<open>p = 0\<close> and that is longer than the
  three header bytes makes the decoder loop for ever: the call does not complete.\<close>

theorem skbs_decoding_p0_hangs:
  assumes "mindex s = Some 0x3f" and "3 < skb_len s" and "skb_len s < 2 ^ 32" and "env_alloc e 0"
  shows "skbs_decoding loc e [s] 4 = None"
proof -
  have "usub32 (skb_len s) 3 = skb_len s - 3"
    using assms usub32_cancel [of "skb_len s - 3" 3] by simp
  moreover obtain t e1 where "skb_copy e s = (Some t, e1)" "skb_len t = skb_len s"
    using assms(4) by (simp add: skb_copy_def)
  ultimately show ?thesis using assms
    by (simp add: skbs_decoding_def fill_coefficient_def check_rank_def skb_substi_def
        substi_loop_zero_None Let_def)
qed

theorem skbs_decoding_p0_hangs_witness:
  "mindex (blank_skb [4, 9, 0xfc, 1]) = Some 0x3f \<and>
   skbs_decoding junk_locals plenty [blank_skb [4, 9, 0xfc, 1]] 4 = None"
proof -
  have "mindex (blank_skb [4, 9, 0xfc, 1]) = Some 0x3f"
    by (simp add: mindex_def skb_get_def head_get_def blank_skb_def)
  moreover from this have "skbs_decoding junk_locals plenty [blank_skb [4, 9, 0xfc, 1]] 4 = None"
    by (rule skbs_decoding_p0_hangs) (simp_all add: blank_skb_def plenty_def)
  ultimately show ?thesis ..
qed

end
