(* ===== verification/MNC_Encode.thy ===== *)
theory MNC_Encode
  imports MNC_Decode TL_Param
begin

text \<open>
  Encoding a generation (\<^verbatim>\<open>mnc_tx.c\<close>): the queue of original packets is turned into systematic
  packets (the original with a three-byte header between Ethernet header and payload) and
  coded packets (random linear combinations of all payloads, the coefficients in the header).
  The source encodes packets that start with an Ethernet header; a relay encodes decoded
  packets, whose \<open>data\<close> already points behind it.

  The results say that what the encoder emits is what the decoder of theory \<open>MNC_Decode\<close>
  expects, so that encoding followed by decoding reproduces the payloads.
\<close>

section \<open>Coded packets\<close>

definition ETHERHEADLEN :: nat where
  "ETHERHEADLEN = 14"

text \<open>\<open>data\<close> points at \<open>off\<close> in \<open>s\<close>, \<open>data_new\<close> at \<open>toff\<close> in the buffer that is written.\<close>

definition cal_data ::
  "sk_buff \<Rightarrow> nat \<Rightarrow> nat \<Rightarrow> matrix \<Rightarrow> nat \<Rightarrow> sk_buff \<Rightarrow> sk_buff option" where
  "cal_data s off p coefficient toff =
     foldo (\<lambda>i. foldo (\<lambda>j t. do {
         d \<leftarrow> skb_get (off + j) s;
         let mul = gmul d (coefficient i j);
         w \<leftarrow> skb_get (toff + i) t;
         skb_set (toff + i) (gadd w mul) t
       }) [0..<p]) [0..<p]"

definition cal_packet ::
  "sk_buff \<Rightarrow> nat \<Rightarrow> nat \<Rightarrow> nat \<Rightarrow> matrix \<Rightarrow> nat \<Rightarrow> sk_buff \<Rightarrow> sk_buff option" where
  "cal_packet s off coding_len p coefficient toff t =
     map_option snd
       (loop_opt (\<lambda>(i, t). i < coding_len)
         (\<lambda>(i, t). do { t \<leftarrow> cal_data s (off + i) p coefficient (toff + i) t; Some (i + p, t) })
         (0, t))"

text \<open>Draw the \<open>p * p\<close> coefficients of one packet and store them from offset \<open>pos\<close> on.\<close>

definition draw_coefficients ::
  "nat \<Rightarrow> nat \<Rightarrow> matrix \<times> env \<times> sk_buff \<Rightarrow> (matrix \<times> env \<times> sk_buff) option" where
  "draw_coefficients p pos =
     foldo (\<lambda>r (coefficient, e, t). do {
         let (b, e) = get_random_byte e;
         t \<leftarrow> skb_set (pos + r) b t;
         Some (coefficient(r div p := (coefficient (r div p))(r mod p := b)), e, t)
       }) [0..<p * p]"

definition combine_body ::
  "bool \<Rightarrow> nat \<Rightarrow> nat \<Rightarrow> nat \<Rightarrow> nat \<Rightarrow> sk_buff list \<times> nat \<times> matrix \<times> env \<times> sk_buff \<Rightarrow>
   (sk_buff list \<times> nat \<times> matrix \<times> env \<times> sk_buff) option" where
  "combine_body src p mnc_hdrlen coding_len skb_len1 =
     (\<lambda>(skbs, l, coefficient, e, new). case skbs of
        [] \<Rightarrow> None
      | skb # rest \<Rightarrow>
          if skb_len1 \<noteq> skb_len skb then Some (skbs, l, coefficient, e, new)
          else do {
            (coefficient, e, new) \<leftarrow> draw_coefficients p (ETHERHEADLEN + 3 + l) (coefficient, e, new);
            new \<leftarrow> cal_packet skb (if src then ETHERHEADLEN else 0) coding_len p coefficient
                      (ETHERHEADLEN + mnc_hdrlen) new;
            Some (rest, l + p * p, coefficient, e, new)
          })"

text \<open>Make room for the header, set the header positions, clear everything behind the Ethernet
  header and write the three fixed bytes and the protocol number.\<close>

definition move_headers :: "bool \<Rightarrow> nat \<Rightarrow> sk_buff \<Rightarrow> sk_buff option" where
  "move_headers src mnc_hdrlen new =
     (if src then
        (let nh_pos = int (skb_network_header new) - int (skb_data new) + int mnc_hdrlen;
             h_pos = int (skb_transport_header new) - int (skb_data new) + int mnc_hdrlen
         in Some (skb_set_transport_header h_pos (skb_set_network_header nh_pos new)))
      else
        skb_push ETHERHEADLEN (skb_reset_mac_header (skb_reset_network_header
          (new\<lparr>skb_priority := skb_priority new + 256, skb_protocol := 0x0100\<rparr>))))"

definition clear_payload :: "sk_buff \<Rightarrow> sk_buff option" where
  "clear_payload new =
     foldo (\<lambda>i. skb_set (ETHERHEADLEN + i) 0) [0..<usub32 (skb_len new) ETHERHEADLEN] new"

definition write_mnc_header :: "u8 \<Rightarrow> u8 \<Rightarrow> u8 \<Rightarrow> sk_buff \<Rightarrow> sk_buff option" where
  "write_mnc_header kp gid m new =
     do {
       new \<leftarrow> skb_set ETHERHEADLEN kp new;
       new \<leftarrow> skb_set (ETHERHEADLEN + 1) gid new;
       new \<leftarrow> skb_set (ETHERHEADLEN + 2) m new;
       new \<leftarrow> skb_set (ETHERHEADLEN - 2) 0x08 new;
       skb_set (ETHERHEADLEN - 1) 0x10 new
     }"

text \<open>\<open>(k << 2) | p\<close> stored in a byte.\<close>

definition kp_byte :: "nat \<Rightarrow> nat \<Rightarrow> u8" where
  "kp_byte k p = ucast (push_bit 2 (of_nat k :: u32) OR of_nat p)"

text \<open>Inner \<open>None\<close> is the \<open>NULL\<close> result. \<open>coef0\<close> is the uninitialised array on the stack.\<close>

definition make_skb_new ::
  "tr_param \<Rightarrow> matrix \<Rightarrow> env \<Rightarrow> sk_buff list \<Rightarrow> nat \<Rightarrow> u8 \<Rightarrow> (sk_buff option \<times> env) option" where
  "make_skb_new par coef0 e skbs p gid =
     (let k = length skbs; mnc_hdrlen = p * p * k + 3; src = tr_get_src par in
      if skbs = [] then Some (None, e)
      else if 0x1000000 \<le> k then Some (None, e)
      else if 0x100 \<le> p then Some (None, e)
      else
        let skb = hd skbs;
            coding_len = (if src then usub32 (skb_len skb) ETHERHEADLEN else skb_len skb)
        in case skb_copy e skb of
             (None, e) \<Rightarrow> Some (None, e)
           | (Some new, e) \<Rightarrow>
               do {
                 new \<leftarrow> skb_put mnc_hdrlen new;
                 new \<leftarrow> move_headers src mnc_hdrlen new;
                 new \<leftarrow> clear_payload new;
                 new \<leftarrow> write_mnc_header (kp_byte k p) gid (if src then 0xfc else 0xfd) new;
                 (rest, l, coefficient, e, new) \<leftarrow>
                   loop_opt (\<lambda>(skbs, l, coefficient, e, new). skbs \<noteq> [])
                     (combine_body src p mnc_hdrlen coding_len (skb_len skb)) (skbs, 0, coef0, e, new);
                 Some (Some new, e)
               })"

section \<open>Systematic packets\<close>

definition mnc_hdrlen_sys :: nat where
  "mnc_hdrlen_sys = 3"

definition sys_packet_of :: "sk_buff \<Rightarrow> u8 \<Rightarrow> u8 \<Rightarrow> nat \<Rightarrow> sk_buff option" where
  "sys_packet_of copy kp gid j =
     do {
       new \<leftarrow> skb_push mnc_hdrlen_sys copy;
       let nh_pos = int (skb_network_header new) - int (skb_data new) + int mnc_hdrlen_sys;
       let h_pos = int (skb_transport_header new) - int (skb_data new) + int mnc_hdrlen_sys;
       let new = skb_set_transport_header h_pos (skb_set_network_header nh_pos new);
       new \<leftarrow> foldo (\<lambda>i t. do { b \<leftarrow> skb_get (i + mnc_hdrlen_sys) t; skb_set i b t }) [0..<ETHERHEADLEN] new;
       write_mnc_header kp gid (ucast (push_bit 2 (of_nat j :: u32))) new
     }"

text \<open>One round of the loop; the last component is set by the early return when no memory is
  left.\<close>

definition enqueue_body ::
  "nat \<Rightarrow> u8 \<Rightarrow> u8 \<Rightarrow> sk_buff list \<times> nat \<times> env \<times> sk_buff list \<times> bool \<Rightarrow>
   (sk_buff list \<times> nat \<times> env \<times> sk_buff list \<times> bool) option" where
  "enqueue_body skb_len1 kp gid =
     (\<lambda>(skbs, j, e, res, stop). case skbs of
        [] \<Rightarrow> None
      | skb # rest \<Rightarrow>
          if skb_len1 \<noteq> skb_len skb then Some (skbs, j, e, res, stop)
          else case skb_copy e skb of
                 (None, e) \<Rightarrow> Some (skbs, j, e, res, True)
               | (Some copy, e) \<Rightarrow>
                   do {
                     new \<leftarrow> sys_packet_of copy kp gid j;
                     Some (rest, j + 1, e, res @ [new], stop)
                   })"

definition enqueue_skb_original ::
  "env \<Rightarrow> sk_buff list \<Rightarrow> nat \<Rightarrow> u8 \<Rightarrow> sk_buff list \<Rightarrow> (sk_buff list \<times> env) option" where
  "enqueue_skb_original e skbs p gid skbs_result =
     (let k = length skbs in
      if skbs = [] then Some (skbs_result, e)
      else if 0x1000000 \<le> k then Some (skbs_result, e)
      else if 0x100 \<le> p then Some (skbs_result, e)
      else
        map_option (\<lambda>(rest, j, e, res, stop). (res, e))
          (loop_opt (\<lambda>(skbs, j, e, res, stop). skbs \<noteq> [] \<and> \<not> stop)
            (enqueue_body (skb_len (hd skbs)) (kp_byte k p) gid) (skbs, 0, e, skbs_result, False)))"

section \<open>Sending a generation\<close>

definition MNC_P :: nat where
  "MNC_P = 2"

text \<open>Append \<open>count\<close> coded packets to the result queue; a failed one is left out.\<close>

definition make_coded ::
  "tr_param \<Rightarrow> matrix \<Rightarrow> sk_buff list \<Rightarrow> u8 \<Rightarrow> nat \<Rightarrow> env \<times> sk_buff list \<Rightarrow> (env \<times> sk_buff list) option" where
  "make_coded par coef0 skbs gid count =
     foldo (\<lambda>m (e, res). do {
         (r, e) \<leftarrow> make_skb_new par coef0 e skbs MNC_P gid;
         Some (e, case r of None \<Rightarrow> res | Some new \<Rightarrow> res @ [new])
       }) [0..<count]"

text \<open>The result: the packets handed to \<open>ieee80211_subif_start_xmit\<close>, in order, which always
  returns \<open>NETDEV_TX_OK\<close>; and the generation id of the source afterwards.\<close>

definition mnc_encoding_tx ::
  "tr_param \<Rightarrow> matrix \<Rightarrow> env \<Rightarrow> sk_buff list \<Rightarrow> u8 \<Rightarrow> u8 \<Rightarrow> (sk_buff list \<times> u8 \<times> env) option" where
  "mnc_encoding_tx par coef0 e skbs gid eid =
     do {
       (e, res) \<leftarrow>
         (if tr_get_sys par then
            do {
              (res, e) \<leftarrow> enqueue_skb_original e skbs MNC_P gid [];
              if unat (tr_get_data_k par) < unat (tr_get_data_n par)
              then make_coded par coef0 skbs gid (unat (tr_get_data_n par) - unat (tr_get_data_k par)) (e, res)
              else Some (e, res)
            }
          else make_coded par coef0 skbs gid (unat (tr_get_data_n par)) (e, []));
       let eid = (if tr_get_src par then (if eid + 1 = 0 then eid + 2 else eid + 1) else eid);
       Some (res, eid, e)
     }"

section \<open>Writing one byte\<close>

definition gval :: "nat \<Rightarrow> sk_buff \<Rightarrow> gf256" where
  "gval b s = gf_of (the (skb_get b s))"

lemma dvd_next: "p dvd i \<Longrightarrow> p dvd n \<Longrightarrow> i < n \<Longrightarrow> i + p \<le> (n::nat)"
  using dvd_imp_le [of p "n - i"] by (simp add: dvd_diff_nat)

lemma sum_block: "(\<Sum>c<a + b. f c) = (\<Sum>c<a. f c) + (\<Sum>j<b. f (a + j))" for f :: "nat \<Rightarrow> gf256"
  by (induction b) (simp_all add: add.assoc)

section \<open>One block of one packet\<close>

lemma cal_row:
  assumes d: "\<And>j. j < p \<Longrightarrow> skb_get (off + j) s = Some (d j)" and r: "room c t" "b < c"
  shows "\<exists>t'. foldo (\<lambda>j t. do {
         d \<leftarrow> skb_get (off + j) s;
         let mul = gmul d (co j);
         w \<leftarrow> skb_get b t;
         skb_set b (gadd w mul) t
       }) [0..<p] t = Some t' \<and> same_shape t t' \<and>
      gval b t' = gval b t + (\<Sum>j<p. gf_of (co j) * gf_of (d j)) \<and>
      (\<forall>x. x \<noteq> b \<longrightarrow> skb_get x t' = skb_get x t)"
proof (rule foldo_upt_rule [where P = "\<lambda>q t'. same_shape t t' \<and>
      gval b t' = gval b t + (\<Sum>j<q. gf_of (co j) * gf_of (d j)) \<and>
      (\<forall>x. x \<noteq> b \<longrightarrow> skb_get x t' = skb_get x t)"], goal_cases)
  case (3 q t')
  have room: "room c t'" using 3(3) r room_shape by blast
  then obtain w where w: "skb_get b t' = Some w" using r room_get by blast
  obtain t'' where t'': "skb_set b (gadd w (gmul (d q) (co q))) t' = Some t''" "same_shape t' t''"
    "\<And>x. skb_get x t'' = (if x = b then Some (gadd w (gmul (d q) (co q))) else skb_get x t')"
    using room_set [OF room r(2)] by blast
  have "gval b t'' = gval b t' + gf_of (co q) * gf_of (d q)"
    by (simp add: gval_def t''(3) w gf_hom mult.commute)
  then show ?case
    using 3 w t'' d [of q] same_shape_trans [of t t' t''] by (simp add: Let_def add.assoc)
qed auto

lemma cal_data_ok:
  assumes d: "\<And>j. j < p \<Longrightarrow> skb_get (off + j) s = Some (d j)" and r: "room c t" "toff + p \<le> c"
  shows "\<exists>t'. cal_data s off p co toff t = Some t' \<and> same_shape t t' \<and>
      (\<forall>i<p. gval (toff + i) t' = gval (toff + i) t + (\<Sum>j<p. gf_of (co i j) * gf_of (d j))) \<and>
      (\<forall>x. x < toff \<or> toff + p \<le> x \<longrightarrow> skb_get x t' = skb_get x t)"
proof -
  let ?P = "\<lambda>q t'. same_shape t t' \<and>
      (\<forall>i<q. gval (toff + i) t' = gval (toff + i) t + (\<Sum>j<p. gf_of (co i j) * gf_of (d j))) \<and>
      (\<forall>x. x < toff \<or> toff + q \<le> x \<longrightarrow> skb_get x t' = skb_get x t)"
  have "\<exists>t'. cal_data s off p co toff t = Some t' \<and> ?P p t'"
    unfolding cal_data_def
  proof (rule foldo_upt_rule [where P = ?P], goal_cases)
    case (3 i t')
    have rm: "room c t'" "toff + i < c" using 3 r room_shape [of t t'] by auto
    obtain t'' where t'': "foldo (\<lambda>j t. do {
         d \<leftarrow> skb_get (off + j) s;
         let mul = gmul d (co i j);
         w \<leftarrow> skb_get (toff + i) t;
         skb_set (toff + i) (gadd w mul) t
       }) [0..<p] t' = Some t''" "same_shape t' t''"
      "gval (toff + i) t'' = gval (toff + i) t' + (\<Sum>j<p. gf_of (co i j) * gf_of (d j))"
      "\<And>x. x \<noteq> toff + i \<Longrightarrow> skb_get x t'' = skb_get x t'"
      using cal_row [where co = "co i", OF d rm] by blast
    have "gval (toff + i) t' = gval (toff + i) t" using 3 by (simp add: gval_def)
    moreover have "gval (toff + i') t'' = gval (toff + i') t'" if "i' < i" for i'
      using that by (simp add: gval_def t''(4))
    ultimately show ?case
      using t'' 3 same_shape_trans [of t t' t''] by (auto simp: less_Suc_eq)
  qed auto
  then show ?thesis by auto
qed

section \<open>One packet\<close>

lemma cal_packet_loop:
  assumes p: "0 < p" "p dvd n" and d: "\<And>b. b < n \<Longrightarrow> skb_get (off + b) s = Some (d b)"
    and r: "room (toff + n) t0"
  shows "p dvd i \<Longrightarrow> i \<le> n \<Longrightarrow> same_shape t0 t \<Longrightarrow>
    \<exists>t'. loop_opt (\<lambda>(i, t). i < n)
         (\<lambda>(i, t). do { t \<leftarrow> cal_data s (off + i) p co (toff + i) t; Some (i + p, t) }) (i, t) = Some (n, t') \<and>
      same_shape t0 t' \<and>
      (\<forall>x. x < toff + i \<or> toff + n \<le> x \<longrightarrow> skb_get x t' = skb_get x t) \<and>
      (\<forall>a m. i \<le> a \<longrightarrow> a < n \<longrightarrow> p dvd a \<longrightarrow> m < p \<longrightarrow>
         gval (toff + a + m) t' = gval (toff + a + m) t + (\<Sum>j<p. gf_of (co m j) * gf_of (d (a + j))))"
proof (induction "n - i" arbitrary: i t rule: less_induct)
  case less
  show ?case
  proof (cases "i < n")
    case False
    with less.prems show ?thesis by (subst loop_opt.simps) auto
  next
    case True
    have ip: "i + p \<le> n" using less.prems(1) p True by (intro dvd_next)
    have d': "\<And>j. j < p \<Longrightarrow> skb_get (off + i + j) s = Some (d (i + j))"
      using d ip by (simp add: add.assoc)
    obtain t1 where t1: "cal_data s (off + i) p co (toff + i) t = Some t1" "same_shape t t1"
      "\<And>m. m < p \<Longrightarrow> gval (toff + i + m) t1 = gval (toff + i + m) t + (\<Sum>j<p. gf_of (co m j) * gf_of (d (i + j)))"
      "\<And>x. x < toff + i \<or> toff + i + p \<le> x \<Longrightarrow> skb_get x t1 = skb_get x t"
      using cal_data_ok [of p "off + i" s "\<lambda>j. d (i + j)" "toff + n" t "toff + i" co, OF d'] ip
        room_shape [OF less.prems(3) r] by auto
    have smaller: "n - (i + p) < n - i" using True p(1) by linarith
    have sh: "same_shape t0 t1" using less.prems(3) t1(2) same_shape_trans by blast
    obtain t' where t': "loop_opt (\<lambda>(i, t). i < n)
         (\<lambda>(i, t). do { t \<leftarrow> cal_data s (off + i) p co (toff + i) t; Some (i + p, t) }) (i + p, t1) = Some (n, t')"
      "same_shape t0 t'"
      "\<And>x. x < toff + (i + p) \<or> toff + n \<le> x \<Longrightarrow> skb_get x t' = skb_get x t1"
      "\<And>a m. i + p \<le> a \<Longrightarrow> a < n \<Longrightarrow> p dvd a \<Longrightarrow> m < p \<Longrightarrow>
         gval (toff + a + m) t' = gval (toff + a + m) t1 + (\<Sum>j<p. gf_of (co m j) * gf_of (d (a + j)))"
      using less.hyps [OF smaller _ ip sh] less.prems(1) by auto
    have "gval (toff + a + m) t' = gval (toff + a + m) t + (\<Sum>j<p. gf_of (co m j) * gf_of (d (a + j)))"
      if a: "i \<le> a" "a < n" "p dvd a" "m < p" for a m
    proof (cases "a = i")
      case True
      then show ?thesis using t1(3) [OF a(4)] t'(3) [of "toff + a + m"] a(4) by (simp add: gval_def)
    next
      case False
      then have "i + p \<le> a" using a less.prems(1) dvd_next [of p i a] by simp
      then show ?thesis using t'(4) [OF _ a(2-4)] t1(4) [of "toff + a + m"] by (simp add: gval_def)
    qed
    moreover have "skb_get x t' = skb_get x t" if "x < toff + i \<or> toff + n \<le> x" for x
      using t'(3) [of x] t1(4) [of x] that ip by auto
    ultimately show ?thesis using t' t1(1) True by (subst loop_opt.simps) auto
  qed
qed

lemma cal_packet_ok:
  assumes p: "0 < p" "p dvd n" and d: "\<And>b. b < n \<Longrightarrow> skb_get (off + b) s = Some (d b)"
    and r: "room (toff + n) t"
  shows "\<exists>t'. cal_packet s off n p co toff t = Some t' \<and> same_shape t t' \<and>
      (\<forall>x. x < toff \<or> toff + n \<le> x \<longrightarrow> skb_get x t' = skb_get x t) \<and>
      (\<forall>a m. a < n \<longrightarrow> p dvd a \<longrightarrow> m < p \<longrightarrow>
         gval (toff + a + m) t' = gval (toff + a + m) t + (\<Sum>j<p. gf_of (co m j) * gf_of (d (a + j))))"
  using cal_packet_loop [OF p d r, of 0 t co] by (auto simp: cal_packet_def)

section \<open>The coefficients of one packet\<close>

lemma draw_coefficients_ok:
  assumes r: "room (pos + p * p) t"
  shows "\<exists>co' e' t'. draw_coefficients p pos (co, e, t) = Some (co', e', t') \<and> same_shape t t' \<and>
      env_alloc e' = env_alloc e \<and>
      (\<forall>r<p * p. skb_get (pos + r) t' = Some (co' (r div p) (r mod p))) \<and>
      (\<forall>x. x < pos \<or> pos + p * p \<le> x \<longrightarrow> skb_get x t' = skb_get x t)"
proof -
  let ?P = "\<lambda>q (co', e', t'). same_shape t t' \<and> env_alloc e' = env_alloc e \<and>
      (\<forall>r<q. skb_get (pos + r) t' = Some (co' (r div p) (r mod p))) \<and>
      (\<forall>x. x < pos \<or> pos + q \<le> x \<longrightarrow> skb_get x t' = skb_get x t)"
  have "\<exists>s'. draw_coefficients p pos (co, e, t) = Some s' \<and> ?P (p * p) s'"
    unfolding draw_coefficients_def
  proof (rule foldo_upt_rule [where P = ?P], goal_cases)
    case (3 q s)
    obtain co' e' t' where s: "s = (co', e', t')" by (cases s)
    have rm: "room (pos + p * p) t'" "pos + q < pos + p * p" using 3 r room_shape [of t t'] by (auto simp: s)
    obtain t'' where t'': "skb_set (pos + q) (env_rnd e' 0) t' = Some t''" "same_shape t' t''"
      "\<And>x. skb_get x t'' = (if x = pos + q then Some (env_rnd e' 0) else skb_get x t')"
      using room_set [OF rm] by blast
    have "r div p = q div p \<Longrightarrow> r mod p = q mod p \<Longrightarrow> r = q" for r
      by (metis mod_div_decomp)
    then show ?case
      using 3 t'' same_shape_trans [of t t' t''] by (auto simp: s get_random_byte_def less_Suc_eq)
  qed auto
  then show ?thesis by auto
qed


section \<open>All packets\<close>

definition coded_upto :: "nat \<Rightarrow> nat \<Rightarrow> nat \<Rightarrow> (nat \<Rightarrow> vector) \<Rightarrow> nat \<Rightarrow> sk_buff \<Rightarrow> bool" where
  "coded_upto k p n orig q t \<longleftrightarrow>
     (\<forall>i<n. p dvd i \<longrightarrow> (\<forall>m<p. gval (ETHERHEADLEN + (p * p * k + 3) + i + m) t =
        (\<Sum>c<q * p. gval (ETHERHEADLEN + coef_at p m c) t * gf_of (orig (c div p) (i + c mod p)))))"

lemma coef_at_block: "m < p \<Longrightarrow> j < p \<Longrightarrow> coef_at p m (q * p + j) = 3 + q * (p * p) + (m * p + j)"
  by (simp add: coef_at_def)

lemma block_pos_less: "m < p \<Longrightarrow> j < p \<Longrightarrow> m * p + j < p * (p::nat)"
  using mult_le_mono1 [of "Suc m" p p] by simp

lemma coef_at_less: "m < p \<Longrightarrow> c < q * p \<Longrightarrow> coef_at p m c < 3 + q * (p * p)"
proof -
  assume m: "m < p" and c: "c < q * p"
  have b: "c div p < q" "c mod p < p" using block_index [OF c] by auto
  have "coef_at p m c = 3 + (c div p) * (p * p) + (m * p + c mod p)" by (simp add: coef_at_def)
  also have "\<dots> < 3 + (c div p) * (p * p) + p * p" using block_pos_less [OF m b(2)] by simp
  also have "\<dots> = 3 + Suc (c div p) * (p * p)" by simp
  also have "\<dots> \<le> 3 + q * (p * p)" using b(1) by (intro add_left_mono mult_le_mono1) simp
  finally show ?thesis .
qed

lemma combine_step:
  assumes p: "0 < p" "p dvd n" and q: "q < k" and len: "length skbs = k"
    and same: "skb_len (skbs ! q) = len1"
    and orig: "\<And>b. b < n \<Longrightarrow> skb_get ((if src then ETHERHEADLEN else 0) + b) (skbs ! q) = Some (orig q b)"
    and r: "room (ETHERHEADLEN + (p * p * k + 3) + n) t" and up: "coded_upto k p n orig q t"
  shows "\<exists>co' e' t'. combine_body src p (p * p * k + 3) n len1 (drop q skbs, q * (p * p), co, e, t) =
      Some (drop (Suc q) skbs, Suc q * (p * p), co', e', t') \<and> same_shape t t' \<and>
      env_alloc e' = env_alloc e \<and> (\<forall>x < ETHERHEADLEN + 3. skb_get x t' = skb_get x t) \<and>
      coded_upto k p n orig (Suc q) t'"
proof -
  let ?H = "ETHERHEADLEN + (p * p * k + 3)" and ?pos = "ETHERHEADLEN + 3 + q * (p * p)"
  have end_q: "?pos + p * p \<le> ?H"
    using mult_le_mono1 [of "Suc q" k "p * p"] q by (simp add: algebra_simps)
  then have "room (?pos + p * p) t" using r room_mono by (meson le_add1 order_trans)
  then obtain co' e' t1 where t1: "draw_coefficients p ?pos (co, e, t) = Some (co', e', t1)"
    "same_shape t t1" "env_alloc e' = env_alloc e"
    "\<And>r. r < p * p \<Longrightarrow> skb_get (?pos + r) t1 = Some (co' (r div p) (r mod p))"
    "\<And>x. x < ?pos \<or> ?pos + p * p \<le> x \<Longrightarrow> skb_get x t1 = skb_get x t"
    using draw_coefficients_ok by blast
  obtain t' where t': "cal_packet (skbs ! q) (if src then ETHERHEADLEN else 0) n p co' ?H t1 = Some t'"
    "same_shape t1 t'" "\<And>x. x < ?H \<or> ?H + n \<le> x \<Longrightarrow> skb_get x t' = skb_get x t1"
    "\<And>a m. a < n \<Longrightarrow> p dvd a \<Longrightarrow> m < p \<Longrightarrow>
       gval (?H + a + m) t' = gval (?H + a + m) t1 + (\<Sum>j<p. gf_of (co' m j) * gf_of (orig q (a + j)))"
    using cal_packet_ok [of p n _ "skbs ! q" "orig q" ?H t1 co', OF p orig] room_shape [OF t1(2) r] by blast
  have "combine_body src p (p * p * k + 3) n len1 (drop q skbs, q * (p * p), co, e, t) =
      Some (drop (Suc q) skbs, Suc q * (p * p), co', e', t')"
    using q len same t1(1) t'(1)
    by (simp add: combine_body_def Cons_nth_drop_Suc [symmetric] add.commute add.left_commute)
  moreover have "coded_upto k p n orig (Suc q) t'"
    unfolding coded_upto_def
  proof (intro allI impI)
    fix i m assume i: "i < n" "p dvd i" and m: "m < p"
    have old: "gval (ETHERHEADLEN + coef_at p m c) t' = gval (ETHERHEADLEN + coef_at p m c) t" if "c < q * p" for c
      using coef_at_less [OF m that] end_q t'(3) t1(5) by (simp add: gval_def)
    have new: "gval (ETHERHEADLEN + coef_at p m (q * p + j)) t' = gf_of (co' m j)" if "j < p" for j
    proof -
      have "m * p + j < p * p" using block_pos_less [OF m that] .
      then show ?thesis
        using that m t1(4) [of "m * p + j"] t'(3) [of "?pos + (m * p + j)"] end_q
        by (simp add: gval_def coef_at_block add.assoc)
    qed
    have "gval (?H + i + m) t1 = gval (?H + i + m) t"
      using end_q t1(5) [of "?H + i + m"] by (simp add: gval_def)
    then have "gval (?H + i + m) t' = (\<Sum>c<q * p. gval (ETHERHEADLEN + coef_at p m c) t * gf_of (orig (c div p) (i + c mod p)))
        + (\<Sum>j<p. gf_of (co' m j) * gf_of (orig q (i + j)))"
      using t'(4) [OF i m] up i m by (simp add: coded_upto_def)
    also have "\<dots> = (\<Sum>c<q * p + p. gval (ETHERHEADLEN + coef_at p m c) t' * gf_of (orig (c div p) (i + c mod p)))"
      using p(1) by (simp add: sum_block old new)
    finally show "gval (?H + i + m) t' =
        (\<Sum>c<Suc q * p. gval (ETHERHEADLEN + coef_at p m c) t' * gf_of (orig (c div p) (i + c mod p)))"
      by (simp add: add.commute)
  qed
  moreover have "skb_get x t' = skb_get x t" if "x < ETHERHEADLEN + 3" for x
    using that end_q t'(3) [of x] t1(5) [of x] by simp
  ultimately show ?thesis using t1(2,3) t'(2) same_shape_trans by blast
qed

lemma combine_loop:
  assumes p: "0 < p" "p dvd n" and len: "length skbs = k"
    and same: "\<And>j. j < k \<Longrightarrow> skb_len (skbs ! j) = len1"
    and orig: "\<And>j b. j < k \<Longrightarrow> b < n \<Longrightarrow>
      skb_get ((if src then ETHERHEADLEN else 0) + b) (skbs ! j) = Some (orig j b)"
  shows "q \<le> k \<Longrightarrow> room (ETHERHEADLEN + (p * p * k + 3) + n) t \<Longrightarrow> coded_upto k p n orig q t \<Longrightarrow>
    \<exists>l' co' e' t'. loop_opt (\<lambda>(skbs, l, coefficient, e, new). skbs \<noteq> [])
        (combine_body src p (p * p * k + 3) n len1) (drop q skbs, q * (p * p), co, e, t) =
      Some ([], l', co', e', t') \<and> same_shape t t' \<and> env_alloc e' = env_alloc e \<and>
      (\<forall>x < ETHERHEADLEN + 3. skb_get x t' = skb_get x t) \<and> coded_upto k p n orig k t'"
proof (induction "k - q" arbitrary: q co e t)
  case 0
  then show ?case using len by (subst loop_opt.simps) auto
next
  case (Suc d)
  then have q: "q < k" and d: "d = k - Suc q" by auto
  obtain co1 e1 t1 where s: "combine_body src p (p * p * k + 3) n len1 (drop q skbs, q * (p * p), co, e, t) =
      Some (drop (Suc q) skbs, Suc q * (p * p), co1, e1, t1)" "same_shape t t1"
      "env_alloc e1 = env_alloc e" "\<forall>x < ETHERHEADLEN + 3. skb_get x t1 = skb_get x t"
      "coded_upto k p n orig (Suc q) t1"
    using combine_step [OF p q len same [OF q] orig [OF q] Suc.prems(2,3)] by blast
  have "Suc q \<le> k" using q by simp
  from Suc.hyps(1) [OF d this room_shape [OF s(2) Suc.prems(2)] s(5), of co1 e1]
  show ?case
    using s q len same_shape_trans [of t t1] by (subst loop_opt.simps) auto
qed

section \<open>The first header byte\<close>

lemma ucast_of_nat_u8: "(ucast (of_nat m :: u32) :: u8) = of_nat m"
  by transfer simp

lemma kp_byte_eq: "p < 4 \<Longrightarrow> kp_byte k p = of_nat (4 * k + p)"
proof -
  assume p: "p < 4"
  have "take_bit 2 (of_nat p :: u32) = of_nat p"
    using p by (simp add: take_bit_of_nat take_bit_nat_eq_self)
  then have "\<not> bit (of_nat p :: u32) n" if "2 \<le> n" for n
    using that by (metis bit_take_bit_iff leD)
  then have "push_bit 2 (of_nat k :: u32) OR of_nat p = push_bit 2 (of_nat k) + of_nat p"
    by (intro disjunctive_add [symmetric]) (auto simp: bit_simps)
  also have "\<dots> = of_nat (4 * k + p)" by (simp add: push_bit_eq_mult)
  finally show ?thesis
    unfolding kp_byte_def by (simp only: ucast_of_nat_u8)
qed

lemma kp_byte_k: "k < 64 \<Longrightarrow> p < 4 \<Longrightarrow> unat (drop_bit 2 (kp_byte k p)) = k"
  by (simp only: kp_byte_eq unsigned_drop_bit_eq unsigned_of_nat)
     (simp add: take_bit_nat_eq_self drop_bit_eq_div)

lemma kp_byte_p: "k < 64 \<Longrightarrow> p < 4 \<Longrightarrow> unat (kp_byte k p AND 3) = p"
proof -
  assume *: "k < 64" "p < 4"
  have "(3 :: u8) = mask 2" by (simp add: mask_eq_exp_minus_1)
  then have "kp_byte k p AND 3 = take_bit 2 (kp_byte k p)" by (simp add: take_bit_eq_mask)
  then have "unat (kp_byte k p AND 3) = take_bit 2 (unat (kp_byte k p))"
    by (simp add: unsigned_take_bit_eq)
  also have "unat (kp_byte k p) = 4 * k + p"
    using * by (simp only: kp_byte_eq unsigned_of_nat) (simp add: take_bit_nat_eq_self)
  finally show ?thesis using * by (simp add: take_bit_eq_mod)
qed

lemma index_byte: "j < 64 \<Longrightarrow> unat (drop_bit 2 (ucast (push_bit 2 (of_nat j :: u32)) :: u8)) = j"
  using kp_byte_k [of j 0] by (simp add: kp_byte_def)

section \<open>Preparing the new buffer\<close>

lemma clear_payload_ok:
  assumes "skb_len t = ETHERHEADLEN + n" "n < 2 ^ 32" "room (ETHERHEADLEN + n) t"
  shows "\<exists>t'. clear_payload t = Some t' \<and> same_shape t t' \<and>
    (\<forall>b<n. skb_get (ETHERHEADLEN + b) t' = Some 0) \<and>
    (\<forall>x. x < ETHERHEADLEN \<or> ETHERHEADLEN + n \<le> x \<longrightarrow> skb_get x t' = skb_get x t)"
proof -
  let ?P = "\<lambda>q t'. same_shape t t' \<and> (\<forall>b<q. skb_get (ETHERHEADLEN + b) t' = Some 0) \<and>
    (\<forall>x. x < ETHERHEADLEN \<or> ETHERHEADLEN + q \<le> x \<longrightarrow> skb_get x t' = skb_get x t)"
  have "usub32 (skb_len t) ETHERHEADLEN = n" using assms by (simp add: usub32_cancel)
  moreover have "\<exists>t'. foldo (\<lambda>i. skb_set (ETHERHEADLEN + i) 0) [0..<n] t = Some t' \<and> ?P n t'"
  proof (rule foldo_upt_rule [where P = ?P], goal_cases)
    case (3 q t')
    have "room (ETHERHEADLEN + n) t'" "ETHERHEADLEN + q < ETHERHEADLEN + n"
      using 3 assms(3) room_shape [of t t'] by auto
    then obtain t'' where t'': "skb_set (ETHERHEADLEN + q) 0 t' = Some t''" "same_shape t' t''"
      "\<And>x. skb_get x t'' = (if x = ETHERHEADLEN + q then Some 0 else skb_get x t')"
      using room_set by blast
    then show ?case using 3 same_shape_trans [of t t' t''] by (auto simp: less_Suc_eq)
  qed auto
  ultimately show ?thesis by (simp add: clear_payload_def)
qed

lemma write_mnc_header_ok:
  assumes "room (ETHERHEADLEN + 3) t"
  shows "\<exists>t'. write_mnc_header kp gid m t = Some t' \<and> same_shape t t' \<and>
    skb_get ETHERHEADLEN t' = Some kp \<and> skb_get (ETHERHEADLEN + 1) t' = Some gid \<and>
    skb_get (ETHERHEADLEN + 2) t' = Some m \<and> skb_get 12 t' = Some 0x08 \<and> skb_get 13 t' = Some 0x10 \<and>
    (\<forall>x. x < 12 \<or> ETHERHEADLEN + 3 \<le> x \<longrightarrow> skb_get x t' = skb_get x t)"
proof -
  let ?R = "ETHERHEADLEN + 3"
  obtain t1 where t1: "skb_set ETHERHEADLEN kp t = Some t1" "same_shape t t1"
    "\<And>x. skb_get x t1 = (if x = ETHERHEADLEN then Some kp else skb_get x t)"
    using room_set [OF assms, of ETHERHEADLEN kp] by auto
  obtain t2 where t2: "skb_set (ETHERHEADLEN + 1) gid t1 = Some t2" "same_shape t1 t2"
    "\<And>x. skb_get x t2 = (if x = ETHERHEADLEN + 1 then Some gid else skb_get x t1)"
    using room_set [OF room_shape [OF t1(2) assms], of "ETHERHEADLEN + 1" gid] by auto
  have sh2: "same_shape t t2" using t1 t2 same_shape_trans by blast
  obtain t3 where t3: "skb_set (ETHERHEADLEN + 2) m t2 = Some t3" "same_shape t2 t3"
    "\<And>x. skb_get x t3 = (if x = ETHERHEADLEN + 2 then Some m else skb_get x t2)"
    using room_set [OF room_shape [OF sh2 assms], of "ETHERHEADLEN + 2" m] by auto
  have sh3: "same_shape t t3" using sh2 t3 same_shape_trans by blast
  obtain t4 where t4: "skb_set (ETHERHEADLEN - 2) 8 t3 = Some t4" "same_shape t3 t4"
    "\<And>x. skb_get x t4 = (if x = ETHERHEADLEN - 2 then Some 8 else skb_get x t3)"
    by (rule room_set [OF room_shape [OF sh3 assms], of "ETHERHEADLEN - 2" 8]) (linarith, blast)
  have sh4: "same_shape t t4" using sh3 t4 same_shape_trans by blast
  obtain t5 where t5: "skb_set (ETHERHEADLEN - 1) 0x10 t4 = Some t5" "same_shape t4 t5"
    "\<And>x. skb_get x t5 = (if x = ETHERHEADLEN - 1 then Some 0x10 else skb_get x t4)"
    by (rule room_set [OF room_shape [OF sh4 assms], of "ETHERHEADLEN - 1" 16]) (linarith, blast)
  have "same_shape t t5" using sh4 t5 same_shape_trans by blast
  then show ?thesis
    using t1(1) t2(1) t3(1) t4(1) t5(1)
    by (simp add: write_mnc_header_def t5(3) t4(3) t3(3) t2(3) t1(3) ETHERHEADLEN_def)
qed

section \<open>A coded packet\<close>

definition mnc_header :: "nat \<Rightarrow> nat \<Rightarrow> u8 \<Rightarrow> sk_buff \<Rightarrow> bool" where
  "mnc_header k p gid s \<longleftrightarrow> skb_get 12 s = Some 0x08 \<and> skb_get 13 s = Some 0x10 \<and>
     skb_get ETHERHEADLEN s = Some (kp_byte k p) \<and> skb_get (ETHERHEADLEN + 1) s = Some gid"

text \<open>What the encoder needs of its queue: \<open>k\<close> packets of equal length whose payload of \<open>n\<close>
  bytes starts at \<open>off\<close>.\<close>

definition generation :: "nat \<Rightarrow> nat \<Rightarrow> nat \<Rightarrow> (nat \<Rightarrow> vector) \<Rightarrow> sk_buff list \<Rightarrow> bool" where
  "generation k off n orig skbs \<longleftrightarrow> length skbs = k \<and>
     (\<forall>j<k. skb_len (skbs ! j) = off + n \<and> (\<forall>b<n. skb_get (off + b) (skbs ! j) = Some (orig j b)))"

definition payload_off :: "bool \<Rightarrow> nat" where
  "payload_off src = (if src then ETHERHEADLEN else 0)"

lemma move_headers_ok:
  assumes "skb_put h t = Some t1" "src \<or> ETHERHEADLEN \<le> skb_data t" "skb_len t = payload_off src + n"
  shows "\<exists>t'. move_headers src h t1 = Some t' \<and> skb_len t' = ETHERHEADLEN + (h + n) \<and>
    room (ETHERHEADLEN + (h + n)) t'"
  using assms
  by (auto simp: move_headers_def room_def payload_off_def Let_def skb_set_transport_header_def
      skb_set_network_header_def skb_reset_mac_header_def skb_reset_network_header_def)

lemma make_skb_new_ok:
  assumes gen: "generation k (payload_off src) n orig skbs" and k: "0 < k" "k < 64"
    and p: "0 < p" "p < 4" "p dvd n" and n: "n < 2 ^ 31" and src: "src = tr_get_src par"
    and roomy: "skb_data (hd skbs) + skb_len (hd skbs) + (p * p * k + 3) \<le> length (skb_buf (hd skbs))"
      "src \<or> ETHERHEADLEN \<le> skb_data (hd skbs)" and mem: "env_alloc e 0"
  shows "\<exists>s e'. make_skb_new par coef0 e skbs p gid = Some (Some s, e') \<and>
    env_alloc e' = (\<lambda>i. env_alloc e (Suc i)) \<and> mnc_header k p gid s \<and>
    coded_packet k p n orig (skb_pull ETHERHEADLEN s)"
proof -
  let ?h = "p * p * k + 3" and ?s = "hd skbs"
  have len: "length skbs = k" and slen: "\<And>j. j < k \<Longrightarrow> skb_len (skbs ! j) = payload_off src + n"
    and orig: "\<And>j b. j < k \<Longrightarrow> b < n \<Longrightarrow> skb_get (payload_off src + b) (skbs ! j) = Some (orig j b)"
    using gen by (auto simp: generation_def)
  have ne: "skbs \<noteq> []" and hd: "?s = skbs ! 0" using len k by (auto simp: hd_conv_nth)
  have hlen: "skb_len ?s = payload_off src + n" using slen [of 0] k hd by simp
  have pk: "p * p * k + 3 < 2 ^ 31"
  proof -
    have "p * p * k \<le> 4 * 4 * 64" using p k by (intro mult_le_mono) auto
    then show ?thesis by simp
  qed
  obtain c e1 where c: "skb_copy e ?s = (Some c, e1)" and e1: "env_alloc e1 = (\<lambda>i. env_alloc e (Suc i))"
    using mem by (simp add: skb_copy_def alloc_next_def)
  obtain t1 where t1: "skb_put ?h c = Some t1" using skb_copy_get(1-3) [OF c] roomy(1) by simp
  obtain t2 where t2: "move_headers src ?h t1 = Some t2" "skb_len t2 = ETHERHEADLEN + (?h + n)"
    "room (ETHERHEADLEN + (?h + n)) t2"
    using move_headers_ok [OF t1, of src n] roomy(2) skb_copy_get(1-3) [OF c] hlen by auto
  obtain t3 where t3: "clear_payload t2 = Some t3" "same_shape t2 t3"
    "\<And>b. b < ?h + n \<Longrightarrow> skb_get (ETHERHEADLEN + b) t3 = Some 0"
    using clear_payload_ok [OF t2(2) _ t2(3)] pk n by auto
  have r3: "room (ETHERHEADLEN + (?h + n)) t3" using room_shape [OF t3(2) t2(3)] .
  then have "room (ETHERHEADLEN + 3) t3" by (rule room_mono) simp
  then obtain t4 where t4: "write_mnc_header (kp_byte k p) gid (if src then 0xfc else 0xfd) t3 = Some t4"
    "same_shape t3 t4" "skb_get ETHERHEADLEN t4 = Some (kp_byte k p)"
    "skb_get (ETHERHEADLEN + 1) t4 = Some gid" "skb_get (ETHERHEADLEN + 2) t4 = Some (if src then 0xfc else 0xfd)"
    "skb_get 12 t4 = Some 8" "skb_get 13 t4 = Some 0x10" "\<And>x. ETHERHEADLEN + 3 \<le> x \<Longrightarrow> skb_get x t4 = skb_get x t3"
    using write_mnc_header_ok [of t3 "kp_byte k p" gid "if src then 0xfc else 0xfd"] by auto
  have r4: "room (ETHERHEADLEN + ?h + n) t4" using room_shape [OF t4(2) r3] by (simp add: add.assoc)
  have zero: "coded_upto k p n orig 0 t4"
    unfolding coded_upto_def
  proof (intro allI impI)
    fix i m assume "i < n" "p dvd i" "m < p"
    then have "?h + i + m < ?h + n" using dvd_next [of p i n] p by simp
    then show "gval (ETHERHEADLEN + ?h + i + m) t4 =
        (\<Sum>c<0 * p. gval (ETHERHEADLEN + coef_at p m c) t4 * gf_of (orig (c div p) (i + c mod p)))"
      using t4(8) [of "ETHERHEADLEN + ?h + i + m"] t3(3) [of "?h + i + m"]
      by (simp add: gval_def add.assoc gf_hom)
  qed
  obtain l' co' e' t where t: "loop_opt (\<lambda>(skbs, l, coefficient, e, new). skbs \<noteq> [])
        (combine_body src p ?h n (payload_off src + n)) (drop 0 skbs, 0 * (p * p), coef0, e1, t4) =
      Some ([], l', co', e', t)" "same_shape t4 t" "env_alloc e' = env_alloc e1"
      "\<forall>x < ETHERHEADLEN + 3. skb_get x t = skb_get x t4" "coded_upto k p n orig k t"
    using combine_loop [of p n skbs k "payload_off src + n" src orig 0 t4 coef0 e1] p len slen orig r4 zero
    unfolding payload_off_def by blast
  have coding: "(if src then usub32 (skb_len ?s) ETHERHEADLEN else skb_len ?s) = n"
    using hlen n by (simp add: payload_off_def usub32_cancel)
  have lim: "\<not> 0x1000000 \<le> k" "\<not> 0x100 \<le> p" using k p by auto
  have "make_skb_new par coef0 e skbs p gid = Some (Some t, e')"
    unfolding make_skb_new_def Let_def src [symmetric] len if_not_P [OF ne] if_not_P [OF lim(1)]
      if_not_P [OF lim(2)] c coding
    using t1 t2(1) t3(1) t4(1) t(1) by (simp add: hlen)
  moreover have "mnc_header k p gid t" using t(4) t4 by (simp add: mnc_header_def ETHERHEADLEN_def)
  moreover have "coded_packet k p n orig (skb_pull ETHERHEADLEN t)"
  proof -
    have slen: "skb_len t = ETHERHEADLEN + (?h + n)"
      using t(2) t4(2) t3(2) t2(2) by (simp add: same_shape_def)
    have rt: "room (ETHERHEADLEN + ?h + n) t" using room_shape [OF t(2) r4] .
    have get: "skb_get x (skb_pull ETHERHEADLEN t) = skb_get (ETHERHEADLEN + x) t" for x
      using slen by (simp add: skb_get_pull)
    have "mindex (skb_pull ETHERHEADLEN t) = Some 0x3f"
      using t(4) t4(5) unfolding mindex_def get by (simp add: ETHERHEADLEN_def)
    moreover have "skb_get (coef_at p m c) (skb_pull ETHERHEADLEN t) \<noteq> None" if "m < p" "c < k * p" for m c
      using coef_at_less [OF that] room_get [OF rt, of "ETHERHEADLEN + coef_at p m c"]
      by (auto simp: get algebra_simps)
    moreover have "\<exists>v. skb_get (3 + p * p * k + i + m) (skb_pull ETHERHEADLEN t) = Some v \<and>
            gf_of v = (\<Sum>c<k * p. gf_of (the (skb_get (coef_at p m c) (skb_pull ETHERHEADLEN t))) *
                                   gf_of (orig (c div p) (i + c mod p)))"
      if i: "i \<in> set (block_starts p n)" and m: "m < p" for i m
    proof -
      have i': "i < n" "p dvd i" using i by (auto simp: block_starts_def)
      then have "ETHERHEADLEN + (3 + p * p * k + i + m) < ETHERHEADLEN + ?h + n"
        using dvd_next [of p i n] p m by simp
      then obtain v where "skb_get (ETHERHEADLEN + (3 + p * p * k + i + m)) t = Some v"
        using room_get [OF rt] by blast
      moreover have "gval (ETHERHEADLEN + ?h + i + m) t =
          (\<Sum>c<k * p. gval (ETHERHEADLEN + coef_at p m c) t * gf_of (orig (c div p) (i + c mod p)))"
        using t(5) i' m by (simp add: coded_upto_def)
      ultimately show ?thesis by (simp add: get gval_def add_ac)
    qed
    ultimately show ?thesis using slen by (simp add: coded_packet_def skb_len_pull)
  qed
  ultimately show ?thesis using t(3) e1 by auto
qed

section \<open>A systematic packet\<close>

lemma shift_header_ok:
  assumes "room (ETHERHEADLEN + 3) t"
  shows "\<exists>t'. foldo (\<lambda>i t. do { b \<leftarrow> skb_get (i + mnc_hdrlen_sys) t; skb_set i b t }) [0..<ETHERHEADLEN] t = Some t' \<and>
    same_shape t t' \<and> (\<forall>x<ETHERHEADLEN. skb_get x t' = skb_get (x + 3) t) \<and>
    (\<forall>x. ETHERHEADLEN \<le> x \<longrightarrow> skb_get x t' = skb_get x t)"
proof -
  let ?P = "\<lambda>q t'. same_shape t t' \<and> (\<forall>x<q. skb_get x t' = skb_get (x + 3) t) \<and>
    (\<forall>x. q \<le> x \<longrightarrow> skb_get x t' = skb_get x t)"
  have "\<exists>t'. foldo (\<lambda>i t. do { b \<leftarrow> skb_get (i + mnc_hdrlen_sys) t; skb_set i b t }) [0..<ETHERHEADLEN] t = Some t' \<and>
    ?P ETHERHEADLEN t'"
  proof (rule foldo_upt_rule [where P = ?P], goal_cases)
    case (3 q t')
    have r: "room (ETHERHEADLEN + 3) t'" "q < ETHERHEADLEN + 3" "q + 3 < ETHERHEADLEN + 3"
      using 3 assms room_shape [of t t'] by auto
    obtain b where b: "skb_get (q + 3) t' = Some b" using room_get [OF r(1,3)] by blast
    obtain t'' where t'': "skb_set q b t' = Some t''" "same_shape t' t''"
      "\<And>x. skb_get x t'' = (if x = q then Some b else skb_get x t')"
      using room_set [OF r(1,2)] by blast
    show ?case
      using 3 b t'' same_shape_trans [of t t' t''] by (auto simp: mnc_hdrlen_sys_def less_Suc_eq)
  qed auto
  then show ?thesis by auto
qed

lemma sys_packet_of_ok:
  assumes len: "skb_len c = ETHERHEADLEN + n" and head: "3 \<le> skb_data c"
    and pay: "\<And>b. b < n \<Longrightarrow> skb_get (ETHERHEADLEN + b) c = Some (d b)"
    and fits: "room (ETHERHEADLEN + n) c"
  shows "\<exists>s. sys_packet_of c kp gid j = Some s \<and> skb_len s = ETHERHEADLEN + (3 + n) \<and>
    skb_get ETHERHEADLEN s = Some kp \<and> skb_get (ETHERHEADLEN + 1) s = Some gid \<and>
    skb_get (ETHERHEADLEN + 2) s = Some (ucast (push_bit 2 (of_nat j :: u32))) \<and>
    skb_get 12 s = Some 0x08 \<and> skb_get 13 s = Some 0x10 \<and>
    (\<forall>b<n. skb_get (ETHERHEADLEN + (3 + b)) s = Some (d b))"
proof -
  define t where "t = c\<lparr>skb_data := skb_data c - 3, skb_len := skb_len c + 3\<rparr>"
  define t1 where "t1 = skb_set_transport_header
     (int (skb_transport_header t) - int (skb_data t) + int mnc_hdrlen_sys)
     (skb_set_network_header (int (skb_network_header t) - int (skb_data t) + int mnc_hdrlen_sys) t)"
  have t1_get: "skb_get (3 + x) t1 = skb_get x c" for x
    using head by (simp add: t1_def t_def skb_get_def head_get_def skb_set_transport_header_def
        skb_set_network_header_def)
  have rt: "room (ETHERHEADLEN + 3 + n) t1"
    using fits head by (simp add: room_def t1_def t_def skb_set_transport_header_def skb_set_network_header_def)
  have len1: "skb_len t1 = ETHERHEADLEN + 3 + n"
    using len by (simp add: t1_def t_def skb_set_transport_header_def skb_set_network_header_def)
  have "room (ETHERHEADLEN + 3) t1" using rt by (rule room_mono) simp
  then obtain t2 where t2: "foldo (\<lambda>i t. do { b \<leftarrow> skb_get (i + mnc_hdrlen_sys) t; skb_set i b t }) [0..<ETHERHEADLEN] t1 = Some t2"
    "same_shape t1 t2" "\<And>x. ETHERHEADLEN \<le> x \<Longrightarrow> skb_get x t2 = skb_get x t1"
    using shift_header_ok by blast
  have "room (ETHERHEADLEN + 3) t2" using room_shape [OF t2(2)] rt room_mono [of _ t1 "ETHERHEADLEN + 3"] by simp
  from write_mnc_header_ok [OF this, of kp gid "ucast (push_bit 2 (of_nat j :: u32))"]
  obtain s where s: "write_mnc_header kp gid (ucast (push_bit 2 (of_nat j :: u32))) t2 = Some s" "same_shape t2 s"
    "skb_get ETHERHEADLEN s = Some kp" "skb_get (ETHERHEADLEN + 1) s = Some gid"
    "skb_get (ETHERHEADLEN + 2) s = Some (ucast (push_bit 2 (of_nat j :: u32)))"
    "skb_get 12 s = Some 8" "skb_get 13 s = Some 16"
    "\<And>x. ETHERHEADLEN + 3 \<le> x \<Longrightarrow> skb_get x s = skb_get x t2" by blast
  have "sys_packet_of c kp gid j = Some s"
    unfolding sys_packet_of_def using head t2(1) s(1)
    by (simp add: skb_push_def mnc_hdrlen_sys_def t1_def t_def Let_def)
  moreover have "skb_get (ETHERHEADLEN + (3 + b)) s = Some (d b)" if "b < n" for b
    using s(8) [of "ETHERHEADLEN + (3 + b)"] t2(3) [of "ETHERHEADLEN + (3 + b)"] t1_get [of "ETHERHEADLEN + b"] pay [OF that]
    by (simp add: add.left_commute)
  moreover have "skb_len s = ETHERHEADLEN + (3 + n)"
    using s(2) t2(2) len1 by (simp add: same_shape_def)
  ultimately show ?thesis using s by blast
qed

lemma block_within: "i \<in> set (block_starts p n) \<Longrightarrow> p dvd n \<Longrightarrow> m < p \<Longrightarrow> i + m < n"
  using dvd_next [of p i n] by (simp add: block_starts_def)

lemma sys_packet_is:
  assumes "skb_len s = ETHERHEADLEN + (3 + n)"
    "skb_get (ETHERHEADLEN + 2) s = Some (ucast (push_bit 2 (of_nat j :: u32)))"
    "\<And>b. b < n \<Longrightarrow> skb_get (ETHERHEADLEN + (3 + b)) s = Some (orig j b)"
    and j: "j < k" "k < 64" and p: "p dvd n"
  shows "sys_packet k p n orig j (skb_pull ETHERHEADLEN s)"
proof -
  have get: "skb_get x (skb_pull ETHERHEADLEN s) = skb_get (ETHERHEADLEN + x) s" for x
    using assms(1) by (simp add: skb_get_pull)
  have "mindex (skb_pull ETHERHEADLEN s) = Some j"
    using assms(2) j by (simp add: mindex_def get index_byte)
  moreover have "skb_get (3 + i + m) (skb_pull ETHERHEADLEN s) = Some (orig j (i + m))"
    if "i \<in> set (block_starts p n)" "m < p" for i m
    using assms(3) block_within [OF that(1) p that(2)] by (simp add: get add.assoc)
  ultimately show ?thesis using j assms(1) by (simp add: sys_packet_def skb_len_pull)
qed

section \<open>The systematic part of a generation\<close>

definition roomy :: "sk_buff list \<Rightarrow> bool" where
  "roomy skbs \<longleftrightarrow> (\<forall>s\<in>set skbs. 3 \<le> skb_data s \<and> skb_data s + skb_len s \<le> length (skb_buf s))"

lemma copy_of_packet:
  assumes c: "skb_copy e s = (Some c, e')" and s: "skb_len s = ETHERHEADLEN + n" "3 \<le> skb_data s"
    "skb_data s + skb_len s \<le> length (skb_buf s)"
    and pay: "\<And>b. b < n \<Longrightarrow> skb_get (ETHERHEADLEN + b) s = Some (d b)"
  shows "skb_len c = ETHERHEADLEN + n" "3 \<le> skb_data c" "room (ETHERHEADLEN + n) c"
    "\<And>b. b < n \<Longrightarrow> skb_get (ETHERHEADLEN + b) c = Some (d b)"
  using skb_copy_get [OF c] s pay by (auto simp: room_def)

lemma enqueue_loop:
  assumes gen: "generation k ETHERHEADLEN n orig skbs" and rm: "roomy skbs" and k: "k < 64" and p: "p dvd n"
  shows "q \<le> k \<Longrightarrow> \<exists>rest j e' new stop.
    loop_opt (\<lambda>(skbs, j, e, res, stop). skbs \<noteq> [] \<and> \<not> stop) (enqueue_body (ETHERHEADLEN + n) (kp_byte k p) gid)
      (drop q skbs, q, e, res, False) = Some (rest, j, e', res @ new, stop) \<and>
    length new \<le> k - q \<and> (\<forall>i<length new. mnc_header k p gid (new ! i) \<and>
       sys_packet k p n orig (q + i) (skb_pull ETHERHEADLEN (new ! i))) \<and>
    ((\<forall>i. env_alloc e i) \<longrightarrow> length new = k - q \<and> (\<forall>i. env_alloc e' i))"
proof (induction "k - q" arbitrary: q e res)
  case 0
  have "drop q skbs = []" using gen 0 by (simp add: generation_def)
  then show ?case by (subst loop_opt.simps) (use 0 in auto)
next
  case (Suc d)
  then have q: "q < k" and d: "d = k - Suc q" by auto
  have len: "length skbs = k" "skb_len (skbs ! q) = ETHERHEADLEN + n"
    and pay: "\<And>b. b < n \<Longrightarrow> skb_get (ETHERHEADLEN + b) (skbs ! q) = Some (orig q b)"
    using gen q by (auto simp: generation_def)
  have drop: "drop q skbs = skbs ! q # drop (Suc q) skbs" using q len by (simp add: Cons_nth_drop_Suc)
  have fits: "3 \<le> skb_data (skbs ! q)" "skb_data (skbs ! q) + skb_len (skbs ! q) \<le> length (skb_buf (skbs ! q))"
    using rm q len(1) nth_mem [of q skbs] by (auto simp: roomy_def)
  obtain r e1 where r: "skb_copy e (skbs ! q) = (r, e1)" by fastforce
  show ?case
  proof (cases r)
    case None
    then have "\<not> env_alloc e 0" using r by (auto simp: skb_copy_def split: if_splits)
    moreover have "enqueue_body (ETHERHEADLEN + n) (kp_byte k p) gid (drop q skbs, q, e, res, False) =
        Some (drop q skbs, q, e1, res, True)"
      by (simp add: enqueue_body_def drop len r None)
    moreover have "loop_opt (\<lambda>(skbs, j, e, res, stop). skbs \<noteq> [] \<and> \<not> stop) (enqueue_body (ETHERHEADLEN + n) (kp_byte k p) gid)
      (drop q skbs, q, e1, res, True) = Some (drop q skbs, q, e1, res @ [], True)"
      by (subst loop_opt.simps) simp
    ultimately show ?thesis
      by (subst loop_opt.simps) (auto simp: drop intro!: exI [of _ "[]"])
  next
    case (Some c)
    note c = copy_of_packet [OF r [unfolded Some] len(2) fits pay]
    obtain s where s: "sys_packet_of c (kp_byte k p) gid q = Some s" "skb_len s = ETHERHEADLEN + (3 + n)"
      "skb_get ETHERHEADLEN s = Some (kp_byte k p)" "skb_get (ETHERHEADLEN + 1) s = Some gid"
      "skb_get (ETHERHEADLEN + 2) s = Some (ucast (push_bit 2 (of_nat q :: u32)))"
      "skb_get 12 s = Some 8" "skb_get 13 s = Some 16"
      "\<And>b. b < n \<Longrightarrow> skb_get (ETHERHEADLEN + (3 + b)) s = Some (orig q b)"
      using sys_packet_of_ok [OF c(1,2,4,3), of "kp_byte k p" gid q] by blast
    have sys: "sys_packet k p n orig q (skb_pull ETHERHEADLEN s)" "mnc_header k p gid s"
      using sys_packet_is [of s n q orig k p, OF s(2,5,8) q k p] s by (simp_all add: mnc_header_def)
    have body: "enqueue_body (ETHERHEADLEN + n) (kp_byte k p) gid (drop q skbs, q, e, res, False) =
        Some (drop (Suc q) skbs, Suc q, e1, res @ [s], False)"
      by (simp add: enqueue_body_def drop len r Some s(1))
    obtain rest j e' new stop where IH:
      "loop_opt (\<lambda>(skbs, j, e, res, stop). skbs \<noteq> [] \<and> \<not> stop) (enqueue_body (ETHERHEADLEN + n) (kp_byte k p) gid)
        (drop (Suc q) skbs, Suc q, e1, res @ [s], False) = Some (rest, j, e', (res @ [s]) @ new, stop)"
      "length new \<le> k - Suc q" "\<forall>i<length new. mnc_header k p gid (new ! i) \<and>
        sys_packet k p n orig (Suc q + i) (skb_pull ETHERHEADLEN (new ! i))"
      "(\<forall>i. env_alloc e1 i) \<longrightarrow> length new = k - Suc q \<and> (\<forall>i. env_alloc e' i)"
      using Suc.hyps(1) [OF d Suc_leI [OF q], of e1 "res @ [s]"] by blast
    have "\<forall>i<length (s # new). mnc_header k p gid ((s # new) ! i) \<and>
        sys_packet k p n orig (q + i) (skb_pull ETHERHEADLEN ((s # new) ! i))"
      using IH(3) sys by (auto simp: less_Suc_eq_0_disj)
    moreover have "env_alloc e1 = (\<lambda>i. env_alloc e (Suc i))"
      using r by (auto simp: skb_copy_def alloc_next_def)
    ultimately show ?thesis
      using IH(1,2,4) body q by (subst loop_opt.simps) (auto simp: drop intro!: exI [of _ "s # new"])
  qed
qed

section \<open>The whole generation\<close>

lemma make_coded_ok:
  assumes gen: "generation k (payload_off src) n orig skbs" and k: "0 < k" "k < 64"
    and n: "n < 2 ^ 31" "even n" and src: "src = tr_get_src par"
    and tail: "skb_data (hd skbs) + skb_len (hd skbs) + (4 * k + 3) \<le> length (skb_buf (hd skbs))"
      "src \<or> ETHERHEADLEN \<le> skb_data (hd skbs)"
  shows "\<exists>e' new. make_coded par coef0 skbs gid count (e, res) = Some (e', res @ new) \<and> length new \<le> count \<and>
    (\<forall>s\<in>set new. mnc_header k 2 gid s \<and> coded_packet k 2 n orig (skb_pull ETHERHEADLEN s)) \<and>
    ((\<forall>i. env_alloc e i) \<longrightarrow> length new = count)"
proof -
  let ?Q = "\<lambda>m (e', res'). \<exists>new. res' = res @ new \<and> length new \<le> m \<and>
    (\<forall>s\<in>set new. mnc_header k 2 gid s \<and> coded_packet k 2 n orig (skb_pull ETHERHEADLEN s)) \<and>
    ((\<forall>i. env_alloc e i) \<longrightarrow> (\<forall>i. env_alloc e' i) \<and> length new = m)"
  have two: "0 < (2::nat)" "(2::nat) < 4" "2 dvd n" "skb_data (hd skbs) + skb_len (hd skbs) + (2 * 2 * k + 3) \<le> length (skb_buf (hd skbs))"
    using n tail by simp_all
  have ne: "skbs \<noteq> []" "length skbs = k" using gen k by (auto simp: generation_def)
  have "\<exists>s'. make_coded par coef0 skbs gid count (e, res) = Some s' \<and> ?Q count s'"
    unfolding make_coded_def
  proof (rule foldo_upt_rule [where P = ?Q], goal_cases)
    case (3 m s)
    obtain e1 res1 where s: "s = (e1, res1)" by fastforce
    obtain new where new: "res1 = res @ new" "length new \<le> m"
      "\<forall>s\<in>set new. mnc_header k 2 gid s \<and> coded_packet k 2 n orig (skb_pull ETHERHEADLEN s)"
      "(\<forall>i. env_alloc e i) \<longrightarrow> (\<forall>i. env_alloc e1 i) \<and> length new = m"
      using 3(3) by (auto simp: s)
    show ?case
    proof (cases "env_alloc e1 0")
      case True
      obtain c e2 where "make_skb_new par coef0 e1 skbs 2 gid = Some (Some c, e2)"
        "env_alloc e2 = (\<lambda>i. env_alloc e1 (Suc i))" "mnc_header k 2 gid c"
        "coded_packet k 2 n orig (skb_pull ETHERHEADLEN c)"
        using make_skb_new_ok [OF gen k two(1-3) n(1) src two(4) tail(2) True, of coef0 gid] by blast
      with new show ?thesis by (auto simp: s MNC_P_def intro!: exI [of _ "new @ [c]"])
    next
      case False
      then have "skb_copy e1 (hd skbs) = (None, alloc_next e1)" by (simp add: skb_copy_def)
      then have "make_skb_new par coef0 e1 skbs 2 gid = Some (None, alloc_next e1)"
        using ne k by (simp add: make_skb_new_def Let_def)
      with new False show ?thesis by (auto simp: s MNC_P_def intro!: exI [of _ new])
    qed
  qed auto
  then show ?thesis by auto
qed

lemma enqueue_skb_original_ok:
  assumes gen: "generation k ETHERHEADLEN n orig skbs" and rm: "roomy skbs" and k: "0 < k" "k < 64" and n: "even n"
  shows "\<exists>new e'. enqueue_skb_original e skbs 2 gid res = Some (res @ new, e') \<and> length new \<le> k \<and>
    (\<forall>i<length new. mnc_header k 2 gid (new ! i) \<and> sys_packet k 2 n orig i (skb_pull ETHERHEADLEN (new ! i))) \<and>
    ((\<forall>i. env_alloc e i) \<longrightarrow> length new = k \<and> (\<forall>i. env_alloc e' i))"
proof -
  have ne: "skbs \<noteq> []" "length skbs = k" "skb_len (hd skbs) = ETHERHEADLEN + n"
    using gen k by (auto simp: generation_def hd_conv_nth)
  have "2 dvd n" using n by simp
  from enqueue_loop [OF gen rm k(2) this, of 0 gid e res] ne k show ?thesis
    by (auto simp: enqueue_skb_original_def)
qed

definition next_eid :: "u8 \<Rightarrow> u8" where
  "next_eid eid = (if eid + 1 = 0 then 1 else eid + 1)"

lemma next_eid_alt: "next_eid eid = (if eid + 1 = 0 then eid + 2 else eid + 1)"
proof -
  have "eid + 2 = (eid + 1) + 1" by simp
  then show ?thesis unfolding next_eid_def by (metis add_0)
qed

lemma mnc_encoding_tx_source:
  assumes gen: "generation k ETHERHEADLEN n orig skbs" and rm: "roomy skbs" and k: "0 < k" "k < 64"
    and n: "n < 2 ^ 31" "even n" and src: "tr_get_src par"
    and tail: "skb_data (hd skbs) + skb_len (hd skbs) + (4 * k + 3) \<le> length (skb_buf (hd skbs))"
  shows "\<exists>res e'. mnc_encoding_tx par coef0 e skbs gid eid = Some (res, next_eid eid, e') \<and>
    (\<forall>s\<in>set res. mnc_header k 2 gid s \<and> packet_ok k 2 n orig (skb_pull ETHERHEADLEN s)) \<and>
    ((\<forall>i. env_alloc e i) \<longrightarrow> length res =
       (if tr_get_sys par then k + (unat (tr_get_data_n par) - unat (tr_get_data_k par)) else unat (tr_get_data_n par)))"
proof -
  have gen': "generation k (payload_off True) n orig skbs" using gen by (simp add: payload_off_def)
  have srcT: "True = tr_get_src par" using src by simp
  note coded = make_coded_ok [OF gen' k n srcT tail, of coef0 gid, simplified]
  show ?thesis
  proof (cases "tr_get_sys par")
    case True
    obtain new e1 where new: "enqueue_skb_original e skbs MNC_P gid [] = Some (new, e1)"
      "\<forall>i<length new. mnc_header k 2 gid (new ! i) \<and> sys_packet k 2 n orig i (skb_pull ETHERHEADLEN (new ! i))"
      "(\<forall>i. env_alloc e i) \<longrightarrow> length new = k \<and> (\<forall>i. env_alloc e1 i)"
      using enqueue_skb_original_ok [OF gen rm k n(2), of e gid "[]"] by (auto simp: MNC_P_def)
    have ok: "\<forall>s\<in>set new. mnc_header k 2 gid s \<and> packet_ok k 2 n orig (skb_pull ETHERHEADLEN s)"
      using new(2) by (metis in_set_conv_nth packet_ok_def)
    obtain new' e2 where c: "make_coded par coef0 skbs gid (unat (tr_get_data_n par) - unat (tr_get_data_k par)) (e1, new) = Some (e2, new @ new')"
      "\<forall>s\<in>set new'. mnc_header k 2 gid s \<and> coded_packet k 2 n orig (skb_pull ETHERHEADLEN s)"
      "(\<forall>i. env_alloc e1 i) \<longrightarrow> length new' = unat (tr_get_data_n par) - unat (tr_get_data_k par)"
      using coded by blast
    show ?thesis
    proof (cases "unat (tr_get_data_k par) < unat (tr_get_data_n par)")
      case more: True
      have "mnc_encoding_tx par coef0 e skbs gid eid = Some (new @ new', next_eid eid, e2)"
        using True more new(1) c(1) src by (simp add: mnc_encoding_tx_def next_eid_alt Let_def)
      with ok c(2,3) new(3) True show ?thesis by (auto simp: packet_ok_def)
    next
      case less: False
      have "mnc_encoding_tx par coef0 e skbs gid eid = Some (new, next_eid eid, e1)"
        using True less new(1) src by (simp add: mnc_encoding_tx_def next_eid_alt Let_def)
      with ok new(3) True less show ?thesis by auto
    qed
  next
    case False
    obtain new' e2 where c: "make_coded par coef0 skbs gid (unat (tr_get_data_n par)) (e, []) = Some (e2, [] @ new')"
      "\<forall>s\<in>set new'. mnc_header k 2 gid s \<and> coded_packet k 2 n orig (skb_pull ETHERHEADLEN s)"
      "(\<forall>i. env_alloc e i) \<longrightarrow> length new' = unat (tr_get_data_n par)"
      using coded by blast
    have "mnc_encoding_tx par coef0 e skbs gid eid = Some (new', next_eid eid, e2)"
      using False c(1) src by (simp add: mnc_encoding_tx_def next_eid_alt Let_def)
    with c False show ?thesis by (auto simp: packet_ok_def)
  qed
qed

section \<open>A queue with packets of different lengths\<close>

lemma combine_stuck:
  assumes "skb_len s \<noteq> len1"
  shows "loop_opt (\<lambda>(skbs, l, coefficient, e, new). skbs \<noteq> []) (combine_body src p h n len1) (s # rest, l, co, e, t) = None"
  by (rule loop_opt_diverges [where I = "\<lambda>x. x = (s # rest, l, co, e, t)"])
     (use assms in \<open>auto simp: combine_body_def\<close>)

lemma combine_mismatch:
  "\<exists>s\<in>set skbs. skb_len s \<noteq> len1 \<Longrightarrow>
   loop_opt (\<lambda>(skbs, l, coefficient, e, new). skbs \<noteq> []) (combine_body src p h n len1) (skbs, l, co, e, t) = None"
proof (induction skbs arbitrary: l co e t)
  case (Cons s rest)
  show ?case
  proof (cases "skb_len s = len1")
    case True
    with Cons.prems have IH: "loop_opt (\<lambda>(skbs, l, coefficient, e, new). skbs \<noteq> [])
        (combine_body src p h n len1) (rest, l', co', e', t') = None" for l' co' e' t'
      by (intro Cons.IH) auto
    have "combine_body src p h n len1 (s # rest, l, co, e, t) = None \<or>
        (\<exists>l' co' e' t'. combine_body src p h n len1 (s # rest, l, co, e, t) = Some (rest, l', co', e', t'))"
      using True by (auto simp: combine_body_def split: bind_splits)
    then show ?thesis by (subst loop_opt.simps) (auto simp: IH)
  qed (rule combine_stuck)
qed simp

section \<open>Properties\<close>

text \<open>C7. Encoding at the source (\<open>tr_get_src\<close>), for a generation of \<open>k\<close> packets, \<open>0 < k < 64\<close>, with payloads of the same even
  length and enough room behind the first: the call always completes, and every packet handed to the driver carries the protocol number,
  the generation id and the size in its header and is well formed for the decoder, systematic or a
  linear combination of the payloads with its coefficients. When memory is available exactly the
  configured number of packets is sent. The next generation id follows, skipping 0. The limits are those of the code, which does not
  test them: the size has six bits in the header, so 64 packets are announced as 0; the payload is coded in pairs of bytes, so with an odd
  length the second byte of the last pair is written behind the end of the packet and never sent. A relay, which encodes only the packets it
  has recovered and announces their number as the size, is not covered.\<close>

theorem mnc_encoding_tx_well_formed:
  assumes "generation k ETHERHEADLEN n orig skbs" and "roomy skbs" and "0 < k" "k < 64"
    and "n < 2 ^ 31" "even n" and "tr_get_src par"
    and "skb_data (hd skbs) + skb_len (hd skbs) + (4 * k + 3) \<le> length (skb_buf (hd skbs))"
  shows "\<exists>res e'. mnc_encoding_tx par coef0 e skbs gid eid = Some (res, next_eid eid, e') \<and>
    (\<forall>s\<in>set res. mnc_header k 2 gid s \<and> packet_ok k 2 n orig (skb_pull ETHERHEADLEN s)) \<and>
    ((\<forall>i. env_alloc e i) \<longrightarrow> length res =
       (if tr_get_sys par then k + (unat (tr_get_data_n par) - unat (tr_get_data_k par)) else unat (tr_get_data_n par)))"
  using assms by (rule mnc_encoding_tx_source)

text \<open>A generation of one packet with the payload \<open>[7, 9]\<close>.\<close>

definition ex_skb :: sk_buff where
  "ex_skb = (blank_skb (replicate 17 0 @ [7, 9] @ replicate 7 0))\<lparr>skb_data := 3, skb_len := 16\<rparr>"

definition ex_env :: env where
  "ex_env = \<lparr>env_rnd = (\<lambda>i. of_nat (i + 1)), env_alloc = (\<lambda>i. True), env_junk = (\<lambda>i. 0)\<rparr>"

definition ex_param :: tr_param where
  "ex_param = tr_set_param True False 1 1 0 0 0 param_init"

lemma ex_generation: "generation 1 ETHERHEADLEN 2 (\<lambda>j b. if b = 0 then 7 else 9) [ex_skb]"
  by (simp add: generation_def ex_skb_def blank_skb_def ETHERHEADLEN_def skb_get_def head_get_def
      nth_append less_Suc_eq numeral_2_eq_2)

lemma ex_facts:
  "roomy [ex_skb]" "tr_get_src ex_param" "\<not> tr_get_sys ex_param" "tr_get_data_n ex_param = 1"
  "skb_data (hd [ex_skb]) + skb_len (hd [ex_skb]) + (4 * 1 + 3) \<le> length (skb_buf (hd [ex_skb]))"
  by (simp_all add: roomy_def ex_skb_def blank_skb_def ex_param_def tr_set_param_def step_simps)

theorem mnc_encoding_tx_well_formed_witness:
  "\<exists>res e'. mnc_encoding_tx ex_param (\<lambda>i j. 0) ex_env [ex_skb] 5 255 = Some (res, 1, e') \<and> length res = 1 \<and>
     list_all (\<lambda>s. packet_ok 1 2 2 (\<lambda>j b. if b = 0 then 7 else 9) (skb_pull ETHERHEADLEN s)) res"
  using mnc_encoding_tx_well_formed [OF ex_generation ex_facts(1) _ _ _ _ ex_facts(2,5), of "\<lambda>i j. 0" ex_env 5 255]
  by (auto simp: ex_facts(3,4) ex_env_def next_eid_def list_all_iff)

text \<open>C3. Encoding at the source followed by decoding, for a generation of \<open>k\<close> packets, \<open>0 < k < 64\<close>, with payloads of the same even
  length (the limits of C7) and enough room: when a receiver has collected \<open>k\<close> of the packets the
  source sent for the generation (their Ethernet header removed) and all its allocations succeed, the decoder either drops dependent
  packets and waits for more, or reproduces exactly the original payloads that had not arrived as
  systematic packets.\<close>

theorem encode_decode_roundtrip:
  assumes "generation k ETHERHEADLEN n orig skbs" and "roomy skbs" and "0 < k" "k < 64"
    and "n < 2 ^ 31" "even n" and "tr_get_src par"
    and "skb_data (hd skbs) + skb_len (hd skbs) + (4 * k + 3) \<le> length (skb_buf (hd skbs))"
    and sent: "mnc_encoding_tx par coef0 e skbs gid eid = Some (res, eid', e')"
    and got: "set q \<subseteq> skb_pull ETHERHEADLEN ` set res" "length q = k" and mem: "\<forall>i. env_alloc e2 i"
  shows "(\<exists>rest. skbs_decoding loc e2 q (kp_byte k 2) = Some (False, rest, [], e2) \<and> length rest < k \<and> set rest \<subseteq> set q) \<or>
    (\<exists>out e3. skbs_decoding loc e2 q (kp_byte k 2) = Some (True, [], out, e3) \<and>
       list_all2 (\<lambda>i s. payload_is n (orig i) s) (filter (\<lambda>i. i \<notin> set (sys_indices q)) [0..<k]) out)"
proof (rule decode_queue)
  show "\<forall>s\<in>set q. packet_ok k 2 n orig s"
    using mnc_encoding_tx_source [OF assms(1-8), of coef0 e gid eid] sent got(1) by auto
qed (use assms kp_byte_k [of k 2] kp_byte_p [of k 2] in auto)

theorem encode_decode_roundtrip_witness:
  "\<exists>res eid' e'. mnc_encoding_tx ex_param (\<lambda>i j. 0) ex_env [ex_skb] 5 5 = Some (res, eid', e') \<and>
    ((\<exists>rest. skbs_decoding junk_locals plenty (map (skb_pull ETHERHEADLEN) res) (kp_byte 1 2) = Some (False, rest, [], plenty) \<and> rest = []) \<or>
     (\<exists>out e3. skbs_decoding junk_locals plenty (map (skb_pull ETHERHEADLEN) res) (kp_byte 1 2) = Some (True, [], out, e3)))"
proof -
  obtain res e' where res: "mnc_encoding_tx ex_param (\<lambda>i j. 0) ex_env [ex_skb] 5 5 = Some (res, next_eid 5, e')" "length res = 1"
    using mnc_encoding_tx_source [OF ex_generation ex_facts(1) _ _ _ _ ex_facts(2,5), of "\<lambda>i j. 0" ex_env 5 5]
    by (auto simp: ex_facts(3,4) ex_env_def)
  show ?thesis
    using encode_decode_roundtrip [OF ex_generation ex_facts(1) _ _ _ _ ex_facts(2,5) res(1),
        of "map (skb_pull ETHERHEADLEN) res" plenty junk_locals] res by (auto simp: plenty_def)
qed

text \<open>A queue that contains a packet of another length than the first is never encoded: once the
  copy is allocated the call does not return, because the loop retries that packet for ever.\<close>

theorem make_skb_new_length_mismatch_hangs:
  assumes "s \<in> set skbs" "skb_len s \<noteq> skb_len (hd skbs)" and "env_alloc e 0"
    and "length skbs < 0x1000000" "p < 0x100"
  shows "make_skb_new par coef0 e skbs p gid = None"
proof -
  have bad: "\<exists>s\<in>set skbs. skb_len s \<noteq> skb_len (hd skbs)" and ne: "skbs \<noteq> []" using assms by auto
  obtain c e1 where c: "skb_copy e (hd skbs) = (Some c, e1)" using assms(3) by (simp add: skb_copy_def)
  show ?thesis
    using assms(4,5) ne
    by (simp add: make_skb_new_def Let_def c combine_mismatch [OF bad] bind_eq_None_conv)
qed

theorem make_skb_new_length_mismatch_hangs_witness:
  "make_skb_new ex_param (\<lambda>i j. 0) ex_env [ex_skb, blank_skb [1]] 2 5 = None"
  by (rule make_skb_new_length_mismatch_hangs [of "blank_skb [1]"])
     (simp_all add: ex_skb_def blank_skb_def ex_env_def)

end
