(* ===== verification/MNC_Node.thy ===== *)
theory MNC_Node
  imports TL_Dst MNC_Encode
begin

text \<open>
  The receive path and the transmit path of a node (\<^verbatim>\<open>decoding_try\<close> and the queue operations in
  \<^verbatim>\<open>mnc_rx.c\<close>; \<^verbatim>\<open>ieee80211_matrix_network_coding\<close> and \<^verbatim>\<open>mnc_tx_timer_func\<close> in \<^verbatim>\<open>mnc_tx.c\<close>), and the
  node as a whole: the parameters, the source and the client part of topology learning, the
  receiver and the sender share one state, and the node moves by packets from the network, packets
  from the application and timers.
\<close>

section \<open>Queues of a generation\<close>

record mnc_queue =
  mq_eid :: u8
  mq_ejiffies :: u64
  mq_kp :: u8
  mq_sys :: bool
  mq_skbs :: "sk_buff list"

definition ETIMEOUT :: u64 where
  "ETIMEOUT = 125"

definition mnc_queue_head_init :: "mnc_queue nlist" where
  "mnc_queue_head_init = []"

definition mnc_queue_create :: "u8 \<Rightarrow> u64 \<Rightarrow> u8 \<Rightarrow> mnc_queue" where
  "mnc_queue_create eid ejiffies kp =
     \<lparr>mq_eid = eid, mq_ejiffies = ejiffies, mq_kp = kp, mq_sys = True, mq_skbs = []\<rparr>"

definition mnc_queue_insert :: "addr \<Rightarrow> mnc_queue \<Rightarrow> mnc_queue nlist \<Rightarrow> mnc_queue nlist" where
  "mnc_queue_insert a mncq l = nl_insert a mncq l"

definition mnc_queue_free :: "addr \<Rightarrow> mnc_queue nlist \<Rightarrow> mnc_queue nlist option" where
  "mnc_queue_free a l = nl_free (Some a) l"

definition mnc_queue_head_find_eid :: "mnc_queue nlist \<Rightarrow> u8 \<Rightarrow> addr option" where
  "mnc_queue_head_find_eid l eid = nl_find (\<lambda>mncq. mq_eid mncq = eid) l"

definition mnc_queue_head_check_etime :: "mnc_queue nlist \<Rightarrow> u64 \<Rightarrow> mnc_queue nlist" where
  "mnc_queue_head_check_etime l cjiffies = nl_sweep (\<lambda>mncq. ETIMEOUT < cjiffies - mq_ejiffies mncq) l"

section \<open>Receiving\<close>

text \<open>What a node hands on: to the network stack (\<open>netif_receive_skb\<close>), to the driver
  (\<open>ieee80211_subif_start_xmit\<close>), to the device queue (\<open>dev_queue_xmit\<close>).\<close>

datatype handoff = Netif_receive sk_buff | Start_xmit net_device sk_buff | Dev_queue_xmit sk_buff

definition ETHERLEN :: nat where
  "ETHERLEN = 14"

definition skb_decoding_sys :: "sk_buff \<Rightarrow> sk_buff option" where
  "skb_decoding_sys skb =
     (let mh = skb_mac_header skb; mh_pos = int mh - int (skb_data skb) in
      do {
        skb \<leftarrow> foldo (\<lambda>i skb. do { b \<leftarrow> head_get (mh + ETHERLEN - 1 - i) skb; head_set (mh + ETHERLEN - 1 + 3 - i) b skb })
                 [0..<ETHERLEN] skb;
        Some (skb_pull 3 (skb_set_mac_header (mh_pos + 3) skb))
      })"

record rx_state =
  rx_list :: "mnc_queue nlist"
  rx_init :: bool
  rx_last_did :: "u8 list"

definition rx_start :: rx_state where
  "rx_start = \<lparr>rx_list = [], rx_init = False, rx_last_did = [0, 0, 0]\<rparr>"

definition note_did :: "u8 \<Rightarrow> rx_state \<Rightarrow> rx_state" where
  "note_did eid s = s\<lparr>rx_last_did := [eid, rx_last_did s ! 0, rx_last_did s ! 1]\<rparr>"

text \<open>A queue that holds \<open>k\<close> packets: released when all are systematic, decoded otherwise; a relay
  sends the recovered packets on.\<close>

definition queue_full ::
  "decode_locals \<Rightarrow> matrix \<Rightarrow> tr_param \<Rightarrow> env \<Rightarrow> net_device \<Rightarrow> u8 \<Rightarrow> addr \<Rightarrow> rx_state \<Rightarrow> (rx_state \<times> handoff list \<times> env) option" where
  "queue_full loc coef0 par e rdev gid a s =
     do {
       mncq \<leftarrow> nl_read a (rx_list s);
       if mq_sys mncq then
         do {
           l \<leftarrow> mnc_queue_free a (rx_list s);
           Some (note_did gid (s\<lparr>rx_list := l\<rparr>), [], e)
         }
       else
         do {
           (ok, rest, newskbs, e) \<leftarrow> skbs_decoding loc e (mq_skbs mncq) (mq_kp mncq);
           l \<leftarrow> nl_modify a (mq_skbs_update (\<lambda>_. rest)) (rx_list s);
           if ok then
             do {
               (sent, e) \<leftarrow>
                 (if 0 < tr_get_data_n par \<and> \<not> tr_get_src par then
                    do {
                      (sent, _, e) \<leftarrow> mnc_encoding_tx par coef0 e newskbs gid 0;
                      Some (map (Start_xmit rdev) sent, e)
                    }
                  else Some ([], e));
               l \<leftarrow> mnc_queue_free a l;
               Some (note_did gid (s\<lparr>rx_list := l\<rparr>), sent @ map Netif_receive newskbs, e)
             }
           else Some (s\<lparr>rx_list := l\<rparr>, [], e)
         }
     }"

text \<open>The steps of handling a packet of a generation: the header is rewritten to an IP packet, the
  queue of the generation is found or created, and a systematic packet is delivered and copied.\<close>

definition retype_skb :: "sk_buff \<Rightarrow> sk_buff option" where
  "retype_skb skb =
     do {
       skb \<leftarrow> head_set (skb_mac_header skb + 12) 0x08 skb;
       skb \<leftarrow> head_set (skb_mac_header skb + 13) 0x00 skb;
       Some (skb\<lparr>skb_protocol := 0x0008\<rparr>)
     }"

definition find_queue :: "kmalloc \<Rightarrow> u8 \<Rightarrow> u64 \<Rightarrow> u8 \<Rightarrow> mnc_queue nlist \<Rightarrow> (addr \<times> mnc_queue nlist) option" where
  "find_queue km gid cjiffies kp l =
     (case mnc_queue_head_find_eid l gid of
        None \<Rightarrow>
          do {
            a \<leftarrow> km (nl_addrs l);
            Some (a, mnc_queue_insert a (mnc_queue_create gid cjiffies kp) l)
          }
      | Some a \<Rightarrow> Some (a, l))"

definition deliver_sys ::
  "addr \<Rightarrow> u8 \<Rightarrow> env \<Rightarrow> sk_buff \<Rightarrow> mnc_queue nlist \<Rightarrow> (sk_buff option \<times> handoff list \<times> mnc_queue nlist \<times> env) option" where
  "deliver_sys a m e skb l =
     (if m \<noteq> 0x3f then
        (let (skb_temp, e) = skb_copy e skb in
         do {
           skb \<leftarrow> skb_decoding_sys skb;
           Some (skb_temp, [Netif_receive skb], l, e)
         })
      else
        do {
          l \<leftarrow> nl_modify a (mq_sys_update (\<lambda>_. False)) l;
          Some (Some skb, [], l, e)
        })"

text \<open>A packet of a generation. \<open>r\<close> is \<open>NULL\<close> when the copy of a systematic packet fails, and
  the queue operation that follows uses it.\<close>

definition receive_coded ::
  "kmalloc \<Rightarrow> decode_locals \<Rightarrow> matrix \<Rightarrow> tr_param \<Rightarrow> u64 \<Rightarrow> env \<Rightarrow> sk_buff \<Rightarrow> rx_state \<Rightarrow>
   (rx_state \<times> handoff list \<times> env) option" where
  "receive_coded km loc coef0 par cjiffies e skb s =
     do {
       skb \<leftarrow> retype_skb skb;
       let s = (if rx_init s then s else s\<lparr>rx_list := mnc_queue_head_init, rx_init := True\<rparr>);
       gid \<leftarrow> skb_get 1 skb;
       kp \<leftarrow> skb_get 0 skb;
       b \<leftarrow> skb_get 2 skb;
       let s = s\<lparr>rx_list := mnc_queue_head_check_etime (rx_list s) cjiffies\<rparr>;
       if gid \<in> set (rx_last_did s) then Some (s, [], e)
       else do {
         (a, l) \<leftarrow> find_queue km gid cjiffies kp (rx_list s);
         mncq \<leftarrow> nl_read a l;
         if kp \<noteq> mq_kp mncq then Some (s\<lparr>rx_list := l\<rparr>, [], e)
         else do {
           (r, out, l, e) \<leftarrow> deliver_sys a (drop_bit 2 b) e skb l;
           skb \<leftarrow> r;
           l \<leftarrow> nl_modify a (mq_skbs_update (\<lambda>q. q @ [skb])) l;
           mncq \<leftarrow> nl_read a l;
           if length (mq_skbs mncq) = unat (drop_bit 2 kp) then
             do {
               (s, out', e) \<leftarrow> queue_full loc coef0 par e (skb_dev skb) gid a (s\<lparr>rx_list := l\<rparr>);
               Some (s, out @ out', e)
             }
           else Some (s\<lparr>rx_list := l\<rparr>, out, e)
         }
       }
     }"

section \<open>Sending\<close>

record tx_state =
  tx_skbs_original :: "sk_buff list"
  tx_eid :: u8
  tx_timer :: bool
  tx_dev_prev :: net_device
  tx_init :: bool

definition tx_start :: tx_state where
  "tx_start = \<lparr>tx_skbs_original = [], tx_eid = 1, tx_timer = False, tx_dev_prev = \<lparr>dev_addr = []\<rparr>, tx_init = False\<rparr>"

text \<open>Encode what is queued and empty the queue.\<close>

definition send_generation ::
  "matrix \<Rightarrow> tr_param \<Rightarrow> env \<Rightarrow> net_device \<Rightarrow> tx_state \<Rightarrow> (tx_state \<times> handoff list \<times> env) option" where
  "send_generation coef0 par e dev s =
     do {
       (sent, eid, e) \<leftarrow> mnc_encoding_tx par coef0 e (tx_skbs_original s) (tx_eid s) (tx_eid s);
       Some (s\<lparr>tx_eid := eid, tx_skbs_original := []\<rparr>, map (Start_xmit dev) sent, e)
     }"

definition mnc_tx_timer_func ::
  "matrix \<Rightarrow> tr_param \<Rightarrow> env \<Rightarrow> tx_state \<Rightarrow> (tx_state \<times> handoff list \<times> env) option" where
  "mnc_tx_timer_func coef0 par e s = send_generation coef0 par e (tx_dev_prev s) s"

definition queue_original ::
  "matrix \<Rightarrow> tr_param \<Rightarrow> env \<Rightarrow> sk_buff \<Rightarrow> net_device \<Rightarrow> tx_state \<Rightarrow> (tx_state \<times> handoff list \<times> env) option" where
  "queue_original coef0 par e skb dev s =
     (let s = (if tx_init s then s else s\<lparr>tx_skbs_original := [], tx_timer := False, tx_init := True\<rparr>);
          s = s\<lparr>tx_dev_prev := dev, tx_skbs_original := tx_skbs_original s @ [skb]\<rparr>
      in if length (tx_skbs_original s) = unat (tr_get_data_k par)
         then send_generation coef0 par e dev (s\<lparr>tx_timer := False\<rparr>)
         else Some (s\<lparr>tx_timer := True\<rparr>, [], e))"

section \<open>The node\<close>

record node =
  nd_par :: tr_param
  nd_src :: src_state
  nd_dst :: dst_state
  nd_rx :: rx_state
  nd_tx :: tx_state

definition node_init :: node where
  "node_init = \<lparr>nd_par = param_init, nd_src = src_init, nd_dst = dst_init, nd_rx = rx_start, nd_tx = tx_start\<rparr>"

text \<open>Everything a packet of the network causes.\<close>

definition decoding_try ::
  "kmalloc \<Rightarrow> decode_locals \<Rightarrow> matrix \<Rightarrow> u64 \<Rightarrow> env \<Rightarrow> sk_buff \<Rightarrow> node \<Rightarrow> (node \<times> handoff list \<times> env) option" where
  "decoding_try km loc coef0 jiffies e skb n =
     do {
       b12 \<leftarrow> head_get (skb_mac_header skb + 12) skb;
       b13 \<leftarrow> head_get (skb_mac_header skb + 13) skb;
       let ethertype = (push_bit 8 (ucast b12) OR ucast b13 :: u16);
       if ethertype \<noteq> 0x0810 \<and> ethertype \<noteq> 0x0811 then Some (n, [Netif_receive skb], e)
       else if ethertype = 0x0811 then
         (if tr_get_src (nd_par n) then
            do {
              (src, out, e) \<leftarrow> tl_receive_skb_src km (nd_par n) e skb (nd_src n);
              Some (n\<lparr>nd_src := src\<rparr>, map Dev_queue_xmit out, e)
            }
          else
            do {
              (par, dst, out, e) \<leftarrow> tl_receive_skb_dst km (nd_par n) e skb (nd_dst n);
              Some (n\<lparr>nd_par := par, nd_dst := dst\<rparr>, map Dev_queue_xmit out, e)
            })
       else
         do {
           (rx, out, e) \<leftarrow> receive_coded km loc coef0 (nd_par n) jiffies e skb (nd_rx n);
           Some (n\<lparr>nd_rx := rx\<rparr>, out, e)
         }
     }"

text \<open>Everything a packet of the application causes.\<close>

definition ieee80211_matrix_network_coding ::
  "matrix \<Rightarrow> env \<Rightarrow> sk_buff \<Rightarrow> net_device \<Rightarrow> node \<Rightarrow> (node \<times> handoff list \<times> env) option" where
  "ieee80211_matrix_network_coding coef0 e skb dev n =
     do {
       b2 \<leftarrow> head_get (skb_transport_header skb + 2) skb;
       b3 \<leftarrow> head_get (skb_transport_header skb + 3) skb;
       let portnum = (push_bit 8 (ucast b2) OR ucast b3 :: u32);
       if portnum \<noteq> 5555 \<and> portnum \<noteq> 5550 then Some (n, [Start_xmit dev skb], e)
       else if portnum = 5550 then
         do {
           (started, par, src, out, e) \<leftarrow> tl_start_check (nd_par n) e skb (nd_src n);
           Some (n\<lparr>nd_par := par, nd_src := src\<rparr>, map Dev_queue_xmit out @ (if started then [] else [Start_xmit dev skb]), e)
         }
       else
         do {
           (tx, out, e) \<leftarrow> queue_original coef0 (nd_par n) e skb dev (nd_tx n);
           Some (n\<lparr>nd_tx := tx\<rparr>, out, e)
         }
     }"

section \<open>Generations\<close>

record generation_info =
  g_kp :: u8
  g_len :: nat
  g_orig :: "nat \<Rightarrow> vector"

definition g_k :: "generation_info \<Rightarrow> nat" where
  "g_k g = unat (drop_bit 2 (g_kp g))"

definition g_p :: "generation_info \<Rightarrow> nat" where
  "g_p g = unat (g_kp g AND 3)"

definition g_ok :: "generation_info \<Rightarrow> bool" where
  "g_ok g \<longleftrightarrow> 0 < g_k g \<and> 0 < g_p g \<and> g_p g dvd g_len g \<and> g_len g < 2 ^ 32"

definition member_of :: "generation_info \<Rightarrow> sk_buff \<Rightarrow> bool" where
  "member_of g s \<longleftrightarrow> packet_ok (g_k g) (g_p g) (g_len g) (g_orig g) s"

text \<open>A packet as the driver hands it over: the Ethernet header lies in front of \<open>data\<close>.\<close>

definition arrives :: "(u8 \<Rightarrow> generation_info) \<Rightarrow> u8 \<Rightarrow> sk_buff \<Rightarrow> bool" where
  "arrives gen gid s \<longleftrightarrow> skb_get 1 s = Some gid \<and> skb_get 0 s = Some (g_kp (gen gid)) \<and> g_ok (gen gid) \<and>
     member_of (gen gid) s \<and> skb_data s = skb_mac_header s + ETHERLEN \<and> skb_data s + skb_len s \<le> length (skb_buf s)"

definition queue_good :: "(u8 \<Rightarrow> generation_info) \<Rightarrow> mnc_queue \<Rightarrow> bool" where
  "queue_good gen q \<longleftrightarrow> (let g = gen (mq_eid q) in
     mq_kp q = g_kp g \<and> g_ok g \<and> length (mq_skbs q) < g_k g \<and> (\<forall>s\<in>set (mq_skbs q). member_of g s))"

definition list_good :: "(u8 \<Rightarrow> generation_info) \<Rightarrow> mnc_queue nlist \<Rightarrow> bool" where
  "list_good gen l \<longleftrightarrow> nl_ok l \<and> distinct (map (mq_eid \<circ> snd) l) \<and> (\<forall>x\<in>set l. queue_good gen (snd x))"

definition rx_good :: "(u8 \<Rightarrow> generation_info) \<Rightarrow> rx_state \<Rightarrow> bool" where
  "rx_good gen s \<longleftrightarrow> list_good gen (rx_list s) \<and> length (rx_last_did s) = 3"

text \<open>What a receiver hands to the network stack for a generation.\<close>

definition delivers :: "generation_info \<Rightarrow> handoff \<Rightarrow> bool" where
  "delivers g out \<longleftrightarrow> (\<exists>t j. out = Netif_receive t \<and> j < g_k g \<and> payload_is (g_len g) (g_orig g j) t)"

section \<open>Bytes of a packet\<close>

lemma head_set_Some:
  assumes "pos < length (skb_buf s)"
  shows "head_set pos v s = Some (s\<lparr>skb_buf := (skb_buf s)[pos := v]\<rparr>)"
  using assms by (simp add: head_set_def)

lemma block_in_payload:
  assumes "i \<in> set (block_starts p n)" "m < p" "p dvd n"
  shows "i + m < n"
  using assms dvd_next [of p i n] by auto

lemma coef_in_header:
  assumes "m < p" "c < k * p"
  shows "coef_at p m c < 3 + p * p * k"
proof -
  have "c div p < k" "c mod p < p" using assms by (simp_all add: less_mult_imp_div_less)
  have "m * p + c mod p < m * p + p" using \<open>c mod p < p\<close> by simp
  also have "m * p + p \<le> p * p" using assms(1) mult_le_mono1 [of "m + 1" p p] by simp
  finally have "coef_at p m c < 3 + (c div p) * (p * p) + p * p" by (simp add: coef_at_def mult.assoc)
  also have "\<dots> \<le> 3 + k * (p * p)" using mult_le_mono1 [of "c div p + 1" k "p * p"] \<open>c div p < k\<close> by simp
  finally show ?thesis by (simp add: algebra_simps)
qed

text \<open>Membership depends only on the length and the bytes of the packet itself.\<close>

lemma member_of_cong:
  assumes "member_of g s" "g_ok g" "skb_len t = skb_len s" "\<And>b. b < skb_len s \<Longrightarrow> skb_get b t = skb_get b s"
  shows "member_of g t"
proof -
  let ?k = "g_k g" and ?p = "g_p g" and ?n = "g_len g"
  have dvd: "?p dvd ?n" "0 < ?k" "0 < ?p" using assms(2) by (simp_all add: g_ok_def)
  have 2: "skb_get 2 t = skb_get 2 s" if "3 \<le> skb_len s" using assms(4) that by simp
  from assms(1) consider (sys) j where "sys_packet ?k ?p ?n (g_orig g) j s" | (coded) "coded_packet ?k ?p ?n (g_orig g) s"
    by (auto simp: member_of_def packet_ok_def)
  then show ?thesis
  proof cases
    case sys
    then have len: "skb_len s = 3 + ?n" by (simp add: sys_packet_def)
    have "skb_get (3 + i + m) t = skb_get (3 + i + m) s" if "i \<in> set (block_starts ?p ?n)" "m < ?p" for i m
      using block_in_payload [OF that dvd(1)] len by (intro assms(4)) simp
    with sys 2 len assms(3) have "sys_packet ?k ?p ?n (g_orig g) j t" by (simp add: sys_packet_def mindex_def)
    then show ?thesis by (auto simp: member_of_def packet_ok_def)
  next
    case coded
    then have len: "skb_len s = 3 + ?p * ?p * ?k + ?n" by (simp add: coded_packet_def)
    have body: "skb_get (3 + ?p * ?p * ?k + i + m) t = skb_get (3 + ?p * ?p * ?k + i + m) s"
      if "i \<in> set (block_starts ?p ?n)" "m < ?p" for i m
      using block_in_payload [OF that dvd(1)] len by (intro assms(4)) simp
    have hd: "skb_get (coef_at ?p m c) t = skb_get (coef_at ?p m c) s" if "m < ?p" "c < ?k * ?p" for m c
      using coef_in_header [OF that] len by (intro assms(4)) simp
    have sums: "(\<Sum>c<?k * ?p. gf_of (the (skb_get (coef_at ?p m c) t)) * f c) =
        (\<Sum>c<?k * ?p. gf_of (the (skb_get (coef_at ?p m c) s)) * f c)" if "m < ?p" for m f
      using hd [OF that] by (intro sum.cong) auto
    have "coded_packet ?k ?p ?n (g_orig g) t"
      using coded 2 len assms(3) body hd unfolding coded_packet_def mindex_def by (simp add: sums)
    then show ?thesis by (auto simp: member_of_def packet_ok_def)
  qed
qed

lemma skb_copy_bytes:
  assumes "skb_copy e s = (Some t, e')" "b < skb_len s" "skb_data s + skb_len s \<le> length (skb_buf s)"
  shows "skb_get b t = skb_get b s"
  using assms by (auto simp: skb_copy_def skb_get_def head_get_def split: if_splits)

lemma skb_copy_fields:
  "skb_copy e s = (Some t, e') \<Longrightarrow> skb_len t = skb_len s \<and> skb_data t = skb_data s \<and> skb_dev t = skb_dev s"
  by (auto simp: skb_copy_def split: if_splits)

section \<open>Systematic packets\<close>

lemma move_up:
  assumes "m \<le> n" "mh + n + 3 \<le> length (skb_buf s)"
  shows "\<exists>t. foldo (\<lambda>i skb. do { b \<leftarrow> head_get (mh + n - 1 - i) skb; head_set (mh + n - 1 + 3 - i) b skb }) [0..<m] s = Some t \<and>
    t = s\<lparr>skb_buf := skb_buf t\<rparr> \<and> length (skb_buf t) = length (skb_buf s) \<and>
    (\<forall>x<length (skb_buf s). skb_buf t ! x = (if mh + n + 3 - m \<le> x \<and> x < mh + n + 3 then skb_buf s ! (x - 3) else skb_buf s ! x))"
proof (rule foldo_upt_rule [where P = "\<lambda>m t. t = s\<lparr>skb_buf := skb_buf t\<rparr> \<and> length (skb_buf t) = length (skb_buf s) \<and>
    (\<forall>x<length (skb_buf s). skb_buf t ! x = (if mh + n + 3 - m \<le> x \<and> x < mh + n + 3 then skb_buf s ! (x - 3) else skb_buf s ! x))"], goal_cases)
  case (3 i t)
  then have i: "i < n" using assms(1) by simp
  let ?b = "mh + n - 1 - i" and ?d = "mh + n - 1 + 3 - i"
  have b: "skb_buf t ! ?b = skb_buf s ! ?b" "?b < length (skb_buf s)" "?d < length (skb_buf s)" "?d - 3 = ?b"
    using 3 i assms(2) by auto
  let ?t = "t\<lparr>skb_buf := (skb_buf t)[?d := skb_buf s ! ?b]\<rparr>"
  have step: "do { b \<leftarrow> head_get ?b t; head_set ?d b t } = Some ?t"
    using b 3 by (simp add: head_get_def head_set_def)
  have "skb_buf ?t ! x = (if mh + n + 3 - Suc i \<le> x \<and> x < mh + n + 3 then skb_buf s ! (x - 3) else skb_buf s ! x)"
    if "x < length (skb_buf s)" for x
  proof (cases "x = ?d")
    case True
    then show ?thesis using b 3 i by simp
  next
    case False
    then have "mh + n + 3 - Suc i \<le> x \<longleftrightarrow> mh + n + 3 - i \<le> x" using i by arith
    with False that 3 show ?thesis by simp
  qed
  moreover have "?t = s\<lparr>skb_buf := skb_buf ?t\<rparr>" using 3 by (metis (no_types, lifting) sk_buff.select_convs(1) sk_buff.surjective sk_buff.update_convs(1))
  ultimately show ?case using step 3 by (intro exI [of _ ?t]) simp
qed (use assms in auto)

lemma decoding_sys_payload:
  assumes "skb_data s = skb_mac_header s + ETHERLEN" "skb_data s + skb_len s \<le> length (skb_buf s)" "3 \<le> skb_len s"
  shows "\<exists>t. skb_decoding_sys s = Some t \<and> skb_len t = skb_len s - 3 \<and> skb_mac_header t + ETHERLEN = skb_data t \<and>
    (\<forall>b < skb_len t. skb_get b t = skb_get (3 + b) s) \<and> (\<forall>b<ETHERLEN. head_get (skb_mac_header t + b) t = head_get (skb_mac_header s + b) s)"
proof -
  let ?mh = "skb_mac_header s"
  have "?mh + ETHERLEN + 3 \<le> length (skb_buf s)" using assms by (simp add: ETHERLEN_def)
  from move_up [OF order_refl this] obtain u where
    u: "foldo (\<lambda>i skb. do { b \<leftarrow> head_get (?mh + ETHERLEN - 1 - i) skb; head_set (?mh + ETHERLEN - 1 + 3 - i) b skb }) [0..<ETHERLEN] s = Some u"
    "u = s\<lparr>skb_buf := skb_buf u\<rparr>" "length (skb_buf u) = length (skb_buf s)"
    "\<And>x. x < length (skb_buf s) \<Longrightarrow> skb_buf u ! x =
       (if ?mh + ETHERLEN + 3 - ETHERLEN \<le> x \<and> x < ?mh + ETHERLEN + 3 then skb_buf s ! (x - 3) else skb_buf s ! x)"
    by blast
  have f: "skb_data u = skb_data s" "skb_len u = skb_len s" "skb_mac_header u = ?mh" by (subst u(2), simp)+
  let ?t = "skb_pull 3 (skb_set_mac_header (int ?mh - int (skb_data s) + 3) u)"
  have t: "skb_len ?t = skb_len s - 3" "skb_mac_header ?t = ?mh + 3" "skb_data ?t = skb_data s + 3" "skb_buf ?t = skb_buf u"
    using assms(3) f by (simp_all add: skb_pull_def skb_set_mac_header_def)
  have "skb_decoding_sys s = Some ?t" using u(1) by (simp add: skb_decoding_sys_def Let_def)
  moreover have "skb_get b ?t = skb_get (3 + b) s" if "b < skb_len ?t" for b
    using that t u(3) u(4) [of "skb_data s + 3 + b"] assms by (simp add: skb_get_def head_get_def algebra_simps)
  moreover have "head_get (skb_mac_header ?t + b) ?t = head_get (?mh + b) s" if "b < ETHERLEN" for b
    using that t u(3) u(4) [of "?mh + 3 + b"] assms by (simp add: head_get_def algebra_simps)
  ultimately show ?thesis using t assms(1) by auto
qed

section \<open>One packet at a receiver\<close>

lemma list_good_sweep: "list_good gen l \<Longrightarrow> list_good gen (nl_sweep P l)"
  by (auto simp: list_good_def nl_sweep_def intro: distinct_map_filter)

lemma list_good_remove: "list_good gen (xs @ (a, q) # ys) \<Longrightarrow> list_good gen (xs @ ys)"
  by (auto simp: list_good_def nl_ok_def)

lemma list_good_replace:
  "list_good gen (xs @ (a, q) # ys) \<Longrightarrow> mq_eid q' = mq_eid q \<Longrightarrow> queue_good gen q' \<Longrightarrow> list_good gen (xs @ (a, q') # ys)"
  by (auto simp: list_good_def nl_ok_def)

lemma note_did_length [simp]: "length (rx_last_did (note_did gid s)) = 3"
  by (simp add: note_did_def)

lemma note_did_list [simp]: "rx_list (note_did gid s) = rx_list s"
  by (simp add: note_did_def)

lemma head_get_set:
  "head_set x v s = Some s' \<Longrightarrow> head_get y s' = (if y = x then Some v else head_get y s)"
  by (auto simp: head_set_def head_get_def split: if_splits)

lemma list_all2_right: "list_all2 R xs ys \<Longrightarrow> y \<in> set ys \<Longrightarrow> \<exists>x\<in>set xs. R x y"
  by (induction rule: list_all2_induct) auto

text \<open>A full queue.\<close>

lemma queue_full_good:
  assumes l: "rx_list s = xs @ (a, q) # ys" "nl_ok (rx_list s)" "list_good gen (xs @ ys)"
    "distinct (map (mq_eid \<circ> snd) (rx_list s))"
    and q: "mq_eid q = gid" "mq_kp q = g_kp (gen gid)" "g_ok (gen gid)" "length (mq_skbs q) = g_k (gen gid)"
      "\<forall>t\<in>set (mq_skbs q). member_of (gen gid) t"
    and did: "length (rx_last_did s) = 3" and mem: "\<forall>i. env_alloc e i" and leaf: "tr_get_data_n par = 0 \<or> tr_get_src par"
  shows "\<exists>s' out e'. queue_full loc coef0 par e rdev gid a s = Some (s', out, e') \<and> rx_good gen s' \<and>
    (\<forall>x\<in>set out. delivers (gen gid) x)"
proof -
  let ?g = "gen gid"
  have ok: "nl_ok (xs @ (a, q) # ys)" using l(1,2) by simp
  have free: "mnc_queue_free a (xs @ (a, q') # ys) = Some (xs @ ys)" for q'
    using nl_free_split [of xs a q' ys] ok by (simp add: mnc_queue_free_def nl_ok_def)
  show ?thesis
  proof (cases "mq_sys q")
    case True
    then show ?thesis
      using l nl_read_split [OF ok] free did by (simp add: queue_full_def rx_good_def)
  next
    case False
    have "(\<exists>rest. skbs_decoding loc e (mq_skbs q) (mq_kp q) = Some (False, rest, [], e) \<and> length rest < g_k ?g \<and> set rest \<subseteq> set (mq_skbs q)) \<or>
      (\<exists>out e'. skbs_decoding loc e (mq_skbs q) (mq_kp q) = Some (True, [], out, e') \<and>
       list_all2 (\<lambda>i s. payload_is (g_len ?g) (g_orig ?g i) s) (filter (\<lambda>i. i \<notin> set (sys_indices (mq_skbs q))) [0..<g_k ?g]) out)"
      using q mem by (intro decode_queue [where p = "g_p ?g"]) (auto simp: member_of_def g_ok_def g_k_def g_p_def)
    then show ?thesis
    proof (elim disjE exE conjE)
      fix rest
      assume r: "skbs_decoding loc e (mq_skbs q) (mq_kp q) = Some (False, rest, [], e)" "length rest < g_k ?g" "set rest \<subseteq> set (mq_skbs q)"
      have "queue_good gen (mq_skbs_update (\<lambda>_. rest) q)" using q r by (auto simp: queue_good_def)
      then have "list_good gen (xs @ (a, mq_skbs_update (\<lambda>_. rest) q) # ys)"
        using l ok by (auto simp: list_good_def nl_ok_def)
      with False r(1) l nl_read_split [OF ok] nl_modify_split [OF ok] did show ?thesis
        by (simp add: queue_full_def rx_good_def)
    next
      fix out e'
      assume r: "skbs_decoding loc e (mq_skbs q) (mq_kp q) = Some (True, [], out, e')"
        "list_all2 (\<lambda>i s. payload_is (g_len ?g) (g_orig ?g i) s) (filter (\<lambda>i. i \<notin> set (sys_indices (mq_skbs q))) [0..<g_k ?g]) out"
      have "\<forall>x\<in>set (map Netif_receive out). delivers ?g x"
        using list_all2_right [OF r(2)] by (fastforce simp: delivers_def)
      with False r(1) l nl_read_split [OF ok] nl_modify_split [OF ok] free did leaf show ?thesis
        by (auto simp: queue_full_def rx_good_def)
    qed
  qed
qed


text \<open>The packet as it is queued and handed on after the header fields were rewritten.\<close>

lemma retyped:
  assumes "arrives gen gid skb"
  obtains t where "retype_skb skb = Some t" "arrives gen gid t"
proof -
  let ?mh = "skb_mac_header skb"
  have data: "skb_data skb = ?mh + 14" and len: "skb_data skb + skb_len skb \<le> length (skb_buf skb)"
    and g: "g_ok (gen gid)" and mem: "member_of (gen gid) skb" and b: "skb_get 1 skb = Some gid" "skb_get 0 skb = Some (g_kp (gen gid))"
    using assms by (simp_all add: arrives_def ETHERLEN_def)
  define t where "t = skb\<lparr>skb_buf := (skb_buf skb)[?mh + 12 := 0x08, ?mh + 13 := 0], skb_protocol := 0x0008\<rparr>"
  have "retype_skb skb = Some t"
    using b data by (auto simp: retype_skb_def head_set_def t_def skb_get_def head_get_def split: if_splits)
  moreover have get: "skb_get j t = skb_get j skb" for j
    using data by (simp add: skb_get_def head_get_def t_def)
  have "member_of (gen gid) t"
    by (rule member_of_cong [OF mem g]) (simp_all add: get, simp add: t_def)
  then have "arrives gen gid t"
    using g b data len unfolding arrives_def get by (simp add: t_def ETHERLEN_def)
  ultimately show thesis using that by blast
qed

lemma retyped_bytes:
  assumes "arrives gen gid skb" "retype_skb skb = Some t"
  shows "skb_get j t = skb_get j skb"
  using assms by (auto simp: retype_skb_def head_set_def skb_get_def head_get_def arrives_def ETHERLEN_def split: if_splits)

lemma sys_index:
  assumes "arrives gen gid skb" "mindex skb = Some j" "j \<noteq> 0x3f"
  shows "sys_packet (g_k (gen gid)) (g_p (gen gid)) (g_len (gen gid)) (g_orig (gen gid)) j skb" "j < g_k (gen gid)"
  using assms by (auto simp: arrives_def member_of_def packet_ok_def coded_packet_def sys_packet_def)

lemma sys_payload:
  assumes "arrives gen gid skb" "mindex skb = Some j" "j \<noteq> 0x3f"
  shows "\<exists>t. skb_decoding_sys skb = Some t \<and> payload_is (g_len (gen gid)) (g_orig (gen gid) j) t"
proof -
  let ?g = "gen gid"
  note sys = sys_index(1) [OF assms]
  have g: "g_p ?g dvd g_len ?g" "0 < g_p ?g" using assms(1) by (simp_all add: arrives_def g_ok_def)
  have len: "skb_len skb = 3 + g_len ?g" "j < g_k ?g" using sys by (simp_all add: sys_packet_def)
  obtain t where t: "skb_decoding_sys skb = Some t" "skb_len t = skb_len skb - 3" "\<And>b. b < skb_len t \<Longrightarrow> skb_get b t = skb_get (3 + b) skb"
    using decoding_sys_payload [of skb] assms(1) len by (auto simp: arrives_def)
  have "skb_get (3 + x) skb = Some (g_orig ?g j x)" if "x < g_len ?g" for x
  proof -
    let ?i = "x div g_p ?g * g_p ?g"
    have "?i \<in> set (block_starts (g_p ?g) (g_len ?g))" using that by (simp add: le_less_trans [OF div_times_less_eq_dividend])
    moreover have "x mod g_p ?g < g_p ?g" using g by simp
    ultimately have "skb_get (3 + ?i + x mod g_p ?g) skb = Some (g_orig ?g j (?i + x mod g_p ?g))"
      using sys unfolding sys_packet_def by blast
    then show ?thesis by (simp add: add.assoc)
  qed
  then have "payload_is (g_len ?g) (g_orig ?g j) t" using t len by (simp add: payload_is_def)
  with t(1) show ?thesis by blast
qed

lemma sys_delivers:
  assumes "arrives gen gid skb" "skb_get 2 skb = Some b" "drop_bit 2 b \<noteq> 0x3f"
  shows "\<exists>t. skb_decoding_sys skb = Some t \<and> delivers (gen gid) (Netif_receive t)"
proof -
  have m: "mindex skb = Some (unat (drop_bit 2 b))" using assms(2) by (simp add: mindex_def)
  have "unat (drop_bit 2 b) \<noteq> 0x3f" using assms(3) word_unat_eq_iff [of "drop_bit 2 b" "0x3f"] by simp
  with sys_payload [OF assms(1) m] sys_index(2) [OF assms(1) m] show ?thesis by (auto simp: delivers_def)
qed

lemma lookup_queue:
  assumes good: "list_good gen l" and km: "kmalloc_fresh km" "kmalloc_total km" and g: "g_ok (gen gid)"
  shows "\<exists>a xs q ys. find_queue km gid cj (g_kp (gen gid)) l = Some (a, xs @ (a, q) # ys) \<and> list_good gen (xs @ (a, q) # ys) \<and> mq_eid q = gid \<and>
    (if mnc_queue_head_find_eid l gid = None then q = mnc_queue_create gid cj (g_kp (gen gid)) else (a, q) \<in> set l)"
proof (cases "mnc_queue_head_find_eid l gid")
  case None
  obtain a where a: "km (nl_addrs l) = Some a" using km(2) by (auto simp: kmalloc_total_def)
  then have fresh: "a \<notin> set (nl_addrs l)" using km(1) by (simp add: kmalloc_fresh_def)
  let ?q = "mnc_queue_create gid cj (g_kp (gen gid))"
  have q: "queue_good gen ?q" "mq_eid ?q = gid" using g by (simp_all add: queue_good_def mnc_queue_create_def g_ok_def)
  have absent: "gid \<notin> set (map (mq_eid \<circ> snd) l)" using None by (auto simp: mnc_queue_head_find_eid_def nl_find_None)
  have "list_good gen (l @ (a, ?q) # [])"
    using good fresh q absent by (auto simp: list_good_def nl_ok_def)
  with None a q(2) show ?thesis
    by (intro exI [of _ a] exI [of _ l] exI [of _ ?q] exI [of _ "[]"]) (simp add: find_queue_def mnc_queue_insert_def nl_insert_def)
next
  case (Some a)
  then obtain xs q ys where "l = xs @ (a, q) # ys" "mq_eid q = gid"
    unfolding mnc_queue_head_find_eid_def by (rule nl_find_Some)
  with Some good show ?thesis by (auto simp: find_queue_def)
qed

lemma receive_coded_good:
  assumes good: "rx_good gen s" and pkt: "arrives gen gid skb" and km: "kmalloc_fresh km" "kmalloc_total km"
    and mem: "\<forall>i. env_alloc e i" and leaf: "tr_get_data_n par = 0 \<or> tr_get_src par"
  shows "\<exists>s' out e'. receive_coded km loc coef0 par cj e skb s = Some (s', out, e') \<and> rx_good gen s' \<and>
    (\<forall>x\<in>set out. delivers (gen gid) x)"
proof -
  let ?g = "gen gid"
  obtain t where u: "retype_skb skb = Some t" and t: "arrives gen gid t" by (rule retyped [OF pkt])
  from t have g: "g_ok ?g" and mt: "member_of ?g t" and bytes: "skb_get 1 t = Some gid" "skb_get 0 t = Some (g_kp ?g)"
    by (simp_all add: arrives_def)
  obtain b where b: "skb_get 2 t = Some b"
    using mt by (auto simp: member_of_def packet_ok_def sys_packet_def coded_packet_def mindex_def)
  define s1 where "s1 = (if rx_init s then s else s\<lparr>rx_list := mnc_queue_head_init, rx_init := True\<rparr>)"
  define s2 where "s2 = s1\<lparr>rx_list := mnc_queue_head_check_etime (rx_list s1) cj\<rparr>"
  have s1: "rx_good gen s1" using good by (simp add: s1_def rx_good_def list_good_def mnc_queue_head_init_def)
  then have s2: "list_good gen (rx_list s2)" "length (rx_last_did s2) = 3"
    by (simp_all add: s2_def rx_good_def mnc_queue_head_check_etime_def list_good_sweep)
  from lookup_queue [OF s2(1) km g, of cj] obtain a xs q ys where
    look: "find_queue km gid cj (g_kp ?g) (rx_list s2) = Some (a, xs @ (a, q) # ys)"
    and lg: "list_good gen (xs @ (a, q) # ys)" and eid: "mq_eid q = gid" by blast
  have ok: "nl_ok (xs @ (a, q') # ys)" for q' using lg by (simp add: list_good_def nl_ok_def)
  have kp: "mq_kp q = g_kp ?g" and qs: "length (mq_skbs q) < g_k ?g" "\<forall>x\<in>set (mq_skbs q). member_of ?g x"
    using lg eid by (auto simp: list_good_def queue_good_def Let_def)
  have "\<exists>r out q1 e'. deliver_sys a (drop_bit 2 b) e t (xs @ (a, q) # ys) = Some (Some r, out, xs @ (a, q1) # ys, e') \<and>
      member_of ?g r \<and> (\<forall>x\<in>set out. delivers ?g x) \<and> mq_eid q1 = gid \<and> mq_kp q1 = g_kp ?g \<and> mq_skbs q1 = mq_skbs q \<and> (\<forall>i. env_alloc e' i)"
  proof (cases "drop_bit 2 b = 0x3f")
    case True
    with nl_modify_split [OF ok] mt eid kp mem show ?thesis by (auto simp: deliver_sys_def)
  next
    case False
    obtain c e1 where c: "skb_copy e t = (Some c, e1)" "\<forall>i. env_alloc e1 i" using mem by (simp add: skb_copy_def alloc_next_def)
    have "member_of ?g c"
    proof (rule member_of_cong [OF mt g])
      show "skb_len c = skb_len t" using skb_copy_fields [OF c(1)] by simp
      show "skb_get b c = skb_get b t" if "b < skb_len t" for b
        using skb_copy_bytes [OF c(1) that] t by (simp add: arrives_def)
    qed
    with sys_delivers [OF t b False] c False eid kp show ?thesis by (auto simp: deliver_sys_def)
  qed
  then obtain r out q1 e1 where store: "deliver_sys a (drop_bit 2 b) e t (xs @ (a, q) # ys) = Some (Some r, out, xs @ (a, q1) # ys, e1)"
    and r: "member_of ?g r" "\<forall>x\<in>set out. delivers ?g x"
     "mq_eid q1 = gid" "mq_kp q1 = g_kp ?g" "mq_skbs q1 = mq_skbs q" "\<forall>i. env_alloc e1 i" by blast
  define q2 where "q2 = mq_skbs_update (\<lambda>q. q @ [r]) q1"
  define s3 where "s3 = s2\<lparr>rx_list := xs @ (a, q2) # ys\<rparr>"
  have q2: "mq_eid q2 = gid" "mq_kp q2 = g_kp ?g" "length (mq_skbs q2) = Suc (length (mq_skbs q))" "\<forall>x\<in>set (mq_skbs q2). member_of ?g x"
    using r qs by (auto simp: q2_def)
  have run: "receive_coded km loc coef0 par cj e skb s =
     (if gid \<in> set (rx_last_did s2) then Some (s2, [], e)
      else if length (mq_skbs q2) = g_k ?g then
        do { (s, out', e) \<leftarrow> queue_full loc coef0 par e1 (skb_dev r) gid a s3; Some (s, out @ out', e) }
      else Some (s3, out, e1))"
    unfolding receive_coded_def s1_def [symmetric] u Option.bind.simps Let_def bytes b s2_def [symmetric]
    using look store nl_read_split [OF ok] nl_modify_split [OF ok] kp
    by (simp add: q2_def s3_def g_k_def split del: if_split cong: if_cong)
  show ?thesis
  proof (cases "gid \<in> set (rx_last_did s2)")
    case True
    with run s2 show ?thesis by (simp add: rx_good_def)
  next
    case False
    show ?thesis
    proof (cases "length (mq_skbs q2) = g_k ?g")
      case True
      have "nl_ok (rx_list s3)" "list_good gen (xs @ ys)" "distinct (map (mq_eid \<circ> snd) (rx_list s3))" "length (rx_last_did s3) = 3"
        using ok list_good_remove [OF lg] lg eid q2(1) s2(2) by (auto simp: s3_def list_good_def)
      then obtain s' out' e2 where "queue_full loc coef0 par e1 (skb_dev r) gid a s3 = Some (s', out', e2)" "rx_good gen s'"
        "\<forall>x\<in>set out'. delivers ?g x"
        using queue_full_good [of s3 xs a q2 ys gen gid e1 par loc coef0 "skb_dev r"] q2 g True leaf r(6) by (auto simp: s3_def)
      with run False True r(2) show ?thesis by auto
    next
      case len: False
      have "queue_good gen q2" using q2 g qs len by (simp add: queue_good_def)
      then have "rx_good gen s3" using list_good_replace [OF lg] eid q2(1) s2(2) by (simp add: s3_def rx_good_def)
      with run False len r(2) show ?thesis by auto
    qed
  qed
qed

section \<open>The node as a transition system\<close>

inductive node_step :: "kmalloc \<Rightarrow> node \<Rightarrow> node \<Rightarrow> bool" for km where
  rx: "decoding_try km loc coef0 jiffies e skb n = Some (n', out, e') \<Longrightarrow> node_step km n n'"
| tx: "ieee80211_matrix_network_coding coef0 e skb dev n = Some (n', out, e') \<Longrightarrow> node_step km n n'"
| mnc_tx_timer: "tx_timer (nd_tx n) \<Longrightarrow>
    mnc_tx_timer_func coef0 (nd_par n) e ((nd_tx n)\<lparr>tx_timer := False\<rparr>) = Some (tx', out, e') \<Longrightarrow>
    node_step km n (n\<lparr>nd_tx := tx'\<rparr>)"
| tr1_timer: "sr_tr1_timer (nd_src n) \<Longrightarrow>
    tl_rx_tr1_timer_func (nd_par n) e ((nd_src n)\<lparr>sr_tr1_timer := False\<rparr>) = Some (s', out, e') \<Longrightarrow>
    node_step km n (n\<lparr>nd_src := s'\<rparr>)"
| sndtf_timer: "sr_sndtf_timer (nd_src n) = Some a \<Longrightarrow>
    tl_rx_sndtf_timer_func (nd_par n) e a ((nd_src n)\<lparr>sr_sndtf_timer := None\<rparr>) = Some (s', out, e') \<Longrightarrow>
    node_step km n (n\<lparr>nd_src := s'\<rparr>)"
| mcs_timer: "sr_mcs_timer (nd_src n) = Some t \<Longrightarrow>
    tl_mcs_send_timer_func (nd_par n) e ((nd_src n)\<lparr>sr_mcs_timer := None\<rparr>) = Some (s', out, e') \<Longrightarrow>
    node_step km n (n\<lparr>nd_src := s'\<rparr>)"
| tf1_timer: "ds_tf1_timer (nd_dst n) \<Longrightarrow>
    tl_rx_tf_timer_func False e ((nd_dst n)\<lparr>ds_tf1_timer := False\<rparr>) = Some (d', out, e') \<Longrightarrow>
    node_step km n (n\<lparr>nd_dst := d'\<rparr>)"
| tf2_timer: "ds_tf2_timer (nd_dst n) \<Longrightarrow>
    tl_rx_tf_timer_func True e ((nd_dst n)\<lparr>ds_tf2_timer := False\<rparr>) = Some (d', out, e') \<Longrightarrow>
    node_step km n (n\<lparr>nd_dst := d'\<rparr>)"
| tr2_timer: "ds_tr2_timer (nd_dst n) \<Longrightarrow>
    tl_rx_tr2_timer_func e ((nd_dst n)\<lparr>ds_tr2_timer := False\<rparr>) = Some (d', out, e') \<Longrightarrow>
    node_step km n (n\<lparr>nd_dst := d'\<rparr>)"
| mcs2_timer: "ds_mcs_timer (nd_dst n) = Some t \<Longrightarrow>
    tl_2hop_mcs_send_timer_func e ((nd_dst n)\<lparr>ds_mcs_timer := None\<rparr>) = Some (d', out, e') \<Longrightarrow>
    node_step km n (n\<lparr>nd_dst := d'\<rparr>)"

inductive node_reachable :: "kmalloc \<Rightarrow> node \<Rightarrow> bool" for km where
  init: "node_reachable km node_init"
| step: "node_reachable km n \<Longrightarrow> node_step km n n' \<Longrightarrow> node_reachable km n'"

section \<open>Invariant of the node\<close>

definition queues_inv :: "mnc_queue nlist \<Rightarrow> bool" where
  "queues_inv l \<longleftrightarrow> nl_ok l \<and> distinct (map (mq_eid \<circ> snd) l)"

definition rx_inv :: "rx_state \<Rightarrow> bool" where
  "rx_inv s \<longleftrightarrow> queues_inv (rx_list s) \<and> length (rx_last_did s) = 3"

definition tx_inv :: "tx_state \<Rightarrow> bool" where
  "tx_inv s \<longleftrightarrow> tx_eid s \<noteq> 0 \<and> (tx_skbs_original s \<noteq> [] \<longrightarrow> tx_timer s)"

definition node_inv :: "node \<Rightarrow> bool" where
  "node_inv n \<longleftrightarrow> src_inv (nd_src n) \<and> dst_inv (nd_dst n) \<and> rx_inv (nd_rx n) \<and> tx_inv (nd_tx n)"

lemma queues_inv_filter [simp]: "queues_inv l \<Longrightarrow> queues_inv (filter Q l)"
  by (auto simp: queues_inv_def intro: distinct_map_filter)

lemma queues_inv_modify:
  assumes "nl_modify a f l = Some l'" "queues_inv l" "\<And>q. mq_eid (f q) = mq_eid q"
  shows "queues_inv l'"
proof -
  have "map (mq_eid \<circ> snd) l' = map (mq_eid \<circ> snd) l"
    using assms(1,3) by (auto simp: nl_modify_Some)
  with assms nl_ok_modify show ?thesis by (auto simp: queues_inv_def)
qed

lemma queues_inv_free: "mnc_queue_free a l = Some l' \<Longrightarrow> queues_inv l \<Longrightarrow> queues_inv l'"
  by (auto simp: mnc_queue_free_def nl_free_def split: if_splits)

lemma queues_inv_find:
  assumes "find_queue km gid cj kp l = Some (a, l')" "queues_inv l" "kmalloc_fresh km"
  shows "queues_inv l'"
proof (cases "mnc_queue_head_find_eid l gid")
  case None
  with assms have "l' = l @ [(a, mnc_queue_create gid cj kp)]" "a \<notin> set (nl_addrs l)"
    by (auto simp: find_queue_def mnc_queue_insert_def nl_insert_def kmalloc_fresh_def)
  moreover have "gid \<notin> set (map (mq_eid \<circ> snd) l)" using None by (auto simp: mnc_queue_head_find_eid_def nl_find_None)
  ultimately show ?thesis using assms(2) by (auto simp: queues_inv_def nl_ok_def mnc_queue_create_def)
next
  case (Some a)
  with assms show ?thesis by (simp add: find_queue_def)
qed

lemma rx_inv_list: "rx_inv s \<Longrightarrow> queues_inv l \<Longrightarrow> rx_inv (s\<lparr>rx_list := l\<rparr>)"
  by (simp add: rx_inv_def)

lemma note_did_inv: "rx_inv s \<Longrightarrow> rx_inv (note_did gid s)"
  by (simp add: rx_inv_def)

lemma queue_full_inv:
  assumes "rx_inv s"
  shows "opt_post (\<lambda>(s', _). rx_inv s') (queue_full loc coef0 par e rdev gid a s)"
proof -
  have l: "queues_inv (rx_list s)" using assms by (simp add: rx_inv_def)
  have m: "queues_inv l'" if "nl_modify a (mq_skbs_update f) (rx_list s) = Some l'" for l' f
    using queues_inv_modify [OF that l] by simp
  show ?thesis unfolding queue_full_def
    by (intro opt_post_rules) (use assms l in \<open>auto intro!: note_did_inv rx_inv_list dest: queues_inv_free m\<close>)
qed

lemma deliver_sys_inv:
  "queues_inv l \<Longrightarrow> opt_post (\<lambda>(_, _, l', _). queues_inv l') (deliver_sys a m e skb l)"
  unfolding deliver_sys_def
  by (intro opt_post_rules) (auto dest: queues_inv_modify)

lemma receive_coded_inv:
  assumes km: "kmalloc_fresh km" and inv: "rx_inv s"
  shows "opt_post (\<lambda>(s', _). rx_inv s') (receive_coded km loc coef0 par cj e skb s)"
proof -
  have start: "queues_inv (mnc_queue_head_check_etime (rx_list s') cj)" if "rx_inv s'" for s'
    using that by (simp add: rx_inv_def mnc_queue_head_check_etime_def nl_sweep_def)
  have init: "rx_inv (if rx_init s then s else s\<lparr>rx_list := mnc_queue_head_init, rx_init := True\<rparr>)"
    using inv by (simp add: rx_inv_def queues_inv_def mnc_queue_head_init_def)
  show ?thesis unfolding receive_coded_def
  proof (intro opt_post_rules, goal_cases)
    case (1 skb s1 gid kp b s2)
    then show ?case using init start [of s1] by (simp add: rx_inv_list)
  next
    case (2 skb s1 gid kp b s2 x a l mncq)
    then show ?case using init start [of s1] queues_inv_find [OF _ _ km, of gid cj kp "rx_list s2" a l]
      by (simp add: rx_inv_list)
  next
    case (3 skb s1 gid kp b s2 x a l mncq y r y1 out y2 l1 e1 skb1 l2 mncq1 z s' z1 out' e')
    have "queues_inv l" "rx_inv s2" using 3 init start [of s1] queues_inv_find [OF _ _ km, of gid cj kp "rx_list s2" a l]
      by (simp_all add: rx_inv_list)
    moreover from this 3 opt_postD [OF deliver_sys_inv] have "queues_inv l1" by fastforce
    moreover from this 3 have "queues_inv l2" by (auto intro: queues_inv_modify)
    ultimately show ?case using 3 opt_postD [OF queue_full_inv [OF rx_inv_list]] by fastforce
  next
    case (4 skb s1 gid kp b s2 x a l mncq y r y1 out y2 l1 e1 skb1 l2 mncq1)
    have "queues_inv l" "rx_inv s2" using 4 init start [of s1] queues_inv_find [OF _ _ km, of gid cj kp "rx_list s2" a l]
      by (simp_all add: rx_inv_list)
    moreover from this 4 opt_postD [OF deliver_sys_inv] have "queues_inv l1" by fastforce
    moreover from this 4 have "queues_inv l2" by (auto intro: queues_inv_modify)
    ultimately show ?case by (simp add: rx_inv_list)
  qed
qed

lemma mnc_encoding_tx_eid:
  assumes "mnc_encoding_tx par coef0 e skbs gid eid = Some (res, eid', e')" "eid \<noteq> 0"
  shows "eid' \<noteq> 0"
proof -
  have "eid' = (if tr_get_src par then next_eid eid else eid)"
    using assms(1) by (auto simp: mnc_encoding_tx_def Let_def next_eid_alt)
  then show ?thesis using assms(2) by (simp add: next_eid_def)
qed

lemma send_generation_inv: "tx_eid s \<noteq> 0 \<Longrightarrow> opt_post (\<lambda>(s', _). tx_inv s') (send_generation coef0 par e dev s)"
  unfolding send_generation_def
  by (intro opt_post_rules) (auto simp: tx_inv_def dest: mnc_encoding_tx_eid)

lemma queue_original_inv: "tx_inv s \<Longrightarrow> opt_post (\<lambda>(s', _). tx_inv s') (queue_original coef0 par e skb dev s)"
  unfolding queue_original_def Let_def
  by (intro opt_post_if send_generation_inv opt_post_rules) (simp_all add: tx_inv_def)

lemma decoding_try_inv:
  assumes km: "kmalloc_fresh km" and inv: "node_inv n"
  shows "opt_post (\<lambda>(n', _). node_inv n') (decoding_try km loc coef0 jiffies e skb n)"
  unfolding decoding_try_def
proof (intro opt_post_rules, goal_cases)
  case (2 b12 b13 ty x s' y out e')
  then have "src_inv s'" using src_step_inv [OF km src_step.receive, of "nd_par n" e skb "nd_src n" s' out e'] inv
    by (simp add: node_inv_def)
  with inv show ?case by (simp add: node_inv_def)
next
  case (3 b12 b13 ty x par y d' z out e')
  then have "dst_inv d'" using dst_step_inv [OF km dst_step.receive, of "nd_par n" e skb "nd_dst n" par d' out e'] inv
    by (simp add: node_inv_def)
  with inv show ?case by (simp add: node_inv_def)
next
  case (4 b12 b13 ty x r y out e')
  then have "rx_inv r" using opt_postD [OF receive_coded_inv [OF km]] inv by (fastforce simp: node_inv_def)
  with inv show ?case by (simp add: node_inv_def)
qed (use inv in simp)

lemma network_coding_inv:
  assumes km: "kmalloc_fresh km" and inv: "node_inv n"
  shows "opt_post (\<lambda>(n', _). node_inv n') (ieee80211_matrix_network_coding coef0 e skb dev n)"
  unfolding ieee80211_matrix_network_coding_def
proof (intro opt_post_rules, goal_cases)
  case (2 b2 b3 port x started y par z s' w out e')
  then have "src_inv s'" using src_step_inv [OF km src_step.start, of "nd_par n" e skb "nd_src n" started par s' out e'] inv
    by (simp add: node_inv_def)
  with inv show ?case by (simp add: node_inv_def)
next
  case (3 b2 b3 port x t y out e')
  then have "tx_inv t" using opt_postD [OF queue_original_inv] inv by (fastforce simp: node_inv_def)
  with inv show ?case by (simp add: node_inv_def)
qed (use inv in simp)

lemma node_inv_src: "node_inv n \<Longrightarrow> src_step km (nd_par n, nd_src n) (par', s') \<Longrightarrow> kmalloc_fresh km \<Longrightarrow> node_inv (n\<lparr>nd_src := s'\<rparr>)"
  using src_step_inv [of km "(nd_par n, nd_src n)" "(par', s')"] by (simp add: node_inv_def)

lemma node_inv_dst: "node_inv n \<Longrightarrow> dst_step km (nd_par n, nd_dst n) (par', s') \<Longrightarrow> kmalloc_fresh km \<Longrightarrow> node_inv (n\<lparr>nd_dst := s'\<rparr>)"
  using dst_step_inv [of km "(nd_par n, nd_dst n)" "(par', s')"] by (simp add: node_inv_def)

lemma node_step_inv:
  assumes km: "kmalloc_fresh km" and st: "node_step km n n'" and inv: "node_inv n"
  shows "node_inv n'"
  using st
proof cases
  case rx
  with opt_postD [OF decoding_try_inv [OF km inv]] show ?thesis by fastforce
next
  case tx
  with opt_postD [OF network_coding_inv [OF km inv]] show ?thesis by fastforce
next
  case (mnc_tx_timer coef0 e tx' out e')
  have "tx_eid ((nd_tx n)\<lparr>tx_timer := False\<rparr>) \<noteq> 0" using inv by (simp add: node_inv_def tx_inv_def)
  from opt_postD [OF send_generation_inv [OF this]] mnc_tx_timer inv show ?thesis
    by (fastforce simp: node_inv_def mnc_tx_timer_func_def)
qed (auto intro: node_inv_src [OF inv src_step.tr1_timer km] node_inv_src [OF inv src_step.sndtf_timer km]
    node_inv_src [OF inv src_step.mcs_timer km] node_inv_dst [OF inv dst_step.tf1_timer km]
    node_inv_dst [OF inv dst_step.tf2_timer km] node_inv_dst [OF inv dst_step.tr2_timer km]
    node_inv_dst [OF inv dst_step.mcs_timer km])

lemma node_inv_init: "node_inv node_init"
  by (simp add: node_inv_def node_init_def src_inv_init dst_inv_init rx_inv_def queues_inv_def rx_start_def tx_inv_def tx_start_def)

lemma node_reachable_inv: "node_reachable km n \<Longrightarrow> kmalloc_fresh km \<Longrightarrow> node_inv n"
  by (induction rule: node_reachable.induct) (auto simp: node_inv_init intro: node_step_inv)

section \<open>Properties\<close>

text \<open>C4. Invariant of a node: in every state a node can reach by packets from the network, packets
  from the application and timers, the invariants of the source and the client part hold, no two
  decoding queues have the same generation id, three finished generations are remembered, the id
  of the generation being collected is not 0 (the value the list of finished generations starts
  with), and whenever packets wait to be encoded a timer that will send them is pending.\<close>

theorem node_invariant:
  assumes "node_reachable km n" and "kmalloc_fresh km"
  shows "src_inv (nd_src n) \<and> dst_inv (nd_dst n) \<and> distinct (map (mq_eid \<circ> snd) (rx_list (nd_rx n))) \<and>
    length (rx_last_did (nd_rx n)) = 3 \<and> tx_eid (nd_tx n) \<noteq> 0 \<and>
    (tx_skbs_original (nd_tx n) \<noteq> [] \<longrightarrow> tx_timer (nd_tx n))"
  using node_reachable_inv [OF assms] by (simp add: node_inv_def rx_inv_def queues_inv_def tx_inv_def)

text \<open>A packet from the application to port 5555.\<close>

definition ex_app :: sk_buff where
  "ex_app = blank_skb [0, 0, 0x15, 0xb3]"

lemma ex_app_queued:
  "\<exists>n. ieee80211_matrix_network_coding (\<lambda>i j. 0) ex_env0 ex_app \<lparr>dev_addr = []\<rparr> node_init = Some (n, [], ex_env0) \<and>
     tx_skbs_original (nd_tx n) = [ex_app]"
  by (simp add: ieee80211_matrix_network_coding_def ex_app_def blank_skb_def head_get_def node_init_def queue_original_def
      tx_start_def param_init_def tr_get_data_k_def)

theorem node_invariant_witness:
  "\<exists>n. node_reachable bump_kmalloc n \<and> tx_skbs_original (nd_tx n) = [ex_app] \<and> tx_timer (nd_tx n)"
proof -
  obtain n where n: "ieee80211_matrix_network_coding (\<lambda>i j. 0) ex_env0 ex_app \<lparr>dev_addr = []\<rparr> node_init = Some (n, [], ex_env0)"
    "tx_skbs_original (nd_tx n) = [ex_app]" using ex_app_queued by blast
  have r: "node_reachable bump_kmalloc n"
    using node_reachable.init node_step.tx [OF n(1)] by (rule node_reachable.step)
  with node_invariant [OF r] n(2) show ?thesis by auto
qed

text \<open>C2. A receiver delivers nothing but original packets and, when all allocations succeed, never fails on well-formed ones: when all
  packets so far belonged to their generation (\<open>rx_good\<close>) and another packet of generation \<open>gid\<close>
  arrives at a node that does not relay, the call completes, every packet handed to the network
  stack carries exactly the payload of one of the originals of that generation, and the queues stay
  well formed.\<close>

theorem receiver_delivers_originals:
  assumes "rx_good gen s" "arrives gen gid skb" "kmalloc_fresh km" "kmalloc_total km"
    and "\<forall>i. env_alloc e i" and "tr_get_data_n par = 0 \<or> tr_get_src par"
  shows "\<exists>s' out e'. receive_coded km loc coef0 par cj e skb s = Some (s', out, e') \<and> rx_good gen s' \<and>
    (\<forall>x\<in>set out. delivers (gen gid) x)"
  using assms by (rule receive_coded_good)

text \<open>A systematic packet, number 0 of a generation of two packets with one byte each.\<close>

definition ex_sys :: sk_buff where
  "ex_sys = (blank_skb (replicate 14 0 @ [9, 5, 0, 7]))\<lparr>skb_data := 14, skb_len := 4\<rparr>"

definition ex_gen :: "u8 \<Rightarrow> generation_info" where
  "ex_gen gid = \<lparr>g_kp = 9, g_len = 1, g_orig = (\<lambda>j b. if j = 0 then 7 else 8)\<rparr>"

lemma ex_sys_bytes:
  "skb_get 0 ex_sys = Some 9" "skb_get 1 ex_sys = Some 5" "skb_get 2 ex_sys = Some 0" "skb_get 3 ex_sys = Some 7"
  by (simp_all add: ex_sys_def blank_skb_def skb_get_def head_get_def nth_append)

lemma ex_arrives: "arrives ex_gen 5 ex_sys"
proof -
  have g: "g_k (ex_gen 5) = 2" "g_p (ex_gen 5) = 1" "g_len (ex_gen 5) = 1" by (simp_all add: g_k_def g_p_def ex_gen_def)
  have "block_starts 1 1 = [0]" by (simp add: block_starts_def)
  then have "sys_packet 2 1 1 (g_orig (ex_gen 5)) 0 ex_sys"
    using ex_sys_bytes by (simp add: sys_packet_def mindex_def ex_gen_def) (simp add: ex_sys_def)
  then have "member_of (ex_gen 5) ex_sys" unfolding member_of_def packet_ok_def g by blast
  then show ?thesis
    using ex_sys_bytes g by (simp add: arrives_def g_ok_def ETHERLEN_def) (simp add: ex_sys_def blank_skb_def ex_gen_def)
qed

theorem receiver_delivers_originals_witness:
  "\<exists>s' out e'. receive_coded bump_kmalloc junk_locals (\<lambda>i j. 0) param_init 0 ex_env0 ex_sys rx_start = Some (s', out, e') \<and>
    rx_good ex_gen s' \<and> list_all (delivers (ex_gen 5)) out"
  using receiver_delivers_originals [of ex_gen rx_start 5 ex_sys bump_kmalloc ex_env0 param_init junk_locals "\<lambda>i j. 0" 0] ex_arrives
  by (auto simp: rx_good_def list_good_def rx_start_def ex_env0_def param_init_def tr_get_data_n_def list_all_iff)

text \<open>Packets of a finished generation are ignored: nothing is delivered, the finished generations are
  unchanged and no queue is added.\<close>

theorem finished_generation_ignored:
  assumes "arrives gen gid skb" "gid \<in> set (rx_last_did s)"
  shows "\<exists>s'. receive_coded km loc coef0 par cj e skb s = Some (s', [], e) \<and> rx_last_did s' = rx_last_did s \<and>
    set (rx_list s') \<subseteq> set (rx_list s)"
proof -
  obtain t where "retype_skb skb = Some t" and t: "arrives gen gid t" by (rule retyped [OF assms(1)])
  moreover from t have "skb_get 1 t = Some gid" "skb_get 0 t = Some (g_kp (gen gid))" by (simp_all add: arrives_def)
  moreover from t obtain b where "skb_get 2 t = Some b"
    by (auto simp: arrives_def member_of_def packet_ok_def sys_packet_def coded_packet_def mindex_def)
  ultimately show ?thesis
    using assms(2) by (auto simp: receive_coded_def mnc_queue_head_init_def mnc_queue_head_check_etime_def nl_sweep_def)
qed

theorem finished_generation_ignored_witness:
  "\<exists>s'. receive_coded bump_kmalloc junk_locals (\<lambda>i j. 0) param_init 0 ex_env0 ex_sys (rx_start\<lparr>rx_last_did := [1, 5, 0]\<rparr>) =
    Some (s', [], ex_env0) \<and> rx_last_did s' = [1, 5, 0]"
  using finished_generation_ignored [OF ex_arrives, of "rx_start\<lparr>rx_last_did := [1, 5, 0]\<rparr>" bump_kmalloc junk_locals
      "\<lambda>i j. 0" param_init 0 ex_env0] by auto

section \<open>Copies of a systematic packet\<close>

text \<open>A receiver that gets packets, each at its time, one after the other.\<close>

primrec receive_run ::
  "kmalloc \<Rightarrow> decode_locals \<Rightarrow> matrix \<Rightarrow> tr_param \<Rightarrow> (u64 \<times> sk_buff) list \<Rightarrow> env \<Rightarrow> rx_state \<Rightarrow>
   (rx_state \<times> handoff list \<times> env) option" where
  "receive_run km loc coef0 par [] e s = Some (s, [], e)"
| "receive_run km loc coef0 par (p # ps) e s =
     do {
       (s, out, e) \<leftarrow> receive_coded km loc coef0 par (fst p) e (snd p) s;
       (s, out', e) \<leftarrow> receive_run km loc coef0 par ps e s;
       Some (s, out @ out', e)
     }"

text \<open>The generation \<open>gid\<close> has a queue, started at time \<open>c0\<close>, with \<open>m\<close> packets, all of them systematic; or none if \<open>m\<close> is 0.\<close>

definition sys_queued :: "u8 \<Rightarrow> u64 \<Rightarrow> nat \<Rightarrow> rx_state \<Rightarrow> bool" where
  "sys_queued gid c0 m s \<longleftrightarrow>
     (if m = 0 then mnc_queue_head_find_eid (rx_list s) gid = None
      else rx_init s \<and> (\<exists>a q. (a, q) \<in> set (rx_list s) \<and> mq_eid q = gid \<and> mq_sys q \<and> mq_ejiffies q = c0 \<and> length (mq_skbs q) = m))"

lemma same_queue:
  assumes "distinct (map (mq_eid \<circ> snd) l)" "x \<in> set l" "y \<in> set l" "mq_eid (snd x) = mq_eid (snd y)"
  shows "x = y"
  using assms by (auto simp: distinct_map inj_on_def)

lemma find_eid_None: "mnc_queue_head_find_eid l gid = None \<longleftrightarrow> (\<forall>x\<in>set l. mq_eid (snd x) \<noteq> gid)"
  by (auto simp: mnc_queue_head_find_eid_def nl_find_None)

text \<open>The queue a systematic packet comes to.\<close>

lemma lookup_sys_queue:
  assumes good: "list_good gen l" and km: "kmalloc_fresh km" "kmalloc_total km" and g: "g_ok (gen gid)"
    and st: "sys_queued gid c0 m s" and time: "cj - c0 \<le> ETIMEOUT" "m = 0 \<Longrightarrow> cj = c0"
    and l: "l = mnc_queue_head_check_etime (if rx_init s then rx_list s else []) cj"
  shows "\<exists>a xs q ys. find_queue km gid cj (g_kp (gen gid)) l = Some (a, xs @ (a, q) # ys) \<and> list_good gen (xs @ (a, q) # ys) \<and> mq_eid q = gid \<and>
    mq_sys q \<and> mq_ejiffies q = c0 \<and> length (mq_skbs q) = m"
proof -
  obtain a xs q ys where look: "find_queue km gid cj (g_kp (gen gid)) l = Some (a, xs @ (a, q) # ys)" "list_good gen (xs @ (a, q) # ys)" "mq_eid q = gid"
    and which: "if mnc_queue_head_find_eid l gid = None then q = mnc_queue_create gid cj (g_kp (gen gid)) else (a, q) \<in> set l"
    using lookup_queue [OF good km g, of cj] by blast
  have "mq_sys q \<and> mq_ejiffies q = c0 \<and> length (mq_skbs q) = m"
  proof (cases "m = 0")
    case True
    then have "\<forall>x\<in>set (rx_list s). mq_eid (snd x) \<noteq> gid" using st find_eid_None by (simp add: sys_queued_def)
    then have "mnc_queue_head_find_eid l gid = None" unfolding find_eid_None l mnc_queue_head_check_etime_def nl_sweep_def by auto
    with which time(2) True show ?thesis by (simp add: mnc_queue_create_def)
  next
    case False
    then obtain b r where r: "rx_init s" "(b, r) \<in> set (rx_list s)" "mq_eid r = gid" "mq_sys r" "mq_ejiffies r = c0" "length (mq_skbs r) = m"
      using st by (auto simp: sys_queued_def)
    have "(b, r) \<in> set l" using r time(1) by (auto simp: l mnc_queue_head_check_etime_def nl_sweep_def)
    moreover from this r(3) have "mnc_queue_head_find_eid l gid \<noteq> None" unfolding find_eid_None by force
    with which have "(a, q) \<in> set l" by (simp only: if_False)
    ultimately have "(a, q) = (b, r)" using same_queue [of l "(a, q)" "(b, r)"] good look(3) r(3) by (simp add: list_good_def)
    with r show ?thesis by simp
  qed
  with look show ?thesis by blast
qed

lemma receive_sys:
  assumes good: "rx_good gen s" and new: "gid \<notin> set (rx_last_did s)"
    and pkt: "arrives gen gid skb" "mindex skb = Some j" "j \<noteq> 0x3f"
    and km: "kmalloc_fresh km" "kmalloc_total km" and mem: "\<forall>i. env_alloc e i"
    and st: "sys_queued gid c0 m s" and time: "cj - c0 \<le> ETIMEOUT" "m = 0 \<Longrightarrow> cj = c0" and m: "m < g_k (gen gid)"
  shows "\<exists>t s' e'. receive_coded km loc coef0 par cj e skb s = Some (s', [Netif_receive t], e') \<and>
    payload_is (g_len (gen gid)) (g_orig (gen gid) j) t \<and> (\<forall>i. env_alloc e' i) \<and> rx_good gen s' \<and>
    (if Suc m = g_k (gen gid) then gid \<in> set (rx_last_did s') \<and> mnc_queue_head_find_eid (rx_list s') gid = None
     else gid \<notin> set (rx_last_did s') \<and> sys_queued gid c0 (Suc m) s')"
proof -
  let ?g = "gen gid"
  obtain t where u: "retype_skb skb = Some t" and t: "arrives gen gid t" by (rule retyped [OF pkt(1)])
  note same = retyped_bytes [OF pkt(1) u]
  from t have g: "g_ok ?g" and mt: "member_of ?g t" and bytes: "skb_get 1 t = Some gid" "skb_get 0 t = Some (g_kp ?g)"
    by (simp_all add: arrives_def)
  have mi: "mindex t = Some j" using pkt(2) by (simp add: mindex_def same)
  then obtain b where b: "skb_get 2 t = Some b" "j = unat (drop_bit 2 b)" by (auto simp: mindex_def)
  then have nb: "drop_bit 2 b \<noteq> 0x3f" using pkt(3) by auto
  define l where "l = mnc_queue_head_check_etime (if rx_init s then rx_list s else []) cj"
  define s2 where "s2 = s\<lparr>rx_list := l, rx_init := True\<rparr>"
  have l: "list_good gen l"
    using good by (simp add: l_def rx_good_def mnc_queue_head_check_etime_def list_good_sweep) (simp add: list_good_def nl_ok_def nl_sweep_def)
  from lookup_sys_queue [OF l km g st time l_def] obtain a xs q ys where
    look: "find_queue km gid cj (g_kp ?g) l = Some (a, xs @ (a, q) # ys)" and lg: "list_good gen (xs @ (a, q) # ys)"
    and q: "mq_eid q = gid" "mq_sys q" "mq_ejiffies q = c0" "length (mq_skbs q) = m" by blast
  have ok: "nl_ok (xs @ (a, q') # ys)" for q' using lg by (simp add: list_good_def nl_ok_def)
  have kp: "mq_kp q = g_kp ?g" "\<forall>x\<in>set (mq_skbs q). member_of ?g x" using lg q(1) by (auto simp: list_good_def queue_good_def Let_def)
  obtain c e1 where c: "skb_copy e t = (Some c, e1)" "\<forall>i. env_alloc e1 i" using mem by (simp add: skb_copy_def alloc_next_def)
  have mc: "member_of ?g c"
  proof (rule member_of_cong [OF mt g])
    show "skb_len c = skb_len t" using skb_copy_fields [OF c(1)] by simp
    show "skb_get b c = skb_get b t" if "b < skb_len t" for b
      using skb_copy_bytes [OF c(1) that] t by (simp add: arrives_def)
  qed
  obtain d where d: "skb_decoding_sys t = Some d" "payload_is (g_len ?g) (g_orig ?g j) d" using sys_payload [OF t mi pkt(3)] by blast
  define q2 where "q2 = mq_skbs_update (\<lambda>q. q @ [c]) q"
  have s2: "(if rx_init s then s else s\<lparr>rx_list := mnc_queue_head_init, rx_init := True\<rparr>)
      \<lparr>rx_list := mnc_queue_head_check_etime (rx_list (if rx_init s then s else s\<lparr>rx_list := mnc_queue_head_init, rx_init := True\<rparr>)) cj\<rparr> = s2"
    by (cases "rx_init s") (simp_all add: s2_def l_def mnc_queue_head_init_def)
  have run: "receive_coded km loc coef0 par cj e skb s =
      (if length (mq_skbs q2) = g_k ?g then
        do { (s, out', e) \<leftarrow> queue_full loc coef0 par e1 (skb_dev c) gid a (s2\<lparr>rx_list := xs @ (a, q2) # ys\<rparr>); Some (s, Netif_receive d # out', e) }
      else Some (s2\<lparr>rx_list := xs @ (a, q2) # ys\<rparr>, [Netif_receive d], e1))"
    unfolding receive_coded_def u Option.bind.simps Let_def bytes b(1) s2
    using look nl_read_split [OF ok] nl_modify_split [OF ok] kp(1) new nb c(1) d(1)
    by (simp add: s2_def deliver_sys_def q2_def g_k_def split del: if_split cong: if_cong)
  have len: "length (mq_skbs q2) = Suc m" using q(4) by (simp add: q2_def)
  show ?thesis
  proof (cases "Suc m = g_k ?g")
    case True
    have free: "mnc_queue_free a (xs @ (a, q2) # ys) = Some (xs @ ys)"
      using nl_free_split [of xs a q2 ys] ok by (simp add: mnc_queue_free_def nl_ok_def)
    have full: "queue_full loc coef0 par e1 (skb_dev c) gid a (s2\<lparr>rx_list := xs @ (a, q2) # ys\<rparr>) = Some (note_did gid (s2\<lparr>rx_list := xs @ ys\<rparr>), [], e1)"
      using nl_read_split [OF ok] free q(2) by (simp add: queue_full_def q2_def)
    have "gid \<notin> (mq_eid \<circ> snd) ` set (xs @ ys)" using lg q(1) by (auto simp: list_good_def)
    then have "\<forall>x\<in>set (xs @ ys). mq_eid (snd x) \<noteq> gid" by force
    with run len True full d(2) c(2) list_good_remove [OF lg] show ?thesis
      by (simp add: rx_good_def find_eid_None s2_def note_did_def)
  next
    case False
    have "queue_good gen q2" using lg q len m False mc kp by (auto simp: list_good_def queue_good_def q2_def Let_def)
    then have "list_good gen (xs @ (a, q2) # ys)" using list_good_replace [OF lg, of q2] by (simp add: q2_def)
    moreover have "sys_queued gid c0 (Suc m) (s2\<lparr>rx_list := xs @ (a, q2) # ys\<rparr>)"
      unfolding sys_queued_def using q len by (simp add: s2_def) (intro exI [of _ a] exI [of _ q2], simp add: q2_def)
    ultimately show ?thesis using run len False d(2) c(2) good new by (auto simp: rx_good_def s2_def)
  qed
qed

lemma arrives_index: "arrives gen gid skb \<Longrightarrow> \<exists>j. mindex skb = Some j"
  by (auto simp: arrives_def member_of_def packet_ok_def sys_packet_def coded_packet_def)

lemma receive_run_sys:
  assumes km: "kmalloc_fresh km" "kmalloc_total km"
  shows "rx_good gen s \<Longrightarrow> gid \<notin> set (rx_last_did s) \<Longrightarrow> sys_queued gid c0 m s \<Longrightarrow> \<forall>i. env_alloc e i \<Longrightarrow>
    m + length ps = g_k (gen gid) \<Longrightarrow> ps \<noteq> [] \<Longrightarrow> (m = 0 \<Longrightarrow> fst (hd ps) = c0) \<Longrightarrow>
    \<forall>p\<in>set ps. arrives gen gid (snd p) \<and> mindex (snd p) \<noteq> Some 0x3f \<and> fst p - c0 \<le> ETIMEOUT \<Longrightarrow>
    \<exists>s' out e'. receive_run km loc coef0 par ps e s = Some (s', out, e') \<and>
      gid \<in> set (rx_last_did s') \<and> mnc_queue_head_find_eid (rx_list s') gid = None \<and>
      list_all2 (\<lambda>p x. \<exists>t. x = Netif_receive t \<and> payload_is (g_len (gen gid)) (g_orig (gen gid) (the (mindex (snd p)))) t) ps out"
proof (induction ps arbitrary: m s e)
  case (Cons p ps)
  obtain cj skb where p: "p = (cj, skb)" by (cases p)
  with Cons.prems(8) have a: "arrives gen gid skb" "mindex skb \<noteq> Some 0x3f" "cj - c0 \<le> ETIMEOUT" by simp_all
  from arrives_index [OF a(1)] obtain j where j: "mindex skb = Some j" by blast
  have c0: "m = 0 \<Longrightarrow> cj = c0" using Cons.prems(7) p by simp
  have m: "m < g_k (gen gid)" using Cons.prems(5) by simp
  obtain t s1 e1 where r: "receive_coded km loc coef0 par cj e skb s = Some (s1, [Netif_receive t], e1)"
    "payload_is (g_len (gen gid)) (g_orig (gen gid) j) t" "\<forall>i. env_alloc e1 i" "rx_good gen s1"
    and s1: "if Suc m = g_k (gen gid) then gid \<in> set (rx_last_did s1) \<and> mnc_queue_head_find_eid (rx_list s1) gid = None
       else gid \<notin> set (rx_last_did s1) \<and> sys_queued gid c0 (Suc m) s1"
    using receive_sys [OF Cons.prems(1,2) a(1) j _ km Cons.prems(4,3) a(3) c0 m] a(2) j by blast
  show ?case
  proof (cases ps)
    case Nil
    with r s1 Cons.prems(5) p j show ?thesis by simp
  next
    case more: (Cons p' ps')
    then have "Suc m \<noteq> g_k (gen gid)" using Cons.prems(5) by simp
    with s1 have s1': "gid \<notin> set (rx_last_did s1)" "sys_queued gid c0 (Suc m) s1" by simp_all
    have "\<exists>s' out e'. receive_run km loc coef0 par ps e1 s1 = Some (s', out, e') \<and>
      gid \<in> set (rx_last_did s') \<and> mnc_queue_head_find_eid (rx_list s') gid = None \<and>
      list_all2 (\<lambda>p x. \<exists>t. x = Netif_receive t \<and> payload_is (g_len (gen gid)) (g_orig (gen gid) (the (mindex (snd p)))) t) ps out"
      by (rule Cons.IH [OF r(4) s1' r(3)]) (use Cons.prems(5,8) more in simp_all)
    with r(1,2) p j show ?thesis by auto
  qed
qed simp

lemma missing_index:
  fixes js :: "nat list"
  assumes "length js = k" "\<not> distinct js"
  obtains i where "i < k" "i \<notin> set js"
proof -
  have "card (set js) < k" using assms by (metis card_distinct card_length le_neq_implies_less)
  then have "\<not> {..<k} \<subseteq> set js" using card_mono [of "set js" "{..<k}"] by auto
  then show thesis using that by auto
qed


text \<open>Packet 0 of a generation of two packets twice, then packet 1.\<close>

definition ex_sys1 :: sk_buff where
  "ex_sys1 = (blank_skb (replicate 14 0 @ [9, 5, 4, 8]))\<lparr>skb_data := 14, skb_len := 4\<rparr>"

lemma ex_sys1_arrives: "arrives ex_gen 5 ex_sys1"
proof -
  have bytes: "skb_get 0 ex_sys1 = Some 9" "skb_get 1 ex_sys1 = Some 5" "skb_get 2 ex_sys1 = Some 4" "skb_get 3 ex_sys1 = Some 8"
    by (simp_all add: ex_sys1_def blank_skb_def skb_get_def head_get_def nth_append)
  have g: "g_k (ex_gen 5) = 2" "g_p (ex_gen 5) = 1" "g_len (ex_gen 5) = 1" by (simp_all add: g_k_def g_p_def ex_gen_def)
  have "block_starts 1 1 = [0]" by (simp add: block_starts_def)
  then have "sys_packet 2 1 1 (g_orig (ex_gen 5)) 1 ex_sys1"
    using bytes by (simp add: sys_packet_def mindex_def ex_gen_def) (simp add: ex_sys1_def)
  then have "member_of (ex_gen 5) ex_sys1" unfolding member_of_def packet_ok_def g by blast
  then show ?thesis
    using bytes g by (simp add: arrives_def g_ok_def ETHERLEN_def) (simp add: ex_sys1_def blank_skb_def ex_gen_def)
qed


end
