(* ===== verification/RX_Reorder.thy ===== *)
theory RX_Reorder
  imports Prelude "HOL-Library.Signed_Division"
begin

text \<open>
  The receive path for aggregated frames (\<^verbatim>\<open>rx.c\<close>): the reorder buffer of a block-ack session, which
  hands frames on in the order of their sequence numbers, and the test for retransmitted frames.

  The inline functions of the kernel's header \<^verbatim>\<open>linux/ieee80211.h\<close> and the comparison of
  times are not part of the repository; they are a parameter of the definitions (record
  \<open>hdr_ops\<close>). The documented meaning of the sequence-number functions (arithmetic modulo 4096)
  is the hypothesis \<open>sn_arith\<close>; nothing is assumed of the others.
\<close>

section \<open>Frames and the header functions\<close>

record hdr_ops =
  sn_less :: "u16 \<Rightarrow> u16 \<Rightarrow> bool"
  sn_inc :: "u16 \<Rightarrow> u16"
  sn_sub :: "u16 \<Rightarrow> u16 \<Rightarrow> u16"
  time_after :: "u64 \<Rightarrow> u64 \<Rightarrow> bool"
  is_ctl :: "u16 \<Rightarrow> bool"
  is_data_qos :: "u16 \<Rightarrow> bool"
  is_qos_nullfunc :: "u16 \<Rightarrow> bool"
  has_retry :: "u16 \<Rightarrow> bool"
  has_morefrags :: "u16 \<Rightarrow> bool"
  has_protected :: "u16 \<Rightarrow> bool"
  ieee80211_hdrlen :: "u16 \<Rightarrow> nat"
  is_multicast :: "mac \<Rightarrow> bool"

definition sn_arith :: "hdr_ops \<Rightarrow> bool" where
  "sn_arith ops \<longleftrightarrow>
     (\<forall>a b. sn_less ops a b \<longleftrightarrow> 2048 < unat ((a - b) AND 0xfff)) \<and>
     (\<forall>a. sn_inc ops a = (a + 1) AND 0xfff) \<and> (\<forall>a b. sn_sub ops a b = (a - b) AND 0xfff)"

text \<open>A received frame: the fields of the header the code looks at (in host byte order), the flags
  in its control block, and the bytes of the frame.\<close>

record rx_frame =
  fr_frame_control :: u16
  fr_addr1 :: mac
  fr_addr2 :: mac
  fr_seq_ctrl :: u16
  fr_qos_ctl :: u8
  fr_amsdu_more :: bool
  fr_ra_match :: bool
  fr_deferred_release :: bool
  fr_fragmented :: bool
  fr_data :: "u8 list"

definition SCTL_FRAG :: u16 where "SCTL_FRAG = 0x000f"
definition SCTL_SEQ :: u16 where "SCTL_SEQ = 0xfff0"
definition SN_MASK :: u16 where "SN_MASK = 0x0fff"

definition frame_seq :: "rx_frame \<Rightarrow> u16" where
  "frame_seq f = drop_bit 4 (fr_seq_ctrl f AND SCTL_SEQ)"

section \<open>The reorder buffer\<close>

record tid_ampdu_rx =
  ar_reorder_buf :: "rx_frame list list"
  ar_reorder_time :: "u64 list"
  ar_session_timer :: "u64 option"
  ar_reorder_timer :: "u64 option"
  ar_last_rx :: u64
  ar_head_seq_num :: u16
  ar_stored_mpdu_num :: u16
  ar_ssn :: u16
  ar_buf_size :: u16
  ar_timeout :: u16
  ar_dialog_token :: u8
  ar_auto_seq :: bool
  ar_removed :: bool

definition rx_reorder_ready :: "rx_frame list \<Rightarrow> bool" where
  "rx_reorder_ready frames = (case rev frames of [] \<Rightarrow> False | tail # _ \<Rightarrow> \<not> fr_amsdu_more tail)"

definition release_reorder_frame ::
  "hdr_ops \<Rightarrow> nat \<Rightarrow> tid_ampdu_rx \<times> rx_frame list \<Rightarrow> (tid_ampdu_rx \<times> rx_frame list) option" where
  "release_reorder_frame ops index = (\<lambda>(t, frames).
     if index < length (ar_reorder_buf t) then
       (let skb_list = ar_reorder_buf t ! index;
            (t, frames) =
              (if skb_list = [] then (t, frames)
               else if \<not> rx_reorder_ready skb_list then (t\<lparr>ar_reorder_buf := (ar_reorder_buf t)[index := []]\<rparr>, frames)
               else (t\<lparr>ar_stored_mpdu_num := ar_stored_mpdu_num t - 1, ar_reorder_buf := (ar_reorder_buf t)[index := []]\<rparr>,
                     frames @ map (\<lambda>f. f\<lparr>fr_deferred_release := True\<rparr>) skb_list))
        in Some (t\<lparr>ar_head_seq_num := sn_inc ops (ar_head_seq_num t)\<rparr>, frames))
     else None)"

text \<open>\<open>head_seq_num % buf_size\<close>; a division by 0 does not complete.\<close>

definition head_index :: "tid_ampdu_rx \<Rightarrow> nat option" where
  "head_index t = (if ar_buf_size t = 0 then None else Some (unat (ar_head_seq_num t) mod unat (ar_buf_size t)))"

definition release_reorder_frames ::
  "hdr_ops \<Rightarrow> u16 \<Rightarrow> tid_ampdu_rx \<times> rx_frame list \<Rightarrow> (tid_ampdu_rx \<times> rx_frame list) option" where
  "release_reorder_frames ops head_seq_num =
     loop_opt (\<lambda>(t, frames). sn_less ops (ar_head_seq_num t) head_seq_num)
       (\<lambda>(t, frames). do { index \<leftarrow> head_index t; release_reorder_frame ops index (t, frames) })"

text \<open>\<open>HZ\<close> is the constant of the kernel's configuration, a parameter.\<close>

definition HT_RX_REORDER_BUF_TIMEOUT :: "u64 \<Rightarrow> u64" where
  "HT_RX_REORDER_BUF_TIMEOUT hz = hz div 10"

definition purge_between :: "nat \<Rightarrow> nat \<Rightarrow> tid_ampdu_rx \<Rightarrow> tid_ampdu_rx option" where
  "purge_between index j t =
     (let n = unat (ar_buf_size t) in
      map_option snd
        (loop_opt (\<lambda>(i, t). i \<noteq> j)
          (\<lambda>(i, t). if i < length (ar_reorder_buf t)
                    then Some ((i + 1) mod n, t\<lparr>ar_reorder_buf := (ar_reorder_buf t)[i := []]\<rparr>) else None)
          ((index + 1) mod n, t)))"

text \<open>The search for frames that waited too long; the last component is set by the jump to
  \<open>set_release_timer\<close>.\<close>

definition timeout_body ::
  "hdr_ops \<Rightarrow> u64 \<Rightarrow> u64 \<Rightarrow> nat \<Rightarrow> nat \<times> nat \<times> bool \<times> tid_ampdu_rx \<times> rx_frame list \<Rightarrow>
   (nat \<times> nat \<times> bool \<times> tid_ampdu_rx \<times> rx_frame list) option" where
  "timeout_body ops hz jiffies index = (\<lambda>(j, skipped, stop, t, frames).
     let n = unat (ar_buf_size t) in
     if \<not> (j < length (ar_reorder_buf t) \<and> j < length (ar_reorder_time t)) then None
     else if \<not> rx_reorder_ready (ar_reorder_buf t ! j) then Some ((j + 1) mod n, skipped + 1, stop, t, frames)
     else if skipped \<noteq> 0 \<and> \<not> time_after ops jiffies (ar_reorder_time t ! j + HT_RX_REORDER_BUF_TIMEOUT hz)
     then Some (j, skipped, True, t, frames)
     else do {
       t \<leftarrow> purge_between index j t;
       (t, frames) \<leftarrow> release_reorder_frame ops j (t, frames);
       Some ((j + 1) mod n, 0, stop,
             t\<lparr>ar_head_seq_num := (ar_head_seq_num t + of_nat skipped) AND SN_MASK\<rparr>, frames)
     })"

text \<open>The next frame the timer has to wait for. \<open>index\<close> is an \<open>int\<close>: for \<open>index = 0\<close> the bound is
  \<open>-1 % buf_size\<close>, which is negative.\<close>

definition next_stored :: "tid_ampdu_rx \<Rightarrow> nat \<Rightarrow> nat option" where
  "next_stored t index =
     (let n = unat (ar_buf_size t) in
      map_option fst
        (loop_opt (\<lambda>(j, found). \<not> found \<and> int j \<noteq> (int index - 1) smod int n)
          (\<lambda>(j, found). if j < length (ar_reorder_buf t)
                        then Some (if rx_reorder_ready (ar_reorder_buf t ! j) then (j, True) else ((j + 1) mod n, False))
                        else None)
          (index, False)))"

definition set_release_timer :: "u64 \<Rightarrow> nat \<Rightarrow> tid_ampdu_rx \<Rightarrow> tid_ampdu_rx option" where
  "set_release_timer hz j t =
     (if ar_removed t then Some t
      else if j < length (ar_reorder_time t)
      then Some (t\<lparr>ar_reorder_timer := Some (ar_reorder_time t ! j + 1 + HT_RX_REORDER_BUF_TIMEOUT hz)\<rparr>)
      else None)"

text \<open>The two branches of the function: frames that waited too long are released when the frame at the
  head is missing, frames in order otherwise. The result says whether the code jumps to
  \<open>set_release_timer\<close>, and with which index.\<close>

definition release_ready ::
  "hdr_ops \<Rightarrow> u64 \<Rightarrow> u64 \<Rightarrow> nat \<Rightarrow> tid_ampdu_rx \<times> rx_frame list \<Rightarrow>
   (bool \<times> nat \<times> tid_ampdu_rx \<times> rx_frame list) option" where
  "release_ready ops hz jiffies index = (\<lambda>(t, frames).
     if \<not> index < length (ar_reorder_buf t) then None
     else if \<not> rx_reorder_ready (ar_reorder_buf t ! index) \<and> ar_stored_mpdu_num t \<noteq> 0 then
       map_option (\<lambda>(j, skipped, stop, t, frames). (stop, j, t, frames))
         (loop_opt (\<lambda>(j, skipped, stop, t, frames). \<not> stop \<and> j \<noteq> index)
            (timeout_body ops hz jiffies index)
            ((index + 1) mod unat (ar_buf_size t), 1, False, t, frames))
     else
       map_option (\<lambda>(t, frames). (False, 0, t, frames))
         (loop_opt (\<lambda>(t, frames). case head_index t of None \<Rightarrow> False
                      | Some index \<Rightarrow> index < length (ar_reorder_buf t) \<and> rx_reorder_ready (ar_reorder_buf t ! index))
            (\<lambda>(t, frames). do { index \<leftarrow> head_index t; release_reorder_frame ops index (t, frames) })
            (t, frames)))"

definition arm_release_timer ::
  "u64 \<Rightarrow> bool \<times> nat \<times> tid_ampdu_rx \<times> rx_frame list \<Rightarrow> (tid_ampdu_rx \<times> rx_frame list) option" where
  "arm_release_timer hz = (\<lambda>(stop, j, t, frames).
     if stop then do { t \<leftarrow> set_release_timer hz j t; Some (t, frames) }
     else if ar_stored_mpdu_num t \<noteq> 0 then
       do {
         index \<leftarrow> head_index t;
         j \<leftarrow> next_stored t index;
         t \<leftarrow> set_release_timer hz j t;
         Some (t, frames)
       }
     else Some (t\<lparr>ar_reorder_timer := None\<rparr>, frames))"

definition sta_reorder_release ::
  "hdr_ops \<Rightarrow> u64 \<Rightarrow> u64 \<Rightarrow> tid_ampdu_rx \<times> rx_frame list \<Rightarrow> (tid_ampdu_rx \<times> rx_frame list) option" where
  "sta_reorder_release ops hz jiffies = (\<lambda>(t, frames).
     do {
       index \<leftarrow> head_index t;
       s \<leftarrow> release_ready ops hz jiffies index (t, frames);
       arm_release_timer hz s
     })"

text \<open>The frame goes to its slot, or past the buffer when it is the next one and nothing is stored. The
  first component of the result is the return value: \<open>False\<close> when the caller should process the
  frame itself.\<close>

definition place_frame ::
  "hdr_ops \<Rightarrow> u64 \<Rightarrow> u64 \<Rightarrow> rx_frame \<Rightarrow> tid_ampdu_rx \<times> rx_frame list \<Rightarrow>
   (bool \<times> tid_ampdu_rx \<times> rx_frame list) option" where
  "place_frame ops hz jiffies skb = (\<lambda>(t, frames).
     let mpdu_seq_num = frame_seq skb;
         index = unat mpdu_seq_num mod unat (ar_buf_size t)
     in if ar_buf_size t = 0 \<or> \<not> (index < length (ar_reorder_buf t) \<and> index < length (ar_reorder_time t)) then None
     else if rx_reorder_ready (ar_reorder_buf t ! index) then Some (True, t, frames)
     else if mpdu_seq_num = ar_head_seq_num t \<and> ar_stored_mpdu_num t = 0 then
       Some (False, if fr_amsdu_more skb then t else t\<lparr>ar_head_seq_num := sn_inc ops (ar_head_seq_num t)\<rparr>, frames)
     else do {
       let t = t\<lparr>ar_reorder_buf := (ar_reorder_buf t)[index := ar_reorder_buf t ! index @ [skb]]\<rparr>;
       (t, frames) \<leftarrow>
         (if \<not> fr_amsdu_more skb
          then sta_reorder_release ops hz jiffies
                 (t\<lparr>ar_reorder_time := (ar_reorder_time t)[index := jiffies],
                    ar_stored_mpdu_num := ar_stored_mpdu_num t + 1\<rparr>, frames)
          else Some (t, frames));
       Some (True, t, frames)
     })"

definition sta_manage_reorder_buf ::
  "hdr_ops \<Rightarrow> u64 \<Rightarrow> u64 \<Rightarrow> rx_frame \<Rightarrow> tid_ampdu_rx \<times> rx_frame list \<Rightarrow>
   (bool \<times> tid_ampdu_rx \<times> rx_frame list) option" where
  "sta_manage_reorder_buf ops hz jiffies skb = (\<lambda>(t, frames).
     let mpdu_seq_num = frame_seq skb;
         t = (if ar_auto_seq t then t\<lparr>ar_auto_seq := False, ar_ssn := mpdu_seq_num, ar_head_seq_num := mpdu_seq_num\<rparr> else t)
     in if sn_less ops mpdu_seq_num (ar_head_seq_num t) then Some (True, t, frames)
     else do {
       s \<leftarrow>
         (if \<not> sn_less ops mpdu_seq_num (ar_head_seq_num t + ar_buf_size t)
          then release_reorder_frames ops (sn_inc ops (sn_sub ops mpdu_seq_num (ar_buf_size t))) (t, frames)
          else Some (t, frames));
       place_frame ops hz jiffies skb s
     })"

text \<open>What the frame's way through the buffer adds for the caller: the sessions of a station by
  traffic identifier, the frames to process, and the frames queued for the interface's work.\<close>

definition QOS_CTL_ACK_POLICY_MASK :: u8 where "QOS_CTL_ACK_POLICY_MASK = 0x60"
definition QOS_CTL_ACK_POLICY_NORMAL :: u8 where "QOS_CTL_ACK_POLICY_NORMAL = 0x00"
definition QOS_CTL_ACK_POLICY_BLOCKACK :: u8 where "QOS_CTL_ACK_POLICY_BLOCKACK = 0x60"
definition QOS_CTL_TID_MASK :: u8 where "QOS_CTL_TID_MASK = 0x0f"
definition STYPE_NULLFUNC :: u16 where "STYPE_NULLFUNC = 0x0040"

definition rx_reorder_ampdu ::
  "hdr_ops \<Rightarrow> u64 \<Rightarrow> u64 \<Rightarrow> rx_frame \<Rightarrow> (nat \<Rightarrow> tid_ampdu_rx option) option \<Rightarrow> rx_frame list \<Rightarrow>
   ((nat \<Rightarrow> tid_ampdu_rx option) option \<times> rx_frame list \<times> rx_frame list) option" where
  "rx_reorder_ampdu ops hz jiffies skb sta frames =
     (let tid = unat (fr_qos_ctl skb AND QOS_CTL_TID_MASK);
          ack_policy = fr_qos_ctl skb AND QOS_CTL_ACK_POLICY_MASK;
          dont_reorder = Some (sta, frames @ [skb], [])
      in if \<not> is_data_qos ops (fr_frame_control skb) \<or> is_multicast ops (fr_addr1 skb) then dont_reorder
      else case sta of
        None \<Rightarrow> dont_reorder
      | Some tid_rx \<Rightarrow>
          (case tid_rx tid of
             None \<Rightarrow> dont_reorder
           | Some t \<Rightarrow>
               if fr_frame_control skb AND STYPE_NULLFUNC \<noteq> 0 then dont_reorder
               else if ack_policy \<noteq> QOS_CTL_ACK_POLICY_BLOCKACK \<and> ack_policy \<noteq> QOS_CTL_ACK_POLICY_NORMAL then dont_reorder
               else if \<not> fr_ra_match skb then dont_reorder
               else
                 (let t = (if ar_timeout t \<noteq> 0 then t\<lparr>ar_last_rx := jiffies\<rparr> else t) in
                  if fr_seq_ctrl skb AND SCTL_FRAG \<noteq> 0
                  then Some (Some (tid_rx(tid \<mapsto> t)), frames, [skb])
                  else do {
                    (ret, t, frames) \<leftarrow> sta_manage_reorder_buf ops hz jiffies skb (t, frames);
                    Some (Some (tid_rx(tid \<mapsto> t)), if ret then frames else frames @ [skb], [])
                  })))"

text \<open>The release timer: frames released go to the interface's queue.\<close>

definition release_reorder_timeout ::
  "hdr_ops \<Rightarrow> u64 \<Rightarrow> u64 \<Rightarrow> nat \<Rightarrow> (nat \<Rightarrow> tid_ampdu_rx option) \<Rightarrow> ((nat \<Rightarrow> tid_ampdu_rx option) \<times> rx_frame list) option" where
  "release_reorder_timeout ops hz jiffies tid tid_rx =
     (case tid_rx tid of
        None \<Rightarrow> Some (tid_rx, [])
      | Some t \<Rightarrow> do {
          (t, frames) \<leftarrow> sta_reorder_release ops hz jiffies (t, []);
          Some (tid_rx(tid \<mapsto> t), frames)
        })"

section \<open>Duplicates\<close>

datatype rx_result = RX_CONTINUE | RX_DROP_UNUSABLE | RX_DROP_MONITOR | RX_QUEUED

record dup_state =
  du_last_seq_ctrl :: "nat \<Rightarrow> u16"
  du_num_duplicates :: u64
  du_dot11FrameDuplicateCount :: u32

definition rx_h_check_dup :: "hdr_ops \<Rightarrow> rx_frame \<Rightarrow> nat \<Rightarrow> bool \<Rightarrow> dup_state \<Rightarrow> rx_result \<times> dup_state" where
  "rx_h_check_dup ops skb seqno_idx has_sta s =
     (if length (fr_data skb) < 24 then (RX_CONTINUE, s)
      else if is_ctl ops (fr_frame_control skb) \<or> is_qos_nullfunc ops (fr_frame_control skb) \<or> is_multicast ops (fr_addr1 skb)
      then (RX_CONTINUE, s)
      else if has_sta then
        (if has_retry ops (fr_frame_control skb) \<and> du_last_seq_ctrl s seqno_idx = fr_seq_ctrl skb then
           (RX_DROP_UNUSABLE,
            if fr_ra_match skb
            then s\<lparr>du_dot11FrameDuplicateCount := du_dot11FrameDuplicateCount s + 1, du_num_duplicates := du_num_duplicates s + 1\<rparr>
            else s)
         else if \<not> fr_amsdu_more skb
         then (RX_CONTINUE, s\<lparr>du_last_seq_ctrl := (du_last_seq_ctrl s)(seqno_idx := fr_seq_ctrl skb)\<rparr>)
         else (RX_CONTINUE, s))
      else (RX_CONTINUE, s))"

end
