(* ===== verification/RX_Window.thy ===== *)
theory RX_Window
  imports RX_Reorder "HOL-Library.Multiset"
begin

text \<open>
  The window of a block-ack session: distances between sequence numbers modulo 4096, the invariant
  \<open>reorder_inv\<close> of a session, and what it means to move the head of the window (\<open>advance\<close>). The
  loops of the code are shown to be such moves in theory \<open>RX_Release\<close>.
\<close>

section \<open>Sequence numbers\<close>

lemma sn_mask: "unat ((a :: u16) AND 0xfff) = unat a mod 4096"
proof -
  have "a AND 0xfff = take_bit 12 a" by (simp add: take_bit_eq_mask mask_eq_exp_minus_1)
  then show ?thesis by (simp add: unsigned_take_bit_eq take_bit_nat_def)
qed

definition dist :: "nat \<Rightarrow> nat \<Rightarrow> nat" where
  "dist h s = (s + 4096 - h) mod 4096"

lemma dist_less [simp]: "dist h s < 4096"
  by (simp add: dist_def)

lemma dist_add: "h < 4096 \<Longrightarrow> (h + dist h s) mod 4096 = s mod 4096"
proof -
  assume "h < 4096"
  then have "(h + (s + 4096 - h)) mod 4096 = s mod 4096" by simp
  then show ?thesis by (simp add: dist_def mod_add_right_eq)
qed

lemma dist_eq: "h < 4096 \<Longrightarrow> d < 4096 \<Longrightarrow> dist h ((h + d) mod 4096) = d"
proof -
  assume h: "h < 4096" and d: "d < 4096"
  show ?thesis
  proof (cases "h + d < 4096")
    case True
    then show ?thesis using d by (simp add: dist_def)
  next
    case False
    then have "(h + d) mod 4096 = h + d - 4096" using h d by (simp add: mod_if)
    with False h d show ?thesis by (simp add: dist_def)
  qed
qed

lemma unat_sub_mask: "unat ((a - b :: u16) AND 0xfff) = dist (unat b mod 4096) (unat a)"
proof -
  have lt: "unat b < 65536" using unsigned_less [of b] by simp
  have "unat (a - b) mod 4096 = (unat a + 65536 - unat b) mod 4096"
  proof (cases "unat b \<le> unat a")
    case True
    then have "unat a + 65536 - unat b = unat (a - b) + 16 * 4096" by (simp add: unat_sub_if')
    then show ?thesis by (simp only: mod_mult_self1)
  next
    case False
    then show ?thesis by (simp add: unat_sub_if')
  qed
  also have "unat a + 65536 - unat b = (unat a + 4096 - unat b mod 4096) + 4096 * (15 - unat b div 4096)"
  proof -
    have "unat b = 4096 * (unat b div 4096) + unat b mod 4096" by simp
    moreover have "unat b div 4096 \<le> 15" using lt by simp
    moreover have "unat b mod 4096 < 4096" by simp
    ultimately show ?thesis by (simp add: algebra_simps)
  qed
  also have "\<dots> mod 4096 = (unat a + 4096 - unat b mod 4096) mod 4096" by (rule mod_mult_self2)
  finally show ?thesis by (simp only: sn_mask dist_def)
qed

lemma frame_seq_less [simp]: "unat (frame_seq f) < 4096"
proof -
  have "unat (frame_seq f) = unat (fr_seq_ctrl f AND SCTL_SEQ) div 16"
    by (simp add: frame_seq_def drop_bit_eq_div unat_div)
  moreover have "unat (fr_seq_ctrl f AND SCTL_SEQ) < 65536" using unsigned_less [of "fr_seq_ctrl f AND SCTL_SEQ"] by simp
  ultimately show ?thesis by simp
qed

lemma sn_arith_less: "sn_arith ops \<Longrightarrow> sn_less ops a b \<longleftrightarrow> 2048 < dist (unat b mod 4096) (unat a)"
  by (simp add: sn_arith_def unat_sub_mask)

lemma sn_arith_inc: "sn_arith ops \<Longrightarrow> unat a < 4096 \<Longrightarrow> unat (sn_inc ops a) = (unat a + 1) mod 4096"
  by (simp add: sn_arith_def sn_mask unat_word_ariths mod_mod_cancel)

section \<open>The window\<close>

text \<open>The invariant for frames that are not part of a deaggregated A-MSDU, and a buffer size that divides
  4096: every slot holds at most one frame, the frame's sequence number belongs to the slot and
  to the window that starts at the head, and the counter counts the slots in use.\<close>

definition sn_head :: "tid_ampdu_rx \<Rightarrow> nat" where
  "sn_head t = unat (ar_head_seq_num t)"

definition window :: "tid_ampdu_rx \<Rightarrow> nat" where
  "window t = unat (ar_buf_size t)"

definition in_slot :: "tid_ampdu_rx \<Rightarrow> nat \<Rightarrow> rx_frame \<Rightarrow> bool" where
  "in_slot t i f \<longleftrightarrow> \<not> fr_amsdu_more f \<and> unat (frame_seq f) mod window t = i \<and>
     dist (sn_head t) (unat (frame_seq f)) < window t"

definition reorder_inv :: "tid_ampdu_rx \<Rightarrow> bool" where
  "reorder_inv t \<longleftrightarrow> 2 \<le> window t \<and> window t \<le> 1024 \<and> window t dvd 4096 \<and>
     length (ar_reorder_buf t) = window t \<and> length (ar_reorder_time t) = window t \<and> sn_head t < 4096 \<and>
     (\<forall>i<window t. ar_reorder_buf t ! i = [] \<or> (\<exists>f. ar_reorder_buf t ! i = [f] \<and> in_slot t i f)) \<and>
     unat (ar_stored_mpdu_num t) = length (filter (\<lambda>l. l \<noteq> []) (ar_reorder_buf t)) \<and>
     (ar_auto_seq t \<longrightarrow> ar_stored_mpdu_num t = 0)"

definition slot :: "tid_ampdu_rx \<Rightarrow> nat \<Rightarrow> rx_frame list" where
  "slot t d = ar_reorder_buf t ! ((sn_head t + d) mod window t)"

lemma reorder_invD:
  assumes "reorder_inv t"
  shows "2 \<le> window t" "window t \<le> 1024" "window t dvd 4096" "length (ar_reorder_buf t) = window t"
    "length (ar_reorder_time t) = window t" "sn_head t < 4096"
    "\<And>i. i < window t \<Longrightarrow> ar_reorder_buf t ! i = [] \<or> (\<exists>f. ar_reorder_buf t ! i = [f] \<and> in_slot t i f)"
    "unat (ar_stored_mpdu_num t) = length (filter (\<lambda>l. l \<noteq> []) (ar_reorder_buf t))" "0 < window t"
  using assms by (auto simp: reorder_inv_def)

lemma mod_add_cancel: "(a + b) mod n = (a + c) mod n \<longleftrightarrow> b mod n = c mod (n :: nat)"
proof
  assume "(a + b) mod n = (a + c) mod n"
  then have "(int a + int b) mod int n = (int a + int c) mod int n" by (metis of_nat_add of_nat_mod)
  then have "((int a + int b) mod int n - int a) mod int n = ((int a + int c) mod int n - int a) mod int n" by simp
  then have "int b mod int n = int c mod int n" by (simp add: mod_diff_left_eq)
  then show "b mod n = c mod n" by (metis of_nat_eq_iff of_nat_mod)
qed (metis mod_add_right_eq)

lemma mod_window: "window t dvd 4096 \<Longrightarrow> (a mod 4096 + b) mod window t = (a + b) mod window t"
  by (metis mod_add_left_eq mod_mod_cancel)

lemma dist_mod_window:
  assumes "window t dvd 4096" "sn_head t < 4096" "s < 4096"
  shows "(sn_head t + dist (sn_head t) s) mod window t = s mod window t"
  using dist_add [OF assms(2), of s] assms(1,3) by (metis mod_less mod_mod_cancel)

text \<open>Slot \<open>d\<close> counted from the head holds the frame whose number is \<open>d\<close> behind the head.\<close>

lemma slot_frame:
  assumes inv: "reorder_inv t" and d: "d < window t"
  shows "slot t d = [] \<or> (\<exists>f. slot t d = [f] \<and> \<not> fr_amsdu_more f \<and> dist (sn_head t) (unat (frame_seq f)) = d)"
proof -
  let ?i = "(sn_head t + d) mod window t"
  note I = reorder_invD [OF inv]
  have "?i < window t" using I(9) by simp
  moreover have "dist (sn_head t) (unat (frame_seq f)) = d" if "in_slot t ?i f" for f
  proof -
    let ?d = "dist (sn_head t) (unat (frame_seq f))"
    have "(sn_head t + ?d) mod window t = (sn_head t + d) mod window t" "?d < window t"
      using that dist_mod_window [OF I(3,6)] by (simp_all add: in_slot_def)
    then have "?d mod window t = d mod window t" by (simp only: mod_add_cancel)
    with \<open>?d < window t\<close> d show ?thesis by simp
  qed
  ultimately show ?thesis using I(7) [of ?i] by (auto simp: slot_def in_slot_def)
qed

lemma ready_single [simp]: "rx_reorder_ready [] = False" "rx_reorder_ready [f] = (\<not> fr_amsdu_more f)"
  by (simp_all add: rx_reorder_ready_def)

lemma slot_ready: "reorder_inv t \<Longrightarrow> i < window t \<Longrightarrow> rx_reorder_ready (ar_reorder_buf t ! i) \<longleftrightarrow> ar_reorder_buf t ! i \<noteq> []"
  using reorder_invD(7) [of t i] by (auto simp: in_slot_def)

section \<open>Advancing the head\<close>

definition advance1 :: "hdr_ops \<Rightarrow> tid_ampdu_rx \<Rightarrow> tid_ampdu_rx" where
  "advance1 ops t = t\<lparr>ar_head_seq_num := sn_inc ops (ar_head_seq_num t),
     ar_reorder_buf := (ar_reorder_buf t)[sn_head t mod window t := []],
     ar_stored_mpdu_num := (if slot t 0 = [] then ar_stored_mpdu_num t else ar_stored_mpdu_num t - 1)\<rparr>"

definition advance :: "hdr_ops \<Rightarrow> nat \<Rightarrow> tid_ampdu_rx \<Rightarrow> tid_ampdu_rx" where
  "advance ops m t = (advance1 ops ^^ m) t"

definition released :: "rx_frame list \<Rightarrow> rx_frame list" where
  "released fs = map (\<lambda>f. f\<lparr>fr_deferred_release := True\<rparr>) fs"

lemma length_filter_clear:
  "i < length xs \<Longrightarrow> length (filter (\<lambda>l. l \<noteq> []) xs) =
     length (filter (\<lambda>l. l \<noteq> []) (xs[i := []])) + (if xs ! i = [] then 0 else 1)"
  by (induction xs arbitrary: i) (auto simp: nth_Cons split: nat.splits)

lemma filter_nonempty_pos: "i < length xs \<Longrightarrow> xs ! i \<noteq> [] \<Longrightarrow> 0 < length (filter (\<lambda>l. l \<noteq> []) xs)"
  using nth_mem by (fastforce simp: filter_empty_conv)

lemma unat_dec: "0 < unat (x :: u16) \<Longrightarrow> unat (x - 1) = unat x - 1"
  by (simp add: unat_minus_one unat_gt_0)

lemma advance1_fields [simp]:
  "window (advance1 ops t) = window t" "ar_reorder_time (advance1 ops t) = ar_reorder_time t"
  "ar_removed (advance1 ops t) = ar_removed t" "ar_buf_size (advance1 ops t) = ar_buf_size t"
  "ar_auto_seq (advance1 ops t) = ar_auto_seq t"
  by (simp_all add: advance1_def window_def)

lemma advance1_buf: "ar_reorder_buf (advance1 ops t) = (ar_reorder_buf t)[sn_head t mod window t := []]"
  by (simp add: advance1_def)

lemma advance1_head: "sn_arith ops \<Longrightarrow> sn_head t < 4096 \<Longrightarrow> sn_head (advance1 ops t) = (sn_head t + 1) mod 4096"
  by (simp add: advance1_def sn_head_def sn_arith_inc)

lemma dist_advance:
  assumes "h < 4096" "s < 4096" "dist h s \<noteq> 0"
  shows "dist ((h + 1) mod 4096) s = dist h s - 1"
proof -
  have "((h + 1) mod 4096 + (dist h s - 1)) mod 4096 = (h + dist h s) mod 4096"
    using assms(3) mod_add_left_eq [of "h + 1" 4096 "dist h s - 1"] by simp
  also have "\<dots> = s" using dist_add [OF assms(1), of s] assms(2) by simp
  finally show ?thesis using dist_eq [of "(h + 1) mod 4096" "dist h s - 1"] by (simp add: less_imp_diff_less)
qed

lemma advance1_inv:
  assumes ops: "sn_arith ops" and inv: "reorder_inv t"
  shows "reorder_inv (advance1 ops t)"
proof -
  note I = reorder_invD [OF inv]
  let ?t = "advance1 ops t" and ?i = "sn_head t mod window t"
  have i: "?i < length (ar_reorder_buf t)" using I by simp
  have head: "sn_head ?t = (sn_head t + 1) mod 4096" using advance1_head [OF ops I(6)] .
  have buf: "ar_reorder_buf ?t = (ar_reorder_buf t)[?i := []]" by (simp add: advance1_def)
  have "ar_reorder_buf ?t ! i = [] \<or> (\<exists>f. ar_reorder_buf ?t ! i = [f] \<and> in_slot ?t i f)" if "i < window t" for i
  proof (cases "i = ?i")
    case True
    then show ?thesis using i by (simp add: buf)
  next
    case False
    have "in_slot ?t i f" if f: "in_slot t i f" for f
    proof -
      have "dist (sn_head t) (unat (frame_seq f)) \<noteq> 0"
      proof
        assume "dist (sn_head t) (unat (frame_seq f)) = 0"
        then have "unat (frame_seq f) mod window t = ?i" using dist_mod_window [OF I(3,6), of "unat (frame_seq f)"] by simp
        with f False show False by (simp add: in_slot_def)
      qed
      with f dist_advance [OF I(6), of "unat (frame_seq f)"] show ?thesis by (simp add: in_slot_def head less_imp_diff_less)
    qed
    with False I(7) [OF that] show ?thesis by (auto simp: buf)
  qed
  moreover have "unat (ar_stored_mpdu_num ?t) = length (filter (\<lambda>l. l \<noteq> []) (ar_reorder_buf ?t))"
    using I(8) length_filter_clear [OF i] filter_nonempty_pos [OF i] unat_dec [of "ar_stored_mpdu_num t"]
    by (auto simp: advance1_def slot_def)
  moreover have "ar_auto_seq t \<longrightarrow> ar_stored_mpdu_num ?t = 0"
  proof
    assume "ar_auto_seq t"
    then have z: "ar_stored_mpdu_num t = 0" using inv by (simp add: reorder_inv_def)
    then have "slot t 0 = []" using filter_nonempty_pos [OF i] I(8) by (auto simp: slot_def)
    with z show "ar_stored_mpdu_num ?t = 0" by (simp add: advance1_def)
  qed
  ultimately show ?thesis using I head buf by (simp add: reorder_inv_def)
qed

lemma advance_inv: "sn_arith ops \<Longrightarrow> reorder_inv t \<Longrightarrow> reorder_inv (advance ops m t)"
  unfolding advance_def by (induction m) (simp_all add: advance1_inv)

lemma advance_0 [simp]: "advance ops 0 t = t"
  by (simp add: advance_def)

lemma advance_Suc: "advance ops (Suc m) t = advance1 ops (advance ops m t)"
  by (simp add: advance_def)

lemma advance_add: "advance ops m (advance ops n t) = advance ops (m + n) t"
  by (simp add: advance_def funpow_add)

lemma advance_fields [simp]:
  "window (advance ops m t) = window t" "ar_reorder_time (advance ops m t) = ar_reorder_time t"
  "ar_removed (advance ops m t) = ar_removed t" "ar_buf_size (advance ops m t) = ar_buf_size t"
  "ar_auto_seq (advance ops m t) = ar_auto_seq t"
  by (induction m) (simp_all add: advance_Suc)

lemma advance_head:
  "sn_arith ops \<Longrightarrow> reorder_inv t \<Longrightarrow> sn_head (advance ops m t) = (sn_head t + m) mod 4096"
proof (induction m)
  case 0
  then show ?case using reorder_invD(6) by simp
next
  case (Suc m)
  then have "sn_head (advance1 ops (advance ops m t)) = (sn_head (advance ops m t) + 1) mod 4096"
    using advance1_head reorder_invD(6) [OF advance_inv] by blast
  with Suc show ?case by (simp add: advance_Suc mod_Suc_eq)
qed

lemma slot_advance1:
  assumes ops: "sn_arith ops" and inv: "reorder_inv t" and d: "d < window t"
  shows "slot (advance1 ops t) d = (if Suc d < window t then slot t (Suc d) else [])"
proof -
  note I = reorder_invD [OF inv]
  have idx: "(sn_head (advance1 ops t) + d) mod window t = (sn_head t + Suc d) mod window t"
    unfolding advance1_head [OF ops I(6)] using mod_window [OF I(3), of "sn_head t + 1" d] by simp
  have "(sn_head t + Suc d) mod window t = sn_head t mod window t \<longleftrightarrow> \<not> Suc d < window t"
  proof
    assume "(sn_head t + Suc d) mod window t = sn_head t mod window t"
    then have "Suc d mod window t = 0" using mod_add_cancel [of "sn_head t" "Suc d" "window t" 0] by simp
    then show "\<not> Suc d < window t" by (metis mod_less nat.distinct(1))
  next
    assume "\<not> Suc d < window t"
    then have "Suc d = window t" using d by simp
    then show "(sn_head t + Suc d) mod window t = sn_head t mod window t" by simp
  qed
  with I(4,9) show ?thesis unfolding slot_def advance1_buf advance1_fields idx by auto
qed

definition emitted :: "tid_ampdu_rx \<Rightarrow> nat \<Rightarrow> rx_frame list" where
  "emitted t m = concat (map (slot t) [0..<min m (window t)])"

lemma slot_advance:
  assumes ops: "sn_arith ops" and inv: "reorder_inv t"
  shows "d < window t \<Longrightarrow> slot (advance ops m t) d = (if m + d < window t then slot t (m + d) else [])"
proof (induction m arbitrary: d)
  case (Suc m)
  have "slot (advance ops (Suc m) t) d = (if Suc d < window t then slot (advance ops m t) (Suc d) else [])"
    unfolding advance_Suc using slot_advance1 [OF ops advance_inv [OF ops inv], of d m] Suc.prems by simp
  also have "\<dots> = (if Suc m + d < window t then slot t (Suc m + d) else [])"
    using Suc.IH [of "Suc d"] by simp
  finally show ?case .
qed simp

lemma emitted_Suc:
  assumes ops: "sn_arith ops" and inv: "reorder_inv t"
  shows "emitted t (Suc m) = emitted t m @ slot (advance ops m t) 0"
proof -
  have "0 < window t" using reorder_invD(9) [OF inv] .
  with slot_advance [OF ops inv, of 0 m] show ?thesis
    by (cases "m < window t") (simp_all add: emitted_def min_def)
qed

lemma emitted_add:
  assumes ops: "sn_arith ops" and inv: "reorder_inv t"
  shows "emitted t (m + n) = emitted t m @ emitted (advance ops m t) n"
proof (induction n)
  case (Suc n)
  have "emitted t (m + Suc n) = emitted t (m + n) @ slot (advance ops (m + n) t) 0"
    using emitted_Suc [OF ops inv] by simp
  also have "\<dots> = emitted t m @ emitted (advance ops m t) (Suc n)"
    using Suc emitted_Suc [OF ops advance_inv [OF ops inv], of m n] by (simp add: advance_add add.commute)
  finally show ?case .
qed (simp add: emitted_def)

text \<open>Emitted frames come in the order of their numbers, from the old head on and below the new one.\<close>

lemma emitted_sorted:
  assumes inv: "reorder_inv t"
  shows "sorted_wrt (\<lambda>f g. dist (sn_head t) (unat (frame_seq f)) < dist (sn_head t) (unat (frame_seq g))) (emitted t m)"
    and "\<forall>f\<in>set (emitted t m). dist (sn_head t) (unat (frame_seq f)) < min m (window t)"
proof -
  let ?R = "\<lambda>f g. dist (sn_head t) (unat (frame_seq f)) < dist (sn_head t) (unat (frame_seq g))"
  have "sorted_wrt ?R (concat (map (slot t) [0..<n])) \<and>
      (\<forall>f\<in>set (concat (map (slot t) [0..<n])). dist (sn_head t) (unat (frame_seq f)) < n)" if "n \<le> window t" for n
    using that
  proof (induction n)
    case (Suc n)
    then have n: "n < window t" by simp
    with Suc slot_frame [OF inv n] show ?case by (fastforce simp: sorted_wrt_append less_Suc_eq)
  qed simp
  from this [of "min m (window t)"] show "sorted_wrt ?R (emitted t m)"
    "\<forall>f\<in>set (emitted t m). dist (sn_head t) (unat (frame_seq f)) < min m (window t)"
    by (simp_all add: emitted_def)
qed

text \<open>Nothing is lost or doubled.\<close>

lemma mset_concat_clear:
  "i < length xs \<Longrightarrow> mset (concat (xs[i := []])) + mset (xs ! i) = mset (concat xs)"
  by (induction xs arbitrary: i) (auto simp: nth_Cons split: nat.splits)

lemma emitted_mset:
  assumes ops: "sn_arith ops" and inv: "reorder_inv t"
  shows "mset (emitted t m) + mset (concat (ar_reorder_buf (advance ops m t))) = mset (concat (ar_reorder_buf t))"
proof (induction m)
  case (Suc m)
  let ?t = "advance ops m t"
  note I = reorder_invD [OF advance_inv [OF ops inv, of m]]
  have "sn_head ?t mod window ?t < length (ar_reorder_buf ?t)" using I(4,9) by simp
  from mset_concat_clear [OF this] have
    "mset (concat (ar_reorder_buf (advance ops (Suc m) t))) + mset (slot ?t 0) = mset (concat (ar_reorder_buf ?t))"
    by (simp add: advance_Suc advance1_buf slot_def)
  with Suc emitted_Suc [OF ops inv, of m] show ?case by (simp add: ac_simps)
qed (simp add: emitted_def)

section \<open>Releasing at the head\<close>

lemma head_index_Some: "reorder_inv t \<Longrightarrow> head_index t = Some (sn_head t mod window t)"
  using reorder_invD(9) [of t] by (auto simp: head_index_def sn_head_def window_def)

lemma release_head:
  assumes inv: "reorder_inv t"
  shows "release_reorder_frame ops (sn_head t mod window t) (t, fs) = Some (advance1 ops t, fs @ released (slot t 0))"
proof -
  note I = reorder_invD [OF inv]
  have i: "sn_head t mod window t < window t" using I(9) by simp
  show ?thesis
  proof (cases "slot t 0 = []")
    case True
    then have "(ar_reorder_buf t)[sn_head t mod window t := []] = ar_reorder_buf t"
      using list_update_id [of "ar_reorder_buf t" "sn_head t mod window t"] by (simp add: slot_def)
    with True i I(4) show ?thesis
      by (simp add: release_reorder_frame_def advance1_def slot_def released_def)
  next
    case False
    with slot_ready [OF inv i] i I(4) show ?thesis
      by (simp add: release_reorder_frame_def advance1_def slot_def released_def Let_def)
  qed
qed

lemma released_append [simp]: "released (xs @ ys) = released xs @ released ys"
  by (simp add: released_def)

text \<open>One round of a loop that releases at the head, after \<open>m\<close> rounds.\<close>

lemma release_round:
  assumes ops: "sn_arith ops" and inv: "reorder_inv t"
  shows "do { index \<leftarrow> head_index (advance ops m t); release_reorder_frame ops index (advance ops m t, fs @ released (emitted t m)) } =
    Some (advance ops (Suc m) t, fs @ released (emitted t (Suc m)))"
  using head_index_Some [OF advance_inv [OF ops inv, of m]] release_head [OF advance_inv [OF ops inv, of m], of ops "fs @ released (emitted t m)"]
    emitted_Suc [OF ops inv, of m]
  by (simp add: advance_Suc)

lemma release_frames_advance:
  assumes ops: "sn_arith ops" and inv: "reorder_inv t" and D: "dist (sn_head t) (unat target) = D" "D < 2048" "unat target < 4096"
  shows "release_reorder_frames ops target (t, fs) = Some (advance ops D t, fs @ released (emitted t D))"
proof -
  note I = reorder_invD [OF inv]
  let ?b = "\<lambda>(t, frames). sn_less ops (ar_head_seq_num t) target"
  let ?c = "\<lambda>(t, frames). do { index \<leftarrow> head_index t; release_reorder_frame ops index (t, frames) }"
  have cond: "?b (advance ops m t, x) \<longleftrightarrow> m < D" if "m \<le> D" for m x
  proof -
    have tg: "unat target = (sn_head t + D) mod 4096" using dist_add [OF I(6), of "unat target"] D by simp
    have h: "unat (ar_head_seq_num (advance ops m t)) = (sn_head t + m) mod 4096"
      using advance_head [OF ops inv, of m] by (simp add: sn_head_def)
    have "dist (unat target) ((sn_head t + m) mod 4096) = (if m = D then 0 else 4096 - (D - m))"
    proof (cases "m = D")
      case True
      then show ?thesis using dist_eq [of "unat target" 0] D(3) tg by simp
    next
      case False
      with that have "(sn_head t + D + (4096 - (D - m))) mod 4096 = (sn_head t + m + 4096) mod 4096" using D(2) by (intro arg_cong [of _ _ "\<lambda>x. x mod 4096"]) simp
      then have "(unat target + (4096 - (D - m))) mod 4096 = (sn_head t + m) mod 4096"
        unfolding tg by (simp add: mod_add_left_eq)
      with dist_eq [OF D(3), of "4096 - (D - m)"] False that show ?thesis by simp
    qed
    with that D(2,3) show ?thesis by (auto simp: sn_arith_less [OF ops] h)
  qed
  have "loop_opt ?b ?c (advance ops m t, fs @ released (emitted t m)) = Some (advance ops D t, fs @ released (emitted t D))" if "m \<le> D" for m
    using that
  proof (induction "D - m" arbitrary: m)
    case 0
    then show ?case using cond [of m] by (simp add: loop_opt_stop)
  next
    case (Suc x)
    then have "?b (advance ops m t, fs @ released (emitted t m))" using cond [of m] by simp
    from loop_opt_step [of ?b _ ?c, OF this] release_round [OF ops inv, of m fs] Suc.hyps(1) [of "Suc m"] Suc.hyps(2) Suc.prems
    show ?case by simp
  qed
  from this [of 0] show ?thesis by (simp add: release_reorder_frames_def emitted_def released_def)
qed

end
