(* ===== verification/RX_Release.thy ===== *)
theory RX_Release
  imports RX_Window
begin

text \<open>
  The release functions of the reorder buffer under the invariant: every loop ends, and the functions
  move the head and hand on the frames passed, no more and no less.
\<close>

section \<open>Loops\<close>

lemma slot_in_buf: "reorder_inv t \<Longrightarrow> ar_reorder_buf t ! ((sn_head t + d) mod window t) = slot t d"
  by (simp add: slot_def)

lemma stored_pos:
  assumes "reorder_inv t" "slot t d \<noteq> []"
  shows "0 < unat (ar_stored_mpdu_num t)"
proof -
  note I = reorder_invD [OF assms(1)]
  have "(sn_head t + d) mod window t < length (ar_reorder_buf t)" using I(4,9) by simp
  from filter_nonempty_pos [OF this] assms(2) I(8) show ?thesis by (simp add: slot_def)
qed

lemma drain_ready:
  assumes ops: "sn_arith ops" and inv: "reorder_inv t"
  shows "\<exists>m. loop_opt (\<lambda>(t, frames). case head_index t of None \<Rightarrow> False
                           | Some index \<Rightarrow> index < length (ar_reorder_buf t) \<and> rx_reorder_ready (ar_reorder_buf t ! index))
                 (\<lambda>(t, frames). do { index \<leftarrow> head_index t; release_reorder_frame ops index (t, frames) })
                 (t, fs) = Some (advance ops m t, fs @ released (emitted t m)) \<and> m \<le> window t \<and> slot (advance ops m t) 0 = []"
    (is "\<exists>m. loop_opt ?b ?c _ = _ \<and> _ \<and> _")
proof -
  let ?I = "\<lambda>s. \<exists>m. s = (advance ops m t, fs @ released (emitted t m)) \<and> m \<le> window t"
  have "?I (t, fs)" by (intro exI [of _ 0]) (simp add: emitted_def released_def)
  moreover have "\<exists>s'. ?c s = Some s' \<and> ?I s' \<and> unat (ar_stored_mpdu_num (fst s')) < unat (ar_stored_mpdu_num (fst s))"
    if I: "?I s" and b: "?b s" for s
  proof -
    obtain m where s: "s = (advance ops m t, fs @ released (emitted t m))" and m: "m \<le> window t" using I by blast
    let ?t = "advance ops m t"
    note inv' = advance_inv [OF ops inv, of m]
    have "slot ?t 0 \<noteq> []"
      using b head_index_Some [OF inv'] by (auto simp: s slot_def)
    moreover from this have "m < window t"
      using slot_advance [OF ops inv, of 0 m] reorder_invD(9) [OF inv] m by (cases "m < window t") auto
    ultimately have "m < window t" and "unat (ar_stored_mpdu_num (advance1 ops ?t)) < unat (ar_stored_mpdu_num ?t)"
      using stored_pos [OF inv'] unat_dec
      by (auto simp: advance1_def)
    then have "unat (ar_stored_mpdu_num (advance ops (Suc m) t)) < unat (ar_stored_mpdu_num ?t)" by (simp add: advance_Suc)
    with release_round [OF ops inv, of m fs] \<open>m < window t\<close> show ?thesis
      unfolding s by (auto intro!: exI [of _ "Suc m"])
  qed
  ultimately obtain r where r: "loop_opt ?b ?c (t, fs) = Some r" "?I r" "\<not> ?b r"
    using loop_opt_measure [of ?I "(t, fs)" ?b ?c "\<lambda>s. unat (ar_stored_mpdu_num (fst s))"] by blast
  then obtain m where m: "r = (advance ops m t, fs @ released (emitted t m))" "m \<le> window t" by blast
  note inv' = advance_inv [OF ops inv, of m]
  have "slot (advance ops m t) 0 = []"
    using r(3) slot_ready [OF inv'] head_index_Some [OF inv'] reorder_invD(4,9) [OF inv']
    by (auto simp: m(1) slot_def)
  with r(1) m show ?thesis by blast
qed

text \<open>Skipping empty slots only moves the head.\<close>

lemma sn_add: "sn_arith ops \<Longrightarrow> sn_inc ops (z AND 0xfff) = (z + 1) AND 0xfff"
  by (rule word_unat_eq_iff [THEN iffD2])
    (simp add: sn_arith_def sn_mask unat_word_ariths mod_mod_cancel mod_Suc_eq)

lemma advance_empty:
  assumes ops: "sn_arith ops" and inv: "reorder_inv t"
  shows "s \<le> window t \<Longrightarrow> \<forall>e < s. slot t e = [] \<Longrightarrow>
    advance ops s t = t\<lparr>ar_head_seq_num := (ar_head_seq_num t + of_nat s) AND 0xfff\<rparr>"
proof (induction s)
  case 0
  have "ar_head_seq_num t AND 0xfff = ar_head_seq_num t"
    by (rule word_unat_eq_iff [THEN iffD2]) (use reorder_invD(6) [OF inv] in \<open>simp add: sn_mask sn_head_def\<close>)
  then show ?case by simp
next
  case (Suc s)
  let ?t = "advance ops s t"
  note I = reorder_invD [OF inv]
  have t: "?t = t\<lparr>ar_head_seq_num := (ar_head_seq_num t + of_nat s) AND 0xfff\<rparr>" using Suc by simp
  have empty: "slot ?t 0 = []" using slot_advance [OF ops inv, of 0 s] Suc.prems I(9) by simp
  then have "(ar_reorder_buf ?t)[sn_head ?t mod window ?t := []] = ar_reorder_buf ?t"
    using list_update_id [of "ar_reorder_buf ?t" "sn_head ?t mod window ?t"] by (simp add: slot_def)
  with empty have "advance1 ops ?t = ?t\<lparr>ar_head_seq_num := sn_inc ops (ar_head_seq_num ?t)\<rparr>"
    by (simp add: advance1_def)
  also have "\<dots> = t\<lparr>ar_head_seq_num := (ar_head_seq_num t + of_nat (Suc s)) AND 0xfff\<rparr>"
    unfolding t using sn_add [OF ops, of "ar_head_seq_num t + of_nat s"] by (simp add: ac_simps)
  finally show ?case by (simp add: advance_Suc)
qed

lemma mod_step: "((a + d) mod n + 1) mod n = (a + Suc d) mod (n :: nat)"
  by (simp add: mod_Suc_eq)

lemma purge_nothing:
  assumes inv: "reorder_inv t" and d: "1 \<le> d" "d < window t"
    and empty: "\<forall>e. 1 \<le> e \<and> e < d \<longrightarrow> ar_reorder_buf t ! ((h + e) mod window t) = []"
  shows "purge_between (h mod window t) ((h + d) mod window t) t = Some t"
proof -
  note I = reorder_invD [OF inv]
  let ?n = "window t" and ?j = "(h + d) mod window t"
  let ?c = "\<lambda>(i, t). if i < length (ar_reorder_buf t)
                    then Some ((i + 1) mod ?n, t\<lparr>ar_reorder_buf := (ar_reorder_buf t)[i := []]\<rparr>) else None"
  have "loop_opt (\<lambda>(i, t). i \<noteq> ?j) ?c ((h + e) mod ?n, t) = Some (?j, t)" if "1 \<le> e" "e \<le> d" for e
    using that
  proof (induction "d - e" arbitrary: e)
    case 0
    then show ?case by (simp add: loop_opt_stop)
  next
    case (Suc x)
    then have e: "e < d" by simp
    then have ne: "(h + e) mod ?n \<noteq> ?j" using d Suc.prems by (simp add: mod_add_cancel)
    have "(ar_reorder_buf t)[(h + e) mod ?n := []] = ar_reorder_buf t"
      using empty e Suc.prems list_update_id [of "ar_reorder_buf t" "(h + e) mod ?n"] by simp
    then have "?c ((h + e) mod ?n, t) = Some ((h + Suc e) mod ?n, t)" using I(4,9) by (simp add: mod_Suc_eq)
    from loop_opt_step [of "\<lambda>(i, t). i \<noteq> ?j" _ ?c, OF _ this] ne Suc.hyps(1) [of "Suc e"] Suc.hyps(2) Suc.prems
    show ?case by simp
  qed
  from this [of 1] d show ?thesis by (simp add: purge_between_def window_def [symmetric] Let_def mod_Suc_eq)
qed

lemma cleared:
  assumes ops: "sn_arith ops" and inv: "reorder_inv t" and "e < m" "m \<le> window t"
  shows "ar_reorder_buf (advance ops m t) ! ((sn_head t + e) mod window t) = []"
proof -
  note I = reorder_invD [OF inv]
  let ?d = "window t - m + e"
  have d: "?d < window t" using assms(3,4) by simp
  have "(sn_head (advance ops m t) + ?d) mod window t = (sn_head t + m + ?d) mod window t"
    unfolding advance_head [OF ops inv] using mod_window [OF I(3)] .
  also have "sn_head t + m + ?d = (sn_head t + e) + window t" using assms(4) by simp
  finally have "slot (advance ops m t) ?d = ar_reorder_buf (advance ops m t) ! ((sn_head t + e) mod window t)"
    by (simp add: slot_def)
  with slot_advance [OF ops inv d, of m] assms(4) show ?thesis by simp
qed

text \<open>The loop over timed-out frames: after looking at distance \<open>d\<close>, the head has moved to just behind the last frame
  released, and the \<open>skipped\<close> slots since then are empty.\<close>

definition timeout_inv ::
  "hdr_ops \<Rightarrow> tid_ampdu_rx \<Rightarrow> rx_frame list \<Rightarrow> nat \<Rightarrow> nat \<times> nat \<times> bool \<times> tid_ampdu_rx \<times> rx_frame list \<Rightarrow> bool" where
  "timeout_inv ops t fs d s \<longleftrightarrow> (case s of (j, skipped, stop, t', fs') \<Rightarrow>
     1 \<le> d \<and> d \<le> window t \<and> (stop \<longrightarrow> d < window t \<and> skipped \<noteq> 0) \<and> j = (sn_head t + d) mod window t \<and> skipped \<le> d \<and>
     t' = advance ops (d - skipped) t \<and> fs' = fs @ released (emitted t (d - skipped)) \<and>
     (\<forall>e. d - skipped \<le> e \<and> e < d \<longrightarrow> slot t e = []))"

lemma sn_inc_shift: "sn_arith ops \<Longrightarrow> (sn_inc ops x + s) AND 0xfff = sn_inc ops ((x + s) AND 0xfff)"
proof -
  assume ops: "sn_arith ops"
  have "unat ((((x + 1) AND 0xfff) + s) AND 0xfff) = unat ((x + s + 1) AND 0xfff)"
    by (simp add: sn_mask unat_word_ariths mod_mod_cancel mod_add_left_eq mod_Suc_eq)
  with ops sn_add [OF ops, of "x + s"] show ?thesis by (simp add: sn_arith_def unsigned_word_eqI)
qed

lemma timeout_round:
  assumes ops: "sn_arith ops" and inv: "reorder_inv t" and ti: "timeout_inv ops t fs d (j, skipped, False, t', fs')"
    and d: "d < window t"
  shows "\<exists>s'. timeout_body ops hz jiffies (sn_head t mod window t) (j, skipped, False, t', fs') = Some s' \<and>
    (timeout_inv ops t fs (Suc d) s' \<and> \<not> fst (snd (snd s')) \<or> timeout_inv ops t fs d s' \<and> fst (snd (snd s')))"
proof -
  note I = reorder_invD [OF inv]
  let ?n = "window t" and ?m = "d - skipped"
  have j: "j = (sn_head t + d) mod ?n" and sk: "skipped \<le> d" and d1: "1 \<le> d" and t': "t' = advance ops ?m t"
    and fs': "fs' = fs @ released (emitted t ?m)" and gap: "\<And>e. ?m \<le> e \<Longrightarrow> e < d \<Longrightarrow> slot t e = []"
    using ti by (auto simp: timeout_inv_def)
  have inv': "reorder_inv t'" using advance_inv [OF ops inv] by (simp add: t')
  note I' = reorder_invD [OF inv']
  have n: "window t' = ?n" "unat (ar_buf_size t') = ?n" by (simp_all add: t' window_def [symmetric])
  have jn: "j < ?n" using I(9) by (simp add: j)
  have h': "sn_head t' = (sn_head t + ?m) mod 4096" by (simp add: t' advance_head [OF ops inv])
  have idx: "(sn_head t' + skipped) mod ?n = j"
    unfolding h' using mod_window [OF I(3), of "sn_head t + ?m" skipped] sk by (simp add: j)
  have slotj: "ar_reorder_buf t' ! j = slot t d"
    using slot_advance [OF ops inv, of skipped ?m] d sk idx by (simp add: slot_def t' [symmetric] n(1))
  have lens: "j < length (ar_reorder_buf t')" "j < length (ar_reorder_time t')" using I'(4,5) jn n by simp_all
  have ready: "rx_reorder_ready (ar_reorder_buf t' ! j) \<longleftrightarrow> slot t d \<noteq> []"
    using slot_ready [OF inv', of j] jn n slotj by simp
  show ?thesis
  proof (cases "slot t d = []")
    case True
    have "timeout_inv ops t fs (Suc d) ((j + 1) mod ?n, skipped + 1, False, t', fs')"
      unfolding timeout_inv_def using d sk t' fs' gap True by (auto simp: j mod_Suc_eq less_Suc_eq)
    with True ready lens n show ?thesis by (auto simp: timeout_body_def Let_def)
  next
    case full: False
    show ?thesis
    proof (cases "skipped \<noteq> 0 \<and> \<not> time_after ops jiffies (ar_reorder_time t' ! j + HT_RX_REORDER_BUF_TIMEOUT hz)")
      case True
      have "timeout_inv ops t fs d (j, skipped, True, t', fs')" using ti d True by (simp add: timeout_inv_def)
      with True full ready lens n show ?thesis by (auto simp: timeout_body_def Let_def)
    next
      case go: False
      have empty': "\<forall>e < skipped. slot t' e = []"
        using slot_advance [OF ops inv, of _ ?m] gap d sk by (auto simp: t')
      have purge: "purge_between (sn_head t mod ?n) j t' = Some t'"
      proof -
        have "ar_reorder_buf t' ! ((sn_head t + e) mod ?n) = []" if "1 \<le> e" "e < d" for e
        proof (cases "e < ?m")
          case True
          then show ?thesis using cleared [OF ops inv, of e ?m] d by (simp add: t')
        next
          case False
          have "(sn_head t' + (e - ?m)) mod ?n = (sn_head t + e) mod ?n"
            unfolding h' using mod_window [OF I(3), of "sn_head t + ?m" "e - ?m"] False by simp
          then have "ar_reorder_buf t' ! ((sn_head t + e) mod ?n) = slot t' (e - ?m)" by (simp add: slot_def n)
          also have "\<dots> = []" using empty' that False sk by simp
          finally show ?thesis .
        qed
        then show ?thesis using purge_nothing [OF inv', of d "sn_head t"] d d1 by (simp add: n j)
      qed
      let ?t2 = "t'\<lparr>ar_stored_mpdu_num := ar_stored_mpdu_num t' - 1, ar_reorder_buf := (ar_reorder_buf t')[j := []],
        ar_head_seq_num := sn_inc ops (ar_head_seq_num t')\<rparr>"
      have rel: "release_reorder_frame ops j (t', fs') = Some (?t2, fs' @ released (slot t d))"
        using lens ready full slotj by (simp add: release_reorder_frame_def released_def Let_def)
      have adv: "advance ops skipped t' = t'\<lparr>ar_head_seq_num := (ar_head_seq_num t' + of_nat skipped) AND 0xfff\<rparr>"
        using advance_empty [OF ops inv' _ empty'] d sk n by simp
      have hs: "sn_head (advance ops skipped t') mod ?n = j"
        using advance_head [OF ops inv', of skipped] idx I(3) by (simp add: mod_mod_cancel)
      have "slot (advance ops skipped t') 0 = slot t d"
        using slot_advance [OF ops inv', of 0 skipped] idx d sk I(9) n slotj by (simp add: slot_def)
      then have "advance ops (Suc skipped) t' = ?t2\<lparr>ar_head_seq_num := (ar_head_seq_num ?t2 + of_nat skipped) AND SN_MASK\<rparr>"
        using full hs n
        by (simp add: advance_Suc advance1_def [of ops "advance ops skipped t'"] SN_MASK_def sn_inc_shift [OF ops])
          (simp add: adv)
      moreover have "advance ops (Suc skipped) t' = advance ops (Suc d) t"
        unfolding t' advance_add using sk by simp
      moreover have "fs' @ released (slot t d) = fs @ released (emitted t (Suc d))"
      proof -
        have "[0..<d] = [0..<?m] @ [?m..<d]" using upt_add_eq_append [of 0 ?m skipped] sk by simp
        then have "emitted t d = emitted t ?m" using gap sk d by (simp add: emitted_def)
        then show ?thesis using d by (simp add: fs' emitted_def)
      qed
      ultimately have "timeout_inv ops t fs (Suc d)
          ((j + 1) mod ?n, 0, False, ?t2\<lparr>ar_head_seq_num := (ar_head_seq_num ?t2 + of_nat skipped) AND SN_MASK\<rparr>, fs' @ released (slot t d))"
        unfolding timeout_inv_def using d by (auto simp: j mod_Suc_eq)
      with go full ready lens purge rel n show ?thesis by (auto simp: timeout_body_def Let_def)
    qed
  qed
qed

text \<open>What a release leaves behind: the head slot is empty, so no frame that is next in order is held back.\<close>

definition drained :: "hdr_ops \<Rightarrow> tid_ampdu_rx \<Rightarrow> rx_frame list \<Rightarrow> nat \<Rightarrow> tid_ampdu_rx \<times> rx_frame list \<Rightarrow> bool" where
  "drained ops t fs m s \<longleftrightarrow> s = (advance ops m t, fs @ released (emitted t m)) \<and> m \<le> window t \<and> slot (advance ops m t) 0 = []"

lemma timeout_inv_drained:
  assumes ops: "sn_arith ops" and inv: "reorder_inv t" and ti: "timeout_inv ops t fs d (j, skipped, stop, t', fs')"
    and fin: "stop \<or> d = window t"
  shows "drained ops t fs (d - skipped) (t', fs')" "j < window t"
proof -
  note I = reorder_invD [OF inv]
  have "slot (advance ops (d - skipped) t) 0 = []"
    using slot_advance [OF ops inv, of 0 "d - skipped"] I(9) ti fin
    by (cases "skipped = 0") (auto simp: timeout_inv_def)
  with ti I(9) show "drained ops t fs (d - skipped) (t', fs')" "j < window t"
    by (auto simp: drained_def timeout_inv_def)
qed

lemma timeout_loop:
  assumes ops: "sn_arith ops" and inv: "reorder_inv t" and "timeout_inv ops t fs d s"
  shows "\<exists>j skipped stop t' fs' m. loop_opt (\<lambda>(j, skipped, stop, t', frames). \<not> stop \<and> j \<noteq> sn_head t mod window t)
      (timeout_body ops hz jiffies (sn_head t mod window t)) s = Some (j, skipped, stop, t', fs') \<and>
      drained ops t fs m (t', fs') \<and> j < window t"
  using assms(3)
proof (induction "window t - d" arbitrary: d s rule: less_induct)
  case less
  note I = reorder_invD [OF inv]
  let ?i = "sn_head t mod window t"
  let ?b = "\<lambda>(j, skipped :: nat, stop, t' :: tid_ampdu_rx, frames :: rx_frame list). \<not> stop \<and> j \<noteq> ?i"
  let ?c = "timeout_body ops hz jiffies ?i"
  obtain j skipped stop t' fs' where s: "s = (j, skipped, stop, t', fs')" by (metis prod_cases5)
  have stopped: ?case if "loop_opt ?b ?c s = Some (j', sk', st', t2, fs2)" "timeout_inv ops t fs d' (j', sk', st', t2, fs2)"
    "st' \<or> d' = window t" for j' sk' st' t2 fs2 d'
    using that timeout_inv_drained [OF ops inv that(2,3)] by blast
  have d: "1 \<le> d" "d \<le> window t" and j: "j = (sn_head t + d) mod window t" using less.prems by (auto simp: s timeout_inv_def)
  show ?case
  proof (cases "stop \<or> d = window t")
    case True
    then have "\<not> ?b s" by (auto simp: s j)
    from loop_opt_stop [of ?b s ?c, OF this] have "loop_opt ?b ?c s = Some (j, skipped, stop, t', fs')" by (simp only: s)
    then show ?thesis using stopped less.prems True unfolding s by blast
  next
    case False
    then have dn: "d < window t" using d by simp
    then have b: "?b s" using False d j mod_add_cancel [of "sn_head t" d "window t" 0] by (auto simp: s)
    obtain s' where c: "?c s = Some s'" and s': "timeout_inv ops t fs (Suc d) s' \<and> \<not> fst (snd (snd s')) \<or>
        timeout_inv ops t fs d s' \<and> fst (snd (snd s'))"
      using timeout_round [OF ops inv _ dn, of fs j skipped t' fs' hz jiffies] less.prems False by (auto simp: s)
    note step = loop_opt_step [of ?b s ?c, OF b c]
    show ?thesis
    proof (cases "fst (snd (snd s'))")
      case True
      obtain j2 sk2 st2 t2 fs2 where e: "s' = (j2, sk2, st2, t2, fs2)" by (metis prod_cases5)
      have "\<not> ?b s'" using True by (simp add: e)
      then have "loop_opt ?b ?c s = Some (j2, sk2, st2, t2, fs2)" unfolding step using loop_opt_stop [of ?b s' ?c] e by simp
      moreover have "timeout_inv ops t fs d (j2, sk2, st2, t2, fs2)" "st2" using s' True by (auto simp: e timeout_inv_def)
      ultimately show ?thesis using stopped by blast
    next
      case False
      then have "timeout_inv ops t fs (Suc d) s'" using s' by blast
      from less.hyps [OF _ this] dn show ?thesis unfolding step by simp
    qed
  qed
qed

lemma stored_slot:
  assumes inv: "reorder_inv t" and "ar_stored_mpdu_num t \<noteq> 0"
  shows "\<exists>d<window t. slot t d \<noteq> []"
proof -
  note I = reorder_invD [OF inv]
  have "filter (\<lambda>l. l \<noteq> []) (ar_reorder_buf t) \<noteq> []" using I(8) assms(2) by (auto simp: unat_eq_0)
  then obtain i where i: "i < window t" "ar_reorder_buf t ! i \<noteq> []"
    using I(4) by (metis (mono_tags, lifting) filter_False in_set_conv_nth)
  with I(7) obtain f where "in_slot t i f" by auto
  with i dist_mod_window [OF I(3,6), of "unat (frame_seq f)"] show ?thesis
    by (intro exI [of _ "dist (sn_head t) (unat (frame_seq f))"]) (auto simp: in_slot_def slot_def)
qed

lemma next_stored_Some:
  assumes inv: "reorder_inv t" and st: "ar_stored_mpdu_num t \<noteq> 0"
  shows "\<exists>j<window t. next_stored t (sn_head t mod window t) = Some j"
proof -
  note I = reorder_invD [OF inv]
  let ?n = "window t" and ?i = "sn_head t mod window t"
  let ?b = "\<lambda>(j, found). \<not> found \<and> int j \<noteq> (int ?i - 1) smod int ?n"
  let ?c = "\<lambda>(j, found :: bool). if j < length (ar_reorder_buf t)
      then Some (if rx_reorder_ready (ar_reorder_buf t ! j) then (j, True) else ((j + 1) mod ?n, False)) else None"
  obtain d where d: "d < ?n" "slot t d \<noteq> []" using stored_slot [OF inv st] by blast
  have "\<exists>j found. loop_opt ?b ?c ((sn_head t + k) mod ?n, False) = Some (j, found) \<and> j < ?n" if "k \<le> d" for k
    using that
  proof (induction "d - k" arbitrary: k rule: less_induct)
    case less
    let ?j = "(sn_head t + k) mod ?n"
    have jn: "?j < ?n" using I(9) by simp
    show ?case
    proof (cases "?b (?j, False)")
      case b: True
      show ?thesis
      proof (cases "slot t k = []")
        case True
        then have "k < d" using less.prems d(2) by (cases "k = d") auto
        moreover have "?c (?j, False) = Some ((sn_head t + Suc k) mod ?n, False)"
          using True slot_ready [OF inv jn] I(4) jn by (simp add: slot_def mod_Suc_eq)
        ultimately show ?thesis using less.hyps [of "Suc k"] loop_opt_step [of ?b, OF b] by simp
      next
        case False
        then have "?c (?j, False) = Some (?j, True)"
          using slot_ready [OF inv jn] I(4) jn by (simp add: slot_def)
        from loop_opt_step [of ?b _ ?c, OF b this] have "loop_opt ?b ?c (?j, False) = loop_opt ?b ?c (?j, True)" .
        also have "\<dots> = Some (?j, True)" by (rule loop_opt_stop) simp
        finally show ?thesis using jn by blast
      qed
    next
      case False
      then have "loop_opt ?b ?c (?j, False) = Some (?j, False)" by (rule loop_opt_stop)
      then show ?thesis using jn by blast
    qed
  qed
  from this [of 0] show ?thesis by (auto simp: next_stored_def window_def [symmetric] Let_def)
qed

lemma set_timer_Some:
  "j < length (ar_reorder_time t) \<Longrightarrow> \<exists>timer. set_release_timer hz j t = Some (t\<lparr>ar_reorder_timer := timer\<rparr>)"
  by (cases "ar_removed t")
    (auto simp: set_release_timer_def intro: exI [of _ "ar_reorder_timer t"])

lemma release_ready_ok:
  assumes ops: "sn_arith ops" and inv: "reorder_inv t"
  shows "\<exists>stop j m. release_ready ops hz jiffies (sn_head t mod window t) (t, fs) =
      Some (stop, j, advance ops m t, fs @ released (emitted t m)) \<and> j < window t \<and>
      m \<le> window t \<and> slot (advance ops m t) 0 = []"
proof -
  note I = reorder_invD [OF inv]
  let ?i = "sn_head t mod window t"
  have i: "?i < window t" "?i < length (ar_reorder_buf t)" using I(4,9) by simp_all
  show ?thesis
  proof (cases "\<not> rx_reorder_ready (ar_reorder_buf t ! ?i) \<and> ar_stored_mpdu_num t \<noteq> 0")
    case True
    then have "slot t 0 = []" using slot_ready [OF inv i(1)] by (simp add: slot_def)
    then have "timeout_inv ops t fs 1 ((?i + 1) mod unat (ar_buf_size t), 1, False, t, fs)"
      using I(1) by (auto simp: timeout_inv_def emitted_def released_def window_def [symmetric] mod_Suc_eq less_Suc_eq)
    from timeout_loop [OF ops inv this, of hz jiffies] obtain j skipped stop m where
      "loop_opt (\<lambda>(j, skipped, stop, t', frames). \<not> stop \<and> j \<noteq> ?i) (timeout_body ops hz jiffies ?i)
         ((?i + 1) mod unat (ar_buf_size t), 1, False, t, fs) =
       Some (j, skipped, stop, advance ops m t, fs @ released (emitted t m))"
      "m \<le> window t" "slot (advance ops m t) 0 = []" "j < window t" by (auto simp: drained_def)
    then have "release_ready ops hz jiffies ?i (t, fs) = Some (stop, j, advance ops m t, fs @ released (emitted t m))"
      using True i(2) unfolding release_ready_def by simp
    with \<open>m \<le> window t\<close> \<open>slot (advance ops m t) 0 = []\<close> \<open>j < window t\<close> show ?thesis by blast
  next
    case False
    from drain_ready [OF ops inv, of fs] obtain m where m: "m \<le> window t" "slot (advance ops m t) 0 = []" and
      "loop_opt (\<lambda>(t, frames). case head_index t of None \<Rightarrow> False
                      | Some index \<Rightarrow> index < length (ar_reorder_buf t) \<and> rx_reorder_ready (ar_reorder_buf t ! index))
            (\<lambda>(t, frames). do { index \<leftarrow> head_index t; release_reorder_frame ops index (t, frames) })
            (t, fs) = Some (advance ops m t, fs @ released (emitted t m))" by blast
    then have "release_ready ops hz jiffies ?i (t, fs) = Some (False, 0, advance ops m t, fs @ released (emitted t m))"
      using False i(2) unfolding release_ready_def by auto
    with m I(9) show ?thesis by blast
  qed
qed

lemma arm_timer_ok:
  assumes inv: "reorder_inv t" and j: "j < window t"
  shows "\<exists>timer. arm_release_timer hz (stop, j, t, fs) = Some (t\<lparr>ar_reorder_timer := timer\<rparr>, fs)"
proof (cases "\<not> stop \<and> ar_stored_mpdu_num t \<noteq> 0")
  case True
  obtain j' where j': "j' < window t" "next_stored t (sn_head t mod window t) = Some j'"
    using next_stored_Some [OF inv] True by blast
  with True set_timer_Some [of j' t hz] reorder_invD(5) [OF inv] head_index_Some [OF inv] show ?thesis
    by (auto simp: arm_release_timer_def)
next
  case False
  with set_timer_Some [of j t hz] reorder_invD(5) [OF inv] j show ?thesis
    by (auto simp: arm_release_timer_def)
qed

lemma reorder_release_ok:
  assumes ops: "sn_arith ops" and inv: "reorder_inv t"
  shows "\<exists>m timer. sta_reorder_release ops hz jiffies (t, fs) =
      Some ((advance ops m t)\<lparr>ar_reorder_timer := timer\<rparr>, fs @ released (emitted t m)) \<and>
      m \<le> window t \<and> slot (advance ops m t) 0 = []"
proof -
  obtain stop j m where r: "release_ready ops hz jiffies (sn_head t mod window t) (t, fs) =
      Some (stop, j, advance ops m t, fs @ released (emitted t m))" and j: "j < window t"
    and m: "m \<le> window t" "slot (advance ops m t) 0 = []" using release_ready_ok [OF ops inv] by blast
  obtain timer where "arm_release_timer hz (stop, j, advance ops m t, fs @ released (emitted t m)) =
      Some ((advance ops m t)\<lparr>ar_reorder_timer := timer\<rparr>, fs @ released (emitted t m))"
    using arm_timer_ok [OF advance_inv [OF ops inv, of m], of j hz stop "fs @ released (emitted t m)"] j by auto
  with r head_index_Some [OF inv] have "sta_reorder_release ops hz jiffies (t, fs) =
      Some ((advance ops m t)\<lparr>ar_reorder_timer := timer\<rparr>, fs @ released (emitted t m))"
    by (simp add: sta_reorder_release_def)
  with m show ?thesis by blast
qed

end
