(* ===== verification/RX_Order.thy ===== *)
theory RX_Order
  imports RX_Release
begin

text \<open>
  The reorder buffer as an abstract data type: a session stands for the list of frames it stores, in the
  order of their sequence numbers, and the arrival of a frame is an insertion into that list, of
  which a prefix is handed on.
\<close>

section \<open>Placing a frame\<close>

definition stored_frames :: "tid_ampdu_rx \<Rightarrow> rx_frame list" where
  "stored_frames t = emitted t (window t)"

abbreviation sn_key :: "nat \<Rightarrow> rx_frame \<Rightarrow> nat" where
  "sn_key h f \<equiv> dist h (unat (frame_seq f))"

definition store_frame :: "u64 \<Rightarrow> rx_frame \<Rightarrow> tid_ampdu_rx \<Rightarrow> tid_ampdu_rx" where
  "store_frame now f t = (let i = unat (frame_seq f) mod window t in
     t\<lparr>ar_reorder_buf := (ar_reorder_buf t)[i := [f]], ar_reorder_time := (ar_reorder_time t)[i := now],
       ar_stored_mpdu_num := ar_stored_mpdu_num t + 1\<rparr>)"

lemma length_filter_set:
  "i < length xs \<Longrightarrow> xs ! i = [] \<Longrightarrow>
   length (filter (\<lambda>l. l \<noteq> []) (xs[i := [f]])) = Suc (length (filter (\<lambda>l. l \<noteq> []) xs))"
  using length_filter_clear [of i "xs[i := [f]]"] list_update_id [of xs i] by simp

lemma store_frame_fields [simp]:
  "window (store_frame now f t) = window t" "sn_head (store_frame now f t) = sn_head t"
  "ar_auto_seq (store_frame now f t) = ar_auto_seq t"
  by (simp_all add: store_frame_def window_def sn_head_def Let_def)

lemma slot_seq:
  assumes inv: "reorder_inv t" and "sn_key (sn_head t) f < window t"
  shows "(sn_head t + sn_key (sn_head t) f) mod window t = unat (frame_seq f) mod window t"
  using dist_mod_window reorder_invD [OF inv] by simp

lemma store_frame_inv:
  assumes inv: "reorder_inv t" and f: "\<not> fr_amsdu_more f" "sn_key (sn_head t) f < window t"
    and empty: "slot t (sn_key (sn_head t) f) = []" and auto: "\<not> ar_auto_seq t"
  shows "reorder_inv (store_frame now f t)"
proof -
  note I = reorder_invD [OF inv]
  let ?i = "unat (frame_seq f) mod window t"
  have i: "?i < window t" using I(9) by simp
  have e: "ar_reorder_buf t ! ?i = []" using empty slot_seq [OF inv f(2)] by (simp add: slot_def)
  have "length (filter (\<lambda>l. l \<noteq> []) (ar_reorder_buf t)) \<le> 1024"
    using length_filter_le [of "\<lambda>l. l \<noteq> []" "ar_reorder_buf t"] I(2,4) by simp
  then have st: "unat (ar_stored_mpdu_num t + 1) = Suc (unat (ar_stored_mpdu_num t))"
    using I(8) by (simp add: unat_word_ariths)
  have "in_slot (store_frame now f t) = in_slot t" by (simp add: in_slot_def fun_eq_iff)
  moreover have "in_slot t ?i f" using f by (simp add: in_slot_def)
  ultimately show ?thesis
    using inv i e st auto length_filter_set [of ?i "ar_reorder_buf t" f]
    by (simp add: reorder_inv_def) (auto simp: store_frame_def Let_def nth_list_update)
qed

lemma store_frame_mset:
  assumes inv: "reorder_inv t" and "sn_key (sn_head t) f < window t" "slot t (sn_key (sn_head t) f) = []"
  shows "mset (concat (ar_reorder_buf (store_frame now f t))) = add_mset f (mset (concat (ar_reorder_buf t)))"
proof -
  note I = reorder_invD [OF inv]
  let ?i = "unat (frame_seq f) mod window t"
  have i: "?i < length (ar_reorder_buf t)" using I(4,9) by simp
  have "ar_reorder_buf t ! ?i = []" using assms(3) slot_seq [OF inv assms(2)] by (simp add: slot_def)
  then have "(ar_reorder_buf t)[?i := []] = ar_reorder_buf t" by (metis list_update_id)
  with mset_concat_clear [of ?i "(ar_reorder_buf t)[?i := [f]]"] i show ?thesis
    by (simp add: store_frame_def Let_def)
qed

section \<open>Frames in order\<close>

lemma stored_frames_mset:
  assumes ops: "sn_arith ops" and inv: "reorder_inv t"
  shows "mset (stored_frames t) = mset (concat (ar_reorder_buf t))"
proof -
  let ?t = "advance ops (window t) t"
  note I = reorder_invD [OF advance_inv [OF ops inv, of "window t"]]
  have "ar_reorder_buf ?t ! i = []" if "i < window t" for i
  proof -
    let ?d = "(i + (window t - sn_head ?t mod window t)) mod window t"
    have "sn_head ?t mod window t \<le> window t" using I(9) by (simp add: less_imp_le)
    then have "sn_head ?t mod window t + (i + (window t - sn_head ?t mod window t)) = i + window t"
      by (simp only: add.left_commute le_add_diff_inverse)
    then have "(sn_head ?t mod window t + (i + (window t - sn_head ?t mod window t))) mod window t = i"
      using that by (simp only: mod_add_self2 mod_less)
    then have "(sn_head ?t + ?d) mod window t = i" by (metis mod_add_eq mod_mod_trivial)
    moreover have "slot ?t ?d = []" using slot_advance [OF ops inv, of ?d "window t"] I(9) by simp
    ultimately show ?thesis by (simp add: slot_def)
  qed
  then have "concat (ar_reorder_buf ?t) = []" using I(4) by (auto simp: in_set_conv_nth)
  with emitted_mset [OF ops inv, of "window t"] show ?thesis by (simp add: stored_frames_def)
qed

lemma emitted_all: "window t \<le> m \<Longrightarrow> emitted t m = stored_frames t"
  by (simp add: emitted_def stored_frames_def)

lemma emitted_stored:
  assumes ops: "sn_arith ops" and inv: "reorder_inv t"
  shows "emitted t m @ stored_frames (advance ops m t) = stored_frames t"
  using emitted_add [OF ops inv, of m "window t"] by (simp add: emitted_all)

lemma stored_frames_sorted:
  assumes inv: "reorder_inv t"
  shows "sorted_wrt (\<lambda>f g. sn_key (sn_head t) f < sn_key (sn_head t) g) (stored_frames t)"
    "\<forall>f\<in>set (stored_frames t). sn_key (sn_head t) f < window t"
  using emitted_sorted [OF inv, of "window t"] by (simp_all add: stored_frames_def)

lemma dist_shift:
  assumes "h < 4096" "D + dist ((h + D) mod 4096) s < 4096" "s < 4096"
  shows "dist h s = D + dist ((h + D) mod 4096) s"
proof -
  let ?d = "dist ((h + D) mod 4096) s"
  have "((h + D) mod 4096 + ?d) mod 4096 = s" using dist_add [of "(h + D) mod 4096" s] assms(3) by simp
  then have "(h + (D + ?d)) mod 4096 = s" by (simp add: mod_add_left_eq add.assoc)
  with dist_eq [OF assms(1,2)] show ?thesis by simp
qed

lemma strictly_sorted_unique:
  fixes k :: "'a \<Rightarrow> nat"
  assumes "sorted_wrt (\<lambda>x y. k x < k y) xs" "sorted_wrt (\<lambda>x y. k x < k y) ys" "set xs = set ys"
  shows "xs = ys"
proof -
  have s: "sorted (map k zs) \<and> distinct (map k zs)" if "sorted_wrt (\<lambda>x y. k x < k y) zs" for zs
    using that by (induction zs) auto
  have "map k xs = map k ys"
    using s [OF assms(1)] s [OF assms(2)] assms(3) by (intro sorted_distinct_set_unique) auto
  moreover have "inj_on k (set xs \<union> set ys)" using s [OF assms(1)] assms(3) by (simp add: distinct_map)
  ultimately show ?thesis using inj_on_map_eq_map by blast
qed

lemma insort_strict:
  fixes k :: "'a \<Rightarrow> nat"
  assumes "sorted_wrt (\<lambda>x y. k x < k y) xs" "k x \<notin> k ` set xs"
  shows "sorted_wrt (\<lambda>x y. k x < k y) (insort_key k x xs)"
  using assms by (induction xs) (auto simp: set_insort_key)

text \<open>A list that starts with the first \<open>D\<close> slots and goes on with the window behind them is in order.\<close>

lemma insort_frames:
  assumes ops: "sn_arith ops" and inv: "reorder_inv t" and D: "D < 2048"
    and rest: "sorted_wrt (\<lambda>f g. sn_key ((sn_head t + D) mod 4096) f < sn_key ((sn_head t + D) mod 4096) g) rest"
      "\<forall>f\<in>set rest. sn_key ((sn_head t + D) mod 4096) f < window t"
    and m: "mset (emitted t D @ rest) = add_mset f (mset (stored_frames t))"
    and new: "sn_key (sn_head t) f \<notin> sn_key (sn_head t) ` set (stored_frames t)"
  shows "emitted t D @ rest = insort_key (sn_key (sn_head t)) f (stored_frames t)"
proof (rule strictly_sorted_unique)
  note I = reorder_invD [OF inv]
  let ?R = "\<lambda>f g. sn_key (sn_head t) f < sn_key (sn_head t) g"
  have shift: "sn_key (sn_head t) g = D + sn_key ((sn_head t + D) mod 4096) g" if "g \<in> set rest" for g
    using dist_shift [OF I(6), of D "unat (frame_seq g)"] rest(2) that D I(2) by fastforce
  have "sorted_wrt ?R rest"
    using rest(1) by (rule sorted_wrt_mono_rel [rotated]) (simp add: shift)
  moreover have "sorted_wrt ?R (emitted t D)" "\<forall>g\<in>set (emitted t D). sn_key (sn_head t) g < D"
    using emitted_sorted [OF inv, of D] by simp_all
  ultimately show "sorted_wrt ?R (emitted t D @ rest)"
    using shift by (fastforce simp: sorted_wrt_append)
  show "sorted_wrt ?R (insort_key (sn_key (sn_head t)) f (stored_frames t))"
    using stored_frames_sorted(1) [OF inv] new by (rule insort_strict)
  show "set (emitted t D @ rest) = set (insort_key (sn_key (sn_head t)) f (stored_frames t))"
    using arg_cong [OF m, of set_mset] by (simp add: set_insort_key)
qed

definition refused :: "tid_ampdu_rx \<Rightarrow> rx_frame \<Rightarrow> bool" where
  "refused t f \<longleftrightarrow> 2048 < sn_key (sn_head t) f \<or> (\<exists>g\<in>set (stored_frames t). frame_seq g = frame_seq f)"

lemma slot_in_stored: "d < window t \<Longrightarrow> set (slot t d) \<subseteq> set (stored_frames t)"
  by (auto simp: stored_frames_def emitted_def)

lemma frame_seq_key: "sn_head t < 4096 \<Longrightarrow> unat (frame_seq f) = (sn_head t + sn_key (sn_head t) f) mod 4096"
  using dist_add [of "sn_head t" "unat (frame_seq f)"] frame_seq_less [of f] by simp

lemma same_key:
  "reorder_inv t \<Longrightarrow> sn_key (sn_head t) g = sn_key (sn_head t) f \<Longrightarrow> frame_seq g = frame_seq f"
  using frame_seq_key [of t f] frame_seq_key [of t g] reorder_invD(6) [of t] by (simp add: word_unat_eq_iff)

lemma slot_occupied:
  assumes inv: "reorder_inv t" and d: "sn_key (sn_head t) f < window t"
  shows "slot t (sn_key (sn_head t) f) = [] \<longleftrightarrow> (\<forall>g\<in>set (stored_frames t). frame_seq g \<noteq> frame_seq f)"
proof
  assume e: "slot t (sn_key (sn_head t) f) = []"
  show "\<forall>g\<in>set (stored_frames t). frame_seq g \<noteq> frame_seq f"
  proof (intro ballI notI)
    fix g assume g: "g \<in> set (stored_frames t)" "frame_seq g = frame_seq f"
    then obtain d' where d': "d' < window t" "g \<in> set (slot t d')" by (auto simp: stored_frames_def emitted_def)
    with slot_frame [OF inv d'(1)] have "sn_key (sn_head t) g = d'" by auto
    with g(2) d' e show False by simp
  qed
next
  assume all: "\<forall>g\<in>set (stored_frames t). frame_seq g \<noteq> frame_seq f"
  note I = reorder_invD [OF inv]
  show "slot t (sn_key (sn_head t) f) = []"
  proof (rule ccontr)
    assume "slot t (sn_key (sn_head t) f) \<noteq> []"
    with slot_frame [OF inv d] obtain g where g: "slot t (sn_key (sn_head t) f) = [g]"
      "sn_key (sn_head t) g = sn_key (sn_head t) f" by auto
    with all slot_in_stored [OF d] same_key [OF inv g(2)] show False by auto
  qed
qed

lemma key_fresh:
  assumes inv: "reorder_inv t" and r: "\<not> refused t f"
  shows "sn_key (sn_head t) f \<notin> sn_key (sn_head t) ` set (stored_frames t)"
proof
  assume "sn_key (sn_head t) f \<in> sn_key (sn_head t) ` set (stored_frames t)"
  then obtain g where g: "g \<in> set (stored_frames t)" "sn_key (sn_head t) g = sn_key (sn_head t) f" by auto
  with r same_key [OF inv g(2)] show False by (auto simp: refused_def)
qed

text \<open>Making room: the head moves by \<open>D\<close>, so that the frame is in the window.\<close>

definition room :: "tid_ampdu_rx \<Rightarrow> rx_frame \<Rightarrow> nat" where
  "room t f = (let d = sn_key (sn_head t) f in if d < window t then 0 else d + 1 - window t)"

lemma room_bounds:
  assumes inv: "reorder_inv t" and "sn_key (sn_head t) f \<le> 2048"
  shows "room t f < 2048" "room t f \<le> sn_key (sn_head t) f"
    "sn_key ((sn_head t + room t f) mod 4096) f = sn_key (sn_head t) f - room t f"
    "sn_key (sn_head t) f - room t f < window t"
proof -
  note I = reorder_invD [OF inv]
  let ?d = "sn_key (sn_head t) f"
  show b: "room t f < 2048" "room t f \<le> ?d" "?d - room t f < window t"
    using I(1) assms(2) by (auto simp: room_def Let_def)
  have "(sn_head t + room t f) mod 4096 < 4096" by simp
  moreover have "((sn_head t + room t f) mod 4096 + (?d - room t f)) mod 4096 = unat (frame_seq f)"
    using dist_add [OF I(6), of "unat (frame_seq f)"] b(2) mod_add_left_eq [of "sn_head t + room t f" 4096 "?d - room t f"] by simp
  ultimately show "sn_key ((sn_head t + room t f) mod 4096) f = ?d - room t f"
    using dist_eq [of "(sn_head t + room t f) mod 4096" "?d - room t f"] by (simp add: less_imp_diff_less)
qed

lemma make_room:
  assumes ops: "sn_arith ops" and inv: "reorder_inv t" and d: "sn_key (sn_head t) f \<le> 2048"
  shows "(if \<not> sn_less ops (frame_seq f) (ar_head_seq_num t + ar_buf_size t)
          then release_reorder_frames ops (sn_inc ops (sn_sub ops (frame_seq f) (ar_buf_size t))) (t, fs)
          else Some (t, fs)) = Some (advance ops (room t f) t, fs @ released (emitted t (room t f)))"
proof -
  note I = reorder_invD [OF inv]
  let ?d = "sn_key (sn_head t) f" and ?n = "window t"
  have seq: "unat (frame_seq f) = (sn_head t + ?d) mod 4096" using frame_seq_key [OF I(6)] .
  have lim: "unat (ar_head_seq_num t + ar_buf_size t) mod 4096 = (sn_head t + ?n) mod 4096"
    by (simp add: sn_head_def window_def unat_word_ariths mod_mod_cancel)
  have "dist ((sn_head t + ?n) mod 4096) (unat (frame_seq f)) = (if ?d < ?n then 4096 + ?d - ?n else ?d - ?n)"
  proof -
    have "((sn_head t + ?n) mod 4096 + (if ?d < ?n then 4096 + ?d - ?n else ?d - ?n)) mod 4096 = unat (frame_seq f)"
    proof (cases "?d < ?n")
      case True
      then have e: "sn_head t + ?n + (4096 + ?d - ?n) = sn_head t + ?d + 4096" using I(2) by simp
      show ?thesis using True seq unfolding mod_add_left_eq if_P [OF True] e by simp
    next
      case False
      then have e: "sn_head t + ?n + (?d - ?n) = sn_head t + ?d" by simp
      show ?thesis using False seq unfolding mod_add_left_eq if_not_P [OF False] e by simp
    qed
    moreover have "(if ?d < ?n then 4096 + ?d - ?n else ?d - ?n) < 4096" using d I(2) by (split if_split) linarith
    ultimately show ?thesis
      using dist_eq [of "(sn_head t + ?n) mod 4096" "if ?d < ?n then 4096 + ?d - ?n else ?d - ?n"] by (simp only: mod_less_divisor zero_less_numeral)
  qed
  then have less: "sn_less ops (frame_seq f) (ar_head_seq_num t + ar_buf_size t) \<longleftrightarrow> ?d < ?n"
    using d I(2) by (cases "?d < ?n"; simp add: sn_arith_less [OF ops] lim; linarith)
  show ?thesis
  proof (cases "?d < ?n")
    case True
    then show ?thesis using less by (simp add: room_def emitted_def released_def)
  next
    case False
    let ?target = "sn_inc ops (sn_sub ops (frame_seq f) (ar_buf_size t))"
    have "unat ?target = (unat (frame_seq f) + 4096 - ?n + 1) mod 4096"
      using ops I(2) sn_arith_inc [OF ops] unat_sub_mask [of "frame_seq f" "ar_buf_size t"]
      by (simp add: sn_arith_def dist_def window_def [symmetric] sn_mask mod_Suc_eq)
    also have "\<dots> = (sn_head t + room t f) mod 4096"
    proof -
      have e: "unat (frame_seq f) + 4096 - ?n + 1 = unat (frame_seq f) + (4097 - ?n)" using I(2) by simp
      have "(unat (frame_seq f) + 4096 - ?n + 1) mod 4096 = (unat (frame_seq f) + (4097 - ?n)) mod 4096" by (simp only: e)
      also have "\<dots> = (sn_head t + ?d + (4097 - ?n)) mod 4096" 
        using mod_add_left_eq [of "sn_head t + ?d" 4096 "4097 - ?n"] by (simp only: seq [symmetric])
      also have "sn_head t + ?d + (4097 - ?n) = sn_head t + room t f + 4096"
        using False I(2) by (simp add: room_def Let_def)
      finally show ?thesis by simp
    qed
    finally have target: "unat ?target = (sn_head t + room t f) mod 4096" .
    with room_bounds [OF inv d] dist_eq [OF I(6), of "room t f"] have
      "release_reorder_frames ops ?target (t, fs) = Some (advance ops (room t f) t, fs @ released (emitted t (room t f)))"
      by (intro release_frames_advance [OF ops inv]) simp_all
    with False less show ?thesis by simp
  qed
qed

section \<open>The reorder buffer as a sorted insertion\<close>

text \<open>A frame in the window, in a free slot, after the head was moved.\<close>

definition hand_over ::
  "hdr_ops \<Rightarrow> u64 \<Rightarrow> u64 \<Rightarrow> rx_frame \<Rightarrow> tid_ampdu_rx \<times> rx_frame list \<Rightarrow> (bool \<times> tid_ampdu_rx \<times> rx_frame list) option" where
  "hand_over ops hz now f = (\<lambda>(t, fs).
     if frame_seq f = ar_head_seq_num t \<and> ar_stored_mpdu_num t = 0
     then Some (False, t\<lparr>ar_head_seq_num := sn_inc ops (ar_head_seq_num t)\<rparr>, fs)
     else do { (t, fs) \<leftarrow> sta_reorder_release ops hz now (store_frame now f t, fs); Some (True, t, fs) })"

lemma stored_empty:
  assumes ops: "sn_arith ops" and inv: "reorder_inv t" and "ar_stored_mpdu_num t = 0"
  shows "stored_frames t = []" "\<And>d. d < window t \<Longrightarrow> slot t d = []"
proof -
  have "slot t d = []" for d using stored_pos [OF inv, of d] assms(3) by auto
  then show "stored_frames t = []" "\<And>d. d < window t \<Longrightarrow> slot t d = []" by (simp_all add: stored_frames_def emitted_def)
qed

lemma inv_timer [simp]: "reorder_inv (t\<lparr>ar_reorder_timer := x\<rparr>) = reorder_inv t" "stored_frames (t\<lparr>ar_reorder_timer := x\<rparr>) = stored_frames t"
    "slot (t\<lparr>ar_reorder_timer := x\<rparr>) d = slot t d"
  by (simp_all add: reorder_inv_def window_def sn_head_def in_slot_def stored_frames_def emitted_def slot_def [abs_def])

lemma advance1_empty:
  assumes inv: "reorder_inv t" and "slot t 0 = []"
  shows "advance1 ops t = t\<lparr>ar_head_seq_num := sn_inc ops (ar_head_seq_num t)\<rparr>"
proof -
  have "(ar_reorder_buf t)[sn_head t mod window t := []] = ar_reorder_buf t"
    using assms(2) list_update_id [of "ar_reorder_buf t" "sn_head t mod window t"] by (simp add: slot_def)
  with assms(2) show ?thesis by (simp add: advance1_def)
qed

lemma hand_over_ok:
  assumes ops: "sn_arith ops" and inv: "reorder_inv t" and f: "\<not> fr_amsdu_more f" "sn_key (sn_head t) f < window t"
    and empty: "slot t (sn_key (sn_head t) f) = []" and auto: "\<not> ar_auto_seq t"
  shows "\<exists>ret t' rel. hand_over ops hz now f (t, fs) = Some (ret, t', fs @ released rel) \<and> reorder_inv t' \<and> slot t' 0 = [] \<and>
    rel @ (if ret then [] else [f]) @ stored_frames t' = stored_frames (store_frame now f t)"
proof (cases "frame_seq f = ar_head_seq_num t \<and> ar_stored_mpdu_num t = 0")
  case True
  note I = reorder_invD [OF inv]
  let ?t = "t\<lparr>ar_head_seq_num := sn_inc ops (ar_head_seq_num t)\<rparr>"
  have t: "?t = advance1 ops t" using advance1_empty [OF inv stored_empty(2) [OF ops inv _ I(9)]] True by simp
  then have inv': "reorder_inv ?t" using advance1_inv [OF ops inv] by simp
  have E: "stored_frames ?t = []" "slot ?t 0 = []" using stored_empty [OF ops inv'] True I(9) by (simp_all add: window_def)
  have S: "mset (stored_frames (store_frame now f t)) = {#f#}"
    using stored_frames_mset [OF ops store_frame_inv [OF inv f empty auto]] store_frame_mset [OF inv f(2) empty]
      stored_frames_mset [OF ops inv] stored_empty(1) [OF ops inv] True by simp
  then have "stored_frames (store_frame now f t) = [f]" by simp
  with True E inv' show ?thesis by (auto simp: hand_over_def released_def intro!: exI [of _ "[]"])
next
  case False
  note inv2 = store_frame_inv [OF inv f empty auto, of now]
  from reorder_release_ok [OF ops inv2] obtain m timer where
    "sta_reorder_release ops hz now (store_frame now f t, fs) =
      Some ((advance ops m (store_frame now f t))\<lparr>ar_reorder_timer := timer\<rparr>, fs @ released (emitted (store_frame now f t) m))"
    "slot (advance ops m (store_frame now f t)) 0 = []" by blast
  moreover from this False have "hand_over ops hz now f (t, fs) =
      Some (True, (advance ops m (store_frame now f t))\<lparr>ar_reorder_timer := timer\<rparr>, fs @ released (emitted (store_frame now f t) m))"
    by (auto simp: hand_over_def)
  ultimately show ?thesis
    using advance_inv [OF ops inv2, of m] emitted_stored [OF ops inv2, of m] by fastforce
qed

text \<open>The handler in these terms.\<close>

lemma manage_reorder:
  assumes ops: "sn_arith ops" and inv: "reorder_inv t" and f: "\<not> fr_amsdu_more f" and auto: "\<not> ar_auto_seq t"
    and d: "sn_key (sn_head t) f \<le> 2048"
  defines "t1 \<equiv> advance ops (room t f) t"
  shows "sta_manage_reorder_buf ops hz now f (t, fs) =
    (if slot t1 (sn_key (sn_head t1) f) \<noteq> [] then Some (True, t1, fs @ released (emitted t (room t f)))
     else hand_over ops hz now f (t1, fs @ released (emitted t (room t f))))"
proof -
  note I = reorder_invD [OF inv]
  have inv1: "reorder_inv t1" using advance_inv [OF ops inv] by (simp add: t1_def)
  note I1 = reorder_invD [OF inv1]
  have h1: "sn_head t1 = (sn_head t + room t f) mod 4096" using advance_head [OF ops inv] by (simp add: t1_def)
  have "window t1 = window t" by (simp add: t1_def)
  then have key: "sn_key (sn_head t1) f < window t1" using room_bounds(3,4) [OF inv d] by (simp add: h1)
  let ?i = "unat (frame_seq f) mod window t1"
  have i: "?i < window t1" using I1(9) by simp
  have slot: "ar_reorder_buf t1 ! ?i = slot t1 (sn_key (sn_head t1) f)"
    using slot_seq [OF inv1 key] by (simp add: slot_def)
  have nl: "\<not> sn_less ops (frame_seq f) (ar_head_seq_num t)"
    using d I(6) by (simp add: sn_arith_less [OF ops] sn_head_def)
  have n: "unat (ar_buf_size t1) = window t1" "ar_buf_size t1 \<noteq> 0" using I1(9) by (auto simp: window_def)
  have st: "t1\<lparr>ar_reorder_buf := (ar_reorder_buf t1)[?i := [f]], ar_reorder_time := (ar_reorder_time t1)[?i := now],
      ar_stored_mpdu_num := ar_stored_mpdu_num t1 + 1\<rparr> = store_frame now f t1"
    by (simp add: store_frame_def Let_def)
  have ready: "rx_reorder_ready (ar_reorder_buf t1 ! ?i) \<longleftrightarrow> slot t1 (sn_key (sn_head t1) f) \<noteq> []"
    using slot_ready [OF inv1 i] slot by simp
  have "sta_manage_reorder_buf ops hz now f (t, fs) = place_frame ops hz now f (t1, fs @ released (emitted t (room t f)))"
    using auto nl make_room [OF ops inv d, of fs, folded t1_def]
    by (simp add: sta_manage_reorder_buf_def split del: if_split)
  also have "\<dots> = (if slot t1 (sn_key (sn_head t1) f) \<noteq> [] then Some (True, t1, fs @ released (emitted t (room t f)))
     else hand_over ops hz now f (t1, fs @ released (emitted t (room t f))))"
  proof (cases "slot t1 (sn_key (sn_head t1) f) = []")
    case True
    then have "\<not> rx_reorder_ready (ar_reorder_buf t1 ! ?i)" "ar_reorder_buf t1 ! ?i = []"
      using ready slot by simp_all
    with True n i I1(4,5) f st show ?thesis
      by (cases "frame_seq f = ar_head_seq_num t1 \<and> ar_stored_mpdu_num t1 = 0")
        (auto simp: hand_over_def place_frame_def Let_def)
  next
    case False
    with ready n i I1(4,5) show ?thesis by (simp add: place_frame_def)
  qed
  finally show ?thesis .
qed

lemma reorder_insert:
  assumes ops: "sn_arith ops" and inv: "reorder_inv t" and f: "\<not> fr_amsdu_more f" and auto: "\<not> ar_auto_seq t"
  shows "\<exists>ret t' rel. sta_manage_reorder_buf ops hz now f (t, fs) = Some (ret, t', fs @ released rel) \<and> reorder_inv t' \<and>
    (if refused t f then ret \<and> rel = [] \<and> t' = t
     else slot t' 0 = [] \<and> rel @ (if ret then [] else [f]) @ stored_frames t' =
            insort_key (sn_key (sn_head t)) f (stored_frames t))"
proof (cases "sn_key (sn_head t) f \<le> 2048")
  case False
  then have "sn_less ops (frame_seq f) (ar_head_seq_num t)" "refused t f"
    using reorder_invD(6) [OF inv] by (auto simp: sn_arith_less [OF ops] sn_head_def refused_def) 
  with inv auto show ?thesis by (auto simp: sta_manage_reorder_buf_def released_def)
next
  case d: True
  note I = reorder_invD [OF inv] and R = room_bounds [OF inv d]
  let ?D = "room t f"
  define t1 where "t1 = advance ops ?D t"
  have inv1: "reorder_inv t1" using advance_inv [OF ops inv] by (simp add: t1_def)
  have h1: "sn_head t1 = (sn_head t + ?D) mod 4096" using advance_head [OF ops inv] by (simp add: t1_def)
  have w1: "window t1 = window t" and auto1: "\<not> ar_auto_seq t1" using auto by (simp_all add: t1_def)
  have key: "sn_key (sn_head t1) f < window t1" using R(3,4) by (simp add: h1 w1)
  have D0: "?D = 0 \<or> refused t f = False" 
  proof (cases "sn_key (sn_head t) f < window t")
    case False
    have "frame_seq g \<noteq> frame_seq f" if "g \<in> set (stored_frames t)" for g
    proof
      assume "frame_seq g = frame_seq f"
      with bspec [OF stored_frames_sorted(2) [OF inv] that] False show False by simp
    qed
    with d show ?thesis by (auto simp: refused_def)
  qed (simp add: room_def)
  have split: "mset (emitted t ?D) + mset (stored_frames t1) = mset (stored_frames t)"
    using arg_cong [OF emitted_stored [OF ops inv, of ?D], of mset] by (simp add: t1_def)
  have ref: "slot t1 (sn_key (sn_head t1) f) \<noteq> [] \<longleftrightarrow> refused t f"
  proof (cases "?D = 0")
    case True
    then show ?thesis using slot_occupied [OF inv1 key] d by (auto simp: t1_def refused_def)
  next
    case False
    with D0 have nr: "\<not> refused t f" by simp
    have "set (stored_frames t1) \<subseteq> set (stored_frames t)"
      using emitted_stored [OF ops inv, of ?D, symmetric] by (simp add: t1_def)
    with nr slot_occupied [OF inv1 key] show ?thesis by (auto simp: refused_def)
  qed
  show ?thesis
  proof (cases "refused t f")
    case True
    with D0 have D: "?D = 0" by simp
    then have "t1 = t" by (simp add: t1_def)
    with True D ref inv manage_reorder [OF ops inv f auto d, of hz now fs, folded t1_def]
    have "sta_manage_reorder_buf ops hz now f (t, fs) = Some (True, t, fs @ released [])"
      by (simp add: emitted_def released_def)
    with True inv show ?thesis by auto
  next
    case False
    then have empty: "slot t1 (sn_key (sn_head t1) f) = []" using ref by simp
    obtain ret t' rel where h: "hand_over ops hz now f (t1, fs @ released (emitted t ?D)) =
        Some (ret, t', (fs @ released (emitted t ?D)) @ released rel)" "reorder_inv t'" "slot t' 0 = []"
      and r: "rel @ (if ret then [] else [f]) @ stored_frames t' = stored_frames (store_frame now f t1)"
      using hand_over_ok [OF ops inv1 f key empty auto1] by blast
    note inv2 = store_frame_inv [OF inv1 f key empty auto1, of now]
    have "emitted t ?D @ stored_frames (store_frame now f t1) = insort_key (sn_key (sn_head t)) f (stored_frames t)"
    proof (rule insort_frames [OF ops inv R(1)])
      show "mset (emitted t ?D @ stored_frames (store_frame now f t1)) = add_mset f (mset (stored_frames t))"
        using split stored_frames_mset [OF ops inv2] store_frame_mset [OF inv1 key empty] stored_frames_mset [OF ops inv1] by simp
      show "sn_key (sn_head t) f \<notin> sn_key (sn_head t) ` set (stored_frames t)" using key_fresh [OF inv False] .
    qed (use stored_frames_sorted [OF inv2] in \<open>simp_all add: h1 w1\<close>)
    then have "(emitted t ?D @ rel) @ (if ret then [] else [f]) @ stored_frames t' = insort_key (sn_key (sn_head t)) f (stored_frames t)"
      by (simp only: r append.assoc)
    moreover have "sta_manage_reorder_buf ops hz now f (t, fs) = Some (ret, t', fs @ released (emitted t ?D @ rel))"
      using manage_reorder [OF ops inv f auto d, of hz now fs, folded t1_def] h(1) empty by simp
    ultimately show ?thesis using False h(2,3)
      by (intro exI [of _ ret] exI [of _ t'] exI [of _ "emitted t ?D @ rel"]) simp
  qed
qed

end
