(* ===== verification/RX_Session.thy ===== *)
theory RX_Session
  imports RX_Order
begin

text \<open>
  The properties of the reorder buffer (\<^verbatim>\<open>ieee80211_sta_manage_reorder_buf\<close>, the release timer, the
  sessions of a station) and of the test for retransmitted frames.
\<close>

section \<open>Sessions that start with a frame\<close>

text \<open>The session after the first frame of a session without a starting number.\<close>

definition synced :: "tid_ampdu_rx \<Rightarrow> rx_frame \<Rightarrow> tid_ampdu_rx" where
  "synced t f = (if ar_auto_seq t then t\<lparr>ar_auto_seq := False, ar_ssn := frame_seq f, ar_head_seq_num := frame_seq f\<rparr> else t)"

lemma manage_synced:
  "sta_manage_reorder_buf ops hz now f (t, fs) = sta_manage_reorder_buf ops hz now f (synced t f, fs)"
  by (cases "ar_auto_seq t") (simp_all add: sta_manage_reorder_buf_def synced_def)

lemma synced_inv:
  assumes ops: "sn_arith ops" and inv: "reorder_inv t"
  shows "reorder_inv (synced t f)" "\<not> ar_auto_seq (synced t f)" "refused (synced t f) f \<Longrightarrow> synced t f = t"
proof -
  have *: "reorder_inv (synced t f) \<and> (refused (synced t f) f \<longrightarrow> \<not> ar_auto_seq t)"
  proof (cases "ar_auto_seq t")
    case True
    note I = reorder_invD [OF inv]
    have z: "ar_stored_mpdu_num t = 0" using inv True by (simp add: reorder_inv_def)
    then have "filter (\<lambda>l. l \<noteq> []) (ar_reorder_buf t) = []" using I(8) by simp
    then have e: "\<And>i. i < window t \<Longrightarrow> ar_reorder_buf t ! i = []" using I(4) by (auto simp: filter_empty_conv)
    let ?t = "t\<lparr>ar_auto_seq := False, ar_ssn := frame_seq f, ar_head_seq_num := frame_seq f\<rparr>"
    have w: "window ?t = window t" "sn_head ?t = unat (frame_seq f)" by (simp_all add: window_def sn_head_def)
    have t: "synced t f = ?t" using True by (simp add: synced_def)
    have inv': "reorder_inv (synced t f)"
      unfolding t reorder_inv_def w using I(1-5,8) e frame_seq_less [of f] by simp
    have "stored_frames (synced t f) = []" using stored_empty(1) [OF ops inv'] z True by (simp add: synced_def)
    then have "\<not> refused (synced t f) f" using True dist_eq [of "unat (frame_seq f)" 0]
      by (simp add: refused_def) (simp add: synced_def sn_head_def)
    with inv' show ?thesis by simp
  qed (use inv in \<open>simp add: synced_def\<close>)
  then show "reorder_inv (synced t f)" by (rule conjunct1)
  show "synced t f = t" if "refused (synced t f) f"
  proof -
    have "\<not> ar_auto_seq t" using * that by (rule mp [OF conjunct2])
    then show ?thesis by (simp add: synced_def)
  qed
  show "\<not> ar_auto_seq (synced t f)" by (simp add: synced_def)
qed

lemma reorder_insert_synced:
  assumes ops: "sn_arith ops" and inv: "reorder_inv t" and f: "\<not> fr_amsdu_more f"
  shows "\<exists>ret t' rel. sta_manage_reorder_buf ops hz now f (t, fs) = Some (ret, t', fs @ released rel) \<and> reorder_inv t' \<and>
    (if refused (synced t f) f then ret \<and> rel = [] \<and> t' = t
     else slot t' 0 = [] \<and> rel @ (if ret then [] else [f]) @ stored_frames t' =
            insort_key (sn_key (sn_head (synced t f))) f (stored_frames (synced t f)))"
  using reorder_insert [OF ops synced_inv(1) [OF ops inv, of f] f synced_inv(2) [OF ops inv, of f], of hz now fs]
    synced_inv(3) [OF ops inv, of f] unfolding manage_synced [of ops hz now f t fs]
  by (cases "refused (synced t f) f") auto

text \<open>Frames arriving one after the other; the result lists the frames handed on.\<close>

primrec reorder_run ::
  "hdr_ops \<Rightarrow> u64 \<Rightarrow> (u64 \<times> rx_frame) list \<Rightarrow> tid_ampdu_rx \<times> rx_frame list \<Rightarrow> (tid_ampdu_rx \<times> rx_frame list) option" where
  "reorder_run ops hz [] s = Some s"
| "reorder_run ops hz (a # as) s = do {
     (ret, t, out) \<leftarrow> sta_manage_reorder_buf ops hz (fst a) (snd a) s;
     reorder_run ops hz as (t, if ret then out else out @ [snd a])
   }"

definition undeferred :: "rx_frame \<Rightarrow> rx_frame" where
  "undeferred f = f\<lparr>fr_deferred_release := False\<rparr>"

lemma undeferred_released [simp]: "map undeferred (released fs) = map undeferred fs"
  by (simp add: released_def undeferred_def)

lemma stored_synced:
  assumes ops: "sn_arith ops" and inv: "reorder_inv t"
  shows "stored_frames (synced t f) = stored_frames t"
proof (cases "ar_auto_seq t")
  case True
  then have "ar_stored_mpdu_num t = 0" using inv by (simp add: reorder_inv_def)
  moreover from this have "ar_stored_mpdu_num (synced t f) = 0" by (simp add: synced_def)
  ultimately show ?thesis
    using stored_empty(1) [OF ops inv] stored_empty(1) [OF ops synced_inv(1) [OF ops inv], of f] by simp
qed (simp add: synced_def)

lemma reorder_run_ok:
  assumes ops: "sn_arith ops"
  shows "reorder_inv t \<Longrightarrow> list_all (\<lambda>(now, f). \<not> fr_amsdu_more f) as \<Longrightarrow>
    \<exists>t' out. reorder_run ops hz as (t, fs) = Some (t', fs @ out) \<and> reorder_inv t' \<and>
      image_mset undeferred (mset out + mset (stored_frames t')) \<subseteq># image_mset undeferred (mset (stored_frames t) + mset (map snd as))"
proof (induction as arbitrary: t fs)
  case Nil
  then show ?case by simp
next
  case (Cons a as)
  obtain now f where a: "a = (now, f)" by (cases a)
  with Cons.prems have f: "\<not> fr_amsdu_more f" by simp
  obtain ret t1 rel where m: "sta_manage_reorder_buf ops hz now f (t, fs) = Some (ret, t1, fs @ released rel)"
    and inv1: "reorder_inv t1" and r: "if refused (synced t f) f then ret \<and> rel = [] \<and> t1 = t
     else slot t1 0 = [] \<and> rel @ (if ret then [] else [f]) @ stored_frames t1 =
            insort_key (sn_key (sn_head (synced t f))) f (stored_frames (synced t f))"
    using reorder_insert_synced [OF ops Cons.prems(1) f] by blast
  let ?o = "released rel @ (if ret then [] else [f])"
  have step: "image_mset undeferred (mset ?o + mset (stored_frames t1)) \<subseteq>#
      add_mset (undeferred f) (image_mset undeferred (mset (stored_frames t)))"
  proof (cases "refused (synced t f) f")
    case True
    with r show ?thesis by (simp add: released_def)
  next
    case False
    have "mset (rel @ (if ret then [] else [f]) @ stored_frames t1) = add_mset f (mset (stored_frames t))"
      using False r stored_synced [OF ops Cons.prems(1), of f] by simp
    then have "image_mset undeferred (mset (rel @ (if ret then [] else [f]) @ stored_frames t1)) =
      image_mset undeferred (add_mset f (mset (stored_frames t)))" by (rule arg_cong)
    moreover have "image_mset undeferred (mset (released rel)) = image_mset undeferred (mset rel)"
      by (simp only: mset_map [symmetric] undeferred_released)
    ultimately show ?thesis by (cases ret) simp_all
  qed
  obtain t' out where n: "reorder_run ops hz as (t1, fs @ ?o) = Some (t', (fs @ ?o) @ out)" "reorder_inv t'"
    and ind: "image_mset undeferred (mset out + mset (stored_frames t')) \<subseteq>#
      image_mset undeferred (mset (stored_frames t1) + mset (map snd as))"
    using Cons.IH [OF inv1, of "fs @ ?o"] Cons.prems(2) by auto
  have "reorder_run ops hz (a # as) (t, fs) = Some (t', fs @ (?o @ out))"
    using m n(1) a by (cases ret) simp_all
  moreover have "image_mset undeferred (mset (?o @ out) + mset (stored_frames t')) \<subseteq>#
      image_mset undeferred (mset (stored_frames t) + mset (map snd (a # as)))"
  proof -
    have "image_mset undeferred (mset (?o @ out) + mset (stored_frames t')) =
      image_mset undeferred (mset ?o) + image_mset undeferred (mset out + mset (stored_frames t'))" by simp
    also have "\<dots> \<subseteq># image_mset undeferred (mset ?o) + image_mset undeferred (mset (stored_frames t1) + mset (map snd as))"
      using ind by (rule subset_mset.add_left_mono)
    also have "\<dots> = image_mset undeferred (mset ?o + mset (stored_frames t1)) + image_mset undeferred (mset (map snd as))" by simp
    also have "\<dots> \<subseteq># add_mset (undeferred f) (image_mset undeferred (mset (stored_frames t))) + image_mset undeferred (mset (map snd as))"
      using step by (rule subset_mset.add_right_mono)
    finally show ?thesis by (simp add: a)
  qed
  ultimately show ?case using n(2) by blast
qed

section \<open>The sessions of a station\<close>

definition sessions_ok :: "(nat \<Rightarrow> tid_ampdu_rx option) \<Rightarrow> bool" where
  "sessions_ok tid_rx \<longleftrightarrow> (\<forall>tid t. tid_rx tid = Some t \<longrightarrow> reorder_inv t)"

lemma inv_last_rx [simp]: "reorder_inv (t\<lparr>ar_last_rx := x\<rparr>) = reorder_inv t"
  by (simp add: reorder_inv_def window_def sn_head_def in_slot_def)

lemma ampdu_ok:
  assumes "sn_arith ops" and "sessions_ok tid_rx" and "\<not> fr_amsdu_more f"
  shows "\<exists>tid_rx' frames work. rx_reorder_ampdu ops hz now f (Some tid_rx) fs = Some (Some tid_rx', frames, work) \<and>
    sessions_ok tid_rx' \<and> dom tid_rx' = dom tid_rx \<and> (\<exists>out. frames = fs @ out)"
proof (cases "tid_rx (unat (fr_qos_ctl f AND QOS_CTL_TID_MASK))")
  case None
  with assms(2) show ?thesis by (auto simp: rx_reorder_ampdu_def Let_def)
next
  case (Some t)
  let ?tid = "unat (fr_qos_ctl f AND QOS_CTL_TID_MASK)"
  define t1 where "t1 = (if ar_timeout t \<noteq> 0 then t\<lparr>ar_last_rx := now\<rparr> else t)"
  have inv: "reorder_inv t1" using Some assms(2) by (simp add: t1_def sessions_ok_def)
  have upd: "sessions_ok (tid_rx(?tid \<mapsto> t'))" "dom (tid_rx(?tid \<mapsto> t')) = dom tid_rx" if "reorder_inv t'" for t'
    using that assms(2) Some by (auto simp: sessions_ok_def)
  obtain ret t' rel where m: "sta_manage_reorder_buf ops hz now f (t1, fs) = Some (ret, t', fs @ released rel)" "reorder_inv t'"
    using reorder_insert_synced [OF assms(1) inv assms(3)] by blast
  show ?thesis
  proof (cases "ar_timeout t = 0")
    case True
    then have "t1 = t" by (simp add: t1_def)
    with m have "sta_manage_reorder_buf ops hz now f (t, fs) = Some (ret, t', fs @ released rel)" by simp
    with True Some assms(2) upd [OF m(2)] upd [OF inv] \<open>t1 = t\<close> show ?thesis by (auto simp: rx_reorder_ampdu_def Let_def)
  next
    case False
    then have "t1 = t\<lparr>ar_last_rx := now\<rparr>" by (simp add: t1_def)
    with m have "sta_manage_reorder_buf ops hz now f (t\<lparr>ar_last_rx := now\<rparr>, fs) = Some (ret, t', fs @ released rel)" by simp
    with False Some assms(2) upd [OF m(2)] upd [OF inv] \<open>t1 = t\<lparr>ar_last_rx := now\<rparr>\<close> show ?thesis
      by (auto simp: rx_reorder_ampdu_def Let_def)
  qed
qed

lemma release_timeout_ok:
  assumes "sn_arith ops" and "tid_rx tid = Some t" and "reorder_inv t"
  shows "\<exists>t' rel. release_reorder_timeout ops hz now tid tid_rx = Some (tid_rx(tid \<mapsto> t'), released rel) \<and>
    reorder_inv t' \<and> slot t' 0 = [] \<and> rel @ stored_frames t' = stored_frames t"
proof -
  obtain m timer where "sta_reorder_release ops hz now (t, []) =
      Some ((advance ops m t)\<lparr>ar_reorder_timer := timer\<rparr>, [] @ released (emitted t m))"
    "slot (advance ops m t) 0 = []" using reorder_release_ok [OF assms(1,3)] by blast
  with assms(2) advance_inv [OF assms(1,3), of m] emitted_stored [OF assms(1,3), of m] show ?thesis
    by (intro exI [of _ "(advance ops m t)\<lparr>ar_reorder_timer := timer\<rparr>"] exI [of _ "emitted t m"])
      (simp add: release_reorder_timeout_def)
qed

section \<open>Properties\<close>

text \<open>Concrete values for the witnesses: the kernel's sequence-number arithmetic and a session with a
  window of four frames, in which frame 2 waits for frames 0 and 1.\<close>

definition ops_ex :: hdr_ops where
  "ops_ex = \<lparr>sn_less = (\<lambda>a b. 2048 < unat ((a - b) AND 0xfff)), sn_inc = (\<lambda>a. (a + 1) AND 0xfff),
     sn_sub = (\<lambda>a b. (a - b) AND 0xfff), time_after = (\<lambda>a b. b < a), is_ctl = (\<lambda>_. False),
     is_data_qos = (\<lambda>_. True), is_qos_nullfunc = (\<lambda>_. False), has_retry = (\<lambda>fc. fc AND 0x0800 \<noteq> 0),
     has_morefrags = (\<lambda>fc. fc AND 0x0400 \<noteq> 0), has_protected = (\<lambda>fc. fc AND 0x4000 \<noteq> 0),
     ieee80211_hdrlen = (\<lambda>_. 24), is_multicast = (\<lambda>_. False)\<rparr>"

definition frame_ex :: "u16 \<Rightarrow> rx_frame" where
  "frame_ex s = \<lparr>fr_frame_control = 0x0888, fr_addr1 = [], fr_addr2 = [], fr_seq_ctrl = s * 16, fr_qos_ctl = 0,
     fr_amsdu_more = False, fr_ra_match = True, fr_deferred_release = False, fr_fragmented = False,
     fr_data = replicate 24 0\<rparr>"

definition session_ex :: "u16 \<Rightarrow> u16 \<Rightarrow> rx_frame list list \<Rightarrow> u16 \<Rightarrow> tid_ampdu_rx" where
  "session_ex n h buf stored = \<lparr>ar_reorder_buf = buf, ar_reorder_time = map (\<lambda>_. 0) buf, ar_session_timer = None, ar_reorder_timer = None,
     ar_last_rx = 0, ar_head_seq_num = h, ar_stored_mpdu_num = stored, ar_ssn = h, ar_buf_size = n,
     ar_timeout = 0, ar_dialog_token = 0, ar_auto_seq = False, ar_removed = False\<rparr>"

definition waiting_ex :: tid_ampdu_rx where
  "waiting_ex = session_ex 4 0 [[], [], [frame_ex 2], []] 1"

lemma ops_ex_arith: "sn_arith ops_ex"
  by (simp add: sn_arith_def ops_ex_def)

lemma frame_ex_seq: "frame_seq (frame_ex 0) = 0" "frame_seq (frame_ex 1) = 1" "frame_seq (frame_ex 2) = 2"
  by (simp_all add: frame_seq_def frame_ex_def SCTL_SEQ_def)

lemma frame_ex_more: "\<not> fr_amsdu_more (frame_ex s)"
  by (simp add: frame_ex_def)

lemma waiting_ex_fields:
  "window waiting_ex = 4" "sn_head waiting_ex = 0" "ar_reorder_buf waiting_ex = [[], [], [frame_ex 2], []]"
  "ar_reorder_time waiting_ex = [0, 0, 0, 0]" "ar_stored_mpdu_num waiting_ex = 1" "\<not> ar_auto_seq waiting_ex"
  by (simp_all add: waiting_ex_def session_ex_def window_def sn_head_def)

lemma all_less_4: "(\<forall>i < (4 :: nat). P i) \<longleftrightarrow> P 0 \<and> P 1 \<and> P 2 \<and> P 3"
  by (simp add: numeral_eq_Suc All_less_Suc) blast

lemma waiting_ex_inv: "reorder_inv waiting_ex"
  unfolding reorder_inv_def waiting_ex_fields all_less_4
  by (simp add: waiting_ex_fields in_slot_def frame_ex_more frame_ex_seq dist_def)

text \<open>C11. A frame that is not part of a deaggregated A-MSDU and arrives at a block-ack session with a valid window (of 2 to 1024 frames, a
  number that divides 4096) always completes. If it is older
  than the window or its number is already stored, it is dropped and the session is unchanged. Otherwise
  the frames handed on, followed by the frames that stay stored, are the old stored frames with the new one
  inserted at its place in the order of sequence numbers (counted from the head of the window); the session
  stays valid and no frame that is next in order stays behind.\<close>

theorem reorder_buffer_sorts:
  assumes "sn_arith ops" and "reorder_inv t" and "\<not> fr_amsdu_more f"
  shows "\<exists>ret t' rel. sta_manage_reorder_buf ops hz now f (t, fs) = Some (ret, t', fs @ released rel) \<and> reorder_inv t' \<and>
    (if refused (synced t f) f then ret \<and> rel = [] \<and> t' = t
     else slot t' 0 = [] \<and> rel @ (if ret then [] else [f]) @ stored_frames t' =
            insort_key (\<lambda>g. dist (sn_head (synced t f)) (unat (frame_seq g))) f (stored_frames (synced t f)))"
  using assms by (rule reorder_insert_synced)

theorem reorder_buffer_sorts_witness:
  "\<exists>ret t' rel. sta_manage_reorder_buf ops_ex 100 5 (frame_ex 0) (waiting_ex, []) = Some (ret, t', [] @ released rel) \<and> reorder_inv t' \<and>
    (if refused (synced waiting_ex (frame_ex 0)) (frame_ex 0) then ret \<and> rel = [] \<and> t' = waiting_ex
     else slot t' 0 = [] \<and> rel @ (if ret then [] else [frame_ex 0]) @ stored_frames t' =
            insort_key (\<lambda>g. dist (sn_head (synced waiting_ex (frame_ex 0))) (unat (frame_seq g))) (frame_ex 0)
              (stored_frames (synced waiting_ex (frame_ex 0))))"
  by (rule reorder_buffer_sorts [OF ops_ex_arith waiting_ex_inv frame_ex_more])

text \<open>C13. In a session with a valid window (of 2 to 1024 frames, a number that divides 4096), however frames that are not parts of a deaggregated A-MSDU arrive, nothing is invented and nothing is delivered twice: what has been handed on
  together with what is still stored is part of what was stored and what arrived, counted with multiplicity.\<close>

theorem reorder_run_conserves:
  assumes "sn_arith ops" and "reorder_inv t" and "list_all (\<lambda>(now, f). \<not> fr_amsdu_more f) as"
  shows "\<exists>t' out. reorder_run ops hz as (t, []) = Some (t', out) \<and> reorder_inv t' \<and>
      image_mset undeferred (mset out + mset (stored_frames t')) \<subseteq>#
        image_mset undeferred (mset (stored_frames t) + mset (map snd as))"
  using reorder_run_ok [OF assms, of hz "[]"] by simp

theorem reorder_run_conserves_witness:
  "\<exists>t' out. reorder_run ops_ex 100 [(5, frame_ex 1), (6, frame_ex 0), (7, frame_ex 1)] (waiting_ex, []) = Some (t', out) \<and> reorder_inv t' \<and>
      image_mset undeferred (mset out + mset (stored_frames t')) \<subseteq>#
        image_mset undeferred (mset (stored_frames waiting_ex) + mset (map snd [(5, frame_ex 1), (6, frame_ex 0), (7 :: u64, frame_ex 1)]))"
  by (rule reorder_run_conserves [OF ops_ex_arith waiting_ex_inv]) (simp add: frame_ex_more)



text \<open>A session whose size does not divide 4096, for the example that follows.\<close>

lemma frame_ex_4095: "frame_seq (frame_ex 4095) = 4095"
  by (simp add: frame_seq_def frame_ex_def SCTL_SEQ_def)

definition gap_ex :: "u16 \<Rightarrow> u64 list \<Rightarrow> u64 option \<Rightarrow> rx_frame list \<Rightarrow> tid_ampdu_rx" where
  "gap_ex stored ts timer l = \<lparr>ar_reorder_buf = [l, [], []], ar_reorder_time = ts, ar_session_timer = None, ar_reorder_timer = timer,
     ar_last_rx = 0, ar_head_seq_num = 4094, ar_stored_mpdu_num = stored, ar_ssn = 4094, ar_buf_size = 3,
     ar_timeout = 0, ar_dialog_token = 0, ar_auto_seq = False, ar_removed = False\<rparr>"

lemma gap_ex_fields [simp]:
  "ar_reorder_buf (gap_ex m ts tm l) = [l, [], []]" "ar_reorder_time (gap_ex m ts tm l) = ts" "ar_head_seq_num (gap_ex m ts tm l) = 4094"
  "ar_stored_mpdu_num (gap_ex m ts tm l) = m" "ar_buf_size (gap_ex m ts tm l) = 3" "ar_auto_seq (gap_ex m ts tm l) = False" "ar_removed (gap_ex m ts tm l) = False"
  "(gap_ex m ts tm l)\<lparr>ar_reorder_buf := [l', [], []]\<rparr> = gap_ex m ts tm l'" "(gap_ex m ts tm l)\<lparr>ar_reorder_time := ts'\<rparr> = gap_ex m ts' tm l"
  "(gap_ex m ts tm l)\<lparr>ar_reorder_timer := tm'\<rparr> = gap_ex m ts tm' l" "(gap_ex m ts tm l)\<lparr>ar_stored_mpdu_num := m'\<rparr> = gap_ex m' ts tm l"
  by (simp_all add: gap_ex_def)

lemma gap_release: "sta_reorder_release ops_ex 100 5 (gap_ex 1 [5, 0, 0] None [frame_ex 4095], []) =
    Some (gap_ex 1 [5, 0, 0] (Some 16) [frame_ex 4095], [])"
proof -
  let ?t = "gap_ex 1 [5, 0, 0] None [frame_ex 4095]"
  let ?b = "\<lambda>(j, skipped, stop, t :: tid_ampdu_rx, frames :: rx_frame list). \<not> stop \<and> j \<noteq> (2 :: nat)"
  have "timeout_body ops_ex 100 5 2 (0, 1, False, ?t, []) = Some (0, 1, True, ?t, [])"
    by (simp add: timeout_body_def frame_ex_more ops_ex_def HT_RX_REORDER_BUF_TIMEOUT_def)
  with loop_opt_step [of ?b "(0, 1 :: nat, False, ?t, [])" "timeout_body ops_ex 100 5 2"]
  have "loop_opt ?b (timeout_body ops_ex 100 5 2) (0, 1, False, ?t, []) = Some (0, 1, True, ?t, [])"
    by (simp add: loop_opt_stop)
  then have "release_ready ops_ex 100 5 2 (?t, []) = Some (True, 0, ?t, [])"
    by (simp add: release_ready_def)
  then show ?thesis
    by (simp add: sta_reorder_release_def head_index_def arm_release_timer_def set_release_timer_def HT_RX_REORDER_BUF_TIMEOUT_def)
qed

lemma sn_less_ex: "sn_less ops_ex a b = (2048 < unat ((a - b) AND 0xfff))"
  by (simp add: ops_ex_def)

text \<open>The slot of a frame is its number modulo the buffer size, which is only injective on the window
  while the numbers do not wrap around, unless the size divides 4096: with size 3 and head 4094, frame 0 is
  in the window but is dropped as a duplicate, because frame 4095 occupies the same slot.\<close>

theorem reorder_collision:
  "\<exists>t. sta_manage_reorder_buf ops_ex 100 5 (frame_ex 4095) (gap_ex 0 [0, 0, 0] None [], []) = Some (True, t, []) \<and>
    ar_reorder_buf t = [[frame_ex 4095], [], []] \<and>
    sta_manage_reorder_buf ops_ex 100 6 (frame_ex 0) (t, []) = Some (True, t, [])"
proof -
  have "sta_manage_reorder_buf ops_ex 100 5 (frame_ex 4095) (gap_ex 0 [0, 0, 0] None [], []) =
      Some (True, gap_ex 1 [5, 0, 0] (Some 16) [frame_ex 4095], [])"
    using gap_release by (simp add: sta_manage_reorder_buf_def place_frame_def frame_ex_4095 frame_ex_more sn_less_ex Let_def)
  moreover have "sta_manage_reorder_buf ops_ex 100 6 (frame_ex 0) (gap_ex 1 [5, 0, 0] (Some 16) [frame_ex 4095], []) =
      Some (True, gap_ex 1 [5, 0, 0] (Some 16) [frame_ex 4095], [])"
    by (simp add: sta_manage_reorder_buf_def place_frame_def frame_ex_seq frame_ex_more sn_less_ex)
  ultimately show ?thesis by simp
qed

text \<open>After a frame was accepted by the test for duplicates, a retransmission with the same
  sequence number and fragment number is dropped.\<close>

theorem retransmission_dropped:
  assumes "rx_h_check_dup ops f idx True s = (RX_CONTINUE, s')"
    and "24 \<le> length (fr_data f)" and "\<not> is_ctl ops (fr_frame_control f)" and "\<not> is_qos_nullfunc ops (fr_frame_control f)"
    and "\<not> is_multicast ops (fr_addr1 f)" and "\<not> fr_amsdu_more f"
    and "24 \<le> length (fr_data g)" and "\<not> is_ctl ops (fr_frame_control g)" and "\<not> is_qos_nullfunc ops (fr_frame_control g)"
    and "\<not> is_multicast ops (fr_addr1 g)"
    and "has_retry ops (fr_frame_control g)" and "fr_seq_ctrl g = fr_seq_ctrl f"
  shows "fst (rx_h_check_dup ops g idx True s') = RX_DROP_UNUSABLE"
  using assms by (auto simp: rx_h_check_dup_def split: if_splits)

theorem retransmission_dropped_witness:
  "fst (rx_h_check_dup ops_ex (frame_ex 7) 0 True
     (snd (rx_h_check_dup ops_ex (frame_ex 7) 0 True \<lparr>du_last_seq_ctrl = (\<lambda>_. 0), du_num_duplicates = 0, du_dot11FrameDuplicateCount = 0\<rparr>)))
   = RX_DROP_UNUSABLE"
  by (rule retransmission_dropped [of ops_ex "frame_ex 7" 0 "\<lparr>du_last_seq_ctrl = (\<lambda>_. 0), du_num_duplicates = 0, du_dot11FrameDuplicateCount = 0\<rparr>"])
    (simp_all add: rx_h_check_dup_def ops_ex_def frame_ex_def)

end
