(* ===== verification/RX_Any.thy ===== *)
theory RX_Any
  imports RX_Session
begin

text \<open>
  The reorder buffer for every size of the window and every frame, the parts of a deaggregated A-MSDU included:
  the part of the invariant that the code keeps in all cases (\<open>buf_ok\<close>), that every function returns, and that
  frames are only moved. The order of the frames handed on is a matter of theory \<open>RX_Session\<close>.
\<close>

section \<open>Invariant\<close>

definition buf_ok :: "tid_ampdu_rx \<Rightarrow> bool" where
  "buf_ok t \<longleftrightarrow> 0 < window t \<and> length (ar_reorder_buf t) = window t \<and> length (ar_reorder_time t) = window t \<and>
     unat (ar_stored_mpdu_num t) = length (filter rx_reorder_ready (ar_reorder_buf t))"

definition frames_mset :: "rx_frame list \<Rightarrow> rx_frame multiset" where
  "frames_mset fs = image_mset undeferred (mset fs)"

definition buf_mset :: "tid_ampdu_rx \<Rightarrow> rx_frame multiset" where
  "buf_mset t = frames_mset (concat (ar_reorder_buf t))"

text \<open>From \<open>t\<close> and the list \<open>fs\<close> to \<open>s\<close>, frames have only been moved from the buffer to the list, or freed.\<close>

definition moved :: "tid_ampdu_rx \<Rightarrow> rx_frame list \<Rightarrow> tid_ampdu_rx \<times> rx_frame list \<Rightarrow> bool" where
  "moved t fs s \<longleftrightarrow> buf_ok (fst s) \<and> window (fst s) = window t \<and>
     (\<exists>rel. snd s = fs @ rel \<and> frames_mset rel + buf_mset (fst s) \<subseteq># buf_mset t)"

lemma frames_mset_simps [simp]:
  "frames_mset [] = {#}" "frames_mset (f # fs) = add_mset (undeferred f) (frames_mset fs)"
  "frames_mset (fs @ gs) = frames_mset fs + frames_mset gs"
  "frames_mset (map (\<lambda>f. f\<lparr>fr_deferred_release := True\<rparr>) fs) = frames_mset fs"
proof -
  have "undeferred (f\<lparr>fr_deferred_release := True\<rparr>) = undeferred f" for f by (simp add: undeferred_def)
  then show "frames_mset (map (\<lambda>f. f\<lparr>fr_deferred_release := True\<rparr>) fs) = frames_mset fs"
    by (induction fs) (simp_all add: frames_mset_def)
qed (simp_all add: frames_mset_def)

lemma moved_refl: "buf_ok t \<Longrightarrow> moved t fs (t, fs)"
  by (simp add: moved_def)

lemma moved_trans:
  assumes "moved t fs s" "moved (fst s) (snd s) r"
  shows "moved t fs r"
proof -
  obtain a b where a: "snd s = fs @ a" "frames_mset a + buf_mset (fst s) \<subseteq># buf_mset t"
    and b: "snd r = snd s @ b" "frames_mset b + buf_mset (fst r) \<subseteq># buf_mset (fst s)"
    using assms by (auto simp: moved_def)
  have "frames_mset (a @ b) + buf_mset (fst r) = frames_mset a + (frames_mset b + buf_mset (fst r))" by simp
  also have "\<dots> \<subseteq># frames_mset a + buf_mset (fst s)" using b(2) by (rule subset_mset.add_left_mono)
  also have "\<dots> \<subseteq># buf_mset t" by (rule a(2))
  finally show ?thesis using assms a(1) b(1) by (auto simp: moved_def)
qed

lemma ready_clear:
  "i < length xs \<Longrightarrow> length (filter rx_reorder_ready xs) =
     length (filter rx_reorder_ready (xs[i := []])) + (if rx_reorder_ready (xs ! i) then 1 else 0)"
  by (induction xs arbitrary: i) (auto simp: nth_Cons split: nat.splits)

lemma buf_clear:
  "i < length (ar_reorder_buf t) \<Longrightarrow>
     frames_mset (ar_reorder_buf t ! i) + frames_mset (concat ((ar_reorder_buf t)[i := []])) = buf_mset t"
  using mset_concat_clear [of i "ar_reorder_buf t", THEN arg_cong [where f = "image_mset undeferred"]]
  by (simp add: buf_mset_def frames_mset_def add.commute)

lemma buf_okD:
  assumes "buf_ok t"
  shows "0 < window t" "length (ar_reorder_buf t) = window t" "length (ar_reorder_time t) = window t"
    "unat (ar_stored_mpdu_num t) = length (filter rx_reorder_ready (ar_reorder_buf t))"
    "ar_buf_size t \<noteq> 0" "unat (ar_buf_size t) = window t"
  using assms by (auto simp: buf_ok_def window_def)

section \<open>Releasing frames\<close>

lemma release_frame_moved:
  assumes ok: "buf_ok t" and i: "i < window t"
  shows "\<exists>s. release_reorder_frame ops i (t, fs) = Some s \<and> moved t fs s \<and>
    ar_reorder_buf (fst s) = (ar_reorder_buf t)[i := []] \<and> ar_head_seq_num (fst s) = sn_inc ops (ar_head_seq_num t)"
proof -
  note I = buf_okD [OF ok]
  have il: "i < length (ar_reorder_buf t)" using i I by simp
  note c = ready_clear [OF il] buf_clear [OF il]
  let ?l = "ar_reorder_buf t ! i"
  let ?t = "t\<lparr>ar_reorder_buf := (ar_reorder_buf t)[i := []]\<rparr>"
  have le: "frames_mset (concat ((ar_reorder_buf t)[i := []])) \<subseteq># buf_mset t" unfolding c(2) [symmetric] by simp
  consider (empty) "?l = []" | (parts) "?l \<noteq> []" "\<not> rx_reorder_ready ?l" | (ready) "?l \<noteq> []" "rx_reorder_ready ?l" by blast
  then show ?thesis
  proof cases
    case empty
    then have "(ar_reorder_buf t)[i := []] = ar_reorder_buf t" by (metis list_update_id)
    with empty il ok show ?thesis
      by (simp add: release_reorder_frame_def moved_def buf_ok_def window_def buf_mset_def)
  next
    case parts
    with il ok c(1) le show ?thesis
      by (simp add: release_reorder_frame_def moved_def buf_ok_def window_def buf_mset_def)
  next
    case ready
    have "unat (ar_stored_mpdu_num t - 1) = length (filter rx_reorder_ready ((ar_reorder_buf t)[i := []]))"
      using c(1) ready I(4) unat_dec [of "ar_stored_mpdu_num t"] by simp
    with ready il ok c show ?thesis
      by (simp add: release_reorder_frame_def moved_def buf_ok_def window_def buf_mset_def Let_def)
  qed
qed

lemma head_index_ok: "buf_ok t \<Longrightarrow> \<exists>i<window t. head_index t = Some i"
  using buf_okD(1,5) [of t] by (auto simp: head_index_def window_def)

lemma dist_mod: "h \<le> 4096 \<Longrightarrow> dist h (s mod 4096) = dist h s"
  using mod_add_left_eq [of s 4096 "4096 - h"] by (simp add: dist_def)

lemma dist_sym0: "a < 4096 \<Longrightarrow> b < 4096 \<Longrightarrow> dist a b = 0 \<Longrightarrow> dist b a = 0"
  using dist_add [of a b] by (simp add: dist_def)

lemma release_frames_moved:
  assumes ops: "sn_arith ops" and ok: "buf_ok t"
  shows "\<exists>s. release_reorder_frames ops target (t, fs) = Some s \<and> moved t fs s"
proof -
  let ?s = "unat target mod 4096"
  have "\<exists>r. loop_opt (\<lambda>(t, frames). sn_less ops (ar_head_seq_num t) target)
       (\<lambda>(t, frames). do { index \<leftarrow> head_index t; release_reorder_frame ops index (t, frames) }) (t, fs) = Some r \<and>
       moved t fs r \<and> \<not> (case r of (t, frames) \<Rightarrow> sn_less ops (ar_head_seq_num t) target)"
  proof (rule loop_opt_measure [where m = "\<lambda>(t, _). dist (unat (ar_head_seq_num t) mod 4096) ?s" and I = "moved t fs"])
    show "moved t fs (t, fs)" using ok by (rule moved_refl)
    fix s assume s: "moved t fs s" "case s of (t, frames) \<Rightarrow> sn_less ops (ar_head_seq_num t) target"
    obtain u gs where u: "s = (u, gs)" by (cases s)
    let ?h = "unat (ar_head_seq_num u) mod 4096"
    have uok: "buf_ok u" using s by (simp add: moved_def u)
    obtain i where i: "i < window u" "head_index u = Some i" using head_index_ok [OF uok] by blast
    obtain s' where s': "release_reorder_frame ops i s = Some s'" "moved u gs s'" "ar_head_seq_num (fst s') = sn_inc ops (ar_head_seq_num u)"
      using release_frame_moved [OF uok i(1), of ops gs] unfolding u by blast
    have "2048 < dist ?s (unat (ar_head_seq_num u))" using s(2) by (simp add: u sn_arith_less [OF ops])
    then have "2048 < dist ?s ?h" using dist_mod [of ?s "unat (ar_head_seq_num u)"] by simp
    then have "dist ?h ?s \<noteq> 0" using dist_sym0 [of ?h ?s] by auto
    then have d: "dist ((?h + 1) mod 4096) ?s < dist ?h ?s" using dist_advance [of ?h ?s] by simp
    have "unat (sn_inc ops (ar_head_seq_num u)) mod 4096 = (?h + 1) mod 4096"
      using ops by (simp add: sn_arith_def sn_mask unat_word_ariths mod_mod_cancel mod_Suc_eq)
    with d s' have "(case s' of (t, _) \<Rightarrow> dist (unat (ar_head_seq_num t) mod 4096) ?s) < dist ?h ?s" by (auto split: prod.split)
    moreover have "moved t fs s'" using moved_trans [OF s(1)] s'(2) by (simp add: u)
    ultimately show "\<exists>s'. (case s of (t, frames) \<Rightarrow> do { index \<leftarrow> head_index t; release_reorder_frame ops index (t, frames) }) = Some s' \<and>
        moved t fs s' \<and> (case s' of (t, _) \<Rightarrow> dist (unat (ar_head_seq_num t) mod 4096) ?s) <
        (case s of (t, _) \<Rightarrow> dist (unat (ar_head_seq_num t) mod 4096) ?s)"
      using s'(1) i(2) by (auto simp: u)
  qed
  then show ?thesis by (auto simp: release_reorder_frames_def)
qed

lemma moved_upd [simp]:
  "moved t fs (u\<lparr>ar_head_seq_num := x\<rparr>, gs) = moved t fs (u, gs)" "moved t fs (u\<lparr>ar_reorder_timer := y\<rparr>, gs) = moved t fs (u, gs)"
  by (simp_all add: moved_def buf_ok_def window_def buf_mset_def)

lemma moved_ok: "moved t fs (u, gs) \<Longrightarrow> buf_ok u" "moved t fs (u, gs) \<Longrightarrow> window u = window t"
  by (simp_all add: moved_def)

lemma clear_moved:
  assumes ok: "buf_ok t" and i: "i < window t" "\<not> rx_reorder_ready (ar_reorder_buf t ! i)"
  shows "moved t fs (t\<lparr>ar_reorder_buf := (ar_reorder_buf t)[i := []]\<rparr>, fs)"
proof -
  have il: "i < length (ar_reorder_buf t)" using i buf_okD [OF ok] by simp
  have "frames_mset (concat ((ar_reorder_buf t)[i := []])) \<subseteq># buf_mset t" unfolding buf_clear [OF il, symmetric] by simp
  with ok i il ready_clear [OF il] show ?thesis by (simp add: moved_def buf_ok_def window_def buf_mset_def)
qed

definition fewer_ready :: "tid_ampdu_rx \<Rightarrow> tid_ampdu_rx \<Rightarrow> bool" where
  "fewer_ready t u \<longleftrightarrow> (\<forall>i<window t. rx_reorder_ready (ar_reorder_buf u ! i) \<longrightarrow> rx_reorder_ready (ar_reorder_buf t ! i))"

lemma fewer_refl: "fewer_ready t t" by (simp add: fewer_ready_def)

lemma fewer_trans: "fewer_ready t u \<Longrightarrow> fewer_ready u v \<Longrightarrow> window u = window t \<Longrightarrow> fewer_ready t v"
  by (simp add: fewer_ready_def)

lemma fewer_clear: "length (ar_reorder_buf t) = window t \<Longrightarrow> ar_reorder_buf u = (ar_reorder_buf t)[i := []] \<Longrightarrow> fewer_ready t u"
  by (simp add: fewer_ready_def) (metis nth_list_update_eq nth_list_update_neq ready_single(1))

definition gap_until :: "tid_ampdu_rx \<Rightarrow> nat \<Rightarrow> nat \<Rightarrow> bool" where
  "gap_until t index d \<longleftrightarrow> (\<forall>e. 1 \<le> e \<and> e < d \<longrightarrow> \<not> rx_reorder_ready (ar_reorder_buf t ! ((index + e) mod window t)))"

lemma gap_fewer: "gap_until t index d \<Longrightarrow> fewer_ready t u \<Longrightarrow> window u = window t \<Longrightarrow> 0 < window t \<Longrightarrow> gap_until u index d"
  by (simp add: gap_until_def fewer_ready_def) (meson mod_less_divisor)

lemma gap_Suc: "gap_until t index d \<Longrightarrow> \<not> rx_reorder_ready (ar_reorder_buf t ! ((index + d) mod window t)) \<Longrightarrow> gap_until t index (Suc d)"
  by (simp add: gap_until_def less_Suc_eq) blast

lemma purge_moved:
  assumes ok: "buf_ok t" and d: "1 \<le> d" "d < window t" and gap: "gap_until t index d"
  shows "\<exists>u. purge_between index ((index + d) mod window t) t = Some u \<and> moved t fs (u, fs) \<and> fewer_ready t u"
proof -
  let ?n = "window t" and ?j = "(index + d) mod window t"
  let ?b = "\<lambda>(i, t :: tid_ampdu_rx). i \<noteq> ?j"
  let ?c = "\<lambda>(i, t). if i < length (ar_reorder_buf t)
                    then Some ((i + 1) mod ?n, t\<lparr>ar_reorder_buf := (ar_reorder_buf t)[i := []]\<rparr>) else None"
  have "\<exists>u'. loop_opt ?b ?c ((index + e) mod ?n, u) = Some (?j, u') \<and> moved t fs (u', fs) \<and> fewer_ready t u'"
    if "1 \<le> e" "e \<le> d" "moved t fs (u, fs)" "fewer_ready t u" for e u
    using that
  proof (induction "d - e" arbitrary: e u)
    case 0
    then show ?case by (auto simp: loop_opt_stop)
  next
    case (Suc k)
    let ?i = "(index + e) mod ?n"
    have ed: "e < d" using Suc.hyps(2) by simp
    have "?i \<noteq> ?j" using ed d mod_add_cancel [of index e ?n d] by simp
    note uok = moved_ok [OF Suc.prems(3)]
    have i: "?i < window u" using uok buf_okD(1) [OF ok] by simp
    have nr: "\<not> rx_reorder_ready (ar_reorder_buf u ! ?i)"
      using gap_fewer [OF gap Suc.prems(4)] uok buf_okD(1) [OF ok] Suc.prems(1) ed by (simp add: gap_until_def)
    let ?u = "u\<lparr>ar_reorder_buf := (ar_reorder_buf u)[?i := []]\<rparr>"
    have "moved t fs (?u, fs)" using moved_trans [OF Suc.prems(3)] clear_moved [OF uok(1) i nr] by simp
    moreover have "fewer_ready t ?u" using fewer_trans [OF Suc.prems(4) fewer_clear] uok buf_okD(2) [OF uok(1)] by simp
    moreover have "?c (?i, u) = Some ((index + Suc e) mod ?n, ?u)" using i buf_okD(2) [OF uok(1)] by (simp add: mod_Suc_eq)
    ultimately show ?case using Suc.hyps(1) [of "Suc e" ?u] Suc.hyps(2) ed loop_opt_step [of ?b "(?i, u)" ?c] \<open>?i \<noteq> ?j\<close> by simp
  qed
  from this [OF order_refl d(1) moved_refl [OF ok] fewer_refl] buf_okD(6) [OF ok] show ?thesis
    by (auto simp: purge_between_def)
qed

section \<open>Frames that waited too long\<close>

definition waiting :: "tid_ampdu_rx \<Rightarrow> rx_frame list \<Rightarrow> nat \<Rightarrow> nat \<Rightarrow> nat \<times> nat \<times> bool \<times> tid_ampdu_rx \<times> rx_frame list \<Rightarrow> bool" where
  "waiting t fs index d = (\<lambda>(j, skipped, stop, u, gs).
     j = (index + d) mod window t \<and> moved t fs (u, gs) \<and> gap_until u index d)"

lemma timeout_body_moved:
  assumes w: "waiting t fs index d (j, skipped, False, u, gs)" and d: "1 \<le> d" "d < window t"
  shows "\<exists>s. timeout_body ops hz now index (j, skipped, False, u, gs) = Some s \<and>
    waiting t fs index (if fst (snd (snd s)) then d else Suc d) s"
proof -
  have j: "j = (index + d) mod window t" and m: "moved t fs (u, gs)" and gap: "gap_until u index d"
    using w by (simp_all add: waiting_def)
  note ok = moved_ok(1) [OF m] note win = moved_ok(2) [OF m]
  note I = buf_okD [OF ok]
  have jn: "j < window u" using I(1) win by (simp add: j)
  have nxt: "(j + 1) mod unat (ar_buf_size u) = (index + Suc d) mod window t" using I(6) win by (simp add: j mod_Suc_eq)
  consider (skip) "\<not> rx_reorder_ready (ar_reorder_buf u ! j)"
    | (stop) "rx_reorder_ready (ar_reorder_buf u ! j)" "skipped \<noteq> 0 \<and> \<not> time_after ops now (ar_reorder_time u ! j + HT_RX_REORDER_BUF_TIMEOUT hz)"
    | (go) "rx_reorder_ready (ar_reorder_buf u ! j)" "\<not> (skipped \<noteq> 0 \<and> \<not> time_after ops now (ar_reorder_time u ! j + HT_RX_REORDER_BUF_TIMEOUT hz))"
    by blast
  then show ?thesis
  proof cases
    case skip
    with gap_Suc [OF gap] m jn I nxt win j show ?thesis by (auto simp: timeout_body_def waiting_def Let_def)
  next
    case stop
    with gap m jn I win j show ?thesis by (auto simp: timeout_body_def waiting_def Let_def)
  next
    case go
    obtain v where v: "purge_between index j u = Some v" "moved u gs (v, gs)" "fewer_ready u v"
      using purge_moved [OF ok, of d index gs] d gap j win by auto
    have vok: "buf_ok v" "window v = window u" using moved_ok [OF v(2)] by simp_all
    obtain x hs where r: "release_reorder_frame ops j (v, gs) = Some (x, hs)" "moved v gs (x, hs)"
      "ar_reorder_buf x = (ar_reorder_buf v)[j := []]"
      using release_frame_moved [OF vok(1), of j ops gs] jn vok(2) by auto
    have xok: "window x = window u" using moved_ok(2) [OF r(2)] vok(2) by simp
    have "moved t fs (x, hs)" using moved_trans [OF m] moved_trans [OF v(2)] r(2) by simp
    moreover have "fewer_ready u x" using fewer_trans [OF v(3) fewer_clear [OF _ r(3)]] vok(2) buf_okD(2) [OF vok(1)] by simp
    then have "gap_until x index d" using gap_fewer [OF gap _ xok] I(1) by blast
    moreover have "\<not> rx_reorder_ready (ar_reorder_buf x ! j)"
      using r(3) jn vok buf_okD(2) [OF vok(1)] by simp
    ultimately have "waiting t fs index (Suc d) ((index + Suc d) mod window t, 0, False, x\<lparr>ar_head_seq_num := y\<rparr>, hs)" for y
      using gap_Suc [of x index d] xok win by (simp add: waiting_def gap_until_def window_def j)
    with go v r jn I nxt show ?thesis by (auto simp: timeout_body_def Let_def)
  qed
qed

lemma timeout_loop_moved:
  assumes "waiting t fs index d s" "1 \<le> d" "d \<le> window t" and index: "index < window t"
  shows "\<exists>j skipped stop u gs. loop_opt (\<lambda>(j, skipped, stop, t, frames). \<not> stop \<and> j \<noteq> index) (timeout_body ops hz now index) s =
     Some (j, skipped, stop, u, gs) \<and> moved t fs (u, gs) \<and> j < window t"
  using assms(1-3)
proof (induction "window t - d" arbitrary: d s rule: less_induct)
  case less
  let ?b = "\<lambda>(j, skipped :: nat, stop, t :: tid_ampdu_rx, frames :: rx_frame list). \<not> stop \<and> j \<noteq> index"
  let ?c = "timeout_body ops hz now index"
  have fin: ?case if "loop_opt ?b ?c s = Some s'" "waiting t fs index d' s'" for s' d'
    using that index by (cases s') (auto simp: waiting_def)
  obtain j skipped stop u gs where s: "s = (j, skipped, stop, u, gs)" by (metis prod_cases5)
  show ?case
  proof (cases "?b s")
    case False
    then show ?thesis using fin loop_opt_stop [of ?b s ?c] less.prems(1) by blast
  next
    case b: True
    then have d: "d < window t" using less.prems index by (cases "d = window t") (auto simp: s waiting_def)
    obtain s' where c: "?c s = Some s'" and s': "waiting t fs index (if fst (snd (snd s')) then d else Suc d) s'"
      using timeout_body_moved [of t fs index d j skipped u gs ops hz now] less.prems b d by (auto simp: s)
    note step = loop_opt_step [of ?b s ?c, OF b c]
    show ?thesis
    proof (cases "fst (snd (snd s'))")
      case True
      then have "\<not> ?b s'" by (cases s') auto
      then show ?thesis using fin [OF _ s'] loop_opt_stop [of ?b s' ?c] step by simp
    next
      case False
      with s' have "waiting t fs index (Suc d) s'" by simp
      from less.hyps [OF _ this] d show ?thesis unfolding step by simp
    qed
  qed
qed

text \<open>Frames in order.\<close>

lemma drain_moved:
  assumes ok: "buf_ok t"
  shows "\<exists>s. loop_opt (\<lambda>(t, frames). case head_index t of None \<Rightarrow> False
                      | Some index \<Rightarrow> index < length (ar_reorder_buf t) \<and> rx_reorder_ready (ar_reorder_buf t ! index))
            (\<lambda>(t, frames). do { index \<leftarrow> head_index t; release_reorder_frame ops index (t, frames) }) (t, fs) = Some s \<and> moved t fs s"
    (is "\<exists>s. loop_opt ?b ?c _ = _ \<and> _")
proof -
  let ?m = "\<lambda>(u, gs :: rx_frame list). length (filter rx_reorder_ready (ar_reorder_buf u))"
  have "\<exists>s'. ?c s = Some s' \<and> moved t fs s' \<and> ?m s' < ?m s" if s: "moved t fs s" "?b s" for s
  proof -
    obtain u gs where u: "s = (u, gs)" by (cases s)
    have uok: "buf_ok u" using s moved_ok by (simp add: u)
    obtain i where i: "i < window u" "head_index u = Some i" using head_index_ok [OF uok] by blast
    obtain s' where s': "release_reorder_frame ops i s = Some s'" "moved u gs s'" "ar_reorder_buf (fst s') = (ar_reorder_buf u)[i := []]"
      using release_frame_moved [OF uok i(1), of ops gs] unfolding u by blast
    have "?m s' < ?m s" using s(2) i s'(3) ready_clear [of i "ar_reorder_buf u"] by (cases s') (simp add: u)
    with s' i moved_trans [OF s(1), of s'] show ?thesis by (simp add: u)
  qed
  from loop_opt_measure [where m = ?m and I = "moved t fs" and b = ?b and c = ?c, OF moved_refl [OF ok] this]
  show ?thesis by blast
qed

lemma release_ready_moved:
  assumes ok: "buf_ok t" and i: "index < window t"
  shows "\<exists>stop j s. release_ready ops hz now index (t, fs) = Some (stop, j, s) \<and> moved t fs s \<and> j < window t"
proof (cases "\<not> rx_reorder_ready (ar_reorder_buf t ! index) \<and> ar_stored_mpdu_num t \<noteq> 0")
  case True
  have w: "waiting t fs index 1 ((index + 1) mod unat (ar_buf_size t), 1, False, t, fs)"
    using ok buf_okD(6) [OF ok] by (simp add: waiting_def moved_refl gap_until_def)
  have "1 \<le> window t" using buf_okD(1) [OF ok] by simp
  from timeout_loop_moved [OF w order_refl this i, of ops hz now] True buf_okD(2) [OF ok] i show ?thesis
    unfolding release_ready_def by auto
next
  case False
  from drain_moved [OF ok, of ops fs] obtain s where "loop_opt (\<lambda>(t, frames). case head_index t of None \<Rightarrow> False
                      | Some index \<Rightarrow> index < length (ar_reorder_buf t) \<and> rx_reorder_ready (ar_reorder_buf t ! index))
            (\<lambda>(t, frames). do { index \<leftarrow> head_index t; release_reorder_frame ops index (t, frames) }) (t, fs) = Some s" "moved t fs s" by blast
  with False i buf_okD(1,2) [OF ok] show ?thesis unfolding release_ready_def by (cases s) auto
qed

section \<open>The release timer\<close>

text \<open>For \<open>index = 0\<close> the bound of the search is negative and never reached; the search ends because a frame
  is stored.\<close>

lemma next_stored_ok:
  assumes ok: "buf_ok t" and st: "ar_stored_mpdu_num t \<noteq> 0" and index: "index < window t"
  shows "\<exists>j<window t. next_stored t index = Some j"
proof -
  note I = buf_okD [OF ok]
  let ?n = "window t"
  let ?b = "\<lambda>(j, found). \<not> found \<and> int j \<noteq> (int index - 1) smod int ?n"
  let ?c = "\<lambda>(j, found :: bool). if j < length (ar_reorder_buf t)
      then Some (if rx_reorder_ready (ar_reorder_buf t ! j) then (j, True) else ((j + 1) mod ?n, False)) else None"
  have "filter rx_reorder_ready (ar_reorder_buf t) \<noteq> []" using I(4) st by (auto simp: unat_eq_0)
  then obtain r where r: "r < ?n" "rx_reorder_ready (ar_reorder_buf t ! r)"
    using I(2) by (metis (mono_tags, lifting) filter_False in_set_conv_nth)
  define d where "d = (r + ?n - index) mod ?n"
  have "(index + d) mod ?n = (index + (r + ?n - index)) mod ?n" by (simp add: d_def mod_add_right_eq)
  also have "\<dots> = r" using index r(1) by simp
  finally have rd: "(index + d) mod ?n = r" .
  have "\<exists>j found. loop_opt ?b ?c ((index + k) mod ?n, False) = Some (j, found) \<and> j < ?n" if "k \<le> d" for k
    using that
  proof (induction "d - k" arbitrary: k rule: less_induct)
    case less
    let ?j = "(index + k) mod ?n"
    have jn: "?j < ?n" using I(1) by simp
    show ?case
    proof (cases "?b (?j, False)")
      case b: True
      show ?thesis
      proof (cases "rx_reorder_ready (ar_reorder_buf t ! ?j)")
        case False
        then have "k < d" using less.prems r(2) rd by (cases "k = d") auto
        moreover have "?c (?j, False) = Some ((index + Suc k) mod ?n, False)"
          using False I(2) jn by (simp add: mod_Suc_eq)
        ultimately show ?thesis using less.hyps [of "Suc k"] loop_opt_step [of ?b, OF b] by simp
      next
        case True
        then have "?c (?j, False) = Some (?j, True)" using I(2) jn by simp
        from loop_opt_step [of ?b _ ?c, OF b this] have "loop_opt ?b ?c (?j, False) = loop_opt ?b ?c (?j, True)" .
        also have "\<dots> = Some (?j, True)" by (rule loop_opt_stop) simp
        finally show ?thesis using jn by blast
      qed
    next
      case False
      then have "loop_opt ?b ?c (?j, False) = Some (?j, False)" by (rule loop_opt_stop)
      then show ?thesis using jn by blast
    qed
  qed
  from this [of 0] index I(6) show ?thesis by (auto simp: next_stored_def Let_def)
qed

lemma release_moved:
  assumes ok: "buf_ok t"
  shows "\<exists>s. sta_reorder_release ops hz now (t, fs) = Some s \<and> moved t fs s"
proof -
  obtain i where i: "i < window t" "head_index t = Some i" using head_index_ok [OF ok] by blast
  obtain stop j u gs where r: "release_ready ops hz now i (t, fs) = Some (stop, j, u, gs)" and m: "moved t fs (u, gs)" and j: "j < window u"
    using release_ready_moved [OF ok i(1), of ops hz now fs] moved_ok by fastforce
  note uok = moved_ok(1) [OF m]
  have timer: "\<exists>y. set_release_timer hz j' u = Some (u\<lparr>ar_reorder_timer := y\<rparr>)" if "j' < window u" for j'
    using that set_timer_Some [of j' u hz] buf_okD(3) [OF uok] by simp
  have "\<exists>y. arm_release_timer hz (stop, j, u, gs) = Some (u\<lparr>ar_reorder_timer := y\<rparr>, gs)"
  proof (cases "\<not> stop \<and> ar_stored_mpdu_num u \<noteq> 0")
    case True
    obtain h where h: "h < window u" "head_index u = Some h" using head_index_ok [OF uok] by blast
    obtain j' where j': "j' < window u" "next_stored u h = Some j'" using next_stored_ok [OF uok _ h(1)] True by blast
    with True h timer [OF j'(1)] show ?thesis by (auto simp: arm_release_timer_def)
  next
    case False
    with timer [OF j] show ?thesis by (auto simp: arm_release_timer_def)
  qed
  with i(2) r m show ?thesis by (auto simp: sta_reorder_release_def)
qed

section \<open>A frame arrives\<close>

lemma place_moved:
  assumes ok: "buf_ok t"
  shows "\<exists>ret u rel. place_frame ops hz now f (t, fs) = Some (ret, u, fs @ rel) \<and> buf_ok u \<and> window u = window t \<and>
    frames_mset (rel @ (if ret then [] else [f])) + buf_mset u \<subseteq># add_mset (undeferred f) (buf_mset t)"
proof -
  note I = buf_okD [OF ok]
  let ?i = "unat (frame_seq f) mod window t"
  have i: "?i < window t" using I(1) by simp
  have il: "?i < length (ar_reorder_buf t)" using i I(2) by simp
  let ?l = "ar_reorder_buf t ! ?i"
  let ?t = "t\<lparr>ar_reorder_buf := (ar_reorder_buf t)[?i := ?l @ [f]]\<rparr>"
  let ?v = "?t\<lparr>ar_reorder_time := (ar_reorder_time t)[?i := now], ar_stored_mpdu_num := ar_stored_mpdu_num t + 1\<rparr>"
  have b: "frames_mset (concat ((ar_reorder_buf t)[?i := ?l @ [f]])) = add_mset (undeferred f) (buf_mset t)"
    using buf_clear [of ?i ?t] il by (simp add: buf_mset_def) (simp add: buf_clear [OF il, unfolded buf_mset_def, symmetric])
  consider (dup) "rx_reorder_ready ?l" | (pass) "\<not> rx_reorder_ready ?l" "frame_seq f = ar_head_seq_num t" "ar_stored_mpdu_num t = 0"
    | (part) "\<not> rx_reorder_ready ?l" "\<not> (frame_seq f = ar_head_seq_num t \<and> ar_stored_mpdu_num t = 0)" "fr_amsdu_more f"
    | (last) "\<not> rx_reorder_ready ?l" "\<not> (frame_seq f = ar_head_seq_num t \<and> ar_stored_mpdu_num t = 0)" "\<not> fr_amsdu_more f"
    by blast
  then show ?thesis
  proof cases
    case dup
    with ok I il show ?thesis by (intro exI [of _ True] exI [of _ t] exI [of _ "[]"]) (simp add: place_frame_def)
  next
    case pass
    let ?u = "if fr_amsdu_more f then t else t\<lparr>ar_head_seq_num := sn_inc ops (ar_head_seq_num t)\<rparr>"
    have "place_frame ops hz now f (t, fs) = Some (False, ?u, fs @ [])" using pass I il by (simp add: place_frame_def)
    moreover have "buf_ok ?u \<and> window ?u = window t" "buf_mset ?u = buf_mset t"
      using ok by (simp_all add: buf_ok_def window_def buf_mset_def)
    ultimately show ?thesis by (intro exI [of _ False] exI [of _ ?u] exI [of _ "[]"] conjI) simp_all
  next
    case part
    have "rx_reorder_ready (?l @ [f]) = False" using part by (simp add: rx_reorder_ready_def)
    then have "buf_ok ?t" using ok part(1) ready_clear [of ?i "ar_reorder_buf ?t"] ready_clear [OF il] il
      by (simp add: buf_ok_def window_def)
    moreover have "place_frame ops hz now f (t, fs) = Some (True, ?t, fs @ [])" using part I il by (auto simp: place_frame_def Let_def)
    ultimately show ?thesis using b
      by (intro exI [of _ True] exI [of _ ?t] exI [of _ "[]"] conjI) (simp_all add: buf_mset_def window_def)
  next
    case last
    have "rx_reorder_ready (?l @ [f])" using last by (simp add: rx_reorder_ready_def)
    then have n: "length (filter rx_reorder_ready (ar_reorder_buf ?t)) = Suc (length (filter rx_reorder_ready (ar_reorder_buf t)))"
      using last(1) ready_clear [of ?i "ar_reorder_buf ?t"] ready_clear [OF il] il by simp
    have "length (filter rx_reorder_ready (ar_reorder_buf ?t)) \<le> window t"
      using length_filter_le [of rx_reorder_ready "ar_reorder_buf ?t"] I(2) by simp
    moreover have "window t < 65536" using unsigned_less [of "ar_buf_size t"] by (simp add: window_def)
    ultimately have "unat (ar_stored_mpdu_num t + 1) = Suc (unat (ar_stored_mpdu_num t))" using n I(4) by (simp add: unat_word_ariths)
    then have vok: "buf_ok ?v" using ok n I(4) by (simp add: buf_ok_def window_def)
    obtain u gs where r: "sta_reorder_release ops hz now (?v, fs) = Some (u, gs)" "moved ?v fs (u, gs)"
      using release_moved [OF vok, of ops hz now fs] by auto
    then obtain rel where rel: "gs = fs @ rel" "frames_mset rel + buf_mset u \<subseteq># buf_mset ?v" by (auto simp: moved_def)
    have "place_frame ops hz now f (t, fs) = Some (True, u, gs)" using last I il r(1) by (auto simp: place_frame_def Let_def)
    moreover have "buf_mset ?v = add_mset (undeferred f) (buf_mset t)" using b by (simp add: buf_mset_def)
    moreover have "window u = window t" using moved_ok(2) [OF r(2)] by (simp add: window_def)
    ultimately show ?thesis using rel moved_ok(1) [OF r(2)] by (intro exI [of _ True] exI [of _ u] exI [of _ rel]) simp
  qed
qed

lemma manage_moved:
  assumes ops: "sn_arith ops" and ok: "buf_ok t"
  shows "\<exists>ret u rel. sta_manage_reorder_buf ops hz now f (t, fs) = Some (ret, u, fs @ rel) \<and> buf_ok u \<and>
    frames_mset (rel @ (if ret then [] else [f])) + buf_mset u \<subseteq># add_mset (undeferred f) (buf_mset t)"
proof -
  let ?t = "synced t f"
  have t: "buf_ok ?t" "buf_mset ?t = buf_mset t" using ok by (simp_all add: synced_def buf_ok_def window_def buf_mset_def)
  let ?h = "ar_head_seq_num ?t"
  have m: "sta_manage_reorder_buf ops hz now f (t, fs) =
    (if sn_less ops (frame_seq f) ?h then Some (True, ?t, fs)
     else Option.bind (if \<not> sn_less ops (frame_seq f) (?h + ar_buf_size ?t)
          then release_reorder_frames ops (sn_inc ops (sn_sub ops (frame_seq f) (ar_buf_size ?t))) (?t, fs)
          else Some (?t, fs)) (place_frame ops hz now f))"
    by (simp add: sta_manage_reorder_buf_def synced_def Let_def)
  show ?thesis
  proof (cases "sn_less ops (frame_seq f) ?h")
    case True
    with m t show ?thesis by (intro exI [of _ True] exI [of _ ?t] exI [of _ "[]"]) simp
  next
    case False
    let ?r = "if \<not> sn_less ops (frame_seq f) (?h + ar_buf_size ?t)
          then release_reorder_frames ops (sn_inc ops (sn_sub ops (frame_seq f) (ar_buf_size ?t))) (?t, fs)
          else Some (?t, fs)"
    have "\<exists>s. ?r = Some s \<and> moved ?t fs s"
      using release_frames_moved [OF ops t(1)] moved_refl [OF t(1)]
      by (cases "sn_less ops (frame_seq f) (?h + ar_buf_size ?t)") (simp_all del: split_paired_Ex)
    then obtain v gs where r: "?r = Some (v, gs)" "moved ?t fs (v, gs)" by auto
    obtain a where a: "gs = fs @ a" "frames_mset a + buf_mset v \<subseteq># buf_mset t" using r(2) t(2) by (auto simp: moved_def)
    obtain ret u b where p: "place_frame ops hz now f (v, gs) = Some (ret, u, gs @ b)" "buf_ok u"
      "frames_mset (b @ (if ret then [] else [f])) + buf_mset u \<subseteq># add_mset (undeferred f) (buf_mset v)"
      using place_moved [OF moved_ok(1) [OF r(2)]] by blast
    have "frames_mset ((a @ b) @ (if ret then [] else [f])) + buf_mset u =
      frames_mset a + (frames_mset (b @ (if ret then [] else [f])) + buf_mset u)" by simp
    also have "\<dots> \<subseteq># frames_mset a + add_mset (undeferred f) (buf_mset v)" using p(3) by (rule subset_mset.add_left_mono)
    also have "\<dots> = add_mset (undeferred f) (frames_mset a + buf_mset v)" by simp
    also have "\<dots> \<subseteq># add_mset (undeferred f) (buf_mset t)" using a(2) by simp
    finally have "frames_mset ((a @ b) @ (if ret then [] else [f])) + buf_mset u \<subseteq># add_mset (undeferred f) (buf_mset t)" .
    moreover have "sta_manage_reorder_buf ops hz now f (t, fs) = Some (ret, u, fs @ (a @ b))"
      using m False r(1) p(1) a(1) by simp
    ultimately show ?thesis using p(2) by blast
  qed
qed

section \<open>The sessions of a station\<close>

definition sessions_buf_ok :: "(nat \<Rightarrow> tid_ampdu_rx option) \<Rightarrow> bool" where
  "sessions_buf_ok tid_rx \<longleftrightarrow> (\<forall>tid t. tid_rx tid = Some t \<longrightarrow> tid < 16 \<and> buf_ok t)"

definition stored_mset :: "(nat \<Rightarrow> tid_ampdu_rx option) \<Rightarrow> rx_frame multiset" where
  "stored_mset tid_rx = (\<Sum>tid<16. case tid_rx tid of None \<Rightarrow> {#} | Some t \<Rightarrow> buf_mset t)"

definition others_mset :: "nat \<Rightarrow> (nat \<Rightarrow> tid_ampdu_rx option) \<Rightarrow> rx_frame multiset" where
  "others_mset tid tid_rx = (\<Sum>i\<in>{..<16} - {tid}. case tid_rx i of None \<Rightarrow> {#} | Some t \<Rightarrow> buf_mset t)"

lemma stored_split:
  "tid < 16 \<Longrightarrow> stored_mset tid_rx = (case tid_rx tid of None \<Rightarrow> {#} | Some t \<Rightarrow> buf_mset t) + others_mset tid tid_rx"
  by (simp add: stored_mset_def others_mset_def sum.remove [of "{..<16}" tid])

lemma others_upd [simp]: "others_mset tid (f(tid := x)) = others_mset tid f"
  unfolding others_mset_def by (rule sum.cong) auto

lemma buf_okI: "sessions_buf_ok f \<Longrightarrow> f tid = Some t \<Longrightarrow> buf_ok t"
  and tid_okI: "sessions_buf_ok f \<Longrightarrow> f tid = Some t \<Longrightarrow> tid < 16"
  by (auto simp: sessions_buf_ok_def)

lemma sessions_buf_upd:
  "sessions_buf_ok f \<Longrightarrow> tid < 16 \<Longrightarrow> buf_ok t \<Longrightarrow> sessions_buf_ok (f(tid \<mapsto> t))"
  "sessions_buf_ok f \<Longrightarrow> sessions_buf_ok (f(tid := None))"
  by (auto simp: sessions_buf_ok_def)

lemma stored_upd:
  assumes "f tid = Some t" "tid < 16" "frames_mset rel + buf_mset u \<subseteq># new + buf_mset t"
  shows "frames_mset rel + stored_mset (f(tid \<mapsto> u)) \<subseteq># new + stored_mset f"
proof -
  have "frames_mset rel + stored_mset (f(tid \<mapsto> u)) = (frames_mset rel + buf_mset u) + others_mset tid f"
    using assms(2) by (simp add: stored_split)
  also have "\<dots> \<subseteq># (new + buf_mset t) + others_mset tid f" using assms(3) by simp
  also have "\<dots> = new + stored_mset f" using assms(1,2) by (simp add: stored_split)
  finally show ?thesis .
qed

lemma stored_del: "sessions_buf_ok f \<Longrightarrow> stored_mset (f(tid := None)) \<subseteq># stored_mset f"
proof (cases "tid < 16")
  case True
  then show ?thesis by (simp add: stored_split)
next
  case False
  assume "sessions_buf_ok f"
  then have "f tid = None" using False tid_okI by (cases "f tid") auto
  then have "f(tid := None) = f" by auto
  then show ?thesis by simp
qed

lemma timeout_moved:
  assumes ok: "sessions_buf_ok f"
  shows "\<exists>f' rel. release_reorder_timeout ops hz now tid f = Some (f', rel) \<and> sessions_buf_ok f' \<and>
    frames_mset rel + stored_mset f' \<subseteq># stored_mset f"
proof (cases "f tid")
  case None
  with ok show ?thesis by (simp add: release_reorder_timeout_def)
next
  case (Some t)
  note t = buf_okI [OF ok Some] tid_okI [OF ok Some]
  obtain u rel where r: "sta_reorder_release ops hz now (t, []) = Some (u, rel)" "moved t [] (u, rel)"
    using release_moved [OF t(1), of ops hz now "[]"] by auto
  then have "frames_mset rel + buf_mset u \<subseteq># {#} + buf_mset t" "buf_ok u" by (auto simp: moved_def)
  with stored_upd [of f tid t rel u "{#}", OF Some t(2)] sessions_buf_upd(1) [OF ok t(2)] Some r(1) show ?thesis
    by (simp add: release_reorder_timeout_def)
qed

lemma ampdu_moved:
  assumes ops: "sn_arith ops" and ok: "sessions_buf_ok f"
  shows "\<exists>f' out work. rx_reorder_ampdu ops hz now skb (Some f) [] = Some (Some f', out, work) \<and> sessions_buf_ok f' \<and>
    frames_mset (out @ work) + stored_mset f' \<subseteq># {#undeferred skb#} + stored_mset f"
proof -
  let ?tid = "unat (fr_qos_ctl skb AND QOS_CTL_TID_MASK)"
  have pass: "frames_mset ([skb] @ []) + stored_mset f \<subseteq># {#undeferred skb#} + stored_mset f" by simp
  show ?thesis
  proof (cases "f ?tid")
    case None
    with ok show ?thesis by (auto simp: rx_reorder_ampdu_def Let_def)
  next
    case (Some t)
    note t = buf_okI [OF ok Some] tid_okI [OF ok Some]
    define t1 where "t1 = (if ar_timeout t \<noteq> 0 then t\<lparr>ar_last_rx := now\<rparr> else t)"
    have t1: "buf_ok t1" "buf_mset t1 = buf_mset t" using t(1) by (simp_all add: t1_def buf_ok_def buf_mset_def window_def)
    obtain ret u rel where m: "sta_manage_reorder_buf ops hz now skb (t1, []) = Some (ret, u, rel)" "buf_ok u"
      "frames_mset (rel @ (if ret then [] else [skb])) + buf_mset u \<subseteq># add_mset (undeferred skb) (buf_mset t1)"
      using manage_moved [OF ops t1(1), of hz now skb "[]"] by auto
    have 1: "frames_mset (rel @ (if ret then [] else [skb])) + stored_mset (f(?tid \<mapsto> u)) \<subseteq># {#undeferred skb#} + stored_mset f"
      using stored_upd [of f ?tid t "rel @ (if ret then [] else [skb])" u "{#undeferred skb#}", OF Some t(2)] m(3) t1(2) by simp
    have 2: "frames_mset [skb] + stored_mset (f(?tid \<mapsto> t1)) \<subseteq># {#undeferred skb#} + stored_mset f"
      using stored_upd [of f ?tid t "[skb]" t1 "{#undeferred skb#}", OF Some t(2)] t1(2) by simp
    have "rx_reorder_ampdu ops hz now skb (Some f) [] \<in>
      {Some (Some f, [] @ [skb], []), Some (Some (f(?tid \<mapsto> t1)), [], [skb]),
       Some (Some (f(?tid \<mapsto> u)), if ret then rel else rel @ [skb], [])}"
      unfolding rx_reorder_ampdu_def Let_def option.case Some t1_def [symmetric] m(1) by auto
    with pass 1 2 ok sessions_buf_upd(1) [OF ok t(2)] m(2) t1(1) show ?thesis by (cases ret) auto
  qed
qed

end
