(* ===== verification/AGG_RX.thy ===== *)
theory AGG_RX
  imports RX_Any
begin

text \<open>
  Block-ack sessions of a receiver (\<^verbatim>\<open>agg-rx.c\<close>, the receiving half of \<^verbatim>\<open>ht.c\<close>, and the block-ack
  request in \<^verbatim>\<open>rx.c\<close>): sessions are opened by a request of the peer, closed by a request of the peer, by
  the session timer or by the driver, and their reorder buffers are moved on by frames, by block-ack requests
  and by the release timer. The result is an invariant over all these steps.

  The outcome of allocations, the contents of fresh memory, the conversion of time units and the driver's
  answer are inputs (record \<open>rxba_env\<close>).
\<close>

section \<open>State\<close>

record sta_agg =
  sa_ht_supported :: bool
  sa_delay_ba :: bool
  sa_block_ba :: bool
  sa_tid_rx :: "nat \<Rightarrow> tid_ampdu_rx option"
  sa_timer_expired :: "nat \<Rightarrow> bool"
  sa_stop_requested :: "nat \<Rightarrow> bool"

record rxba_env =
  be_jiffies :: u64
  be_tu_to_jiffies :: "u16 \<Rightarrow> u64"
  be_max_subframes :: u16
  be_alloc_session :: bool
  be_alloc_buf :: bool
  be_alloc_time :: bool
  be_alloc_resp :: bool
  be_drv_start :: "nat \<Rightarrow> u16 \<Rightarrow> bool \<times> u16"
  be_removed :: bool
  be_last_rx :: u64

record addba_resp =
  rs_dialog_token :: u8
  rs_capab :: u16
  rs_timeout :: u16
  rs_status :: u16

record delba =
  db_params :: u16
  db_reason :: u16

definition WLAN_STATUS_SUCCESS :: u16 where "WLAN_STATUS_SUCCESS = 0"
definition WLAN_STATUS_REQUEST_DECLINED :: u16 where "WLAN_STATUS_REQUEST_DECLINED = 37"
definition WLAN_STATUS_INVALID_QOS_PARAM :: u16 where "WLAN_STATUS_INVALID_QOS_PARAM = 38"
definition WLAN_REASON_UNSPECIFIED :: u16 where "WLAN_REASON_UNSPECIFIED = 1"
definition WLAN_STATUS_UNSPECIFIED_QOS :: u16 where "WLAN_STATUS_UNSPECIFIED_QOS = 32"
definition WLAN_REASON_QSTA_TIMEOUT :: u16 where "WLAN_REASON_QSTA_TIMEOUT = 39"
definition WLAN_BACK_RECIPIENT :: u16 where "WLAN_BACK_RECIPIENT = 0"
definition WLAN_BACK_INITIATOR :: u16 where "WLAN_BACK_INITIATOR = 1"
definition IEEE80211_MAX_AMPDU_BUF :: u16 where "IEEE80211_MAX_AMPDU_BUF = 64"
definition IEEE80211_NUM_TIDS :: nat where "IEEE80211_NUM_TIDS = 16"

section \<open>Frames of the protocol\<close>

definition send_addba_resp :: "rxba_env \<Rightarrow> u16 \<Rightarrow> u8 \<Rightarrow> u16 \<Rightarrow> u16 \<Rightarrow> u16 \<Rightarrow> u16 \<Rightarrow> addba_resp option" where
  "send_addba_resp e tid dialog_token status policy buf_size timeout =
     (if \<not> be_alloc_resp e then None
      else Some \<lparr>rs_dialog_token = dialog_token,
                 rs_capab = push_bit 1 policy OR push_bit 2 tid OR push_bit 6 buf_size,
                 rs_timeout = timeout, rs_status = status\<rparr>)"

definition ADDBA_PARAM_POLICY_MASK :: u16 where "ADDBA_PARAM_POLICY_MASK = 0x0002"
definition ADDBA_PARAM_TID_MASK :: u16 where "ADDBA_PARAM_TID_MASK = 0x003C"
definition ADDBA_PARAM_BUF_SIZE_MASK :: u16 where "ADDBA_PARAM_BUF_SIZE_MASK = 0xFFC0"

text \<open>The parameters of a request: policy, traffic identifier, buffer size.\<close>

definition addba_params :: "u16 \<Rightarrow> u16 \<times> u16 \<times> u16" where
  "addba_params capab =
     (drop_bit 1 (capab AND ADDBA_PARAM_POLICY_MASK), drop_bit 2 (capab AND ADDBA_PARAM_TID_MASK),
      drop_bit 6 (capab AND ADDBA_PARAM_BUF_SIZE_MASK))"

definition send_delba :: "rxba_env \<Rightarrow> u16 \<Rightarrow> u16 \<Rightarrow> u16 \<Rightarrow> delba option" where
  "send_delba e tid initiator reason_code =
     (if \<not> be_alloc_resp e then None
      else Some \<lparr>db_params = push_bit 11 initiator OR push_bit 12 tid, db_reason = reason_code\<rparr>)"

definition DELBA_PARAM_TID_MASK :: u16 where "DELBA_PARAM_TID_MASK = 0xF000"
definition DELBA_PARAM_INITIATOR_MASK :: u16 where "DELBA_PARAM_INITIATOR_MASK = 0x0800"

section \<open>Closing a session\<close>

text \<open>The frames still stored are freed with the session.\<close>

definition stop_rx_ba_session ::
  "rxba_env \<Rightarrow> nat \<Rightarrow> u16 \<Rightarrow> u16 \<Rightarrow> bool \<Rightarrow> sta_agg \<Rightarrow> sta_agg \<times> delba option" where
  "stop_rx_ba_session e tid initiator reason tx s =
     (case sa_tid_rx s tid of
        None \<Rightarrow> (s, None)
      | Some _ \<Rightarrow>
          (s\<lparr>sa_tid_rx := (sa_tid_rx s)(tid := None)\<rparr>,
           if initiator = WLAN_BACK_RECIPIENT \<and> tx
           then send_delba e (of_nat tid) WLAN_BACK_RECIPIENT reason else None))"

text \<open>The driver asks for sessions to be closed; the work function does it.\<close>

definition request_stop_rx_ba :: "u16 \<Rightarrow> sta_agg \<Rightarrow> sta_agg" where
  "request_stop_rx_ba ba_rx_bitmap s =
     s\<lparr>sa_stop_requested := (\<lambda>i. sa_stop_requested s i \<or> i < IEEE80211_NUM_TIDS \<and> bit ba_rx_bitmap i)\<rparr>"

definition session_timer_expired :: "hdr_ops \<Rightarrow> rxba_env \<Rightarrow> nat \<Rightarrow> sta_agg \<Rightarrow> sta_agg" where
  "session_timer_expired ops e tid s =
     (case sa_tid_rx s tid of
        None \<Rightarrow> s
      | Some t \<Rightarrow>
          (let timeout = ar_last_rx t + be_tu_to_jiffies e (ar_timeout t) in
           if time_after ops timeout (be_jiffies e)
           then s\<lparr>sa_tid_rx := (sa_tid_rx s)(tid \<mapsto> t\<lparr>ar_session_timer := Some timeout\<rparr>)\<rparr>
           else s\<lparr>sa_timer_expired := (sa_timer_expired s)(tid := True)\<rparr>))"

definition session_work_tid :: "rxba_env \<Rightarrow> nat \<Rightarrow> sta_agg \<times> delba list \<Rightarrow> sta_agg \<times> delba list" where
  "session_work_tid e tid = (\<lambda>(s, out).
     let (s, d1) = (if sa_timer_expired s tid
                    then stop_rx_ba_session e tid WLAN_BACK_RECIPIENT WLAN_REASON_QSTA_TIMEOUT True
                           (s\<lparr>sa_timer_expired := (sa_timer_expired s)(tid := False)\<rparr>)
                    else (s, None));
         (s, d2) = (if sa_stop_requested s tid
                    then stop_rx_ba_session e tid WLAN_BACK_RECIPIENT WLAN_REASON_UNSPECIFIED True
                           (s\<lparr>sa_stop_requested := (sa_stop_requested s)(tid := False)\<rparr>)
                    else (s, None))
     in (s, out @ (case d1 of None \<Rightarrow> [] | Some d \<Rightarrow> [d]) @ (case d2 of None \<Rightarrow> [] | Some d \<Rightarrow> [d])))"

definition ba_session_work :: "rxba_env \<Rightarrow> sta_agg \<Rightarrow> sta_agg \<times> delba list" where
  "ba_session_work e s =
     (if sa_block_ba s then (s, []) else fold (session_work_tid e) [0..<IEEE80211_NUM_TIDS] (s, []))"

text \<open>A request of the peer to close a session; a request of the recipient concerns a transmit session and
  leaves the receive sessions alone.\<close>

definition process_delba :: "rxba_env \<Rightarrow> u16 \<Rightarrow> sta_agg \<Rightarrow> sta_agg \<times> delba option" where
  "process_delba e params s =
     (let tid = drop_bit 12 (params AND DELBA_PARAM_TID_MASK);
          initiator = drop_bit 11 (params AND DELBA_PARAM_INITIATOR_MASK)
      in if initiator = WLAN_BACK_INITIATOR then stop_rx_ba_session e (unat tid) WLAN_BACK_INITIATOR 0 True s
         else (s, None))"

section \<open>Opening a session\<close>

definition effective_buf_size :: "rxba_env \<Rightarrow> u16 \<Rightarrow> u16" where
  "effective_buf_size e buf_size =
     (let buf_size = (if buf_size = 0 then IEEE80211_MAX_AMPDU_BUF else buf_size)
      in if be_max_subframes e < buf_size then be_max_subframes e else buf_size)"

text \<open>The session as it is set up; \<open>removed\<close> is not initialised by the code, and \<open>last_rx\<close> only with a
  timeout.\<close>

definition new_session :: "rxba_env \<Rightarrow> u8 \<Rightarrow> u16 \<Rightarrow> u16 \<Rightarrow> u16 \<Rightarrow> bool \<Rightarrow> tid_ampdu_rx" where
  "new_session e dialog_token timeout start_seq_num buf_size auto_seq =
     \<lparr>ar_reorder_buf = replicate (unat buf_size) [], ar_reorder_time = replicate (unat buf_size) 0,
      ar_session_timer = (if timeout \<noteq> 0 then Some (be_jiffies e + be_tu_to_jiffies e timeout) else None),
      ar_reorder_timer = None, ar_last_rx = (if timeout \<noteq> 0 then be_jiffies e else be_last_rx e),
      ar_head_seq_num = start_seq_num, ar_stored_mpdu_num = 0, ar_ssn = start_seq_num, ar_buf_size = buf_size,
      ar_timeout = timeout, ar_dialog_token = dialog_token, ar_auto_seq = auto_seq, ar_removed = be_removed e\<rparr>"

text \<open>Status and buffer size of the answer, and the new state.\<close>

definition open_session ::
  "rxba_env \<Rightarrow> u8 \<Rightarrow> u16 \<Rightarrow> u16 \<Rightarrow> u16 \<Rightarrow> u16 \<Rightarrow> u16 \<Rightarrow> bool \<Rightarrow> sta_agg \<Rightarrow> sta_agg \<times> u16 \<times> u16" where
  "open_session e dialog_token timeout start_seq_num ba_policy tid buf_size auto_seq s =
     (if \<not> sa_ht_supported s then (s, WLAN_STATUS_REQUEST_DECLINED, buf_size)
      else if sa_block_ba s then (s, WLAN_STATUS_REQUEST_DECLINED, buf_size)
      else if ba_policy \<noteq> 1 \<and> \<not> sa_delay_ba s \<or> IEEE80211_MAX_AMPDU_BUF < buf_size
      then (s, WLAN_STATUS_INVALID_QOS_PARAM, buf_size)
      else
        (let buf_size = effective_buf_size e buf_size;
             (s, _) = (if sa_tid_rx s (unat tid) \<noteq> None
                       then stop_rx_ba_session e (unat tid) WLAN_BACK_RECIPIENT WLAN_STATUS_UNSPECIFIED_QOS False s
                       else (s, None))
         in if \<not> be_alloc_session e then (s, WLAN_STATUS_REQUEST_DECLINED, buf_size)
            else if \<not> be_alloc_buf e \<or> \<not> be_alloc_time e then (s, WLAN_STATUS_REQUEST_DECLINED, buf_size)
            else
              (let (ret, start_seq_num) = be_drv_start e (unat tid) start_seq_num in
               if ret then (s, WLAN_STATUS_REQUEST_DECLINED, buf_size)
               else (s\<lparr>sa_tid_rx := (sa_tid_rx s)(unat tid \<mapsto> new_session e dialog_token timeout start_seq_num buf_size auto_seq)\<rparr>,
                     WLAN_STATUS_SUCCESS, buf_size))))"

definition start_rx_ba_session ::
  "rxba_env \<Rightarrow> u8 \<Rightarrow> u16 \<Rightarrow> u16 \<Rightarrow> u16 \<Rightarrow> u16 \<Rightarrow> u16 \<Rightarrow> bool \<Rightarrow> bool \<Rightarrow> sta_agg \<Rightarrow> sta_agg \<times> addba_resp option" where
  "start_rx_ba_session e dialog_token timeout start_seq_num ba_policy tid buf_size tx auto_seq s =
     (let (s, status, buf_size) = open_session e dialog_token timeout start_seq_num ba_policy tid buf_size auto_seq s
      in (s, if tx then send_addba_resp e tid dialog_token status 1 buf_size timeout else None))"

definition process_addba_request ::
  "rxba_env \<Rightarrow> u8 \<Rightarrow> u16 \<Rightarrow> u16 \<Rightarrow> u16 \<Rightarrow> sta_agg \<Rightarrow> sta_agg \<times> addba_resp option" where
  "process_addba_request e dialog_token timeout start_seq_field capab s =
     (let (ba_policy, tid, buf_size) = addba_params capab
      in start_rx_ba_session e dialog_token timeout (drop_bit 4 start_seq_field) ba_policy tid buf_size True False s)"

section \<open>Block-ack requests\<close>

text \<open>A control frame; \<open>bar\<close> holds the control and start fields when the frame is long enough for them, and
  the result lists the frames released.\<close>

definition rx_h_ctrl ::
  "hdr_ops \<Rightarrow> rxba_env \<Rightarrow> bool \<Rightarrow> bool \<Rightarrow> (u16 \<times> u16) option \<Rightarrow> sta_agg option \<Rightarrow>
   (rx_result \<times> sta_agg option \<times> rx_frame list) option" where
  "rx_h_ctrl ops e ctl back_req bar sta =
     (if \<not> ctl then Some (RX_CONTINUE, sta, [])
      else if back_req then
        (case sta of
           None \<Rightarrow> Some (RX_DROP_MONITOR, sta, [])
         | Some s \<Rightarrow>
             (case bar of
                None \<Rightarrow> Some (RX_DROP_MONITOR, sta, [])
              | Some (control, start) \<Rightarrow>
                  (let tid = unat (drop_bit 12 control) in
                   case sa_tid_rx s tid of
                     None \<Rightarrow> Some (RX_DROP_MONITOR, sta, [])
                   | Some t \<Rightarrow>
                       (let t = (if ar_timeout t \<noteq> 0
                                 then t\<lparr>ar_session_timer := Some (be_jiffies e + be_tu_to_jiffies e (ar_timeout t))\<rparr>
                                 else t)
                        in do {
                          (t, frames) \<leftarrow> release_reorder_frames ops (drop_bit 4 start) (t, []);
                          Some (RX_QUEUED, Some (s\<lparr>sa_tid_rx := (sa_tid_rx s)(tid \<mapsto> t)\<rparr>), frames)
                        }))))
      else Some (RX_DROP_MONITOR, sta, []))"

section \<open>Invariant\<close>

definition window_size :: "u16 \<Rightarrow> bool" where
  "window_size n \<longleftrightarrow> 2 \<le> unat n \<and> unat n \<le> 1024 \<and> unat n dvd 4096"

definition drv_ok :: "rxba_env \<Rightarrow> bool" where
  "drv_ok e \<longleftrightarrow> (\<forall>tid ssn. unat ssn < 4096 \<longrightarrow> unat (snd (be_drv_start e tid ssn)) < 4096)"

lemma new_session_inv: "window_size n \<Longrightarrow> unat ssn < 4096 \<Longrightarrow> reorder_inv (new_session e d to ssn n auto)"
  by (simp add: reorder_inv_def new_session_def window_size_def window_def sn_head_def)

lemma new_session_buf: "n \<noteq> 0 \<Longrightarrow> buf_ok (new_session e d to ssn n auto)" "buf_mset (new_session e d to ssn n auto) = {#}"
proof -
  have "concat (replicate k []) = []" for k by (induction k) simp_all
  then show "buf_mset (new_session e d to ssn n auto) = {#}" by (simp add: buf_mset_def new_session_def)
qed (simp add: buf_ok_def new_session_def window_def unat_gt_0)

lemma effective_nonzero: "be_max_subframes e \<noteq> 0 \<Longrightarrow> effective_buf_size e n \<noteq> 0"
  by (simp add: effective_buf_size_def IEEE80211_MAX_AMPDU_BUF_def)

lemma sessions_ok_upd: "sessions_ok f \<Longrightarrow> reorder_inv t \<Longrightarrow> sessions_ok (f(tid \<mapsto> t))"
  by (auto simp: sessions_ok_def)

lemma sessions_ok_del: "sessions_ok f \<Longrightarrow> sessions_ok (f(tid := None))"
  by (auto simp: sessions_ok_def)

lemma sessions_okD: "sessions_ok f \<Longrightarrow> f tid = Some t \<Longrightarrow> reorder_inv t"
  by (auto simp: sessions_ok_def)

lemma inv_session_timer [simp]: "reorder_inv (t\<lparr>ar_session_timer := x\<rparr>) = reorder_inv t" "window (t\<lparr>ar_session_timer := x\<rparr>) = window t" "sn_head (t\<lparr>ar_session_timer := x\<rparr>) = sn_head t"
  "buf_ok (t\<lparr>ar_session_timer := x\<rparr>) = buf_ok t" "buf_mset (t\<lparr>ar_session_timer := x\<rparr>) = buf_mset t"
  by (simp_all add: reorder_inv_def window_def sn_head_def in_slot_def buf_ok_def buf_mset_def)

text \<open>What holds of a station's sessions: the general part for every window and frame; the bound \<open>K\<close> of the
  frames stored; and, when only \<open>plain\<close> frames and windows are admitted, the order of the frames.\<close>

definition agg_inv :: "bool \<Rightarrow> rx_frame multiset \<Rightarrow> (nat \<Rightarrow> tid_ampdu_rx option) \<Rightarrow> bool" where
  "agg_inv plain K f \<longleftrightarrow> sessions_buf_ok f \<and> stored_mset f \<subseteq># K \<and> (plain \<longrightarrow> sessions_ok f)"

lemma agg_inv_del: "agg_inv plain K f \<Longrightarrow> agg_inv plain K (f(tid := None))"
  unfolding agg_inv_def by (meson sessions_buf_upd(2) stored_del sessions_ok_del subset_mset.order_trans)

lemma agg_inv_upd:
  assumes "agg_inv plain K f" "tid < 16" "buf_ok t" "buf_mset t = {#}" "plain \<Longrightarrow> reorder_inv t"
  shows "agg_inv plain K (f(tid \<mapsto> t))"
proof -
  have "stored_mset (f(tid \<mapsto> t)) \<subseteq># stored_mset f" using assms(2,4) by (simp add: stored_split)
  with assms show ?thesis unfolding agg_inv_def
    by (meson sessions_buf_upd(1) sessions_ok_upd subset_mset.order_trans)
qed

lemma agg_inv_replace:
  assumes "agg_inv plain K f" "f tid = Some t" "buf_ok u" "buf_mset u = buf_mset t" "plain \<Longrightarrow> reorder_inv u"
  shows "agg_inv plain K (f(tid \<mapsto> u))"
proof -
  have tid: "tid < 16" using assms(1,2) tid_okI by (auto simp: agg_inv_def)
  have "stored_mset (f(tid \<mapsto> u)) = stored_mset f" using assms(2,4) tid by (simp add: stored_split)
  with assms tid show ?thesis by (simp add: agg_inv_def sessions_buf_upd(1) sessions_ok_upd)
qed

lemma session_timer_sessions:
  assumes "agg_inv plain K (sa_tid_rx s)"
  shows "agg_inv plain K (sa_tid_rx (session_timer_expired ops e tid s))"
proof (cases "sa_tid_rx s tid")
  case None
  with assms show ?thesis by (simp add: session_timer_expired_def)
next
  case (Some t)
  have "buf_ok t" "plain \<Longrightarrow> reorder_inv t" using assms Some buf_okI sessions_okD by (auto simp: agg_inv_def)
  then have "agg_inv plain K ((sa_tid_rx s)(tid \<mapsto> t\<lparr>ar_session_timer := x\<rparr>))" for x
    by (intro agg_inv_replace [OF assms Some]) simp_all
  with assms Some show ?thesis by (simp add: session_timer_expired_def Let_def)
qed

lemma stop_sessions: "agg_inv plain K (sa_tid_rx s) \<Longrightarrow> agg_inv plain K (sa_tid_rx (fst (stop_rx_ba_session e tid i r tx s)))"
  by (simp add: stop_rx_ba_session_def agg_inv_del split: option.split)

lemma open_sessions:
  assumes inv: "agg_inv plain K (sa_tid_rx s)" and max: "be_max_subframes e \<noteq> 0" and tid: "unat tid < 16"
    and plain: "plain \<Longrightarrow> window_size (effective_buf_size e n) \<and> drv_ok e \<and> unat ssn < 4096"
  shows "agg_inv plain K (sa_tid_rx (fst (open_session e d to ssn p tid n auto s)))"
proof -
  have new: "agg_inv plain K (f(unat tid \<mapsto> new_session e d to (snd (be_drv_start e (unat tid) ssn)) (effective_buf_size e n) auto))"
    if "agg_inv plain K f" for f
    using plain by (intro agg_inv_upd that tid new_session_buf effective_nonzero max) (simp add: drv_ok_def new_session_inv)
  obtain s' d' where s': "(if sa_tid_rx s (unat tid) \<noteq> None
       then stop_rx_ba_session e (unat tid) WLAN_BACK_RECIPIENT WLAN_STATUS_UNSPECIFIED_QOS False s else (s, None)) = (s', d')"
    by fastforce
  have ok: "agg_inv plain K (sa_tid_rx s')"
    using stop_sessions [OF inv, of e "unat tid" WLAN_BACK_RECIPIENT WLAN_STATUS_UNSPECIFIED_QOS False] inv s'
    by (simp split: if_splits)
  obtain ret ssn' where d: "be_drv_start e (unat tid) ssn = (ret, ssn')" by fastforce
  show ?thesis
    using inv ok new [OF ok] unfolding open_session_def Let_def s' d by simp
qed

lemma start_sessions:
  assumes "agg_inv plain K (sa_tid_rx s)" "be_max_subframes e \<noteq> 0" "unat tid < 16"
    and "plain \<Longrightarrow> window_size (effective_buf_size e n) \<and> drv_ok e \<and> unat ssn < 4096"
  shows "agg_inv plain K (sa_tid_rx (fst (start_rx_ba_session e d to ssn p tid n tx auto s)))"
proof -
  obtain s1 status n1 where "open_session e d to ssn p tid n auto s = (s1, status, n1)" by (metis prod_cases3)
  with open_sessions [OF assms(1,2,3), of n ssn d to p auto] assms(4) show ?thesis by (simp add: start_rx_ba_session_def)
qed

lemma work_tid_sessions:
  assumes "agg_inv plain K (sa_tid_rx s)"
  shows "agg_inv plain K (sa_tid_rx (fst (session_work_tid e tid (s, out))))"
proof -
  obtain s1 d1 where s1: "(if sa_timer_expired s tid
        then stop_rx_ba_session e tid WLAN_BACK_RECIPIENT WLAN_REASON_QSTA_TIMEOUT True
               (s\<lparr>sa_timer_expired := (sa_timer_expired s)(tid := False)\<rparr>) else (s, None)) = (s1, d1)" by fastforce
  have 1: "agg_inv plain K (sa_tid_rx s1)"
    using stop_sessions [of plain K "s\<lparr>sa_timer_expired := (sa_timer_expired s)(tid := False)\<rparr>" e tid WLAN_BACK_RECIPIENT WLAN_REASON_QSTA_TIMEOUT True]
      assms s1 by (simp split: if_splits)
  obtain s2 d2 where s2: "(if sa_stop_requested s1 tid
        then stop_rx_ba_session e tid WLAN_BACK_RECIPIENT WLAN_REASON_UNSPECIFIED True
               (s1\<lparr>sa_stop_requested := (sa_stop_requested s1)(tid := False)\<rparr>) else (s1, None)) = (s2, d2)" by fastforce
  have "agg_inv plain K (sa_tid_rx s2)"
    using stop_sessions [of plain K "s1\<lparr>sa_stop_requested := (sa_stop_requested s1)(tid := False)\<rparr>" e tid WLAN_BACK_RECIPIENT WLAN_REASON_UNSPECIFIED True]
      1 s2 by (simp split: if_splits)
  then show ?thesis by (simp add: session_work_tid_def s1 s2)
qed

lemma work_sessions: "agg_inv plain K (sa_tid_rx s) \<Longrightarrow> agg_inv plain K (sa_tid_rx (fst (ba_session_work e s)))"
proof -
  have "agg_inv plain K (sa_tid_rx (fst (fold (session_work_tid e) tids p)))" if "agg_inv plain K (sa_tid_rx (fst p))" for tids p
    using that
  proof (induction tids arbitrary: p)
    case (Cons tid tids)
    then have "agg_inv plain K (sa_tid_rx (fst (session_work_tid e tid p)))" using work_tid_sessions by (cases p) simp
    from Cons.IH [OF this] show ?case by simp
  qed simp
  from this [of "(s, [])"] show "agg_inv plain K (sa_tid_rx s) \<Longrightarrow> ?thesis" by (simp add: ba_session_work_def)
qed

lemma dist_sym: "a < 4096 \<Longrightarrow> b < 4096 \<Longrightarrow> dist b a = (if dist a b = 0 then 0 else 4096 - dist a b)"
proof -
  assume a: "a < 4096" and b: "b < 4096"
  let ?d = "dist a b"
  have ab: "(a + ?d) mod 4096 = b" using dist_add [OF a, of b] b by simp
  let ?e = "if ?d = 0 then 0 else 4096 - ?d"
  have "(b + ?e) mod 4096 = a"
  proof (cases "?d = 0")
    case True
    with ab a b show ?thesis by simp
  next
    case False
    then have e: "a + ?d + ?e = a + 4096" using dist_less [of a b] by (simp del: dist_less)
    have "((a + ?d) mod 4096 + ?e) mod 4096 = a" unfolding mod_add_left_eq e using a by simp
    with ab show ?thesis by simp
  qed
  moreover have "?e < 4096" by simp
  ultimately show "dist b a = ?e" using dist_eq [OF b, of ?e] by simp
qed

lemma release_frames_ok:
  assumes ops: "sn_arith ops" and inv: "reorder_inv t" and tg: "unat target < 4096"
  shows "\<exists>m. release_reorder_frames ops target (t, fs) = Some (advance ops m t, fs @ released (emitted t m))"
proof (cases "dist (sn_head t) (unat target) < 2048")
  case True
  then show ?thesis using release_frames_advance [OF ops inv refl _ tg] by blast
next
  case False
  note I = reorder_invD [OF inv]
  have "dist (unat target) (sn_head t) \<le> 2048" using dist_sym [OF I(6) tg] False by simp
  then have "\<not> sn_less ops (ar_head_seq_num t) target" using tg by (simp add: sn_arith_less [OF ops] sn_head_def)
  then show ?thesis unfolding release_reorder_frames_def
    by (intro exI [of _ 0]) (simp add: loop_opt_stop emitted_def released_def)
qed

lemma drop_bit_4_less: "unat (drop_bit 4 (x :: u16)) < 4096"
proof -
  have "unat x < 65536" using unsigned_less [of x] by simp
  then show ?thesis by (simp add: drop_bit_eq_div unat_div)
qed

lemma ctrl_ok:
  assumes ops: "sn_arith ops" and ok: "sessions_ok (sa_tid_rx s)"
  shows "\<exists>r s' out. rx_h_ctrl ops e ctl back bar (Some s) = Some (r, Some s', out) \<and> sessions_ok (sa_tid_rx s')"
proof (cases "\<exists>control start t. ctl \<and> back \<and> bar = Some (control, start) \<and> sa_tid_rx s (unat (drop_bit 12 control)) = Some t")
  case True
  then obtain control start t where b: "ctl" "back" "bar = Some (control, start)" "sa_tid_rx s (unat (drop_bit 12 control)) = Some t" by blast
  define t' where "t' = (if ar_timeout t \<noteq> 0
     then t\<lparr>ar_session_timer := Some (be_jiffies e + be_tu_to_jiffies e (ar_timeout t))\<rparr> else t)"
  have inv: "reorder_inv t'" using sessions_okD [OF ok b(4)] by (simp add: t'_def)
  obtain m where "release_reorder_frames ops (drop_bit 4 start) (t', []) = Some (advance ops m t', [] @ released (emitted t' m))"
    using release_frames_ok [OF ops inv drop_bit_4_less] by blast
  then have "rx_h_ctrl ops e ctl back bar (Some s) =
      Some (RX_QUEUED, Some (s\<lparr>sa_tid_rx := (sa_tid_rx s)(unat (drop_bit 12 control) \<mapsto> advance ops m t')\<rparr>), released (emitted t' m))"
    using b unfolding rx_h_ctrl_def t'_def [symmetric] by (simp add: t'_def [symmetric] Let_def del: if_split)
  with sessions_ok_upd [OF ok advance_inv [OF ops inv]] show ?thesis by simp
next
  case False
  then have "\<exists>r. rx_h_ctrl ops e ctl back bar (Some s) = Some (r, Some s, [])"
    by (auto simp: rx_h_ctrl_def Let_def split: option.split)
  with ok show ?thesis by blast
qed

lemma ctrl_moved:
  assumes ops: "sn_arith ops" and ok: "sessions_buf_ok (sa_tid_rx s)"
  shows "\<exists>r s' out. rx_h_ctrl ops e ctl back bar (Some s) = Some (r, Some s', out) \<and> sessions_buf_ok (sa_tid_rx s') \<and>
    frames_mset out + stored_mset (sa_tid_rx s') \<subseteq># stored_mset (sa_tid_rx s)"
proof (cases "\<exists>control start t. ctl \<and> back \<and> bar = Some (control, start) \<and> sa_tid_rx s (unat (drop_bit 12 control)) = Some t")
  case True
  then obtain control start t where b: "ctl" "back" "bar = Some (control, start)" "sa_tid_rx s (unat (drop_bit 12 control)) = Some t" by blast
  let ?tid = "unat (drop_bit 12 control)"
  define t' where "t' = (if ar_timeout t \<noteq> 0
     then t\<lparr>ar_session_timer := Some (be_jiffies e + be_tu_to_jiffies e (ar_timeout t))\<rparr> else t)"
  have t': "buf_ok t'" "buf_mset t' = buf_mset t" using buf_okI [OF ok b(4)] by (simp_all add: t'_def)
  obtain u rel where r: "release_reorder_frames ops (drop_bit 4 start) (t', []) = Some (u, rel)" "moved t' [] (u, rel)"
    using release_frames_moved [OF ops t'(1)] by fastforce
  have "rx_h_ctrl ops e ctl back bar (Some s) = Some (RX_QUEUED, Some (s\<lparr>sa_tid_rx := (sa_tid_rx s)(?tid \<mapsto> u)\<rparr>), rel)"
    using b r(1) unfolding rx_h_ctrl_def t'_def [symmetric] by (simp add: t'_def [symmetric] Let_def del: if_split)
  moreover have "frames_mset rel + buf_mset u \<subseteq># {#} + buf_mset t" "buf_ok u" using r(2) t'(2) by (auto simp: moved_def)
  then have "frames_mset rel + stored_mset ((sa_tid_rx s)(?tid \<mapsto> u)) \<subseteq># stored_mset (sa_tid_rx s)"
    "sessions_buf_ok ((sa_tid_rx s)(?tid \<mapsto> u))"
    using stored_upd [of "sa_tid_rx s" ?tid t rel u "{#}", OF b(4) tid_okI [OF ok b(4)]]
      sessions_buf_upd(1) [OF ok tid_okI [OF ok b(4)]] by simp_all
  ultimately show ?thesis by simp
next
  case False
  then have "\<exists>r. rx_h_ctrl ops e ctl back bar (Some s) = Some (r, Some s, [])"
    by (auto simp: rx_h_ctrl_def Let_def split: option.split)
  with ok show ?thesis by auto
qed

section \<open>All steps\<close>

text \<open>The state of a station with the list of the frames that arrived and the list of the frames handed on so far.
  The parameter \<open>plain\<close> restricts the steps to frames that are not parts of a deaggregated A-MSDU, and to
  sessions whose size, after the code's adjustments, divides 4096 and whose starting number has twelve
  bits. The driver is assumed to allow at least one frame in a window (with the size 0 the code divides by 0).\<close>

inductive agg_step ::
  "hdr_ops \<Rightarrow> u64 \<Rightarrow> bool \<Rightarrow> sta_agg \<times> rx_frame list \<times> rx_frame list \<Rightarrow> sta_agg \<times> rx_frame list \<times> rx_frame list \<Rightarrow> bool"
  for ops hz plain where
  frame: "(plain \<longrightarrow> \<not> fr_amsdu_more f) \<Longrightarrow>
     rx_reorder_ampdu ops hz now f (Some (sa_tid_rx s)) [] = Some (Some tid_rx, frames, work) \<Longrightarrow>
     agg_step ops hz plain (s, arrived, out) (s\<lparr>sa_tid_rx := tid_rx\<rparr>, arrived @ [f], out @ frames @ work)"
| release: "release_reorder_timeout ops hz now tid (sa_tid_rx s) = Some (tid_rx, fr) \<Longrightarrow>
     agg_step ops hz plain (s, arrived, out) (s\<lparr>sa_tid_rx := tid_rx\<rparr>, arrived, out @ fr)"
| bar: "rx_h_ctrl ops e ctl bar_req bar (Some s) = Some (r, Some s', fr) \<Longrightarrow>
     agg_step ops hz plain (s, arrived, out) (s', arrived, out @ fr)"
| addba: "be_max_subframes e \<noteq> 0 \<Longrightarrow>
     (plain \<longrightarrow> window_size (effective_buf_size e (snd (snd (addba_params capab)))) \<and> drv_ok e) \<Longrightarrow>
     agg_step ops hz plain (s, arrived, out) (fst (process_addba_request e token timeout start capab s), arrived, out)"
| offload: "be_max_subframes e \<noteq> 0 \<Longrightarrow> unat tid < IEEE80211_NUM_TIDS \<Longrightarrow>
     (plain \<longrightarrow> window_size (effective_buf_size e IEEE80211_MAX_AMPDU_BUF) \<and> drv_ok e) \<Longrightarrow>
     agg_step ops hz plain (s, arrived, out)
       (fst (start_rx_ba_session e 0 0 0 1 tid IEEE80211_MAX_AMPDU_BUF False True s), arrived, out)"
| stop: "agg_step ops hz plain (s, arrived, out) (fst (stop_rx_ba_session e tid initiator reason tx s), arrived, out)"
| delba: "agg_step ops hz plain (s, arrived, out) (fst (process_delba e params s), arrived, out)"
| session_timer: "agg_step ops hz plain (s, arrived, out) (session_timer_expired ops e tid s, arrived, out)"
| request: "agg_step ops hz plain (s, arrived, out) (request_stop_rx_ba bitmap s, arrived, out)"
| work: "agg_step ops hz plain (s, arrived, out) (fst (ba_session_work e s), arrived, out)"

definition agg_ready :: "hdr_ops \<Rightarrow> u64 \<Rightarrow> sta_agg \<Rightarrow> bool" where
  "agg_ready ops hz s \<longleftrightarrow> sessions_buf_ok (sa_tid_rx s) \<and>
     (\<forall>f now. rx_reorder_ampdu ops hz now f (Some (sa_tid_rx s)) [] \<noteq> None) \<and>
     (\<forall>tid now. release_reorder_timeout ops hz now tid (sa_tid_rx s) \<noteq> None) \<and>
     (\<forall>e ctl bar_req bar. rx_h_ctrl ops e ctl bar_req bar (Some s) \<noteq> None)"

lemma agg_readyI: "sn_arith ops \<Longrightarrow> sessions_buf_ok (sa_tid_rx s) \<Longrightarrow> agg_ready ops hz s"
  unfolding agg_ready_def
  using ampdu_moved [of ops "sa_tid_rx s" hz] timeout_moved [of "sa_tid_rx s" ops hz] ctrl_moved [of ops s]
  by (metis option.distinct(1))

lemma timeout_ok:
  assumes ops: "sn_arith ops" and ok: "sessions_ok tid_rx"
  shows "\<exists>tid_rx' fr. release_reorder_timeout ops hz now tid tid_rx = Some (tid_rx', fr) \<and> sessions_ok tid_rx'"
proof (cases "tid_rx tid")
  case None
  with ok show ?thesis by (simp add: release_reorder_timeout_def)
next
  case (Some t)
  with release_timeout_ok [OF ops, of tid_rx tid t hz now] sessions_okD [OF ok Some] show ?thesis
    using sessions_ok_upd [OF ok] by blast
qed

lemma addba_params_tid: "addba_params capab = (p, tid, n) \<Longrightarrow> unat tid < 16"
proof -
  assume "addba_params capab = (p, tid, n)"
  then have tid: "tid = drop_bit 2 (capab AND 0x003C)"
    by (auto simp: addba_params_def ADDBA_PARAM_TID_MASK_def)
  have "unat (capab AND 0x003C) \<le> unat (0x003C :: u16)" by (meson word_and_le1 word_le_nat_alt)
  then show ?thesis unfolding tid by (simp add: drop_bit_eq_div unat_div)
qed

lemma agg_step_keeps:
  assumes ops: "sn_arith ops" and "agg_step ops hz plain p q" and "p = (s, arrived, out)"
    and "agg_inv plain (frames_mset arrived - frames_mset out) (sa_tid_rx s)" "frames_mset out \<subseteq># frames_mset arrived"
  shows "case q of (s', arrived', out') \<Rightarrow>
    agg_inv plain (frames_mset arrived' - frames_mset out') (sa_tid_rx s') \<and> frames_mset out' \<subseteq># frames_mset arrived'"
proof -
  let ?K = "frames_mset arrived - frames_mset out"
  note ok = assms(4) [unfolded agg_inv_def]
  have count: "stored_mset g \<subseteq># frames_mset (arrived @ new) - frames_mset (out @ rel) \<and> frames_mset (out @ rel) \<subseteq># frames_mset (arrived @ new)"
    if "frames_mset rel + stored_mset g \<subseteq># frames_mset new + stored_mset (sa_tid_rx s)" for new rel g
  proof -
    have "frames_mset (out @ rel) + stored_mset g = frames_mset out + (frames_mset rel + stored_mset g)" by simp
    also have "\<dots> \<subseteq># frames_mset out + (frames_mset new + stored_mset (sa_tid_rx s))" using that by simp
    also have "\<dots> \<subseteq># frames_mset out + (frames_mset new + ?K)" using ok by simp
    also have "\<dots> = frames_mset new + (frames_mset out + ?K)" by (rule add.left_commute)
    also have "\<dots> = frames_mset (arrived @ new)" unfolding subset_mset.add_diff_inverse [OF assms(5)] by (simp add: add.commute)
    finally have *: "frames_mset (out @ rel) + stored_mset g \<subseteq># frames_mset (arrived @ new)" .
    then show ?thesis
      by (metis mset_subset_eq_add_left subset_mset.le_diff_conv2 add.commute subset_mset.order_trans)
  qed
  note moves = count [where new = "[]", simplified]
  show ?thesis
    using assms(2,3)
  proof (cases rule: agg_step.cases)
    case (frame f now s' tid_rx frames work arr o')
    then have e: "s' = s" "arr = arrived" "o' = out" using assms(3) by simp_all
    obtain g out2 work2 where g: "rx_reorder_ampdu ops hz now f (Some (sa_tid_rx s)) [] = Some (Some g, out2, work2)" "sessions_buf_ok g"
      "frames_mset (out2 @ work2) + stored_mset g \<subseteq># {#undeferred f#} + stored_mset (sa_tid_rx s)"
      using ampdu_moved [OF ops, of "sa_tid_rx s" hz now f] ok by blast
    have "sessions_ok g" if plain
      using ampdu_ok [OF ops, of "sa_tid_rx s" f hz now "[]"] ok frame(3) that g(1) by auto
    with g frame e count [where rel = "out2 @ work2" and g = g and new = "[f]"] show ?thesis by (simp add: agg_inv_def)
  next
    case (release now tid s' tid_rx fr arr o')
    then have e: "s' = s" "arr = arrived" "o' = out" using assms(3) by simp_all
    have "sessions_ok tid_rx" if plain
      using timeout_ok [OF ops, of "sa_tid_rx s" hz now tid] ok that release e by auto
    with timeout_moved [of "sa_tid_rx s" ops hz now tid] ok release e moves [where rel = fr and g = tid_rx] show ?thesis
      by (simp add: agg_inv_def)
  next
    case (bar e ctl bar_req b s1 r s' fr arr o')
    then have e: "s1 = s" "arr = arrived" "o' = out" using assms(3) by simp_all
    have "sessions_ok (sa_tid_rx s')" if plain
      using ctrl_ok [OF ops, of s e ctl bar_req b] ok that bar e by auto
    with ctrl_moved [OF ops, of s e ctl bar_req b] ok bar e moves [where rel = fr and g = "sa_tid_rx s'"] show ?thesis
      by (simp add: agg_inv_def)
  next
    case (addba e capab s' arr o' token timeout start)
    obtain p t n where c: "addba_params capab = (p, t, n)" by (metis prod_cases3)
    have "agg_inv plain ?K (sa_tid_rx (fst (start_rx_ba_session e token timeout (drop_bit 4 start) p t n True False s)))"
      using start_sessions [OF assms(4) addba(3) addba_params_tid [OF c]] addba(4) drop_bit_4_less c by simp
    with addba assms(3,5) c show ?thesis by (simp add: process_addba_request_def)
  next
    case (offload e tid s' arr o')
    with start_sessions [OF assms(4) offload(3)] assms(3,5) show ?thesis by (simp add: IEEE80211_NUM_TIDS_def)
  next
    case (stop s' arr o' e tid initiator reason tx)
    with stop_sessions [OF assms(4)] assms(3,5) show ?thesis by simp
  next
    case (delba s' arr o' e params)
    with stop_sessions [OF assms(4)] assms(3-5) show ?thesis by (simp add: process_delba_def Let_def)
  next
    case (session_timer s' arr o' e tid)
    with session_timer_sessions [OF assms(4)] assms(3,5) show ?thesis by simp
  next
    case (request s' arr o' bitmap)
    with assms(3-5) show ?thesis by (simp add: request_stop_rx_ba_def)
  next
    case (work s' arr o' e)
    with work_sessions [OF assms(4)] assms(3,5) show ?thesis by simp
  qed
qed

text \<open>C12. Over every sequence of frames, block-ack requests, timer expiries, session requests of the peer
  or the driver, and tear-downs, with windows of any size from 1 on and with any frames, parts of a
  deaggregated A-MSDU included: in the state reached, the session data is consistent (array lengths, and the counter of
  stored frames) and the handlers with loops or array accesses, those of frames, of block-ack requests and of the
  release timer, return for every input (the others are total functions); and the frames handed on together
  with those still stored are part of those that arrived, counted with multiplicity. If moreover the
  sizes of all windows are between 2 and 1024 and divide 4096, the driver keeps the starting numbers to
  twelve bits and no frame is part of a deaggregated A-MSDU (\<open>plain\<close>), every session satisfies the invariant that orders its
  frames.\<close>

theorem agg_invariant:
  assumes "sn_arith ops" and "(agg_step ops hz plain)\<^sup>*\<^sup>* (s, [], []) (s', arrived, out)" and "sa_tid_rx s = Map.empty"
  shows "agg_ready ops hz s' \<and> frames_mset out + stored_mset (sa_tid_rx s') \<subseteq># frames_mset arrived \<and>
    (if plain then sessions_ok (sa_tid_rx s') else True)"
proof -
  let ?I = "\<lambda>(s, arrived, out). agg_inv plain (frames_mset arrived - frames_mset out) (sa_tid_rx s) \<and> frames_mset out \<subseteq># frames_mset arrived"
  have "?I q" if "(agg_step ops hz plain)\<^sup>*\<^sup>* p q" "?I p" for p q
    using that
  proof (induction rule: rtranclp_induct)
    case (step q r)
    obtain s1 a1 o1 where q: "q = (s1, a1, o1)" by (metis prod_cases3)
    with step have "?I (s1, a1, o1)" by blast
    with agg_step_keeps [OF assms(1) step(2) q] show ?case by simp
  qed simp
  from this [OF assms(2)] have I: "?I (s', arrived, out)"
    using assms(3) by (simp add: agg_inv_def sessions_buf_ok_def sessions_ok_def stored_mset_def)
  then have "stored_mset (sa_tid_rx s') \<subseteq># frames_mset arrived - frames_mset out" "frames_mset out \<subseteq># frames_mset arrived"
    by (auto simp: agg_inv_def)
  then have "frames_mset out + stored_mset (sa_tid_rx s') \<subseteq># frames_mset arrived"
    by (metis subset_mset.add_left_mono subset_mset.add_diff_inverse)
  with I agg_readyI [OF assms(1)] show ?thesis by (simp add: agg_inv_def)
qed

definition env_ex :: "bool \<Rightarrow> rxba_env" where
  "env_ex removed = \<lparr>be_jiffies = 10, be_tu_to_jiffies = (\<lambda>t. ucast t), be_max_subframes = 64, be_alloc_session = True,
     be_alloc_buf = True, be_alloc_time = True, be_alloc_resp = True, be_drv_start = (\<lambda>tid ssn. (False, ssn)),
     be_removed = removed, be_last_rx = 0\<rparr>"

definition sta_ex :: sta_agg where
  "sta_ex = \<lparr>sa_ht_supported = True, sa_delay_ba = False, sa_block_ba = False, sa_tid_rx = Map.empty,
     sa_timer_expired = (\<lambda>_. False), sa_stop_requested = (\<lambda>_. False)\<rparr>"

lemma params_ex: "addba_params 0x0102 = (1, 0, 4)"
  by (simp add: addba_params_def ADDBA_PARAM_POLICY_MASK_def ADDBA_PARAM_TID_MASK_def ADDBA_PARAM_BUF_SIZE_MASK_def)

lemma open_ex: "fst (process_addba_request (env_ex rm) 7 0 0 0x0102 sta_ex) =
    sta_ex\<lparr>sa_tid_rx := [0 \<mapsto> new_session (env_ex rm) 7 0 0 4 False]\<rparr>"
  by (simp add: process_addba_request_def params_ex start_rx_ba_session_def open_session_def effective_buf_size_def
      env_ex_def sta_ex_def IEEE80211_MAX_AMPDU_BUF_def)

lemma bit_small: "unat w < 2 ^ k \<Longrightarrow> bit (w :: u16) n \<Longrightarrow> n < k"
proof -
  assume w: "unat w < 2 ^ k" and n: "bit w n"
  then have "take_bit k (unat w) = unat w" by (simp add: take_bit_nat_eq_self_iff)
  then have "take_bit k w = w" by (metis unsigned_take_bit_eq unsigned_word_eqI)
  with n show "n < k" by (metis bit_take_bit_iff)
qed

lemma capab_masks:
  "(0x0002 :: u16) = push_bit 1 (mask 1)" "(0x003C :: u16) = push_bit 2 (mask 4)" "(0xFFC0 :: u16) = push_bit 6 (mask 10)"
  by (simp_all add: mask_eq_exp_minus_1)

text \<open>The parameters written into an answer to a session request are read back unchanged.\<close>

theorem addba_params_roundtrip:
  assumes "send_addba_resp e tid token status policy buf_size timeout = Some r"
    and "policy < 2" and "tid < 16" and "buf_size < 1024"
  shows "addba_params (rs_capab r) = (policy, tid, buf_size)"
proof -
  have c: "rs_capab r = push_bit 1 policy OR push_bit 2 tid OR push_bit 6 buf_size"
    using assms(1) by (auto simp: send_addba_resp_def split: if_splits)
  have b: "bit policy n \<Longrightarrow> n < 1" "bit tid n \<Longrightarrow> n < 4" "bit buf_size n \<Longrightarrow> n < 10" for n
    using bit_small [of policy 1 n] bit_small [of tid 4 n] bit_small [of buf_size 10 n] assms(2-) by (simp_all add: word_less_nat_alt)
  note bits = bit_drop_bit_eq bit_and_iff bit_or_iff bit_push_bit_iff bit_mask_iff comp_def
  have "drop_bit 1 (rs_capab r AND 0x0002) = policy" "drop_bit 2 (rs_capab r AND 0x003C) = tid"
    "drop_bit 6 (rs_capab r AND 0xFFC0) = buf_size"
    unfolding c capab_masks
    by (rule bit_word_eqI, simp only: bits, fastforce dest: b)+
  then show ?thesis
    by (simp add: addba_params_def ADDBA_PARAM_POLICY_MASK_def ADDBA_PARAM_TID_MASK_def ADDBA_PARAM_BUF_SIZE_MASK_def)
qed

theorem addba_params_roundtrip_witness:
  "addba_params (rs_capab (the (send_addba_resp (env_ex False) 5 7 0 1 64 0))) = (1, 5, 64)"
  by (rule addba_params_roundtrip [of "env_ex False" 5 7 0 1 64 0]) (simp_all add: send_addba_resp_def env_ex_def)

text \<open>A frame behind a gap that has not waited long: the function jumps to \<open>set_release_timer\<close>.\<close>

lemma release_waits:
  assumes j: "j = (i + 1) mod unat (ar_buf_size t)"
    and "head_index t = Some i" and "i < length (ar_reorder_buf t)" and "\<not> rx_reorder_ready (ar_reorder_buf t ! i)"
    and "ar_stored_mpdu_num t \<noteq> 0" and "j \<noteq> i" and "j < length (ar_reorder_buf t)" and "j < length (ar_reorder_time t)"
    and "rx_reorder_ready (ar_reorder_buf t ! j)"
    and "\<not> time_after ops now (ar_reorder_time t ! j + HT_RX_REORDER_BUF_TIMEOUT hz)"
  shows "sta_reorder_release ops hz now (t, fs) = arm_release_timer hz (True, j, t, fs)"
proof -
  let ?b = "\<lambda>(j, skipped :: nat, stop, t :: tid_ampdu_rx, frames :: rx_frame list). \<not> stop \<and> j \<noteq> i"
  have "timeout_body ops hz now i (j, 1, False, t, fs) = Some (j, 1, True, t, fs)"
    using assms by (simp add: timeout_body_def)
  with loop_opt_step [of ?b "(j, 1 :: nat, False, t, fs)" "timeout_body ops hz now i"] \<open>j \<noteq> i\<close>
  have "loop_opt ?b (timeout_body ops hz now i) (j, 1, False, t, fs) = Some (j, 1, True, t, fs)"
    by (simp add: loop_opt_stop)
  then have "release_ready ops hz now i (t, fs) = Some (True, j, t, fs)"
    using assms by (simp add: release_ready_def)
  with assms(2) show ?thesis by (simp add: sta_reorder_release_def)
qed

definition behind_gap :: "bool \<Rightarrow> u64 option \<Rightarrow> tid_ampdu_rx" where
  "behind_gap removed timer = (new_session (env_ex removed) 7 0 0 4 False)\<lparr>ar_reorder_buf := [[], [frame_ex 1], [], []],
     ar_reorder_time := [0, 20, 0, 0], ar_stored_mpdu_num := 1, ar_reorder_timer := timer\<rparr>"

lemma behind_gap_fields:
  "ar_reorder_buf (behind_gap rm tm) = [[], [frame_ex 1], [], []]" "ar_reorder_time (behind_gap rm tm) = [0, 20, 0, 0]"
  "ar_head_seq_num (behind_gap rm tm) = 0" "ar_buf_size (behind_gap rm tm) = 4" "ar_stored_mpdu_num (behind_gap rm tm) = 1"
  "ar_reorder_timer (behind_gap rm tm) = tm" "ar_removed (behind_gap rm tm) = rm"
  "(behind_gap rm tm)\<lparr>ar_reorder_timer := tm'\<rparr> = behind_gap rm tm'"
  by (simp_all add: behind_gap_def new_session_def env_ex_def)

lemma behind_gap_release:
  "sta_reorder_release ops_ex 100 20 (behind_gap removed None, []) = Some (behind_gap removed (if removed then None else Some 31), [])"
proof -
  have "sta_reorder_release ops_ex 100 20 (behind_gap removed None, []) = arm_release_timer 100 (True, 1, behind_gap removed None, [])"
    by (rule release_waits [where i = 0])
      (simp_all add: behind_gap_fields head_index_def frame_ex_more ops_ex_def HT_RX_REORDER_BUF_TIMEOUT_def)
  also have "\<dots> = Some (behind_gap removed (if removed then None else Some 31), [])"
    by (cases removed) (simp_all add: arm_release_timer_def set_release_timer_def behind_gap_fields HT_RX_REORDER_BUF_TIMEOUT_def)
  finally show ?thesis .
qed

lemma replicate_4: "replicate 4 x = [x, x, x, x]"
  by (simp add: numeral_eq_Suc)

lemma behind_gap_arrival:
  "sta_manage_reorder_buf ops_ex 100 20 (frame_ex 1) (new_session (env_ex removed) 7 0 0 4 False, []) =
   Some (True, behind_gap removed (if removed then None else Some 31), [])"
proof -
  let ?t = "new_session (env_ex removed) 7 0 0 4 False"
  have f: "ar_reorder_buf ?t = [[], [], [], []]" "ar_reorder_time ?t = [0, 0, 0, 0]"
    "ar_head_seq_num ?t = 0" "ar_buf_size ?t = 4" "ar_stored_mpdu_num ?t = 0" "\<not> ar_auto_seq ?t"
    by (simp_all add: new_session_def replicate_4)
  have t: "?t\<lparr>ar_reorder_buf := [[], [frame_ex 1], [], []], ar_reorder_time := [0, 20, 0, 0], ar_stored_mpdu_num := 1\<rparr> = behind_gap removed None"
    by (simp add: behind_gap_def new_session_def)
  have "place_frame ops_ex 100 20 (frame_ex 1) (?t, []) = Some (True, behind_gap removed (if removed then None else Some 31), [])"
    using behind_gap_release [of removed] by (simp add: place_frame_def frame_ex_seq frame_ex_more Let_def f t)
  then show ?thesis by (simp add: sta_manage_reorder_buf_def frame_ex_seq sn_less_ex f)
qed

theorem agg_invariant_witness:
  "agg_ready ops_ex 100 (sta_ex\<lparr>sa_tid_rx := [0 \<mapsto> behind_gap False (Some 31)]\<rparr>) \<and>
   frames_mset [] + stored_mset [0 \<mapsto> behind_gap False (Some 31)] \<subseteq># frames_mset [frame_ex 1] \<and>
   sessions_ok [0 \<mapsto> behind_gap False (Some 31)]"
proof -
  let ?s1 = "sta_ex\<lparr>sa_tid_rx := [0 \<mapsto> new_session (env_ex False) 7 0 0 4 False]\<rparr>"
  let ?s2 = "sta_ex\<lparr>sa_tid_rx := [0 \<mapsto> behind_gap False (Some 31)]\<rparr>"
  have "agg_step ops_ex 100 True (sta_ex, [], []) (fst (process_addba_request (env_ex False) 7 0 0 0x0102 sta_ex), [], [])"
    by (intro agg_step.addba) (simp_all add: params_ex effective_buf_size_def env_ex_def window_size_def drv_ok_def)
  then have 1: "agg_step ops_ex 100 True (sta_ex, [], []) (?s1, [], [])" by (simp add: open_ex)
  have "rx_reorder_ampdu ops_ex 100 20 (frame_ex 1) (Some (sa_tid_rx ?s1)) [] = Some (Some (sa_tid_rx ?s2), [], [])"
  proof -
    have f: "fr_frame_control (frame_ex 1) = 0x0888" "fr_qos_ctl (frame_ex 1) = 0" "fr_ra_match (frame_ex 1)" "fr_seq_ctrl (frame_ex 1) = 16"
      "is_data_qos ops_ex x" "\<not> is_multicast ops_ex a" "ar_timeout (new_session (env_ex False) 7 0 0 4 False) = 0" for x a
      by (simp_all add: frame_ex_def ops_ex_def new_session_def)
    show ?thesis
      using behind_gap_arrival [of False]
      by (simp add: rx_reorder_ampdu_def f STYPE_NULLFUNC_def QOS_CTL_ACK_POLICY_MASK_def QOS_CTL_ACK_POLICY_NORMAL_def
          QOS_CTL_TID_MASK_def SCTL_FRAG_def)
  qed
  from agg_step.frame [of True "frame_ex 1", OF _ this, of "[]" "[]"]
  have "agg_step ops_ex 100 True (?s1, [], []) (?s2, [frame_ex 1], [])" by (simp add: frame_ex_more)
  with 1 have "(agg_step ops_ex 100 True)\<^sup>*\<^sup>* (sta_ex, [], []) (?s2, [frame_ex 1], [])" by (meson converse_rtranclp_into_rtranclp r_into_rtranclp)
  from agg_invariant [OF ops_ex_arith this] show ?thesis by (simp add: sta_ex_def)
qed

text \<open>A new session does not initialise \<open>removed\<close>. If the fresh memory happens to hold a nonzero byte
  there, a frame behind a gap is stored but the release timer is never started; otherwise the timer is set.\<close>

theorem removed_never_arms:
  "\<exists>t u. sta_manage_reorder_buf ops_ex 100 20 (frame_ex 1) (new_session (env_ex True) 7 0 0 4 False, []) = Some (True, t, []) \<and>
     ar_stored_mpdu_num t = 1 \<and> ar_reorder_timer t = None \<and>
     sta_manage_reorder_buf ops_ex 100 20 (frame_ex 1) (new_session (env_ex False) 7 0 0 4 False, []) = Some (True, u, []) \<and>
     ar_stored_mpdu_num u = 1 \<and> ar_reorder_timer u = Some 31"
  unfolding behind_gap_arrival by (simp add: behind_gap_def)

end
