(* ===== verification/Frame_Buf.thy ===== *)
theory Frame_Buf
  imports SKB RX_Reorder
begin

text \<open>
  What the software encryption shares: numbers in memory (least significant byte first), the view of a
  packet buffer as headroom, packet and tailroom, opening a gap behind the 802.11 header and closing it, the
  header functions the code uses, and byte-wise stream ciphers.
\<close>

section \<open>Numbers in memory\<close>

definition le16 :: "u8 \<Rightarrow> u8 \<Rightarrow> u16" where
  "le16 b0 b1 = ucast b0 OR push_bit 8 (ucast b1)"

definition le32 :: "u8 \<Rightarrow> u8 \<Rightarrow> u8 \<Rightarrow> u8 \<Rightarrow> u32" where
  "le32 b0 b1 b2 b3 = ucast b0 OR push_bit 8 (ucast b1) OR push_bit 16 (ucast b2) OR push_bit 24 (ucast b3)"

definition get_le16 :: "u8 list \<Rightarrow> nat \<Rightarrow> u16 option" where
  "get_le16 bs i = (if i + 1 < length bs then Some (le16 (bs ! i) (bs ! (i + 1))) else None)"

definition get_le32 :: "u8 list \<Rightarrow> nat \<Rightarrow> u32 option" where
  "get_le32 bs i = (if i + 3 < length bs then Some (le32 (bs ! i) (bs ! (i + 1)) (bs ! (i + 2)) (bs ! (i + 3))) else None)"

definition le16_bytes :: "u16 \<Rightarrow> u8 list" where
  "le16_bytes w = [ucast w, ucast (drop_bit 8 w)]"

definition le32_bytes :: "u32 \<Rightarrow> u8 list" where
  "le32_bytes w = [ucast w, ucast (drop_bit 8 w), ucast (drop_bit 16 w), ucast (drop_bit 24 w)]"

lemma length_le_bytes [simp]: "length (le16_bytes v) = 2" "length (le32_bytes w) = 4"
  by (simp_all add: le16_bytes_def le32_bytes_def)

lemma u8_bit_high [simp]: "8 \<le> n \<Longrightarrow> bit (a :: u8) n = False"
  using bit_imp_le_length [of a n] by auto

lemma le16_roundtrip: "le16_bytes (le16 a b) = [a, b]" "le16 (ucast w) (ucast (drop_bit 8 w)) = w"
proof -
  show "le16_bytes (le16 a b) = [a, b]"
    by (auto simp: le16_bytes_def le16_def bit_simps intro!: bit_word_eqI)
  show "le16 (ucast w) (ucast (drop_bit 8 w)) = w"
    by (rule bit_word_eqI) (auto simp: le16_def bit_simps)
qed

lemma le32_roundtrip: "le32_bytes (le32 a b c d) = [a, b, c, d]"
  "le32 (ucast w) (ucast (drop_bit 8 w)) (ucast (drop_bit 16 w)) (ucast (drop_bit 24 w)) = w"
proof -
  show "le32_bytes (le32 a b c d) = [a, b, c, d]"
    by (auto simp: le32_bytes_def le32_def bit_simps intro!: bit_word_eqI)
  show "le32 (ucast w) (ucast (drop_bit 8 w)) (ucast (drop_bit 16 w)) (ucast (drop_bit 24 w)) = w"
  proof (rule bit_word_eqI)
    fix n assume "n < LENGTH(32)"
    then show "bit (le32 (ucast w) (ucast (drop_bit 8 w)) (ucast (drop_bit 16 w)) (ucast (drop_bit 24 w))) n \<longleftrightarrow> bit w n"
      by (cases "n < 8"; cases "n < 16"; cases "n < 24"; auto simp: le32_def bit_simps)
  qed
qed

lemma get_le32_append: "get_le32 (le32_bytes w @ bs) 0 = Some w"
  by (simp add: get_le32_def le32_bytes_def le32_roundtrip)

lemma get_le16_append: "get_le16 (le16_bytes w @ bs) 0 = Some w"
  by (simp add: get_le16_def le16_bytes_def le16_roundtrip)

section \<open>Buffers as headroom, packet, tailroom\<close>

definition skb_mk :: "sk_buff \<Rightarrow> u8 list \<Rightarrow> u8 list \<Rightarrow> u8 list \<Rightarrow> sk_buff" where
  "skb_mk s pre bs post = s\<lparr>skb_buf := pre @ bs @ post, skb_data := length pre, skb_len := length bs\<rparr>"

definition skb_wf :: "sk_buff \<Rightarrow> bool" where
  "skb_wf s \<longleftrightarrow> skb_data s + skb_len s \<le> length (skb_buf s)"

definition skb_bytes :: "sk_buff \<Rightarrow> u8 list" where
  "skb_bytes s = take (skb_len s) (drop (skb_data s) (skb_buf s))"

definition skb_headroom :: "sk_buff \<Rightarrow> nat" where
  "skb_headroom s = skb_data s"

definition skb_tailroom :: "sk_buff \<Rightarrow> nat" where
  "skb_tailroom s = length (skb_buf s) - (skb_data s + skb_len s)"

lemma skb_mk_fields [simp]:
  "skb_buf (skb_mk s pre bs post) = pre @ bs @ post" "skb_data (skb_mk s pre bs post) = length pre"
  "skb_len (skb_mk s pre bs post) = length bs" "skb_wf (skb_mk s pre bs post)" "skb_bytes (skb_mk s pre bs post) = bs"
  "skb_headroom (skb_mk s pre bs post) = length pre" "skb_tailroom (skb_mk s pre bs post) = length post"
  by (simp_all add: skb_mk_def skb_wf_def skb_bytes_def skb_headroom_def skb_tailroom_def)

lemma skb_view:
  assumes "skb_wf s"
  shows "s = skb_mk s (take (skb_data s) (skb_buf s)) (skb_bytes s) (drop (skb_data s + skb_len s) (skb_buf s))"
proof -
  have "skb_buf s = take (skb_data s) (skb_buf s) @ skb_bytes s @ drop (skb_data s + skb_len s) (skb_buf s)"
    using append_take_drop_id [of "skb_data s" "skb_buf s"] append_take_drop_id [of "skb_len s" "drop (skb_data s) (skb_buf s)"]
    by (simp add: skb_bytes_def add.commute)
  moreover have "length (take (skb_data s) (skb_buf s)) = skb_data s" "length (skb_bytes s) = skb_len s"
    using assms by (simp_all add: skb_wf_def skb_bytes_def)
  ultimately show ?thesis by (simp only: skb_mk_def) simp
qed

lemma skb_push_mk: "length ns = n \<Longrightarrow> skb_push n (skb_mk s (pre @ ns) bs post) = Some (skb_mk s pre (ns @ bs) post)"
  by (simp add: skb_mk_def)

lemma skb_pull_mk: "length ns = n \<Longrightarrow> skb_pull n (skb_mk s pre (ns @ bs) post) = skb_mk s (pre @ ns) bs post"
  by (simp add: skb_mk_def skb_pull_def)

lemma skb_put_mk: "length ns = n \<Longrightarrow> skb_put n (skb_mk s pre bs (ns @ post)) = Some (skb_mk s pre (bs @ ns) post)"
  by (simp add: skb_mk_def)

lemma skb_trim_mk: "skb_trim (length bs) (skb_mk s pre (bs @ ts) post) = skb_mk s pre bs (ts @ post)"
  by (cases ts) (simp_all add: skb_mk_def skb_trim_def)

lemma skb_load_mk: "i + n \<le> length bs \<Longrightarrow> skb_load i n (skb_mk s pre bs post) = Some (take n (drop i bs))"
  by (auto simp: skb_load_iff skb_get_def head_get_def nth_append min_def)

lemma skb_store_mk:
  "i + length cs \<le> length bs \<Longrightarrow> skb_store i cs (skb_mk s pre bs post) = Some (skb_mk s pre (overwrite i cs bs) post)"
  by (subst skb_store_eq) (simp_all add: room_def skb_mk_def overwrite_def)

lemma overwrite_mid: "length cs = length bs \<Longrightarrow> overwrite (length as) cs (as @ bs @ ds) = as @ cs @ ds"
  by (simp add: overwrite_def)

section \<open>Gaps behind the header\<close>

definition skb_memmove :: "nat \<Rightarrow> nat \<Rightarrow> nat \<Rightarrow> sk_buff \<Rightarrow> sk_buff option" where
  "skb_memmove dst src n s = do { bs \<leftarrow> skb_load src n s; skb_store dst bs s }"

definition open_gap :: "nat \<Rightarrow> nat \<Rightarrow> sk_buff \<Rightarrow> sk_buff option" where
  "open_gap n hdrlen s = do { s \<leftarrow> skb_push n s; skb_memmove 0 n hdrlen s }"

definition close_gap :: "nat \<Rightarrow> nat \<Rightarrow> sk_buff \<Rightarrow> sk_buff option" where
  "close_gap n hdrlen s = do { s \<leftarrow> skb_memmove n 0 hdrlen s; Some (skb_pull n s) }"

lemma open_gap_mk:
  assumes "length ns = n" "length hdr = hdrlen"
  shows "\<exists>gap. length gap = n \<and> open_gap n hdrlen (skb_mk s (pre @ ns) (hdr @ bs) post) = Some (skb_mk s pre (hdr @ gap @ bs) post)"
proof -
  let ?gap = "drop hdrlen (ns @ hdr)"
  have "overwrite 0 hdr (ns @ hdr @ bs) = hdr @ ?gap @ bs"
    using assms by (simp add: overwrite_def)
  with assms show ?thesis
    by (intro exI [of _ ?gap]) (simp add: open_gap_def skb_push_mk skb_memmove_def skb_load_mk skb_store_mk)
qed

lemma close_gap_mk:
  assumes "length gap = n" "length hdr = hdrlen"
  shows "\<exists>ns. length ns = n \<and> close_gap n hdrlen (skb_mk s pre (hdr @ gap @ bs) post) = Some (skb_mk s (pre @ ns) (hdr @ bs) post)"
proof -
  define ns where "ns = take n (hdr @ gap)"
  have ns: "length ns = n" using assms by (simp add: ns_def)
  have "overwrite n hdr (hdr @ gap @ bs) = take n ((hdr @ gap) @ bs) @ hdr @ bs"
    using assms by (simp add: overwrite_def)
  then have "overwrite n hdr (hdr @ gap @ bs) = ns @ hdr @ bs"
    using assms by (simp only: ns_def take_append) simp
  with assms ns show ?thesis
    by (intro exI [of _ ns]) (simp add: close_gap_def skb_memmove_def skb_load_mk skb_store_mk skb_pull_mk)
qed

section \<open>Headers\<close>

text \<open>More functions of \<^verbatim>\<open>linux/ieee80211.h\<close>: the kind of a frame, and where the header holds the
  destination, the source and the QoS control field.\<close>

record frame_ops = hdr_ops +
  is_data :: "u16 \<Rightarrow> bool"
  is_data_present :: "u16 \<Rightarrow> bool"
  is_auth :: "u16 \<Rightarrow> bool"
  is_mgmt :: "u16 \<Rightarrow> bool"
  has_a4 :: "u16 \<Rightarrow> bool"
  da_off :: "u16 \<Rightarrow> nat"
  sa_off :: "u16 \<Rightarrow> nat"
  qos_ctl_off :: "u16 \<Rightarrow> nat"
  is_robust_mgmt_frame :: "u8 list \<Rightarrow> bool"

definition FCTL_PROTECTED :: u16 where "FCTL_PROTECTED = 0x4000"

definition skb_fc :: "sk_buff \<Rightarrow> u16 option" where
  "skb_fc s = do { bs \<leftarrow> skb_load 0 2 s; get_le16 bs 0 }"

definition set_protected :: "sk_buff \<Rightarrow> sk_buff option" where
  "set_protected s = do { fc \<leftarrow> skb_fc s; skb_store 0 (le16_bytes (fc OR FCTL_PROTECTED)) s }"

definition hdr_fc :: "u8 list \<Rightarrow> u16" where
  "hdr_fc hdr = le16 (hdr ! 0) (hdr ! 1)"

definition protect_hdr :: "u8 list \<Rightarrow> u8 list" where
  "protect_hdr hdr = le16_bytes (hdr_fc hdr OR FCTL_PROTECTED) @ drop 2 hdr"

lemma skb_fc_mk: "2 \<le> length hdr \<Longrightarrow> skb_fc (skb_mk s pre (hdr @ bs) post) = Some (hdr_fc hdr)"
  by (simp add: skb_fc_def skb_load_mk get_le16_def hdr_fc_def nth_append)

lemma set_protected_mk:
  "2 \<le> length hdr \<Longrightarrow> set_protected (skb_mk s pre (hdr @ bs) post) = Some (skb_mk s pre (protect_hdr hdr @ bs) post)"
  by (simp add: set_protected_def skb_fc_mk skb_store_mk overwrite_def protect_hdr_def numeral_2_eq_2)

lemma hdr_fc_le16: "hdr_fc (le16_bytes w @ bs) = w"
  by (simp add: hdr_fc_def le16_bytes_def le16_roundtrip)

lemma protect_hdr_simps [simp]:
  "2 \<le> length hdr \<Longrightarrow> length (protect_hdr hdr) = length hdr"
  "hdr_fc (protect_hdr hdr) = hdr_fc hdr OR FCTL_PROTECTED"
  "protect_hdr (protect_hdr hdr) = protect_hdr hdr"
  by (simp_all add: protect_hdr_def hdr_fc_le16 or.assoc)

section \<open>Stream ciphers\<close>

text \<open>The cipher of the kernel's crypto library is a parameter: \<open>setkey\<close> gives a state, and each byte is
  encrypted or decrypted with the state and changes it. The hypothesis says that decryption undoes
  encryption when it starts from the same state.\<close>

record 'c cipher_ops =
  setkey :: "u8 list \<Rightarrow> 'c"
  encrypt_one :: "'c \<Rightarrow> u8 \<Rightarrow> u8 \<times> 'c"
  decrypt_one :: "'c \<Rightarrow> u8 \<Rightarrow> u8 \<times> 'c"

definition stream_cipher :: "'c cipher_ops \<Rightarrow> bool" where
  "stream_cipher tfm \<longleftrightarrow> (\<forall>c b. decrypt_one tfm c (fst (encrypt_one tfm c b)) = (b, snd (encrypt_one tfm c b)))"

primrec crypt_bytes :: "('c \<Rightarrow> u8 \<Rightarrow> u8 \<times> 'c) \<Rightarrow> 'c \<Rightarrow> u8 list \<Rightarrow> u8 list" where
  "crypt_bytes f c [] = []"
| "crypt_bytes f c (b # bs) = (let (b', c') = f c b in b' # crypt_bytes f c' bs)"

lemma length_crypt_bytes [simp]: "length (crypt_bytes f c bs) = length bs"
  by (induction bs arbitrary: c) (simp_all split: prod.split)

lemma crypt_bytes_inverse:
  "stream_cipher tfm \<Longrightarrow> crypt_bytes (decrypt_one tfm) c (crypt_bytes (encrypt_one tfm) c bs) = bs"
proof (induction bs arbitrary: c)
  case (Cons b bs)
  obtain b' c' where e: "encrypt_one tfm c b = (b', c')" by fastforce
  with Cons.prems have "decrypt_one tfm c b' = (b, c')" unfolding stream_cipher_def by (metis fst_conv snd_conv)
  with e Cons show ?case by simp
qed simp

text \<open>Concrete values for the witnesses: the header functions on plain data frames, a header, a packet with
  room before and behind it, and a stream cipher.\<close>

definition fops_ex :: frame_ops where
  "fops_ex = \<lparr>sn_less = (\<lambda>a b. 2048 < unat ((a - b) AND 0xfff)), sn_inc = (\<lambda>a. (a + 1) AND 0xfff),
     sn_sub = (\<lambda>a b. (a - b) AND 0xfff), time_after = (\<lambda>a b. b < a), is_ctl = (\<lambda>_. False),
     is_data_qos = (\<lambda>_. False), is_qos_nullfunc = (\<lambda>_. False), has_retry = (\<lambda>fc. fc AND 0x0800 \<noteq> 0),
     has_morefrags = (\<lambda>fc. fc AND 0x0400 \<noteq> 0), has_protected = (\<lambda>fc. fc AND 0x4000 \<noteq> 0),
     ieee80211_hdrlen = (\<lambda>_. 24), is_multicast = (\<lambda>_. False),
     is_data = (\<lambda>fc. fc AND 0x000c = 0x0008), is_data_present = (\<lambda>fc. fc AND 0x004c = 0x0008), is_auth = (\<lambda>_. False),
     is_mgmt = (\<lambda>fc. fc AND 0x000c = 0), has_a4 = (\<lambda>_. False), da_off = (\<lambda>_. 4), sa_off = (\<lambda>_. 10), qos_ctl_off = (\<lambda>_. 24),
     is_robust_mgmt_frame = (\<lambda>_. False)\<rparr>"

definition hdr_ex :: "u8 list" where
  "hdr_ex = [0x08, 0, 0, 0, 1, 1, 1, 1, 1, 1, 2, 2, 2, 2, 2, 2, 3, 3, 3, 3, 3, 3, 0x10, 0]"

definition packet_ex :: "u8 list \<Rightarrow> sk_buff" where
  "packet_ex bs = skb_mk (blank_skb []) (replicate 8 0) bs (replicate 18 0)"

definition tfm_ex :: "u8 cipher_ops" where
  "tfm_ex = \<lparr>setkey = (\<lambda>key. foldr (XOR) key 0), encrypt_one = (\<lambda>c b. (b XOR c, c + 1)), decrypt_one = (\<lambda>c b. (b XOR c, c + 1))\<rparr>"

lemma hdr_ex_props: "length hdr_ex = 24" "hdr_fc hdr_ex = 0x0008" "ieee80211_hdrlen fops_ex fc = 24"
  "has_protected fops_ex (0x0008 OR FCTL_PROTECTED)" "is_data fops_ex (0x0008 OR FCTL_PROTECTED)"
  by (simp_all add: hdr_ex_def hdr_fc_def le16_def fops_ex_def FCTL_PROTECTED_def)

lemma packet_ex_props: "skb_bytes (packet_ex bs) = bs" "skb_wf (packet_ex bs)" "skb_headroom (packet_ex bs) = 8" "skb_tailroom (packet_ex bs) = 18"
  by (simp_all add: packet_ex_def)

lemma tfm_ex_stream: "stream_cipher tfm_ex"
  by (simp add: stream_cipher_def tfm_ex_def xor.assoc)

end
