(* ===== verification/CMAC.thy ===== *)
theory CMAC
  imports Frame_Buf
begin

text \<open>
  The AES-CMAC code over scattered data (\<^verbatim>\<open>aes_cmac.c\<close>), with one block of AES as a parameter, and its equality
  with the definition of the code. The position in the vector shows that the code reads its arrays
  behind their end.
\<close>

section \<open>CMAC\<close>

definition gf_mulx :: "u8 list \<Rightarrow> u8 list" where
  "gf_mulx pad =
     (let carry = pad ! 0 AND 0x80;
          pad = map (\<lambda>i. push_bit 1 (pad ! i) OR drop_bit 7 (pad ! (i + 1))) [0..<15] @ [push_bit 1 (pad ! 15)]
      in if carry \<noteq> 0 then pad[15 := pad ! 15 XOR 0x87] else pad)"

text \<open>The position in the vector: the entry, the place in it, and whether the code has read the arrays \<open>addr\<close> and
  \<open>len\<close> behind their last entry. A byte behind the end of an entry is no byte.\<close>

type_synonym vec_pos = "nat \<times> nat \<times> bool"

definition vec_next :: "u8 list list \<Rightarrow> vec_pos \<Rightarrow> (u8 \<times> vec_pos) option" where
  "vec_next addr = (\<lambda>(e, i, oob).
     if e < length addr \<and> i < length (addr ! e) then
       Some (addr ! e ! i, if i + 1 \<ge> length (addr ! e) then (e + 1, 0, oob \<or> e + 1 \<ge> length addr) else (e, i + 1, oob))
     else None)"

definition vec_xor :: "u8 list list \<Rightarrow> nat \<Rightarrow> u8 list \<times> vec_pos \<Rightarrow> (u8 list \<times> vec_pos) option" where
  "vec_xor addr n st =
     foldo (\<lambda>i (cbc, pos). do { (b, pos) \<leftarrow> vec_next addr pos; Some (cbc[i := cbc ! i XOR b], pos) }) [0..<n] st"

fun cmac_blocks :: "(u8 list \<Rightarrow> u8 list) \<Rightarrow> u8 list list \<Rightarrow> nat \<Rightarrow> u8 list \<times> vec_pos \<Rightarrow> (nat \<times> u8 list \<times> vec_pos) option" where
  "cmac_blocks enc addr left st =
     (if 16 \<le> left then
        do {
          (cbc, pos) \<leftarrow> vec_xor addr 16 st;
          cmac_blocks enc addr (left - 16) (if 16 < left then enc cbc else cbc, pos)
        }
      else Some (left, st))"

declare cmac_blocks.simps [simp del]

text \<open>The result is the code and whether the arrays were read behind their end.\<close>

definition aes_cmac_vector :: "(u8 list \<Rightarrow> u8 list) \<Rightarrow> u8 list list \<Rightarrow> nat \<Rightarrow> (u8 list \<times> bool) option" where
  "aes_cmac_vector enc addr mac_len =
     do {
       let total_len = sum_list (map length addr);
       (left, cbc, pos) \<leftarrow> cmac_blocks enc addr total_len (replicate 16 0, 0, 0, False);
       let pad = gf_mulx (enc (replicate 16 0));
       (cbc, pos, pad) \<leftarrow> (if left \<noteq> 0 \<or> total_len = 0 then
            do {
              (cbc, pos) \<leftarrow> vec_xor addr left (cbc, pos);
              Some (cbc[left := cbc ! left XOR 0x80], pos, gf_mulx pad)
            }
          else Some (cbc, pos, pad));
       let pad = map (\<lambda>i. pad ! i XOR cbc ! i) [0..<16];
       Some (take mac_len (enc pad), snd (snd pos))
     }"

definition CMAC_TLEN :: nat where "CMAC_TLEN = 8"
definition CMAC_TLEN_256 :: nat where "CMAC_TLEN_256 = 16"

definition aes_cmac :: "(u8 list \<Rightarrow> u8 list) \<Rightarrow> u8 list \<Rightarrow> u8 list \<Rightarrow> (u8 list \<times> bool) option" where
  "aes_cmac enc aad data =
     (if length data < CMAC_TLEN then None
      else aes_cmac_vector enc [take 20 aad, take (length data - CMAC_TLEN) data, replicate CMAC_TLEN 0] CMAC_TLEN)"

definition aes_cmac_256 :: "(u8 list \<Rightarrow> u8 list) \<Rightarrow> u8 list \<Rightarrow> u8 list \<Rightarrow> (u8 list \<times> bool) option" where
  "aes_cmac_256 enc aad data =
     (if length data < CMAC_TLEN_256 then None
      else aes_cmac_vector enc [take 20 aad, take (length data - CMAC_TLEN_256) data, replicate CMAC_TLEN_256 0] CMAC_TLEN_256)"

definition aes_cmac_calculate_k1_k2 :: "(u8 list \<Rightarrow> u8 list) \<Rightarrow> u8 list \<times> u8 list" where
  "aes_cmac_calculate_k1_k2 enc =
     (let l = enc (replicate 16 0); k1 = gf_mulx l; k2 = gf_mulx k1 in (k1, k2))"

section \<open>CMAC as it is defined\<close>

text \<open>Doubling in the field with \<open>2 ^ 128\<close> elements, on numbers; blocks are read most significant byte first. A
  message is cut into blocks of 16 bytes, the last one complete and masked with the first subkey, or padded
  with 0x80 and zeros and masked with the second.\<close>

definition be_word :: "u8 list \<Rightarrow> 128 word" where
  "be_word bs = foldl (\<lambda>w b. push_bit 8 w OR ucast b) 0 bs"

definition be_bytes :: "128 word \<Rightarrow> u8 list" where
  "be_bytes w = map (\<lambda>i. ucast (drop_bit (8 * (15 - i)) w)) [0..<16]"

definition gf128_double :: "128 word \<Rightarrow> 128 word" where
  "gf128_double w = (if bit w 127 then push_bit 1 w XOR 0x87 else push_bit 1 w)"

definition xor_block :: "u8 list \<Rightarrow> u8 list \<Rightarrow> u8 list" where
  "xor_block as bs = map2 (XOR) as bs"

fun cmac_chain :: "(u8 list \<Rightarrow> u8 list) \<Rightarrow> u8 list \<Rightarrow> u8 list \<Rightarrow> u8 list \<Rightarrow> u8 list \<Rightarrow> u8 list" where
  "cmac_chain enc k1 k2 c m =
     (if 16 < length m then cmac_chain enc k1 k2 (enc (xor_block c (take 16 m))) (drop 16 m)
      else if length m = 16 then enc (xor_block c (xor_block m k1))
      else enc (xor_block c (xor_block (m @ 0x80 # replicate (15 - length m) 0) k2)))"

declare cmac_chain.simps [simp del]

definition cmac_spec :: "(u8 list \<Rightarrow> u8 list) \<Rightarrow> u8 list \<Rightarrow> u8 list" where
  "cmac_spec enc m =
     (let k1 = gf128_double (be_word (enc (replicate 16 0))); k2 = gf128_double k1
      in cmac_chain enc (be_bytes k1) (be_bytes k2) (replicate 16 0) m)"

section \<open>Doubling\<close>

lemma bit_be_word:
  "bit (be_word bs) n \<longleftrightarrow> n < 128 \<and> n div 8 < length bs \<and> bit (bs ! (length bs - 1 - n div 8)) (n mod 8)"
proof (induction bs arbitrary: n rule: rev_induct)
  case (snoc b bs)
  have "bit (be_word (bs @ [b])) n \<longleftrightarrow> n < 128 \<and> (if n < 8 then bit b n else bit (be_word bs) (n - 8))"
    by (auto simp: be_word_def bit_simps)
  note step = this
  show ?case
  proof (cases "n < 8")
    case True
    with step show ?thesis by simp
  next
    case False
    then obtain m where m: "n = m + 8" by (metis add.commute le_Suc_ex linorder_not_less)
    have "(bs @ [b]) ! (length bs - Suc (m div 8)) = bs ! (length bs - 1 - m div 8)" if "m div 8 < length bs"
    proof -
      have "length bs - Suc (m div 8) < length bs" using that by (intro diff_less) auto
      then show ?thesis by (simp add: nth_append)
    qed
    moreover have "(m + 8) div 8 = Suc (m div 8)" by simp
    ultimately show ?thesis using step snoc [of m] m by auto
  qed
qed (simp add: be_word_def)

lemma bit_twice: "bit (w * 2 :: 'a::len word) n \<longleftrightarrow> 0 < n \<and> n < LENGTH('a) \<and> bit w (n - 1)"
  using bit_double_iff [of w n] by (auto simp: mult.commute)

lemma gf_mulx_is_double:
  assumes "length pad = 16"
  shows "length (gf_mulx pad) = 16" "be_word (gf_mulx pad) = gf128_double (be_word pad)"
proof -
  show "length (gf_mulx pad) = 16" by (simp add: gf_mulx_def Let_def)
  let ?p = "map (\<lambda>i. push_bit 1 (pad ! i) OR drop_bit 7 (pad ! (i + 1))) [0..<15] @ [push_bit 1 (pad ! 15)]"
  have h: "(0x80 :: u8) = push_bit 7 1" by simp
  have bits: "bit (pad ! 0 AND 0x80) k \<longleftrightarrow> k = 7 \<and> bit (pad ! 0) 7" for k
    by (cases "k = 7") (auto simp only: h bit_and_iff bit_push_bit_iff bit_1_iff, simp_all)
  have "pad ! 0 AND 0x80 = 0" if "\<not> bit (pad ! 0) 7" using bits that by (intro bit_word_eqI) simp
  moreover have "pad ! 0 AND 0x80 \<noteq> 0" if "bit (pad ! 0) 7" using bits [of 7] that by force
  ultimately have c: "pad ! 0 AND 0x80 \<noteq> 0 \<longleftrightarrow> bit (be_word pad) 127"
    using assms by (auto simp: bit_be_word)
  have shift: "be_word ?p = push_bit 1 (be_word pad)"
  proof (rule bit_word_eqI)
    fix n assume n: "n < LENGTH(128)"
    then have d: "n div 8 < 16" by simp
    show "bit (be_word ?p) n \<longleftrightarrow> bit (push_bit 1 (be_word pad)) n"
    proof (cases "n mod 8 = 0")
      case True
      have "15 - n div 8 + 1 = 15 - (n - 1) div 8 \<and> (n - 1) mod 8 = 7 \<and> 0 < n div 8" if "0 < n"
      proof -
        obtain q where "n = 8 * q" using True by (metis dvd_def dvd_eq_mod_eq_0)
        with that obtain r where r: "n = 8 * Suc r" by (cases q) auto
        then have "n - 1 = r * 8 + 7" by simp
        then have "(n - 1) div 8 = r" "(n - 1) mod 8 = 7" by (simp_all only: div_mult_self3 mod_mult_self3) simp_all
        with r d show ?thesis by simp
      qed
      then show ?thesis using n True assms
        by (cases "n = 0") (auto simp: bit_be_word bit_simps bit_twice nth_append)
    next
      case False
      then have "n - 1 = n div 8 * 8 + (n mod 8 - 1)" "n mod 8 - 1 < 8"
        using div_mult_mod_eq [of n 8] mod_less_divisor [of 8 n] by simp_all
      then have "(n - 1) div 8 = n div 8 \<and> (n - 1) mod 8 = n mod 8 - 1"
        using div_mult_self3 [of 8 "n div 8" "n mod 8 - 1"] mod_mult_self3 [of "n div 8" 8 "n mod 8 - 1"] by simp
      moreover have "0 < n" using False by (intro neq0_conv [THEN iffD1] notI) simp
      moreover have "n - 1 < 128" using n by simp
      ultimately show ?thesis using n d False assms
        by (auto simp: bit_be_word bit_simps bit_twice nth_append)
    qed
  qed
  have "be_word (?p[15 := ?p ! 15 XOR 0x87]) = be_word ?p XOR 0x87"
  proof (rule bit_word_eqI)
    fix n assume n: "n < LENGTH(128)"
    have "bit (0x87 :: u8) k \<longleftrightarrow> bit (0x87 :: 128 word) k" if "k < 8" for k
      using that by (auto simp: less_Suc_eq numeral_eq_Suc bit_simps)
    moreover have "\<not> bit (0x87 :: 128 word) n" if "8 \<le> n"
    proof -
      have "(0x87 :: 128 word) = take_bit 8 0x87" by simp
      with that show ?thesis by (metis bit_take_bit_iff linorder_not_le)
    qed
    ultimately show "bit (be_word (?p[15 := ?p ! 15 XOR 0x87])) n \<longleftrightarrow> bit (be_word ?p XOR 0x87) n"
      using n by (cases "n < 8") (auto simp: bit_be_word bit_simps nth_append nth_list_update)
  qed
  with c shift show "be_word (gf_mulx pad) = gf128_double (be_word pad)"
    by (auto simp: gf_mulx_def gf128_double_def Let_def)
qed

section \<open>The vector\<close>

definition vec_at :: "u8 list list \<Rightarrow> nat \<Rightarrow> vec_pos \<Rightarrow> bool" where
  "vec_at addr t = (\<lambda>(e, i, oob). t = length (concat (take e addr)) + i \<and> e \<le> length addr \<and> (oob \<longleftrightarrow> e = length addr) \<and>
     (if e < length addr then i < length (addr ! e) else i = 0))"

lemma vec_next_at:
  assumes "[] \<notin> set addr" and "vec_at addr t pos" and "t < length (concat addr)"
  shows "\<exists>pos'. vec_next addr pos = Some (concat addr ! t, pos') \<and> vec_at addr (t + 1) pos'"
proof -
  obtain e i oob where p: "pos = (e, i, oob)" by (cases pos)
  have e: "e < length addr" "i < length (addr ! e)" "\<not> oob" "t = length (concat (take e addr)) + i"
    using assms by (auto simp: vec_at_def p split: if_splits)
  have "concat addr = concat (take e addr) @ addr ! e @ concat (drop (Suc e) addr)"
    using id_take_nth_drop [OF e(1)] by (metis concat.simps(2) concat_append)
  then have b: "concat addr ! t = addr ! e ! i" using e by (simp add: nth_append)
  have take: "length (concat (take (Suc e) addr)) = length (concat (take e addr)) + length (addr ! e)"
    using e(1) by (simp add: take_Suc_conv_app_nth)
  have ne: "e + 1 < length addr \<Longrightarrow> 0 < length (addr ! (e + 1))" using assms(1) by (metis length_greater_0_conv nth_mem)
  show ?thesis
    using e b take ne by (auto simp: p vec_next_def vec_at_def)
qed

lemma vec_xor_at:
  assumes "[] \<notin> set addr" and "vec_at addr t pos" and "t + n \<le> length (concat addr)" and "n \<le> length cbc"
  shows "\<exists>pos'. vec_xor addr n (cbc, pos) = Some (xor_block (take n cbc) (take n (drop t (concat addr))) @ drop n cbc, pos') \<and> vec_at addr (t + n) pos'"
proof -
  let ?M = "concat addr"
  define P where "P = (\<lambda>k (c, p). c = xor_block (take k cbc) (take k (drop t ?M)) @ drop k cbc \<and> vec_at addr (t + k) p)"
  have "\<exists>s'. foldo (\<lambda>i (cbc, pos). do { (b, pos) \<leftarrow> vec_next addr pos; Some (cbc[i := cbc ! i XOR b], pos) }) [0..<n] (cbc, pos) = Some s' \<and> P n s'"
  proof (rule foldo_upt_rule)
    show "P 0 (cbc, pos)" using assms(2) by (simp add: P_def xor_block_def)
  next
    fix k s assume k: "0 \<le> k" "k < n" "P k s"
    obtain c p where s: "s = (c, p)" "c = xor_block (take k cbc) (take k (drop t ?M)) @ drop k cbc" "vec_at addr (t + k) p"
      using k(3) by (cases s) (simp add: P_def)
    obtain p' where p': "vec_next addr p = Some (?M ! (t + k), p')" "vec_at addr (t + k + 1) p'"
      using vec_next_at [OF assms(1) s(3)] k assms(3) by auto
    have "c[k := c ! k XOR ?M ! (t + k)] = xor_block (take (Suc k) cbc) (take (Suc k) (drop t ?M)) @ drop (Suc k) cbc"
    proof (rule nth_equalityI)
      fix j assume "j < length (c[k := c ! k XOR ?M ! (t + k)])"
      then show "c[k := c ! k XOR ?M ! (t + k)] ! j = (xor_block (take (Suc k) cbc) (take (Suc k) (drop t ?M)) @ drop (Suc k) cbc) ! j"
        using k assms(3,4) by (cases "j = k") (auto simp: s(2) xor_block_def nth_append nth_list_update less_Suc_eq)
    qed (use k assms(3,4) in \<open>auto simp: s(2) xor_block_def\<close>)
    with p' show "\<exists>s'. (case s of (cbc, pos) \<Rightarrow> do { (b, pos) \<leftarrow> vec_next addr pos; Some (cbc[k := cbc ! k XOR b], pos) }) = Some s' \<and> P (Suc k) s'"
      by (simp add: s(1) P_def)
  qed simp
  then show ?thesis by (auto simp: vec_xor_def P_def)
qed

lemma xor_block_simps:
  "length (xor_block as bs) = min (length as) (length bs)"
  "i < length as \<Longrightarrow> i < length bs \<Longrightarrow> xor_block as bs ! i = as ! i XOR bs ! i"
  by (simp_all add: xor_block_def)

lemma chain_blocks:
  assumes "[] \<notin> set addr" and enc: "\<And>b. length b = 16 \<Longrightarrow> length (enc b) = 16" and k: "length k1 = 16" "length k2 = 16"
    and "vec_at addr t pos" and "length cbc = 16" and "t \<le> length (concat addr)" and "m = drop t (concat addr)"
  shows "\<exists>l c p. cmac_blocks enc addr (length m) (cbc, pos) = Some (l, c, p) \<and> length c = 16 \<and> l < 16 \<and> l \<le> length m \<and>
    vec_at addr (length (concat addr) - l) p \<and>
    cmac_chain enc k1 k2 cbc m = (if l = 0 \<and> m \<noteq> [] then enc (xor_block k1 c)
      else enc (xor_block k2 ((xor_block (take l c) (drop (length m - l) m) @ drop l c)[l := c ! l XOR 0x80])))"
  using assms(5-8)
proof (induction "length m" arbitrary: m t pos cbc rule: less_induct)
  case less
  let ?M = "concat addr"
  show ?case
  proof (cases "16 \<le> length m")
    case False
    let ?l = "length m"
    have eq: "xor_block k2 ((xor_block (take ?l cbc) m @ drop ?l cbc)[?l := cbc ! ?l XOR 0x80]) = xor_block cbc (xor_block (m @ 0x80 # replicate (15 - ?l) 0) k2)"
      using False less.prems(2) k
      by (intro nth_equalityI) (auto simp: xor_block_simps nth_append nth_list_update nth_Cons' ac_simps)
    have "t + ?l = length ?M" using less.prems(3,4) by simp
    then have "vec_at addr (length ?M - ?l) pos" using less.prems(1) by (metis diff_add_inverse2)
    moreover have "cmac_blocks enc addr ?l (cbc, pos) = Some (?l, cbc, pos)" using False by (simp add: cmac_blocks.simps [of _ _ ?l])
    moreover have "cmac_chain enc k1 k2 cbc m = enc (xor_block cbc (xor_block (m @ 0x80 # replicate (15 - ?l) 0) k2))"
      using False by (simp add: cmac_chain.simps [of _ _ _ _ m])
    ultimately show ?thesis using False less.prems(2) eq
      by (intro exI [of _ ?l] exI [of _ cbc] exI [of _ pos]) auto
  next
    case True
    have "t + 16 \<le> length ?M" using True less.prems(3,4) by simp
    then obtain pos' where x: "vec_xor addr 16 (cbc, pos) = Some (xor_block cbc (take 16 m), pos')" "vec_at addr (t + 16) pos'"
      using vec_xor_at [OF assms(1) less.prems(1), of 16 cbc] True less.prems(2-4) by auto
    show ?thesis
    proof (cases "length m = 16")
      case True
      have "xor_block k1 (xor_block cbc m) = xor_block cbc (xor_block m k1)"
        using True less.prems(2) k by (intro nth_equalityI) (auto simp: xor_block_simps ac_simps)
      moreover have "cmac_blocks enc addr 16 (cbc, pos) = Some (0, xor_block cbc m, pos')"
        using x True by (simp add: cmac_blocks.simps)
      moreover have "t + 16 = length ?M" using True less.prems(3,4) by simp
      ultimately show ?thesis
        using True x(2) less.prems(2) by (auto simp: cmac_chain.simps [of _ _ _ _ m] xor_block_simps)
    next
      case False
      let ?c = "enc (xor_block cbc (take 16 m))"
      have len: "16 < length m" "length ?c = 16" "t + 16 \<le> length ?M"
        using True False less.prems enc by (auto simp: xor_block_simps)
      have lt: "length (drop 16 m) < length m" and m': "drop 16 m = drop (t + 16) ?M"
        using len(1) less.prems(4) by (simp_all add: add.commute)
      obtain l c p where r: "cmac_blocks enc addr (length (drop 16 m)) (?c, pos') = Some (l, c, p)" "length c = 16" "l < 16" "l \<le> length (drop 16 m)"
        "vec_at addr (length ?M - l) p" "cmac_chain enc k1 k2 ?c (drop 16 m) = (if l = 0 \<and> drop 16 m \<noteq> [] then enc (xor_block k1 c)
          else enc (xor_block k2 ((xor_block (take l c) (drop (length (drop 16 m) - l) (drop 16 m)) @ drop l c)[l := c ! l XOR 0x80])))"
        using less.hyps [OF lt x(2) len(2,3) m'] by blast
      have "drop (length m - 16 - l) (drop 16 m) = drop (length m - l) m" using r(4) len(1) by simp
      moreover have "m \<noteq> []" using len(1) by auto
      ultimately show ?thesis using r len x(1)
        by (simp add: cmac_blocks.simps [of _ _ "length m"] cmac_chain.simps [of _ _ _ _ m])
    qed
  qed
qed

text \<open>The subkeys of the code are those of the definition.\<close>

lemma be_bytes_word: "length bs = 16 \<Longrightarrow> be_bytes (be_word bs) = bs"
proof (rule nth_equalityI)
  fix i assume "length bs = 16" and i: "i < length (be_bytes (be_word bs))"
  then have l: "length bs = 16" "i < 16" by (simp_all add: be_bytes_def)
  show "be_bytes (be_word bs) ! i = bs ! i"
  proof (rule bit_word_eqI)
    fix n assume "n < LENGTH(8)"
    with l show "bit (be_bytes (be_word bs) ! i) n \<longleftrightarrow> bit (bs ! i) n"
      by (auto simp: be_bytes_def bit_simps bit_be_word)
  qed
qed (simp add: be_bytes_def)

lemma cmac_spec_subkeys:
  assumes "length (enc (replicate 16 0)) = 16"
  shows "cmac_spec enc m = (let k1 = gf_mulx (enc (replicate 16 0)) in cmac_chain enc k1 (gf_mulx k1) (replicate 16 0) m)"
  using be_bytes_word [OF gf_mulx_is_double(1) [OF assms]] be_bytes_word [OF gf_mulx_is_double(1) [OF gf_mulx_is_double(1) [OF assms]]]
    gf_mulx_is_double(2) [OF assms] gf_mulx_is_double(2) [OF gf_mulx_is_double(1) [OF assms]]
  by (simp add: cmac_spec_def Let_def)

lemma cmac_vector:
  assumes "[] \<notin> set addr" and "addr \<noteq> []" and "\<And>b. length b = 16 \<Longrightarrow> length (enc b) = 16"
  shows "aes_cmac_vector enc addr mac_len = Some (take mac_len (cmac_spec enc (concat addr)), True)"
proof -
  let ?M = "concat addr" and ?z = "replicate 16 0 :: u8 list" and ?k1 = "gf_mulx (enc (replicate 16 0))"
  have len: "length ?k1 = 16" "length (gf_mulx ?k1) = 16" by (simp_all add: gf_mulx_def Let_def)
  have spec: "cmac_spec enc ?M = cmac_chain enc ?k1 (gf_mulx ?k1) ?z ?M"
    using cmac_spec_subkeys [of enc ?M] assms(3) by (simp add: Let_def)
  have start: "vec_at addr 0 (0, 0, False)" using assms(1,2) by (cases addr) (auto simp: vec_at_def)
  obtain l c p where r: "cmac_blocks enc addr (length ?M) (?z, 0, 0, False) = Some (l, c, p)" "length c = 16" "l < 16" "l \<le> length ?M"
    "vec_at addr (length ?M - l) p" "cmac_chain enc ?k1 (gf_mulx ?k1) ?z ?M = (if l = 0 \<and> ?M \<noteq> [] then enc (xor_block ?k1 c)
      else enc (xor_block (gf_mulx ?k1) ((xor_block (take l c) (drop (length ?M - l) ?M) @ drop l c)[l := c ! l XOR 0x80])))"
    using chain_blocks [where enc = enc and cbc = ?z and m = ?M, OF assms(1,3) len start] by fastforce
  have xb: "map (\<lambda>i. as ! i XOR bs ! i) [0..<16] = xor_block as bs" if "length as = 16" "length bs = 16" for as bs :: "u8 list"
    using that by (intro nth_equalityI) (simp_all add: xor_block_simps)
  obtain p' where v: "vec_xor addr l (c, p) = Some (xor_block (take l c) (drop (length ?M - l) ?M) @ drop l c, p')" "vec_at addr (length ?M) p'"
    using vec_xor_at [OF assms(1) r(5), of l c] r(2-4) by auto
  have fin: "snd (snd q)" if "vec_at addr (length ?M) q" for q
  proof -
    obtain e i oob where q: "q = (e, i, oob)" by (cases q)
    have "concat addr = concat (take e addr) @ addr ! e @ concat (drop (Suc e) addr)" if "e < length addr"
      using id_take_nth_drop [OF that] by (metis concat.simps(2) concat_append)
    with that show ?thesis by (auto simp: q vec_at_def split: if_splits)
  qed
  let ?c' = "(xor_block (take l c) (drop (length ?M - l) ?M) @ drop l c)"
  have nth: "?c' ! l = c ! l" using r(2-4) by (simp add: nth_append xor_block_simps)
  have ne: "sum_list (map length addr) = length ?M" by (simp add: length_concat)
  show ?thesis
  proof (cases "l = 0 \<and> ?M \<noteq> []")
    case True
    with r(5) have "snd (snd p)" by (intro fin) simp
    with True r len xb [of ?k1 c] ne show ?thesis
      by (simp add: aes_cmac_vector_def spec Let_def del: concat_eq_Nil_conv)
  next
    case False
    have "length (?c'[l := c ! l XOR 0x80]) = 16" using r(2-4) by (simp add: xor_block_simps)
    note x = xb [OF len(2) this]
    from False r v len x ne nth fin [OF v(2)] show ?thesis
      by (auto simp add: aes_cmac_vector_def spec Let_def simp del: concat_eq_Nil_conv)
  qed
qed

text \<open>C17. Over any scattered data without empty pieces the code computes the CMAC of the whole message, with the
  subkeys obtained by doubling; and in each such computation it reads the next entry of its two
  arrays after the last byte, behind their end.\<close>

theorem aes_cmac_vector_is_cmac:
  assumes "[] \<notin> set addr" and "addr \<noteq> []" and "\<And>b. length b = 16 \<Longrightarrow> length (enc b) = 16"
  shows "aes_cmac_vector enc addr mac_len = Some (take mac_len (cmac_spec enc (concat addr)), True)"
  using assms by (rule cmac_vector)

theorem aes_cmac_vector_is_cmac_witness:
  "aes_cmac_vector rev [[1, 2, 3], replicate 17 5, replicate 8 0] 8 = Some (take 8 (cmac_spec rev (concat [[1, 2, 3], replicate 17 5, replicate 8 0])), True)"
  by (rule aes_cmac_vector_is_cmac) simp_all

end
