(* ===== verification/Michael.thy ===== *)
theory Michael
  imports Frame_Buf
begin

text \<open>
  The Michael message integrity code of TKIP (\<^verbatim>\<open>michael.c\<close>) and its equality with the definition of the
  code: the message is the pseudo header followed by the data, 0x5a and zeros up to a multiple of
  four bytes, read as 32-bit words.
\<close>

section \<open>The code\<close>

record michael_mic_ctx =
  mm_l :: u32
  mm_r :: u32

definition michael_block :: "u32 \<Rightarrow> michael_mic_ctx \<Rightarrow> michael_mic_ctx" where
  "michael_block val m =
     (let m = m\<lparr>mm_l := mm_l m XOR val\<rparr>;
          m = m\<lparr>mm_r := mm_r m XOR word_rotl 17 (mm_l m)\<rparr>;
          m = m\<lparr>mm_l := mm_l m + mm_r m\<rparr>;
          m = m\<lparr>mm_r := mm_r m XOR (drop_bit 8 (mm_l m AND 0xff00ff00) OR push_bit 8 (mm_l m AND 0x00ff00ff))\<rparr>;
          m = m\<lparr>mm_l := mm_l m + mm_r m\<rparr>;
          m = m\<lparr>mm_r := mm_r m XOR word_rotl 3 (mm_l m)\<rparr>;
          m = m\<lparr>mm_l := mm_l m + mm_r m\<rparr>;
          m = m\<lparr>mm_r := mm_r m XOR word_rotr 2 (mm_l m)\<rparr>;
          m = m\<lparr>mm_l := mm_l m + mm_r m\<rparr>
      in m)"

definition michael_mic_hdr :: "frame_ops \<Rightarrow> u8 list \<Rightarrow> u8 list \<Rightarrow> michael_mic_ctx option" where
  "michael_mic_hdr ops key hdr =
     do {
       fc \<leftarrow> get_le16 hdr 0;
       let da = da_off ops fc;
       let sa = sa_off ops fc;
       tid \<leftarrow> (if is_data_qos ops fc
               then (if qos_ctl_off ops fc < length hdr then Some (hdr ! qos_ctl_off ops fc AND 0x0f) else None)
               else Some 0);
       l \<leftarrow> get_le32 key 0;
       r \<leftarrow> get_le32 key 4;
       d0 \<leftarrow> get_le32 hdr da;
       d4 \<leftarrow> get_le16 hdr (da + 4);
       s0 \<leftarrow> get_le16 hdr sa;
       s2 \<leftarrow> get_le32 hdr (sa + 2);
       Some (michael_block (ucast tid) (michael_block s2 (michael_block (ucast d4 OR push_bit 16 (ucast s0))
               (michael_block d0 \<lparr>mm_l = l, mm_r = r\<rparr>))))
     }"

text \<open>\<open>data\<close> is the \<open>data_len\<close> bytes the pointer stands for.\<close>

definition michael_mic :: "frame_ops \<Rightarrow> u8 list \<Rightarrow> u8 list \<Rightarrow> u8 list \<Rightarrow> u8 list option" where
  "michael_mic ops key hdr data =
     do {
       mctx \<leftarrow> michael_mic_hdr ops key hdr;
       let blocks = length data div 4;
       let left = length data mod 4;
       mctx \<leftarrow> foldo (\<lambda>block m. do { v \<leftarrow> get_le32 data (block * 4); Some (michael_block v m) }) [0..<blocks] mctx;
       let val = fold (\<lambda>left val. push_bit 8 val OR ucast (data ! (blocks * 4 + left))) (rev [0..<left]) 0x5a;
       let mctx = michael_block 0 (michael_block val mctx);
       Some (le32_bytes (mm_l mctx) @ le32_bytes (mm_r mctx))
     }"

section \<open>The definition\<close>

definition le32_at :: "u8 list \<Rightarrow> nat \<Rightarrow> u32" where
  "le32_at bs i = le32 (bs ! i) (bs ! (i + 1)) (bs ! (i + 2)) (bs ! (i + 3))"

fun le_words :: "u8 list \<Rightarrow> u32 list" where
  "le_words (a # b # c # d # bs) = le32 a b c d # le_words bs"
| "le_words bs = []"

definition michael_pad :: "u8 list \<Rightarrow> u8 list" where
  "michael_pad data = data @ [0x5a] @ replicate (7 - length data mod 4) 0"

definition michael_spec :: "u8 list \<Rightarrow> u8 list \<Rightarrow> u8 list" where
  "michael_spec key msg =
     (let m = fold michael_block (le_words (michael_pad msg))
                \<lparr>mm_l = le32_at key 0, mm_r = le32_at key 4\<rparr>
      in le32_bytes (mm_l m) @ le32_bytes (mm_r m))"

definition mic_priority :: "frame_ops \<Rightarrow> u8 list \<Rightarrow> u8" where
  "mic_priority ops hdr = (if is_data_qos ops (hdr_fc hdr) then hdr ! qos_ctl_off ops (hdr_fc hdr) AND 0x0f else 0)"

definition mic_message :: "frame_ops \<Rightarrow> u8 list \<Rightarrow> u8 list \<Rightarrow> u8 list" where
  "mic_message ops hdr data =
     take 6 (drop (da_off ops (hdr_fc hdr)) hdr) @ take 6 (drop (sa_off ops (hdr_fc hdr)) hdr) @
     [mic_priority ops hdr, 0, 0, 0] @ data"

text \<open>The header holds the fields the functions of the kernel point to.\<close>

definition hdr_ok :: "frame_ops \<Rightarrow> u8 list \<Rightarrow> bool" where
  "hdr_ok ops hdr \<longleftrightarrow> 2 \<le> length hdr \<and> da_off ops (hdr_fc hdr) + 6 \<le> length hdr \<and> sa_off ops (hdr_fc hdr) + 6 \<le> length hdr \<and>
     (is_data_qos ops (hdr_fc hdr) \<longrightarrow> qos_ctl_off ops (hdr_fc hdr) < length hdr)"

section \<open>Equality\<close>

lemma le_words_append: "length as mod 4 = 0 \<Longrightarrow> le_words (as @ bs) = le_words as @ le_words bs"
  by (induction as rule: le_words.induct) simp_all

lemma take_4: "4 \<le> length bs \<Longrightarrow> take 4 (bs :: u8 list) = [bs ! 0, bs ! 1, bs ! 2, bs ! 3]"
  by (cases bs rule: le_words.cases) simp_all

lemma take_2: "2 \<le> length bs \<Longrightarrow> take 2 (bs :: u8 list) = [bs ! 0, bs ! 1]"
  by (cases bs rule: le_words.cases) simp_all

lemma take_6: "6 \<le> length bs \<Longrightarrow> take 6 (bs :: u8 list) = [bs ! 0, bs ! 1, bs ! 2, bs ! 3, bs ! 4, bs ! 5]"
  using take_add [of 4 2 bs] take_4 [of bs] take_2 [of "drop 4 bs"] by simp

lemma le_words_take:
  "n \<le> length bs div 4 \<Longrightarrow> le_words (take (n * 4) bs) = map (\<lambda>i. le32 (bs ! (i * 4)) (bs ! (i * 4 + 1)) (bs ! (i * 4 + 2)) (bs ! (i * 4 + 3))) [0..<n]"
proof (induction n)
  case (Suc n)
  have len: "n * 4 + 4 \<le> length bs" using Suc.prems by simp
  have "take (Suc n * 4) bs = take (n * 4) bs @ [bs ! (n * 4), bs ! (n * 4 + 1), bs ! (n * 4 + 2), bs ! (n * 4 + 3)]"
    using take_add [of "n * 4" 4 bs] take_4 [of "drop (n * 4) bs"] len by (simp add: add.commute)
  then show ?case using Suc len by (simp add: le_words_append)
qed simp

lemma data_words:
  "foldo (\<lambda>block m. do { v \<leftarrow> get_le32 data (block * 4); Some (michael_block v m) }) [0..<length data div 4] m =
   Some (fold michael_block (le_words (take (length data div 4 * 4) data)) m)"
proof -
  have "foldo (\<lambda>block m. do { v \<leftarrow> get_le32 data (block * 4); Some (michael_block v m) }) [0..<length data div 4] m =
    Some (fold (\<lambda>i. michael_block (le32 (data ! (i * 4)) (data ! (i * 4 + 1)) (data ! (i * 4 + 2)) (data ! (i * 4 + 3)))) [0..<length data div 4] m)"
    by (rule foldo_Some) (auto simp: get_le32_def)
  then show ?thesis by (simp add: le_words_take fold_map comp_def)
qed

text \<open>The last block of the code and the block of zeros are the padded rest of the data.\<close>

lemma small_lists:
  "replicate 7 x = [x, x, x, x, x, x, x]" "replicate 6 x = [x, x, x, x, x, x]" "replicate 5 x = [x, x, x, x, x]"
  "replicate 4 x = [x, x, x, x]" "[0..<1] = [0]" "[0..<2] = [0, 1]" "[0..<3] = [0, 1, 2]"
  by (simp_all add: numeral_eq_Suc)

lemma last_words:
  assumes "length rest = left" "left < 4"
  shows "le_words (rest @ [0x5a] @ replicate (7 - left) 0) =
    [fold (\<lambda>i val. push_bit 8 val OR ucast (rest ! i)) (rev [0..<left]) 0x5a, 0]"
proof -
  have z: "le32 0 0 0 0 = 0" by (simp add: le32_def)
  consider "rest = []" | a where "rest = [a]" | a b where "rest = [a, b]" | a b c where "rest = [a, b, c]"
    using assms by (cases rest rule: le_words.cases) auto
  then show ?thesis
  proof cases
    case 1
    with assms show ?thesis by (simp add: small_lists z le32_def)
  next
    case (2 a)
    then have l: "left = 1" using assms by simp
    have "le32 a 0x5a 0 0 = push_bit 8 0x5a OR ucast a" by (simp add: le32_def or.commute)
    with 2 show ?thesis unfolding l by (simp add: small_lists z)
  next
    case (3 a b)
    then have l: "left = 2" using assms by simp
    have "le32 a b 0x5a 0 = push_bit 8 (push_bit 8 0x5a OR ucast b) OR ucast a"
      by (simp add: le32_def push_bit_or or.commute or.left_commute)
    with 3 show ?thesis unfolding l by (simp add: small_lists z)
  next
    case (4 a b c)
    then have l: "left = 3" using assms by simp
    have "le32 a b c 0x5a = push_bit 8 (push_bit 8 (push_bit 8 0x5a OR ucast c) OR ucast b) OR ucast a"
      by (simp add: le32_def push_bit_or or.commute or.left_commute)
    with 4 show ?thesis unfolding l by (simp add: small_lists z)
  qed
qed

lemma pad_words:
  defines "q \<equiv> \<lambda>data :: u8 list. length data div 4"
  shows "le_words (michael_pad data) = le_words (take (q data * 4) data) @
    [fold (\<lambda>i val. push_bit 8 val OR ucast (data ! (q data * 4 + i))) (rev [0..<length data mod 4]) 0x5a, 0]"
proof -
  let ?k = "q data * 4" and ?left = "length data mod 4"
  have k: "?k \<le> length data" "length (drop ?k data) = ?left"
    by (simp_all add: q_def) (simp add: minus_div_mult_eq_mod)
  have "michael_pad data = take ?k data @ (drop ?k data @ [0x5a] @ replicate (7 - ?left) 0)"
    by (simp add: michael_pad_def)
  moreover have "length (take ?k data) mod 4 = 0" using k(1) by (simp add: min_def)
  moreover have "fold (\<lambda>i val. push_bit 8 val OR ucast (drop ?k data ! i)) (rev [0..<?left]) 0x5a =
      fold (\<lambda>i val. push_bit 8 val OR ucast (data ! (?k + i))) (rev [0..<?left]) (0x5a :: u32)"
    using k by (intro fold_cong) auto
  ultimately show ?thesis using last_words [OF k(2)] by (simp add: le_words_append)
qed

text \<open>The words of the pseudo header.\<close>

definition le16_at :: "u8 list \<Rightarrow> nat \<Rightarrow> u16" where
  "le16_at bs i = le16 (bs ! i) (bs ! (i + 1))"

lemma get_at: "i + 3 < length bs \<Longrightarrow> get_le32 bs i = Some (le32_at bs i)" "i + 1 < length bs \<Longrightarrow> get_le16 bs i = Some (le16_at bs i)"
  by (simp_all add: get_le32_def get_le16_def le32_at_def le16_at_def)

lemma header_words:
  assumes "length da = 6" "length sa = 6"
  shows "le_words (da @ sa @ [tid, 0, 0, 0] @ rest) =
    [le32_at da 0, ucast (le16_at da 4) OR push_bit 16 (ucast (le16_at sa 0)), le32_at sa 2, ucast tid] @ le_words rest"
proof -
  have da: "da = [da ! 0, da ! 1, da ! 2, da ! 3, da ! 4, da ! 5]" and sa: "sa = [sa ! 0, sa ! 1, sa ! 2, sa ! 3, sa ! 4, sa ! 5]"
    using take_6 [of da] take_6 [of sa] assms by simp_all
  have "le32 a b c d = ucast (le16 a b) OR push_bit 16 (ucast (le16 c d))" for a b c d
    by (rule bit_word_eqI) (auto simp: le32_def le16_def bit_simps)
  moreover have "le32 tid 0 0 0 = ucast tid" by (simp add: le32_def)
  moreover have "le_words ([a, b, c, d, e, f] @ [g, h, i, j, k, l] @ [tid, 0, 0, 0] @ rest) =
    [le32 a b c d, le32 e f g h, le32 i j k l, le32 tid 0 0 0] @ le_words rest" for a b c d e f g h i j k l by simp
  ultimately show ?thesis
    by (subst da, subst sa) (simp add: le32_at_def le16_at_def eval_nat_numeral)
qed

lemma at_drop: "i + j + 3 < length bs \<Longrightarrow> j + 3 < n \<Longrightarrow> le32_at (take n (drop i bs)) j = le32_at bs (i + j)"
  "i + j + 1 < length bs \<Longrightarrow> j + 1 < n \<Longrightarrow> le16_at (take n (drop i bs)) j = le16_at bs (i + j)"
  by (simp_all add: le32_at_def le16_at_def add.assoc)

lemma mic_hdr_words:
  assumes "hdr_ok ops hdr" and "8 \<le> length key"
  defines "da \<equiv> da_off ops (hdr_fc hdr)" and "sa \<equiv> sa_off ops (hdr_fc hdr)"
  shows "michael_mic_hdr ops key hdr = Some (fold michael_block
     [le32_at hdr da, ucast (le16_at hdr (da + 4)) OR push_bit 16 (ucast (le16_at hdr sa)), le32_at hdr (sa + 2), ucast (mic_priority ops hdr)]
     \<lparr>mm_l = le32_at key 0, mm_r = le32_at key 4\<rparr>)"
proof -
  have h: "2 \<le> length hdr" "da + 6 \<le> length hdr" "sa + 6 \<le> length hdr"
    "is_data_qos ops (hdr_fc hdr) \<Longrightarrow> qos_ctl_off ops (hdr_fc hdr) < length hdr"
    using assms by (simp_all add: hdr_ok_def)
  have g: "get_le16 hdr 0 = Some (hdr_fc hdr)" "get_le32 hdr da = Some (le32_at hdr da)" "get_le16 hdr (da + 4) = Some (le16_at hdr (da + 4))"
    "get_le16 hdr sa = Some (le16_at hdr sa)" "get_le32 hdr (sa + 2) = Some (le32_at hdr (sa + 2))"
    "get_le32 key 0 = Some (le32_at key 0)" "get_le32 key 4 = Some (le32_at key 4)"
    using h assms(2) by (simp_all add: get_at) (simp add: le16_at_def hdr_fc_def)
  show ?thesis
    using h(4) by (simp add: michael_mic_hdr_def g mic_priority_def da_def [symmetric] sa_def [symmetric] del: add_2_eq_Suc')
qed

text \<open>C24. The Michael code that \<^verbatim>\<open>michael_mic\<close> computes block by block from the header and the data is
  the code of the standard for the message made of destination, source, priority and data, padded
  and read as a sequence of 32-bit words.\<close>

theorem michael_mic_is_spec:
  assumes ok: "hdr_ok ops hdr" and key: "8 \<le> length key"
  shows "michael_mic ops key hdr data = Some (michael_spec key (mic_message ops hdr data))"
proof -
  let ?da = "da_off ops (hdr_fc hdr)" and ?sa = "sa_off ops (hdr_fc hdr)" and ?q = "length data div 4"
  let ?D = "take 6 (drop ?da hdr)" and ?S = "take 6 (drop ?sa hdr)"
  have h: "?da + 6 \<le> length hdr" "?sa + 6 \<le> length hdr" using ok by (simp_all add: hdr_ok_def)
  have m: "(16 + length data) mod 4 = length data mod 4" by presburger
  have "mic_message ops hdr data = ?D @ ?S @ [mic_priority ops hdr, 0, 0, 0] @ data"
    by (simp add: mic_message_def)
  then have "michael_pad (mic_message ops hdr data) = ?D @ ?S @ [mic_priority ops hdr, 0, 0, 0] @ michael_pad data"
    using h m by (simp add: michael_pad_def)
  then have "le_words (michael_pad (mic_message ops hdr data)) =
      [le32_at hdr ?da, ucast (le16_at hdr (?da + 4)) OR push_bit 16 (ucast (le16_at hdr ?sa)), le32_at hdr (?sa + 2), ucast (mic_priority ops hdr)] @
      le_words (michael_pad data)"
    using header_words [of ?D ?S "mic_priority ops hdr" "michael_pad data"] h at_drop [of ?da 0 hdr 6] at_drop [of ?da 4 hdr 6]
      at_drop [of ?sa 0 hdr 6] at_drop [of ?sa 2 hdr 6] by simp
  then show ?thesis
    using mic_hdr_words [OF ok key] data_words [of data] pad_words [of data]
    by (simp add: michael_mic_def michael_spec_def Let_def)
qed

theorem michael_mic_is_spec_witness:
  "michael_mic fops_ex [1, 2, 3, 4, 5, 6, 7, 8] hdr_ex [10, 20, 30, 40, 50] =
    Some (michael_spec [1, 2, 3, 4, 5, 6, 7, 8] (mic_message fops_ex hdr_ex [10, 20, 30, 40, 50]))"
  by (rule michael_mic_is_spec) (simp_all add: hdr_ok_def hdr_ex_props, simp_all add: fops_ex_def)

end
