(* ===== verification/WEP.thy ===== *)
theory WEP
  imports Frame_Buf
begin

text \<open>
  WEP in software (\<^verbatim>\<open>wep.c\<close>). The stream cipher and the checksum are parameters; a buffer operation
  that would leave the buffer has no result. The functions return whether they returned 0 and the buffer.
\<close>

section \<open>Keys and flags\<close>

datatype cipher_suite =
  CIPHER_WEP40 | CIPHER_WEP104 | CIPHER_TKIP | CIPHER_CCMP | CIPHER_CCMP_256 | CIPHER_GCMP | CIPHER_GCMP_256 |
  CIPHER_AES_CMAC | CIPHER_BIP_CMAC_256 | CIPHER_BIP_GMAC_128 | CIPHER_BIP_GMAC_256 | CIPHER_OTHER

record hw_key =
  hk_generate_iv :: bool
  hk_generate_mmic :: bool
  hk_put_iv_space :: bool
  hk_generate_iv_mgmt :: bool

record key_conf =
  kc_cipher :: cipher_suite
  kc_keyidx :: u8
  kc_key :: "u8 list"
  kc_generate_mmic :: bool

text \<open>What is known of a received frame, and whether the kernel could make its data linear, pull or trim it.\<close>

record rx_status =
  st_decrypted :: bool
  st_iv_stripped :: bool
  st_mmic_stripped :: bool
  st_mmic_error :: bool
  st_linearize_ok :: bool
  st_may_pull_ok :: bool
  st_trim_ok :: bool

datatype tx_result = TX_CONTINUE | TX_DROP

type_synonym crc = "u32 \<Rightarrow> u8 list \<Rightarrow> u32"

section \<open>Initialisation vectors\<close>

definition wep_weak_iv :: "u32 \<Rightarrow> nat \<Rightarrow> bool" where
  "wep_weak_iv iv keylen =
     (if iv AND 0xff00 = 0xff00 then
        (let B = unat (ucast (drop_bit 16 iv AND 0xff) :: u8) in 3 \<le> B \<and> B < 3 + keylen)
      else False)"

definition wep_get_iv :: "nat \<Rightarrow> u8 \<Rightarrow> u32 \<Rightarrow> u32 \<times> u8 list" where
  "wep_get_iv keylen keyidx wep_iv =
     (let wep_iv = wep_iv + 1;
          wep_iv = (if wep_weak_iv wep_iv keylen then wep_iv + 0x0100 else wep_iv)
      in (wep_iv, [ucast (drop_bit 16 wep_iv), ucast (drop_bit 8 wep_iv), ucast wep_iv, push_bit 6 keyidx]))"

text \<open>Make room for the vector behind the header and write it; the position is counted from \<open>data\<close>.\<close>

definition wep_add_iv ::
  "frame_ops \<Rightarrow> nat \<Rightarrow> u8 \<Rightarrow> hw_key option \<Rightarrow> u32 \<Rightarrow> sk_buff \<Rightarrow> (nat option \<times> u32 \<times> sk_buff) option" where
  "wep_add_iv ops keylen keyidx hw wep_iv skb =
     do {
       skb \<leftarrow> set_protected skb;
       fc \<leftarrow> skb_fc skb;
       if skb_tailroom skb < 4 \<or> skb_headroom skb < 4 then Some (None, wep_iv, skb)
       else do {
         let hdrlen = ieee80211_hdrlen ops fc;
         skb \<leftarrow> open_gap 4 hdrlen skb;
         if (case hw of None \<Rightarrow> False | Some k \<Rightarrow> hk_put_iv_space k) then Some (Some hdrlen, wep_iv, skb)
         else do {
           let (wep_iv, iv) = wep_get_iv keylen keyidx wep_iv;
           skb \<leftarrow> skb_store hdrlen iv skb;
           Some (Some hdrlen, wep_iv, skb)
         }
       }
     }"

definition wep_remove_iv :: "frame_ops \<Rightarrow> sk_buff \<Rightarrow> sk_buff option" where
  "wep_remove_iv ops skb = do { fc \<leftarrow> skb_fc skb; close_gap 4 (ieee80211_hdrlen ops fc) skb }"

section \<open>Encryption\<close>

text \<open>\<open>None\<close> for the cipher is an error pointer.\<close>

definition wep_encrypt_data ::
  "crc \<Rightarrow> 'c cipher_ops option \<Rightarrow> u8 list \<Rightarrow> nat \<Rightarrow> nat \<Rightarrow> sk_buff \<Rightarrow> (bool \<times> sk_buff) option" where
  "wep_encrypt_data crc32_le tfm rc4key data data_len skb =
     (case tfm of
        None \<Rightarrow> Some (False, skb)
      | Some tfm \<Rightarrow>
          do {
            bs \<leftarrow> skb_load data data_len skb;
            let icv = NOT (crc32_le (NOT 0) bs);
            skb \<leftarrow> skb_store (data + data_len) (le32_bytes icv) skb;
            bs \<leftarrow> skb_load data (data_len + 4) skb;
            skb \<leftarrow> skb_store data (crypt_bytes (encrypt_one tfm) (setkey tfm rc4key) bs) skb;
            Some (True, skb)
          })"

text \<open>The key of the stream cipher, in a buffer of 16 bytes.\<close>

definition wep_rc4key :: "u8 list \<Rightarrow> u8 list \<Rightarrow> nat \<Rightarrow> u8 list option" where
  "wep_rc4key iv key keylen =
     (if keylen \<le> 13 \<and> keylen \<le> length key then Some (iv @ take keylen key) else None)"

definition wep_encrypt ::
  "frame_ops \<Rightarrow> crc \<Rightarrow> 'c cipher_ops option \<Rightarrow> u8 list \<Rightarrow> nat \<Rightarrow> u8 \<Rightarrow> hw_key option \<Rightarrow> u32 \<Rightarrow> sk_buff \<Rightarrow>
   (bool \<times> u32 \<times> sk_buff) option" where
  "wep_encrypt ops crc32_le tfm key keylen keyidx hw wep_iv skb =
     do {
       (iv, wep_iv, skb) \<leftarrow> wep_add_iv ops keylen keyidx hw wep_iv skb;
       (case iv of
          None \<Rightarrow> Some (False, wep_iv, skb)
        | Some iv \<Rightarrow>
            if skb_len skb < iv + 4 then None
            else do {
              let len = skb_len skb - (iv + 4);
              ivb \<leftarrow> skb_load iv 3 skb;
              rc4key \<leftarrow> wep_rc4key ivb key keylen;
              skb \<leftarrow> skb_put 4 skb;
              (ok, skb) \<leftarrow> wep_encrypt_data crc32_le tfm rc4key (iv + 4) len skb;
              Some (ok, wep_iv, skb)
            })
     }"

section \<open>Decryption\<close>

definition wep_decrypt_data ::
  "crc \<Rightarrow> 'c cipher_ops option \<Rightarrow> u8 list \<Rightarrow> nat \<Rightarrow> nat \<Rightarrow> sk_buff \<Rightarrow> (bool \<times> sk_buff) option" where
  "wep_decrypt_data crc32_le tfm rc4key data data_len skb =
     (case tfm of
        None \<Rightarrow> Some (False, skb)
      | Some tfm \<Rightarrow>
          do {
            bs \<leftarrow> skb_load data (data_len + 4) skb;
            skb \<leftarrow> skb_store data (crypt_bytes (decrypt_one tfm) (setkey tfm rc4key) bs) skb;
            bs \<leftarrow> skb_load data data_len skb;
            icv \<leftarrow> skb_load (data + data_len) 4 skb;
            Some (le32_bytes (NOT (crc32_le (NOT 0) bs)) = icv, skb)
          })"

definition wep_decrypt ::
  "frame_ops \<Rightarrow> crc \<Rightarrow> 'c cipher_ops option \<Rightarrow> key_conf option \<Rightarrow> sk_buff \<Rightarrow> (bool \<times> sk_buff) option" where
  "wep_decrypt ops crc32_le tfm key skb =
     do {
       fc \<leftarrow> skb_fc skb;
       let hdrlen = ieee80211_hdrlen ops fc;
       if \<not> has_protected ops fc then Some (False, skb)
       else if skb_len skb < hdrlen + 4 + 4 then Some (False, skb)
       else do {
         let len = skb_len skb - hdrlen - 4 - 4;
         b \<leftarrow> skb_get (hdrlen + 3) skb;
         (case key of
            None \<Rightarrow> Some (False, skb)
          | Some k \<Rightarrow>
              if drop_bit 6 b \<noteq> kc_keyidx k then Some (False, skb)
              else do {
                ivb \<leftarrow> skb_load hdrlen 3 skb;
                rc4key \<leftarrow> wep_rc4key ivb (kc_key k) (length (kc_key k));
                (ok, skb) \<leftarrow> wep_decrypt_data crc32_le tfm rc4key (hdrlen + 4) len skb;
                let skb = skb_trim (skb_len skb - 4) skb;
                skb \<leftarrow> close_gap 4 hdrlen skb;
                Some (ok, skb)
              })
       }
     }"

section \<open>Handlers\<close>

definition crypto_wep_decrypt ::
  "frame_ops \<Rightarrow> crc \<Rightarrow> 'c cipher_ops option \<Rightarrow> key_conf option \<Rightarrow> rx_status \<Rightarrow> sk_buff \<Rightarrow> (rx_result \<times> sk_buff) option" where
  "crypto_wep_decrypt ops crc32_le tfm key status skb =
     do {
       fc \<leftarrow> skb_fc skb;
       if \<not> is_data ops fc \<and> \<not> is_auth ops fc then Some (RX_CONTINUE, skb)
       else if \<not> st_decrypted status then
         (if \<not> st_linearize_ok status then Some (RX_DROP_UNUSABLE, skb)
          else do {
            (ok, skb) \<leftarrow> wep_decrypt ops crc32_le tfm key skb;
            Some (if ok then RX_CONTINUE else RX_DROP_UNUSABLE, skb)
          })
       else if \<not> st_iv_stripped status then
         (if \<not> st_may_pull_ok status \<or> skb_len skb < ieee80211_hdrlen ops fc + 4 then Some (RX_DROP_UNUSABLE, skb)
          else do {
            skb \<leftarrow> wep_remove_iv ops skb;
            if \<not> st_trim_ok status then Some (RX_DROP_UNUSABLE, skb)
            else if skb_len skb < 4 then Some (RX_CONTINUE, skb)
            else Some (RX_CONTINUE, skb_trim (skb_len skb - 4) skb)
          })
       else Some (RX_CONTINUE, skb)
     }"

definition wep_encrypt_skb ::
  "frame_ops \<Rightarrow> crc \<Rightarrow> 'c cipher_ops option \<Rightarrow> key_conf \<Rightarrow> hw_key option \<Rightarrow> u32 \<Rightarrow> sk_buff \<Rightarrow> (bool \<times> u32 \<times> sk_buff) option" where
  "wep_encrypt_skb ops crc32_le tfm key hw wep_iv skb =
     (case hw of
        None \<Rightarrow> wep_encrypt ops crc32_le tfm (kc_key key) (length (kc_key key)) (kc_keyidx key) hw wep_iv skb
      | Some k \<Rightarrow>
          if hk_generate_iv k \<or> hk_put_iv_space k then
            map_option (\<lambda>(iv, wep_iv, skb). (iv \<noteq> None, wep_iv, skb))
              (wep_add_iv ops (length (kc_key key)) (kc_keyidx key) hw wep_iv skb)
          else Some (True, wep_iv, skb))"

text \<open>\<open>ieee80211_tx_set_protected\<close> sets the bit in every frame; the walk over the fragments stops at the
  first failure.\<close>

fun wep_encrypt_skbs ::
  "frame_ops \<Rightarrow> crc \<Rightarrow> 'c cipher_ops option \<Rightarrow> key_conf \<Rightarrow> hw_key option \<Rightarrow> u32 \<Rightarrow> sk_buff list \<Rightarrow>
   (tx_result \<times> u32 \<times> sk_buff list) option" where
  "wep_encrypt_skbs ops crc32_le tfm key hw wep_iv [] = Some (TX_CONTINUE, wep_iv, [])"
| "wep_encrypt_skbs ops crc32_le tfm key hw wep_iv (skb # skbs) =
     do {
       (ok, wep_iv, skb) \<leftarrow> wep_encrypt_skb ops crc32_le tfm key hw wep_iv skb;
       if \<not> ok then Some (TX_DROP, wep_iv, skb # skbs)
       else do {
         (r, wep_iv, skbs) \<leftarrow> wep_encrypt_skbs ops crc32_le tfm key hw wep_iv skbs;
         Some (r, wep_iv, skb # skbs)
       }
     }"

definition tx_set_protected :: "sk_buff list \<Rightarrow> sk_buff list option" where
  "tx_set_protected skbs = those (map set_protected skbs)"

definition crypto_wep_encrypt ::
  "frame_ops \<Rightarrow> crc \<Rightarrow> 'c cipher_ops option \<Rightarrow> key_conf \<Rightarrow> hw_key option \<Rightarrow> u32 \<Rightarrow> sk_buff list \<Rightarrow>
   (tx_result \<times> u32 \<times> sk_buff list) option" where
  "crypto_wep_encrypt ops crc32_le tfm key hw wep_iv skbs =
     do {
       skbs \<leftarrow> tx_set_protected skbs;
       wep_encrypt_skbs ops crc32_le tfm key hw wep_iv skbs
     }"

section \<open>Weak vectors\<close>

lemma add_256_middle:
  assumes "iv AND 0xff00 = (0xff00 :: u32)"
  shows "(iv + 0x100) AND 0xff00 = 0"
proof -
  have "unat (iv AND 0xff00) = (unat iv div 256 mod 256) * 256" for iv :: u32
  proof -
    have m: "(0xff00 :: u32) = push_bit 8 (mask 8)" by (simp add: mask_eq_exp_minus_1)
    have "iv AND push_bit 8 (mask 8) = push_bit 8 (take_bit 8 (drop_bit 8 iv))"
      by (rule bit_word_eqI) (auto simp: bit_and_iff bit_push_bit_iff bit_mask_iff bit_take_bit_iff bit_drop_bit_eq)
    then have "iv AND 0xff00 = push_bit 8 (take_bit 8 (drop_bit 8 iv))" by (simp only: m)
    moreover have "unat (push_bit 8 (take_bit 8 (drop_bit 8 iv))) = (unat iv div 256 mod 256) * 256"
    proof -
      have "unat iv div 256 mod 256 * 256 < 4294967296"
        using mod_less_divisor [of 256 "unat iv div 256"] by linarith
      then show ?thesis
        by (simp add: drop_bit_eq_div take_bit_eq_mod push_bit_eq_mult unat_word_ariths(2) unat_div unat_mod)
    qed
    ultimately show ?thesis by simp
  qed
  note u = this
  have b: "unat iv div 256 mod 256 = 255" using u [of iv] assms by simp
  have "(unat iv + 256) div 256 = Suc (unat iv div 256)" by simp
  with b have "(unat iv + 256) div 256 mod 256 = 0" by (simp only: mod_Suc) simp
  moreover have "unat (iv + 0x100) div 256 mod 256 = (unat iv + 256) div 256 mod 256"
  proof -
    have "unat (iv + 0x100) = (unat iv + 256) mod (256 * 16777216)" by (simp add: unat_word_ariths)
    also have "\<dots> = 256 * ((unat iv + 256) div 256 mod 16777216) + (unat iv + 256) mod 256"
      by (rule mod_mult2_eq)
    finally have "unat (iv + 0x100) div 256 = (unat iv + 256) div 256 mod 16777216"
      by (metis div_mult_self4 div_less add_0_right mod_less_divisor zero_less_numeral numeral_neq_zero)
    then show ?thesis by (simp add: mod_mod_cancel)
  qed
  ultimately have "unat ((iv + 0x100) AND 0xff00) = 0" using u [of "iv + 0x100"] by simp
  then show ?thesis by (simp add: unat_eq_0)
qed

lemma weak_iv_middle: "iv AND 0xff00 = 0 \<Longrightarrow> \<not> wep_weak_iv iv keylen"
  by (simp add: wep_weak_iv_def)

lemma weak_iv_255: "wep_weak_iv iv keylen \<Longrightarrow> iv AND 0xff00 = 0xff00"
  by (simp add: wep_weak_iv_def split: if_splits)

text \<open>No vector the code hands out is one of the weak vectors it knows: the counter goes up by one and,
  where that gives a weak vector, by another 256.\<close>

theorem wep_iv_never_weak:
  "\<not> wep_weak_iv (fst (wep_get_iv keylen keyidx wep_iv)) keylen \<and>
   (fst (wep_get_iv keylen keyidx wep_iv) = wep_iv + 1 \<or> wep_weak_iv (wep_iv + 1) keylen \<and> fst (wep_get_iv keylen keyidx wep_iv) = wep_iv + 0x101)"
  using weak_iv_middle [OF add_256_middle [OF weak_iv_255], of "wep_iv + 1" keylen]
  by (auto simp: wep_get_iv_def Let_def add.assoc)

section \<open>Round trip\<close>

lemma keyidx_byte: "unat k < 4 \<Longrightarrow> drop_bit 6 (push_bit 6 (k :: u8)) = k"
proof (rule bit_word_eqI)
  fix n assume k: "unat k < 4"
  have "take_bit 2 k = k"
    using k by (intro word_unat_eq_iff [THEN iffD2]) (simp add: unsigned_take_bit_eq take_bit_nat_eq_self_iff)
  then have "bit k n \<Longrightarrow> n < 2" by (metis bit_take_bit_iff)
  then show "bit (drop_bit 6 (push_bit 6 k)) n \<longleftrightarrow> bit k n" by (auto simp: bit_simps)
qed

text \<open>What the encryption does to a packet that has room for it.\<close>

lemma wep_encrypt_data_mk:
  assumes "length as = off" "length ds = len" "length ts = 4"
  shows "wep_encrypt_data crc (Some tfm) key off len (skb_mk s pre (as @ ds @ ts) post) =
    Some (True, skb_mk s pre (as @ crypt_bytes (encrypt_one tfm) (setkey tfm key) (ds @ le32_bytes (NOT (crc (NOT 0) ds)))) post)"
proof -
  let ?icv = "le32_bytes (NOT (crc (NOT 0) ds))"
  have "overwrite (off + len) ?icv (as @ ds @ ts) = as @ ds @ ?icv"
    using assms by (simp add: overwrite_def)
  moreover have "overwrite off (crypt_bytes (encrypt_one tfm) (setkey tfm key) (ds @ ?icv)) (as @ ds @ ?icv) =
      as @ crypt_bytes (encrypt_one tfm) (setkey tfm key) (ds @ ?icv)"
    using assms by (simp add: overwrite_def)
  ultimately show ?thesis using assms by (simp add: wep_encrypt_data_def skb_load_mk skb_store_mk)
qed

lemma wep_decrypt_data_mk:
  assumes "stream_cipher tfm" "length as = off" "length ds = len"
  shows "wep_decrypt_data crc (Some tfm) key off len
      (skb_mk s pre (as @ crypt_bytes (encrypt_one tfm) (setkey tfm key) (ds @ le32_bytes (NOT (crc (NOT 0) ds)))) post) =
    Some (True, skb_mk s pre (as @ ds @ le32_bytes (NOT (crc (NOT 0) ds))) post)"
proof -
  let ?icv = "le32_bytes (NOT (crc (NOT 0) ds))"
  let ?cs = "crypt_bytes (encrypt_one tfm) (setkey tfm key) (ds @ ?icv)"
  have "overwrite off (ds @ ?icv) (as @ ?cs) = as @ ds @ ?icv"
    using assms by (simp add: overwrite_def)
  then show ?thesis
    using assms by (simp add: wep_decrypt_data_def skb_load_mk skb_store_mk crypt_bytes_inverse)
qed

definition can_encapsulate :: "nat \<Rightarrow> nat \<Rightarrow> sk_buff \<Rightarrow> bool" where
  "can_encapsulate head tail skb \<longleftrightarrow> skb_wf skb \<and> head \<le> skb_headroom skb \<and> tail \<le> skb_tailroom skb"

lemma can_encapsulateE:
  assumes "can_encapsulate h t skb" "skb_bytes skb = bs"
  obtains pre hs ts post where "skb = skb_mk skb (pre @ hs) bs (ts @ post)" "length hs = h" "length ts = t"
proof -
  define pre post where "pre = take (skb_data skb) (skb_buf skb)" and "post = drop (skb_data skb + skb_len skb) (skb_buf skb)"
  have "skb = skb_mk skb pre (skb_bytes skb) post"
    using assms(1) unfolding pre_def post_def by (intro skb_view) (simp add: can_encapsulate_def)
  then have "skb = skb_mk skb pre bs post" by (simp only: assms(2))
  moreover have "h \<le> length pre" "t \<le> length post"
    using assms(1) by (simp_all add: pre_def post_def can_encapsulate_def skb_wf_def skb_headroom_def skb_tailroom_def)
  ultimately show thesis
    using that [of "take (length pre - h) pre" "drop (length pre - h) pre" "take t post" "drop t post"] by simp
qed

text \<open>A data frame the software can encrypt: its header has the length the kernel computes for it.\<close>

definition frame_hdr :: "frame_ops \<Rightarrow> u8 list \<Rightarrow> bool" where
  "frame_hdr ops hdr \<longleftrightarrow> 2 \<le> length hdr \<and> ieee80211_hdrlen ops (hdr_fc hdr OR FCTL_PROTECTED) = length hdr \<and>
     has_protected ops (hdr_fc hdr OR FCTL_PROTECTED)"

lemma wep_encrypt_mk:
  assumes hdr: "frame_hdr ops hdr" and key: "length key \<le> 13" and room: "length hs = 4" "length ts = 4"
    and iv_def: "iv = snd (wep_get_iv (length key) keyidx wep_iv)"
    and icv_def: "icv = (\<lambda>ds. le32_bytes (NOT (crc (NOT 0) ds)))"
  shows "wep_encrypt ops crc (Some tfm) key (length key) keyidx None wep_iv (skb_mk s (pre @ hs) (hdr @ payload) (ts @ post)) =
    Some (True, fst (wep_get_iv (length key) keyidx wep_iv),
      skb_mk s pre (protect_hdr hdr @ iv @ crypt_bytes (encrypt_one tfm) (setkey tfm (take 3 iv @ key)) (payload @ icv payload)) post)"
proof -
  let ?ph = "protect_hdr hdr"
  have h: "2 \<le> length hdr" "2 \<le> length ?ph" "length ?ph = length hdr" "ieee80211_hdrlen ops (hdr_fc ?ph) = length hdr"
    using hdr by (simp_all add: frame_hdr_def)
  have iv: "length iv = 4" by (simp add: iv_def wep_get_iv_def Let_def)
  obtain gap where gap: "length gap = 4" "open_gap 4 (length hdr) (skb_mk s (pre @ hs) (?ph @ payload) (ts @ post)) =
      Some (skb_mk s pre (?ph @ gap @ payload) (ts @ post))"
    using open_gap_mk [OF room(1) h(3), of s pre payload "ts @ post"] by blast
  have "overwrite (length hdr) iv (?ph @ gap @ payload) = ?ph @ iv @ payload"
    using overwrite_mid [of iv gap ?ph payload] gap iv h by simp
  then have add: "wep_add_iv ops (length key) keyidx None wep_iv (skb_mk s (pre @ hs) (hdr @ payload) (ts @ post)) =
      Some (Some (length hdr), fst (wep_get_iv (length key) keyidx wep_iv), skb_mk s pre (?ph @ iv @ payload) (ts @ post))"
    using h gap iv room by (simp add: wep_add_iv_def set_protected_mk skb_fc_mk skb_store_mk split_beta iv_def [symmetric])
  have enc: "wep_encrypt_data crc (Some tfm) (take 3 iv @ key) (length hdr + 4) (length payload) (skb_mk s pre (?ph @ iv @ payload @ ts) post) =
      Some (True, skb_mk s pre (?ph @ iv @ crypt_bytes (encrypt_one tfm) (setkey tfm (take 3 iv @ key)) (payload @ icv payload)) post)"
    using wep_encrypt_data_mk [of "?ph @ iv" "length hdr + 4" payload "length payload" ts crc tfm "take 3 iv @ key" s pre post]
      iv h room by (simp add: icv_def)
  have "skb_load (length hdr) 3 (skb_mk s pre (?ph @ iv @ payload) (ts @ post)) = Some (take 3 iv)"
    using iv h by (simp add: skb_load_mk)
  moreover have "skb_put 4 (skb_mk s pre (?ph @ iv @ payload) (ts @ post)) = Some (skb_mk s pre (?ph @ iv @ payload @ ts) post)"
    using skb_put_mk [OF room(2), of s pre "?ph @ iv @ payload" post] by simp
  ultimately show ?thesis
    using add enc iv h key by (simp add: wep_encrypt_def wep_rc4key_def del: skb_put_Some)
qed

lemma wep_decrypt_mk:
  assumes tfm: "stream_cipher tfm" and hdr: "frame_hdr ops hdr" and key: "length (kc_key k) \<le> 13"
    and idx: "length iv = 4" "drop_bit 6 (iv ! 3) = kc_keyidx k"
    and icv_def: "icv = (\<lambda>ds. le32_bytes (NOT (crc (NOT 0) ds)))"
  shows "\<exists>ns post'. length ns = 4 \<and> wep_decrypt ops crc (Some tfm) (Some k)
      (skb_mk s pre (protect_hdr hdr @ iv @ crypt_bytes (encrypt_one tfm) (setkey tfm (take 3 iv @ kc_key k)) (payload @ icv payload)) post) =
    Some (True, skb_mk s (pre @ ns) (protect_hdr hdr @ payload) (icv payload @ post))"
proof -
  let ?ph = "protect_hdr hdr" and ?cs = "crypt_bytes (encrypt_one tfm) (setkey tfm (take 3 iv @ kc_key k)) (payload @ icv payload)"
  have h: "2 \<le> length ?ph" "length ?ph = length hdr" "ieee80211_hdrlen ops (hdr_fc ?ph) = length hdr" "has_protected ops (hdr_fc ?ph)"
    using hdr by (simp_all add: frame_hdr_def)
  have cs: "length ?cs = length payload + 4" by (simp add: icv_def)
  have dec: "wep_decrypt_data crc (Some tfm) (take 3 iv @ kc_key k) (length hdr + 4) (length payload) (skb_mk s pre (?ph @ iv @ ?cs) post) =
      Some (True, skb_mk s pre (?ph @ iv @ payload @ icv payload) post)"
    using wep_decrypt_data_mk [OF tfm, of "?ph @ iv" "length hdr + 4" payload "length payload" crc "take 3 iv @ kc_key k" s pre post]
      idx h by (simp add: icv_def)
  have load: "skb_load (length hdr) 3 (skb_mk s pre (?ph @ iv @ ?cs) post) = Some (take 3 iv)"
    using idx h by (simp add: skb_load_mk)
  have get: "skb_get (length hdr + 3) (skb_mk s pre (?ph @ iv @ ?cs) post) = Some (iv ! 3)"
    using idx h by (simp add: skb_get_def head_get_def nth_append)
  have trim: "skb_trim (length hdr + 4 + length payload) (skb_mk s pre (?ph @ iv @ payload @ icv payload) post) =
      skb_mk s pre (?ph @ iv @ payload) (icv payload @ post)"
    using skb_trim_mk [of "?ph @ iv @ payload" s pre "icv payload" post] h idx by (simp add: add.assoc)
  obtain ns where ns: "length ns = 4" "close_gap 4 (length hdr) (skb_mk s pre (?ph @ iv @ payload) (icv payload @ post)) =
      Some (skb_mk s (pre @ ns) (?ph @ payload) (icv payload @ post))"
    using close_gap_mk [OF idx(1) h(2), of s pre payload "icv payload @ post"] by blast
  have icv4: "length (icv payload) = 4" by (simp add: icv_def)
  show ?thesis
    using h ns dec load get trim cs idx key icv4
    by (intro exI [of _ ns] exI [of _ post]) (simp add: wep_decrypt_def skb_fc_mk wep_rc4key_def add.commute add.left_commute)
qed

text \<open>C23. A packet with room for the vector and the checksum is encrypted, grows by eight bytes, and decryption
  with the same key accepts it and gives back the header, with the bit for protected frames set, and
  the payload.\<close>

theorem wep_roundtrip:
  assumes "stream_cipher tfm" and "frame_hdr ops hdr" and "length (kc_key k) \<le> 13" and "unat (kc_keyidx k) < 4"
    and "skb_bytes skb = hdr @ payload" and "can_encapsulate 4 4 skb"
  shows "\<exists>wep_iv' sent received. wep_encrypt_skb ops crc (Some tfm) k None wep_iv skb = Some (True, wep_iv', sent) \<and>
    skb_len sent = skb_len skb + 8 \<and> wep_decrypt ops crc (Some tfm) (Some k) sent = Some (True, received) \<and>
    skb_bytes received = protect_hdr hdr @ payload"
proof -
  obtain pre hs ts post where v: "skb = skb_mk skb (pre @ hs) (hdr @ payload) (ts @ post)" and room: "length hs = 4" "length ts = 4"
    using can_encapsulateE [OF assms(6,5)] by blast
  let ?iv = "snd (wep_get_iv (length (kc_key k)) (kc_keyidx k) wep_iv)"
  have iv: "length ?iv = 4" "drop_bit 6 (?iv ! 3) = kc_keyidx k"
    using keyidx_byte [OF assms(4)] by (simp_all add: wep_get_iv_def Let_def numeral_3_eq_3 del: drop_bit_push_bit)
  have len: "skb_len skb = length hdr + length payload" using v by (metis length_append skb_mk_fields(3))
  have h: "2 \<le> length hdr" using assms(2) by (simp add: frame_hdr_def)
  from wep_encrypt_mk [OF assms(2,3) room refl refl, where keyidx = "kc_keyidx k" and wep_iv = wep_iv and crc = crc and tfm = tfm and s = skb and pre = pre and payload = payload and post = post]
    wep_decrypt_mk [OF assms(1-3) iv refl, where crc = crc and s = skb and pre = pre and payload = payload and post = post] len iv(1) h
  show ?thesis unfolding wep_encrypt_skb_def v [symmetric] by auto
qed

lemma frame_hdr_ex: "frame_hdr fops_ex hdr_ex"
  by (simp add: frame_hdr_def hdr_ex_props)

definition key_ex :: "cipher_suite \<Rightarrow> u8 list \<Rightarrow> key_conf" where
  "key_ex c bs = \<lparr>kc_cipher = c, kc_keyidx = 1, kc_key = bs, kc_generate_mmic = False\<rparr>"

lemma key_ex_fields [simp]: "kc_cipher (key_ex c bs) = c" "kc_keyidx (key_ex c bs) = 1" "kc_key (key_ex c bs) = bs"
  by (simp_all add: key_ex_def)

theorem wep_roundtrip_witness:
  "\<exists>wep_iv' sent received. wep_encrypt_skb fops_ex (\<lambda>_ _. 7) (Some tfm_ex) (key_ex CIPHER_WEP40 [1, 2, 3, 4, 5]) None 0xff02
       (packet_ex (hdr_ex @ [10, 20, 30])) = Some (True, wep_iv', sent) \<and>
    skb_len sent = skb_len (packet_ex (hdr_ex @ [10, 20, 30])) + 8 \<and>
    wep_decrypt fops_ex (\<lambda>_ _. 7) (Some tfm_ex) (Some (key_ex CIPHER_WEP40 [1, 2, 3, 4, 5])) sent = Some (True, received) \<and>
    skb_bytes received = protect_hdr hdr_ex @ [10, 20, 30]"
  by (rule wep_roundtrip) (simp_all add: tfm_ex_stream frame_hdr_ex packet_ex_props can_encapsulate_def)

end
