(* ===== verification/TKIP.thy ===== *)
theory TKIP
  imports Michael WEP
begin

text \<open>
  TKIP (\<^verbatim>\<open>tkip.c\<close> and its part of \<^verbatim>\<open>wpa.c\<close>): key mixing in two phases with a cache of the first
  phase, the sequence counter of 48 bits as two numbers, the replay test, and the handlers that add
  and check the Michael code.
\<close>

section \<open>Key mixing\<close>

definition tkip_sbox :: "u16 list" where
  "tkip_sbox =
    [0xC6A5, 0xF884, 0xEE99, 0xF68D, 0xFF0D, 0xD6BD, 0xDEB1, 0x9154, 0x6050, 0x0203, 0xCEA9, 0x567D,
     0xE719, 0xB562, 0x4DE6, 0xEC9A, 0x8F45, 0x1F9D, 0x8940, 0xFA87, 0xEF15, 0xB2EB, 0x8EC9, 0xFB0B,
     0x41EC, 0xB367, 0x5FFD, 0x45EA, 0x23BF, 0x53F7, 0xE496, 0x9B5B, 0x75C2, 0xE11C, 0x3DAE, 0x4C6A,
     0x6C5A, 0x7E41, 0xF502, 0x834F, 0x685C, 0x51F4, 0xD134, 0xF908, 0xE293, 0xAB73, 0x6253, 0x2A3F,
     0x080C, 0x9552, 0x4665, 0x9D5E, 0x3028, 0x37A1, 0x0A0F, 0x2FB5, 0x0E09, 0x2436, 0x1B9B, 0xDF3D,
     0xCD26, 0x4E69, 0x7FCD, 0xEA9F, 0x121B, 0x1D9E, 0x5874, 0x342E, 0x362D, 0xDCB2, 0xB4EE, 0x5BFB,
     0xA4F6, 0x764D, 0xB761, 0x7DCE, 0x527B, 0xDD3E, 0x5E71, 0x1397, 0xA6F5, 0xB968, 0x0000, 0xC12C,
     0x4060, 0xE31F, 0x79C8, 0xB6ED, 0xD4BE, 0x8D46, 0x67D9, 0x724B, 0x94DE, 0x98D4, 0xB0E8, 0x854A,
     0xBB6B, 0xC52A, 0x4FE5, 0xED16, 0x86C5, 0x9AD7, 0x6655, 0x1194, 0x8ACF, 0xE910, 0x0406, 0xFE81,
     0xA0F0, 0x7844, 0x25BA, 0x4BE3, 0xA2F3, 0x5DFE, 0x80C0, 0x058A, 0x3FAD, 0x21BC, 0x7048, 0xF104,
     0x63DF, 0x77C1, 0xAF75, 0x4263, 0x2030, 0xE51A, 0xFD0E, 0xBF6D, 0x814C, 0x1814, 0x2635, 0xC32F,
     0xBEE1, 0x35A2, 0x88CC, 0x2E39, 0x9357, 0x55F2, 0xFC82, 0x7A47, 0xC8AC, 0xBAE7, 0x322B, 0xE695,
     0xC0A0, 0x1998, 0x9ED1, 0xA37F, 0x4466, 0x547E, 0x3BAB, 0x0B83, 0x8CCA, 0xC729, 0x6BD3, 0x283C,
     0xA779, 0xBCE2, 0x161D, 0xAD76, 0xDB3B, 0x6456, 0x744E, 0x141E, 0x92DB, 0x0C0A, 0x486C, 0xB8E4,
     0x9F5D, 0xBD6E, 0x43EF, 0xC4A6, 0x39A8, 0x31A4, 0xD337, 0xF28B, 0xD532, 0x8B43, 0x6E59, 0xDAB7,
     0x018C, 0xB164, 0x9CD2, 0x49E0, 0xD8B4, 0xACFA, 0xF307, 0xCF25, 0xCAAF, 0xF48E, 0x47E9, 0x1018,
     0x6FD5, 0xF088, 0x4A6F, 0x5C72, 0x3824, 0x57F1, 0x73C7, 0x9751, 0xCB23, 0xA17C, 0xE89C, 0x3E21,
     0x96DD, 0x61DC, 0x0D86, 0x0F85, 0xE090, 0x7C42, 0x71C4, 0xCCAA, 0x90D8, 0x0605, 0xF701, 0x1C12,
     0xC2A3, 0x6A5F, 0xAEF9, 0x69D0, 0x1791, 0x9958, 0x3A27, 0x27B9, 0xD938, 0xEB13, 0x2BB3, 0x2233,
     0xD2BB, 0xA970, 0x0789, 0x33A7, 0x2DB6, 0x3C22, 0x1592, 0xC920, 0x8749, 0xAAFF, 0x5078, 0xA57A,
     0x038F, 0x59F8, 0x0980, 0x1A17, 0x65DA, 0xD731, 0x84C6, 0xD0B8, 0x82C3, 0x29B0, 0x5A77, 0x1E11,
     0x7BCB, 0xA8FC, 0x6DD6, 0x2C3A]"

definition swab16 :: "u16 \<Rightarrow> u16" where
  "swab16 w = push_bit 8 w OR drop_bit 8 w"

definition tkipS :: "u16 \<Rightarrow> u16" where
  "tkipS val = tkip_sbox ! unat (val AND 0xff) XOR swab16 (tkip_sbox ! unat (drop_bit 8 val))"

definition write_tkip_iv :: "u16 \<Rightarrow> u8 list" where
  "write_tkip_iv iv16 =
     [ucast (drop_bit 8 iv16), ucast ((drop_bit 8 iv16 OR 0x20) AND 0x7f), ucast (iv16 AND 0xff)]"

datatype tkip_state = TKIP_STATE_NOT_INIT | TKIP_STATE_PHASE1_DONE | TKIP_STATE_PHASE1_HW_UPLOADED

type_synonym p1k = "u16 \<times> u16 \<times> u16 \<times> u16 \<times> u16"

record tkip_ctx =
  tk_iv32 :: u32
  tk_iv16 :: u16
  tk_p1k :: p1k
  tk_p1k_iv32 :: u32
  tk_state :: tkip_state

definition phase1_round :: "u8 list \<Rightarrow> nat \<Rightarrow> p1k \<Rightarrow> p1k" where
  "phase1_round tk i = (\<lambda>(p0, p1, p2, p3, p4).
     let j = 2 * (i mod 2);
         p0 = p0 + tkipS (p4 XOR le16_at tk (0 + j));
         p1 = p1 + tkipS (p0 XOR le16_at tk (4 + j));
         p2 = p2 + tkipS (p1 XOR le16_at tk (8 + j));
         p3 = p3 + tkipS (p2 XOR le16_at tk (12 + j));
         p4 = p4 + tkipS (p3 XOR le16_at tk (0 + j)) + of_nat i
     in (p0, p1, p2, p3, p4))"

definition phase1 :: "u8 list \<Rightarrow> u8 list \<Rightarrow> u32 \<Rightarrow> p1k" where
  "phase1 tk ta tsc_IV32 =
     fold (phase1_round tk) [0..<8]
       (ucast (tsc_IV32 AND 0xffff), ucast (drop_bit 16 tsc_IV32), le16_at ta 0, le16_at ta 2, le16_at ta 4)"

definition tkip_mixing_phase1 :: "u8 list \<Rightarrow> tkip_ctx \<Rightarrow> u8 list \<Rightarrow> u32 \<Rightarrow> tkip_ctx option" where
  "tkip_mixing_phase1 tk ctx ta tsc_IV32 =
     (if length tk < 16 \<or> length ta < 6 then None
      else Some (ctx\<lparr>tk_p1k := phase1 tk ta tsc_IV32, tk_state := TKIP_STATE_PHASE1_DONE, tk_p1k_iv32 := tsc_IV32\<rparr>))"

definition phase2 :: "u8 list \<Rightarrow> p1k \<Rightarrow> u16 \<Rightarrow> u8 list" where
  "phase2 tk = (\<lambda>(p0, p1, p2, p3, p4) tsc_IV16.
     let p5 = p4 + tsc_IV16;
         p0 = p0 + tkipS (p5 XOR le16_at tk 0);
         p1 = p1 + tkipS (p0 XOR le16_at tk 2);
         p2 = p2 + tkipS (p1 XOR le16_at tk 4);
         p3 = p3 + tkipS (p2 XOR le16_at tk 6);
         p4 = p4 + tkipS (p3 XOR le16_at tk 8);
         p5 = p5 + tkipS (p4 XOR le16_at tk 10);
         p0 = p0 + word_rotr 1 (p5 XOR le16_at tk 12);
         p1 = p1 + word_rotr 1 (p0 XOR le16_at tk 14);
         p2 = p2 + word_rotr 1 p1;
         p3 = p3 + word_rotr 1 p2;
         p4 = p4 + word_rotr 1 p3;
         p5 = p5 + word_rotr 1 p4
     in write_tkip_iv tsc_IV16 @ [ucast (drop_bit 1 (p5 XOR le16_at tk 0) AND 0xff)] @
        concat (map le16_bytes [p0, p1, p2, p3, p4, p5]))"

definition tkip_mixing_phase2 :: "u8 list \<Rightarrow> tkip_ctx \<Rightarrow> u16 \<Rightarrow> u8 list option" where
  "tkip_mixing_phase2 tk ctx tsc_IV16 = (if length tk < 16 then None else Some (phase2 tk (tk_p1k ctx) tsc_IV16))"

section \<open>Keys\<close>

text \<open>A key, with the address of its interface and whether the driver takes phase 1 keys.\<close>

record tkip_key =
  ky_conf :: key_conf
  ky_vif_addr :: "u8 list"
  ky_drv_update :: bool
  ky_uploaded :: bool
  ky_tx :: tkip_ctx
  ky_rx :: "nat \<Rightarrow> tkip_ctx"
  ky_mic_failures :: u32

definition OFFSET_TX_MIC_KEY :: nat where "OFFSET_TX_MIC_KEY = 16"
definition OFFSET_RX_MIC_KEY :: nat where "OFFSET_RX_MIC_KEY = 24"

definition tkip_add_iv :: "tkip_key \<Rightarrow> u8 list" where
  "tkip_add_iv key =
     write_tkip_iv (tk_iv16 (ky_tx key)) @ [push_bit 6 (kc_keyidx (ky_conf key)) OR 0x20] @ le32_bytes (tk_iv32 (ky_tx key))"

definition compute_tkip_p1k :: "tkip_key \<Rightarrow> u32 \<Rightarrow> tkip_key option" where
  "compute_tkip_p1k key iv32 =
     (let ctx = ky_tx key in
      if tk_p1k_iv32 ctx \<noteq> iv32 \<or> tk_state ctx = TKIP_STATE_NOT_INIT
      then map_option (\<lambda>ctx. key\<lparr>ky_tx := ctx\<rparr>) (tkip_mixing_phase1 (kc_key (ky_conf key)) ctx (ky_vif_addr key) iv32)
      else Some key)"

definition get_tkip_p1k_iv :: "tkip_key \<Rightarrow> u32 \<Rightarrow> (p1k \<times> tkip_key) option" where
  "get_tkip_p1k_iv key iv32 = map_option (\<lambda>key. (tk_p1k (ky_tx key), key)) (compute_tkip_p1k key iv32)"

definition get_tkip_rx_p1k :: "key_conf \<Rightarrow> u8 list \<Rightarrow> u32 \<Rightarrow> p1k option" where
  "get_tkip_rx_p1k conf ta iv32 =
     map_option tk_p1k (tkip_mixing_phase1 (kc_key conf)
       \<lparr>tk_iv32 = 0, tk_iv16 = 0, tk_p1k = (0, 0, 0, 0, 0), tk_p1k_iv32 = 0, tk_state = TKIP_STATE_NOT_INIT\<rparr> ta iv32)"

definition get_tkip_p2k :: "frame_ops \<Rightarrow> tkip_key \<Rightarrow> sk_buff \<Rightarrow> (u8 list \<times> tkip_key) option" where
  "get_tkip_p2k ops key skb =
     do {
       fc \<leftarrow> skb_fc skb;
       data \<leftarrow> skb_load (ieee80211_hdrlen ops fc) 8 skb;
       let iv32 = le32_at data 4;
       let iv16 = ucast (data ! 2) OR push_bit 8 (ucast (data ! 0));
       key \<leftarrow> compute_tkip_p1k key iv32;
       p2k \<leftarrow> tkip_mixing_phase2 (kc_key (ky_conf key)) (ky_tx key) iv16;
       Some (p2k, key)
     }"

section \<open>Payload\<close>

definition tkip_encrypt_data ::
  "frame_ops \<Rightarrow> crc \<Rightarrow> 'c cipher_ops option \<Rightarrow> tkip_key \<Rightarrow> nat \<Rightarrow> nat \<Rightarrow> sk_buff \<Rightarrow> (bool \<times> tkip_key \<times> sk_buff) option" where
  "tkip_encrypt_data ops crc32_le tfm key payload payload_len skb =
     do {
       (rc4key, key) \<leftarrow> get_tkip_p2k ops key skb;
       (ok, skb) \<leftarrow> wep_encrypt_data crc32_le tfm rc4key payload payload_len skb;
       Some (ok, key, skb)
     }"

definition TKIP_DECRYPT_OK :: int where "TKIP_DECRYPT_OK = 0"
definition TKIP_DECRYPT_NO_EXT_IV :: int where "TKIP_DECRYPT_NO_EXT_IV = -1"
definition TKIP_DECRYPT_INVALID_KEYIDX :: int where "TKIP_DECRYPT_INVALID_KEYIDX = -2"
definition TKIP_DECRYPT_REPLAY :: int where "TKIP_DECRYPT_REPLAY = -3"

definition tkip_replay :: "tkip_ctx \<Rightarrow> u32 \<Rightarrow> u16 \<Rightarrow> bool" where
  "tkip_replay ctx iv32 iv16 \<longleftrightarrow> tk_state ctx \<noteq> TKIP_STATE_NOT_INIT \<and>
     (iv32 < tk_iv32 ctx \<or> iv32 = tk_iv32 ctx \<and> iv16 \<le> tk_iv16 ctx)"

text \<open>The context the second phase works on: phase 1 if needed, then the upload to the driver.\<close>

definition rx_phase1 :: "tkip_key \<Rightarrow> u8 list \<Rightarrow> nat \<Rightarrow> u32 \<Rightarrow> tkip_key option" where
  "rx_phase1 key ta queue iv32 =
     do {
       ctx \<leftarrow> (if tk_state (ky_rx key queue) = TKIP_STATE_NOT_INIT \<or> tk_iv32 (ky_rx key queue) \<noteq> iv32
               then tkip_mixing_phase1 (kc_key (ky_conf key)) (ky_rx key queue) ta iv32
               else Some (ky_rx key queue));
       let ctx = (if ky_drv_update key \<and> ky_uploaded key \<and> tk_state ctx \<noteq> TKIP_STATE_PHASE1_HW_UPLOADED
                  then ctx\<lparr>tk_state := TKIP_STATE_PHASE1_HW_UPLOADED\<rparr> else ctx);
       Some (key\<lparr>ky_rx := (ky_rx key)(queue := ctx)\<rparr>)
     }"

text \<open>The result holds the numbers for \<open>out_iv32\<close> and \<open>out_iv16\<close> when they are set.\<close>

definition tkip_decrypt_data ::
  "crc \<Rightarrow> 'c cipher_ops option \<Rightarrow> tkip_key \<Rightarrow> nat \<Rightarrow> nat \<Rightarrow> u8 list \<Rightarrow> bool \<Rightarrow> nat \<Rightarrow> sk_buff \<Rightarrow>
   (int \<times> (u32 \<times> u16) option \<times> tkip_key \<times> sk_buff) option" where
  "tkip_decrypt_data crc32_le tfm key payload payload_len ta only_iv queue skb =
     (if payload_len < 12 then Some (-1, None, key, skb)
      else do {
        pos \<leftarrow> skb_load payload 8 skb;
        let iv16 = push_bit 8 (ucast (pos ! 0)) OR ucast (pos ! 2);
        let keyid = pos ! 3;
        let iv32 = le32_at pos 4;
        if keyid AND 0x20 = 0 then Some (TKIP_DECRYPT_NO_EXT_IV, None, key, skb)
        else if drop_bit 6 keyid \<noteq> kc_keyidx (ky_conf key) then Some (TKIP_DECRYPT_INVALID_KEYIDX, None, key, skb)
        else if tkip_replay (ky_rx key queue) iv32 iv16 then Some (TKIP_DECRYPT_REPLAY, None, key, skb)
        else if only_iv then
          Some (TKIP_DECRYPT_OK, Some (iv32, iv16),
                key\<lparr>ky_rx := (ky_rx key)(queue := (ky_rx key queue)\<lparr>tk_state := TKIP_STATE_PHASE1_HW_UPLOADED\<rparr>)\<rparr>, skb)
        else do {
          key \<leftarrow> rx_phase1 key ta queue iv32;
          rc4key \<leftarrow> tkip_mixing_phase2 (kc_key (ky_conf key)) (ky_rx key queue) iv16;
          (ok, skb) \<leftarrow> wep_decrypt_data crc32_le tfm rc4key (payload + 8) (payload_len - 12) skb;
          Some (if ok then TKIP_DECRYPT_OK else -1, if ok then Some (iv32, iv16) else None, key, skb)
        }
      })"

section \<open>Frames\<close>

text \<open>The counter is increased for every frame.\<close>

definition tkip_next_iv :: "tkip_ctx \<Rightarrow> tkip_ctx" where
  "tkip_next_iv ctx = (let ctx = ctx\<lparr>tk_iv16 := tk_iv16 ctx + 1\<rparr> in
     if tk_iv16 ctx = 0 then ctx\<lparr>tk_iv32 := tk_iv32 ctx + 1\<rparr> else ctx)"

definition tkip_encrypt_skb ::
  "frame_ops \<Rightarrow> crc \<Rightarrow> 'c cipher_ops option \<Rightarrow> hw_key option \<Rightarrow> tkip_key \<Rightarrow> sk_buff \<Rightarrow> (bool \<times> tkip_key \<times> sk_buff) option" where
  "tkip_encrypt_skb ops crc32_le tfm hw key skb =
     (if (case hw of None \<Rightarrow> False | Some k \<Rightarrow> \<not> hk_generate_iv k \<and> \<not> hk_put_iv_space k) then Some (True, key, skb)
      else do {
        fc \<leftarrow> skb_fc skb;
        let hdrlen = ieee80211_hdrlen ops fc;
        let tail = (if hw = None then 4 else 0);
        if skb_len skb < hdrlen then None
        else if skb_tailroom skb < tail \<or> skb_headroom skb < 8 then Some (False, key, skb)
        else do {
          let len = skb_len skb - hdrlen;
          skb \<leftarrow> open_gap 8 hdrlen skb;
          if (case hw of None \<Rightarrow> False | Some k \<Rightarrow> hk_put_iv_space k) then Some (True, key, skb)
          else do {
            let key = key\<lparr>ky_tx := tkip_next_iv (ky_tx key)\<rparr>;
            skb \<leftarrow> skb_store hdrlen (tkip_add_iv key) skb;
            if hw \<noteq> None then Some (True, key, skb)
            else do {
              skb \<leftarrow> skb_put 4 skb;
              tkip_encrypt_data ops crc32_le tfm key (hdrlen + 8) len skb
            }
          }
        }
      })"

fun tkip_encrypt_skbs ::
  "frame_ops \<Rightarrow> crc \<Rightarrow> 'c cipher_ops option \<Rightarrow> hw_key option \<Rightarrow> tkip_key \<Rightarrow> sk_buff list \<Rightarrow>
   (tx_result \<times> tkip_key \<times> sk_buff list) option" where
  "tkip_encrypt_skbs ops crc32_le tfm hw key [] = Some (TX_CONTINUE, key, [])"
| "tkip_encrypt_skbs ops crc32_le tfm hw key (skb # skbs) =
     do {
       (ok, key, skb) \<leftarrow> tkip_encrypt_skb ops crc32_le tfm hw key skb;
       if \<not> ok then Some (TX_DROP, key, skb # skbs)
       else do {
         (r, key, skbs) \<leftarrow> tkip_encrypt_skbs ops crc32_le tfm hw key skbs;
         Some (r, key, skb # skbs)
       }
     }"

definition crypto_tkip_encrypt ::
  "frame_ops \<Rightarrow> crc \<Rightarrow> 'c cipher_ops option \<Rightarrow> hw_key option \<Rightarrow> tkip_key \<Rightarrow> sk_buff list \<Rightarrow>
   (tx_result \<times> tkip_key \<times> sk_buff list) option" where
  "crypto_tkip_encrypt ops crc32_le tfm hw key skbs =
     do { skbs \<leftarrow> tx_set_protected skbs; tkip_encrypt_skbs ops crc32_le tfm hw key skbs }"

text \<open>\<open>sta\<close> is the address of the sending station, if it is known.\<close>

text \<open>\<open>skb->len - hdrlen\<close> is unsigned and has 32 bits: for a frame shorter than its header it wraps around, the test for the
  length does not notice, and the access behind the frame has no result.\<close>

definition payload_length :: "nat \<Rightarrow> nat \<Rightarrow> nat" where
  "payload_length len hdrlen = (if hdrlen \<le> len then len - hdrlen else 2 ^ 32 - (hdrlen - len))"

definition crypto_tkip_decrypt ::
  "frame_ops \<Rightarrow> crc \<Rightarrow> 'c cipher_ops option \<Rightarrow> tkip_key \<Rightarrow> u8 list option \<Rightarrow> rx_status \<Rightarrow> nat \<Rightarrow> sk_buff \<Rightarrow>
   (rx_result \<times> (u32 \<times> u16) option \<times> tkip_key \<times> sk_buff) option" where
  "crypto_tkip_decrypt ops crc32_le tfm key sta status security_idx skb =
     do {
       fc \<leftarrow> skb_fc skb;
       let hdrlen = ieee80211_hdrlen ops fc;
       if \<not> is_data ops fc then Some (RX_CONTINUE, None, key, skb)
       else (case sta of
         None \<Rightarrow> Some (RX_DROP_UNUSABLE, None, key, skb)
       | Some ta \<Rightarrow>
           if payload_length (skb_len skb) hdrlen < 12 then Some (RX_DROP_UNUSABLE, None, key, skb)
           else if \<not> st_linearize_ok status then Some (RX_DROP_UNUSABLE, None, key, skb)
           else do {
             (res, iv, key, skb) \<leftarrow> tkip_decrypt_data crc32_le tfm key hdrlen (payload_length (skb_len skb) hdrlen) ta
                                       (st_decrypted status) security_idx skb;
             if res \<noteq> TKIP_DECRYPT_OK then Some (RX_DROP_UNUSABLE, iv, key, skb)
             else do {
               let skb = skb_trim (skb_len skb - 4) skb;
               skb \<leftarrow> close_gap 8 hdrlen skb;
               Some (RX_CONTINUE, iv, key, skb)
             }
           })
     }"

section \<open>The Michael code of a frame\<close>

text \<open>\<open>key\<close> is the key of the frame, if any; \<open>mic_failure\<close> the flag for the test of countermeasures, \<open>dontfrag\<close>
  says that the frame will not be fragmented in software. The key of the hardware
  is part of the result: the test of countermeasures clears it.\<close>

definition tx_h_michael_mic_add ::
  "frame_ops \<Rightarrow> key_conf option \<Rightarrow> hw_key option \<Rightarrow> bool \<Rightarrow> bool \<Rightarrow> sk_buff \<Rightarrow> (tx_result \<times> hw_key option \<times> sk_buff) option" where
  "tx_h_michael_mic_add ops key hw mic_failure dontfrag skb =
     (case key of
        None \<Rightarrow> Some (TX_CONTINUE, hw, skb)
      | Some k \<Rightarrow>
          if kc_cipher k \<noteq> CIPHER_TKIP \<or> skb_len skb < 24 then Some (TX_CONTINUE, hw, skb)
          else do {
            fc \<leftarrow> skb_fc skb;
            if \<not> is_data_present ops fc then Some (TX_CONTINUE, hw, skb)
            else do {
              let hdrlen = ieee80211_hdrlen ops fc;
              if skb_len skb < hdrlen then Some (TX_DROP, hw, skb)
              else do {
                let hw = (if mic_failure then None else hw);
                if hw \<noteq> None \<and> dontfrag \<and> \<not> kc_generate_mmic k then Some (TX_CONTINUE, hw, skb)
                else do {
                  let tail = 8 + (if hw = None then 4 else 0);
                  if skb_tailroom skb < tail \<or> skb_headroom skb < 8 then Some (TX_DROP, hw, skb)
                  else do {
                    hdr \<leftarrow> skb_load 0 (skb_len skb) skb;
                    data \<leftarrow> skb_load hdrlen (skb_len skb - hdrlen) skb;
                    let mic_at = skb_len skb;
                    skb \<leftarrow> skb_put 8 skb;
                    mic \<leftarrow> michael_mic ops (drop OFFSET_TX_MIC_KEY (kc_key k)) hdr data;
                    skb \<leftarrow> skb_store mic_at (if mic_failure then mic[0 := mic ! 0 + 1] else mic) skb;
                    Some (TX_CONTINUE, hw, skb)
                  }
                }
              }
            }
          })"

text \<open>The result holds the event for a MIC failure, if there is one; \<open>ap\<close> says that the interface is an access
  point, \<open>iv\<close> is what the decryption recorded.\<close>

definition update_iv :: "tkip_key \<Rightarrow> nat \<Rightarrow> u32 \<times> u16 \<Rightarrow> tkip_key" where
  "update_iv key idx iv =
     key\<lparr>ky_rx := (ky_rx key)(idx := (ky_rx key idx)\<lparr>tk_iv32 := fst iv, tk_iv16 := snd iv\<rparr>)\<rparr>"

definition mic_fail :: "tkip_key \<Rightarrow> tkip_key" where
  "mic_fail key = key\<lparr>ky_mic_failures := ky_mic_failures key + 1\<rparr>"

definition rx_h_michael_mic_verify ::
  "frame_ops \<Rightarrow> tkip_key option \<Rightarrow> bool \<Rightarrow> rx_status \<Rightarrow> nat \<Rightarrow> u32 \<times> u16 \<Rightarrow> sk_buff \<Rightarrow>
   (rx_result \<times> bool \<times> tkip_key option \<times> sk_buff) option" where
  "rx_h_michael_mic_verify ops key ap status security_idx iv skb =
     do {
       fc \<leftarrow> skb_fc skb;
       if \<not> is_data_present ops fc then Some (RX_CONTINUE, False, key, skb)
       else if st_mmic_stripped status \<or> st_iv_stripped status then
         (if st_mmic_error status then Some (RX_DROP_UNUSABLE, True, key, skb)
          else (case key of
            None \<Rightarrow> Some (RX_CONTINUE, False, key, skb)
          | Some k \<Rightarrow>
              if \<not> st_iv_stripped status \<and> kc_cipher (ky_conf k) = CIPHER_TKIP
              then Some (RX_CONTINUE, False, Some (update_iv k security_idx iv), skb)
              else Some (RX_CONTINUE, False, key, skb)))
       else (case key of
         None \<Rightarrow> Some (RX_CONTINUE, False, key, skb)
       | Some k \<Rightarrow>
           if kc_cipher (ky_conf k) \<noteq> CIPHER_TKIP \<or> \<not> st_decrypted status then Some (RX_CONTINUE, False, key, skb)
           else if ap \<and> kc_keyidx (ky_conf k) \<noteq> 0 then Some (RX_DROP_UNUSABLE, False, key, skb)
           else if st_mmic_error status then Some (RX_DROP_UNUSABLE, True, Some (mic_fail k), skb)
           else do {
             let hdrlen = ieee80211_hdrlen ops fc;
             if skb_len skb < hdrlen + 8 then Some (RX_DROP_UNUSABLE, False, key, skb)
             else if \<not> st_linearize_ok status then Some (RX_DROP_UNUSABLE, False, key, skb)
             else do {
               let data_len = skb_len skb - hdrlen - 8;
               hdr \<leftarrow> skb_load 0 (skb_len skb) skb;
               data \<leftarrow> skb_load hdrlen data_len skb;
               mic \<leftarrow> michael_mic ops (drop OFFSET_RX_MIC_KEY (kc_key (ky_conf k))) hdr data;
               received \<leftarrow> skb_load (hdrlen + data_len) 8 skb;
               if mic \<noteq> received then Some (RX_DROP_UNUSABLE, True, Some (mic_fail k), skb)
               else Some (RX_CONTINUE, False, Some (update_iv k security_idx iv), skb_trim (skb_len skb - 8) skb)
             }
           })
     }"

end
