(* ===== verification/CCMP.thy ===== *)
theory CCMP
  imports TKIP
begin

text \<open>
  CCMP and GCMP (their part of \<^verbatim>\<open>wpa.c\<close>, \<^verbatim>\<open>aes_ccm.c\<close>, \<^verbatim>\<open>aes_gcm.c\<close>): the blocks that bind a packet number
  and the masked header to the payload, encryption of a packet, and decryption with the test for
  replays. AES in CCM and in GCM mode is a parameter. The code has each function twice, once per mode; here
  the text is shared and a mode says where the two differ.
\<close>

section \<open>Authenticated encryption\<close>

text \<open>The arguments are the first block, the associated data, the text and, for encryption, the length of the
  code; the result of decryption says if the code was right and what was written to the buffer.\<close>

record aead_ops =
  aead_encrypt :: "u8 list \<Rightarrow> u8 list \<Rightarrow> u8 list \<Rightarrow> nat \<Rightarrow> u8 list \<times> u8 list"
  aead_decrypt :: "u8 list \<Rightarrow> u8 list \<Rightarrow> u8 list \<Rightarrow> u8 list \<Rightarrow> bool \<times> u8 list"

definition aead_correct :: "aead_ops \<Rightarrow> bool" where
  "aead_correct tfm \<longleftrightarrow> (\<forall>iv a pt n. length (fst (aead_encrypt tfm iv a pt n)) = length pt \<and>
     length (snd (aead_encrypt tfm iv a pt n)) = n \<and>
     aead_decrypt tfm iv a (fst (aead_encrypt tfm iv a pt n)) (snd (aead_encrypt tfm iv a pt n)) = (True, pt))"

text \<open>The first two bytes of \<open>aad\<close> are the length of the rest, most significant byte first; there is no result
  when they announce more than there is.\<close>

definition aad_data :: "u8 list \<Rightarrow> u8 list option" where
  "aad_data aad =
     (let n = unat (le16 (aad ! 1) (aad ! 0)) in if 2 + n \<le> length aad then Some (take n (drop 2 aad)) else None)"

definition aes_encrypt :: "aead_ops \<Rightarrow> u8 list \<Rightarrow> u8 list \<Rightarrow> u8 list \<Rightarrow> nat \<Rightarrow> (u8 list \<times> u8 list) option" where
  "aes_encrypt tfm b_0 aad data mic_len = map_option (\<lambda>assoc. aead_encrypt tfm b_0 assoc data mic_len) (aad_data aad)"

definition aes_decrypt :: "aead_ops \<Rightarrow> u8 list \<Rightarrow> u8 list \<Rightarrow> u8 list \<Rightarrow> u8 list \<Rightarrow> (bool \<times> u8 list) option" where
  "aes_decrypt tfm b_0 aad data mic =
     (if length data = 0 then Some (False, data)
      else map_option (\<lambda>assoc. aead_decrypt tfm b_0 assoc data mic) (aad_data aad))"

section \<open>Blocks\<close>

definition FCTL_RETRY :: u16 where "FCTL_RETRY = 0x0800"
definition FCTL_PM :: u16 where "FCTL_PM = 0x1000"
definition FCTL_MOREDATA :: u16 where "FCTL_MOREDATA = 0x2000"
definition QOS_CTL_TID_MASK :: u8 where "QOS_CTL_TID_MASK = 0x0f"

definition mask_fc :: "frame_ops \<Rightarrow> u16 \<Rightarrow> u16" where
  "mask_fc ops fc =
     (let m = fc AND NOT (FCTL_RETRY OR FCTL_PM OR FCTL_MOREDATA);
          m = (if \<not> is_mgmt ops fc then m AND NOT 0x0070 else m)
      in m OR FCTL_PROTECTED)"

definition qos_tid :: "frame_ops \<Rightarrow> u16 \<Rightarrow> sk_buff \<Rightarrow> u8 option" where
  "qos_tid ops fc skb =
     (if is_data_qos ops fc then map_option (\<lambda>b. b AND QOS_CTL_TID_MASK) (skb_get (qos_ctl_off ops fc) skb) else Some 0)"

text \<open>The 32 bytes of \<open>aad\<close>: the length, the masked frame control, three addresses, the fragment number and the
  fourth address if there is one, and the priority.\<close>

definition special_aad :: "frame_ops \<Rightarrow> u16 \<Rightarrow> u8 \<Rightarrow> sk_buff \<Rightarrow> u8 list option" where
  "special_aad ops fc tid skb =
     do {
       let len_a = of_nat (ieee80211_hdrlen ops fc) - 2;
       addrs \<leftarrow> skb_load 4 18 skb;
       seq \<leftarrow> skb_get 22 skb;
       tail \<leftarrow> (if has_a4 ops fc then map_option (\<lambda>a4. a4 @ [tid, 0]) (skb_load 24 6 skb) else Some (tid # replicate 7 0));
       Some (rev (le16_bytes len_a) @ le16_bytes (mask_fc ops fc) @ addrs @ [seq AND 0x0f, 0] @ tail)
     }"

text \<open>The bytes of the first block the code sets before the counter; CCM fills in the last two itself.\<close>

definition ccmp_special_blocks :: "frame_ops \<Rightarrow> u8 list \<Rightarrow> sk_buff \<Rightarrow> (u8 list \<times> u8 list) option" where
  "ccmp_special_blocks ops pn skb =
     do {
       fc \<leftarrow> skb_fc skb;
       tid \<leftarrow> qos_tid ops fc skb;
       addr2 \<leftarrow> skb_load 10 6 skb;
       aad \<leftarrow> special_aad ops fc tid skb;
       Some ([0x1, tid OR (if is_mgmt ops fc then push_bit 4 1 else 0)] @ addr2 @ pn, aad)
     }"

text \<open>GCM reads twelve bytes of its first block.\<close>

definition gcmp_special_blocks :: "frame_ops \<Rightarrow> u8 list \<Rightarrow> sk_buff \<Rightarrow> (u8 list \<times> u8 list) option" where
  "gcmp_special_blocks ops pn skb =
     do {
       fc \<leftarrow> skb_fc skb;
       addr2 \<leftarrow> skb_load 10 6 skb;
       tid \<leftarrow> qos_tid ops fc skb;
       aad \<leftarrow> special_aad ops fc tid skb;
       Some (addr2 @ pn, aad)
     }"

definition pn2hdr :: "u8 list \<Rightarrow> u8 \<Rightarrow> u8 list" where
  "pn2hdr pn key_id = [pn ! 5, pn ! 4, 0, 0x20 OR push_bit 6 key_id, pn ! 3, pn ! 2, pn ! 1, pn ! 0]"

definition hdr2pn :: "u8 list \<Rightarrow> u8 list" where
  "hdr2pn hdr = [hdr ! 7, hdr ! 6, hdr ! 5, hdr ! 4, hdr ! 1, hdr ! 0]"

definition pn_of_u64 :: "u64 \<Rightarrow> u8 list" where
  "pn_of_u64 pn64 =
     [ucast (drop_bit 40 pn64), ucast (drop_bit 32 pn64), ucast (drop_bit 24 pn64), ucast (drop_bit 16 pn64),
      ucast (drop_bit 8 pn64), ucast pn64]"

fun memcmp :: "u8 list \<Rightarrow> u8 list \<Rightarrow> int" where
  "memcmp (a # as) (b # bs) = (if a = b then memcmp as bs else if a < b then -1 else 1)"
| "memcmp _ _ = 0"

section \<open>Encryption\<close>

record pn_key =
  pk_conf :: key_conf
  pk_tx_pn :: u64
  pk_rx_pn :: "nat \<Rightarrow> u8 list"
  pk_replays :: u32

record aead_mode =
  am_blocks :: "frame_ops \<Rightarrow> u8 list \<Rightarrow> sk_buff \<Rightarrow> (u8 list \<times> u8 list) option"
  am_moved :: "sk_buff \<Rightarrow> sk_buff"
  am_mic_len :: nat

definition ccmp_mode :: "nat \<Rightarrow> aead_mode" where
  "ccmp_mode mic_len = \<lparr>am_blocks = ccmp_special_blocks, am_moved = (\<lambda>s. s), am_mic_len = mic_len\<rparr>"

text \<open>GCMP moves the network header.\<close>

definition gcmp_mode :: aead_mode where
  "gcmp_mode = \<lparr>am_blocks = gcmp_special_blocks,
     am_moved = (\<lambda>s. skb_set_network_header (int (skb_network_header s) - int (skb_data s) + 8) s), am_mic_len = 16\<rparr>"

definition hw_alone :: "frame_ops \<Rightarrow> u16 \<Rightarrow> hw_key option \<Rightarrow> bool" where
  "hw_alone ops fc hw =
     (case hw of None \<Rightarrow> False
      | Some k \<Rightarrow> \<not> hk_generate_iv k \<and> \<not> hk_put_iv_space k \<and> \<not> (hk_generate_iv_mgmt k \<and> is_mgmt ops fc))"

definition aead_seal :: "aead_mode \<Rightarrow> frame_ops \<Rightarrow> aead_ops \<Rightarrow> u8 list \<Rightarrow> nat \<Rightarrow> nat \<Rightarrow> sk_buff \<Rightarrow> sk_buff option" where
  "aead_seal mode ops tfm pn pos len skb =
     do {
       (b_0, aad) \<leftarrow> am_blocks mode ops pn skb;
       data \<leftarrow> skb_load pos len skb;
       skb \<leftarrow> skb_put (am_mic_len mode) skb;
       (ct, mic) \<leftarrow> aes_encrypt tfm b_0 aad data (am_mic_len mode);
       skb \<leftarrow> skb_store pos ct skb;
       skb_store (skb_len skb - am_mic_len mode) mic skb
     }"

definition pn_encrypt_skb ::
  "aead_mode \<Rightarrow> frame_ops \<Rightarrow> aead_ops \<Rightarrow> hw_key option \<Rightarrow> pn_key \<Rightarrow> sk_buff \<Rightarrow> (bool \<times> pn_key \<times> sk_buff) option" where
  "pn_encrypt_skb mode ops tfm hw key skb =
     do {
       fc \<leftarrow> skb_fc skb;
       let hdrlen = ieee80211_hdrlen ops fc;
       let tail = (if hw = None then am_mic_len mode else 0);
       if hw_alone ops fc hw then Some (True, key, skb)
       else if skb_len skb < hdrlen then None
       else if skb_tailroom skb < tail \<or> skb_headroom skb < 8 then Some (False, key, skb)
       else do {
         let len = skb_len skb - hdrlen;
         skb \<leftarrow> open_gap 8 hdrlen skb;
         let skb = am_moved mode skb;
         if (case hw of None \<Rightarrow> False | Some k \<Rightarrow> hk_put_iv_space k) then Some (True, key, skb)
         else do {
           let key = key\<lparr>pk_tx_pn := pk_tx_pn key + 1\<rparr>;
           let pn = pn_of_u64 (pk_tx_pn key);
           skb \<leftarrow> skb_store hdrlen (pn2hdr pn (kc_keyidx (pk_conf key))) skb;
           if hw \<noteq> None then Some (True, key, skb)
           else do { skb \<leftarrow> aead_seal mode ops tfm pn (hdrlen + 8) len skb; Some (True, key, skb) }
         }
       }
     }"

definition ccmp_encrypt_skb where
  "ccmp_encrypt_skb mic_len = pn_encrypt_skb (ccmp_mode mic_len)"

definition gcmp_encrypt_skb where
  "gcmp_encrypt_skb = pn_encrypt_skb gcmp_mode"

fun pn_encrypt_skbs ::
  "aead_mode \<Rightarrow> frame_ops \<Rightarrow> aead_ops \<Rightarrow> hw_key option \<Rightarrow> pn_key \<Rightarrow> sk_buff list \<Rightarrow> (tx_result \<times> pn_key \<times> sk_buff list) option" where
  "pn_encrypt_skbs mode ops tfm hw key [] = Some (TX_CONTINUE, key, [])"
| "pn_encrypt_skbs mode ops tfm hw key (skb # skbs) =
     do {
       (ok, key, skb) \<leftarrow> pn_encrypt_skb mode ops tfm hw key skb;
       if \<not> ok then Some (TX_DROP, key, skb # skbs)
       else do {
         (r, key, skbs) \<leftarrow> pn_encrypt_skbs mode ops tfm hw key skbs;
         Some (r, key, skb # skbs)
       }
     }"

definition crypto_pn_encrypt ::
  "aead_mode \<Rightarrow> frame_ops \<Rightarrow> aead_ops \<Rightarrow> hw_key option \<Rightarrow> pn_key \<Rightarrow> sk_buff list \<Rightarrow> (tx_result \<times> pn_key \<times> sk_buff list) option" where
  "crypto_pn_encrypt mode ops tfm hw key skbs =
     do { skbs \<leftarrow> tx_set_protected skbs; pn_encrypt_skbs mode ops tfm hw key skbs }"

definition crypto_ccmp_encrypt where
  "crypto_ccmp_encrypt mic_len = crypto_pn_encrypt (ccmp_mode mic_len)"

definition crypto_gcmp_encrypt where
  "crypto_gcmp_encrypt = crypto_pn_encrypt gcmp_mode"

section \<open>Decryption\<close>

definition aead_open :: "aead_mode \<Rightarrow> frame_ops \<Rightarrow> aead_ops \<Rightarrow> u8 list \<Rightarrow> nat \<Rightarrow> nat \<Rightarrow> sk_buff \<Rightarrow> (bool \<times> sk_buff) option" where
  "aead_open mode ops tfm pn pos len skb =
     do {
       (b_0, aad) \<leftarrow> am_blocks mode ops pn skb;
       data \<leftarrow> skb_load pos len skb;
       mic \<leftarrow> skb_load (skb_len skb - am_mic_len mode) (am_mic_len mode) skb;
       (ok, pt) \<leftarrow> aes_decrypt tfm b_0 aad data mic;
       skb \<leftarrow> skb_store pos pt skb;
       Some (ok, skb)
     }"

text \<open>Nothing is left to verify if the hardware has done it.\<close>

definition pn_verify ::
  "aead_mode \<Rightarrow> frame_ops \<Rightarrow> aead_ops \<Rightarrow> rx_status \<Rightarrow> u8 list \<Rightarrow> nat \<Rightarrow> nat \<Rightarrow> sk_buff \<Rightarrow> (bool \<times> sk_buff) option" where
  "pn_verify mode ops tfm status pn pos len skb =
     (if \<not> st_decrypted status then aead_open mode ops tfm pn pos len skb else Some (True, skb))"

text \<open>\<open>sta\<close> says if the sending station is known.\<close>

definition crypto_pn_decrypt ::
  "aead_mode \<Rightarrow> frame_ops \<Rightarrow> aead_ops \<Rightarrow> pn_key \<Rightarrow> bool \<Rightarrow> rx_status \<Rightarrow> nat \<Rightarrow> sk_buff \<Rightarrow> (rx_result \<times> pn_key \<times> sk_buff) option" where
  "crypto_pn_decrypt mode ops tfm key sta status queue skb =
     do {
       fc \<leftarrow> skb_fc skb;
       let hdrlen = ieee80211_hdrlen ops fc;
       if \<not> is_data ops fc \<and> \<not> is_robust_mgmt_frame ops (skb_bytes skb) then Some (RX_CONTINUE, key, skb)
       else if \<not> sta \<or> skb_len skb < hdrlen + 8 + am_mic_len mode then Some (RX_DROP_UNUSABLE, key, skb)
       else if (if st_decrypted status then \<not> st_may_pull_ok status else \<not> st_linearize_ok status)
       then Some (RX_DROP_UNUSABLE, key, skb)
       else do {
         let data_len = skb_len skb - hdrlen - 8 - am_mic_len mode;
         hdr \<leftarrow> skb_load hdrlen 8 skb;
         let pn = hdr2pn hdr;
         if memcmp pn (pk_rx_pn key queue) \<le> 0 then Some (RX_DROP_UNUSABLE, key\<lparr>pk_replays := pk_replays key + 1\<rparr>, skb)
         else do {
           (ok, skb) \<leftarrow> pn_verify mode ops tfm status pn (hdrlen + 8) data_len skb;
           if \<not> ok then Some (RX_DROP_UNUSABLE, key, skb)
           else do {
             let key = key\<lparr>pk_rx_pn := (pk_rx_pn key)(queue := pn)\<rparr>;
             if \<not> st_trim_ok status then Some (RX_DROP_UNUSABLE, key, skb)
             else do {
               let skb = skb_trim (skb_len skb - am_mic_len mode) skb;
               skb \<leftarrow> close_gap 8 hdrlen skb;
               Some (RX_CONTINUE, key, skb)
             }
           }
         }
       }
     }"

definition crypto_ccmp_decrypt where
  "crypto_ccmp_decrypt mic_len = crypto_pn_decrypt (ccmp_mode mic_len)"

definition crypto_gcmp_decrypt where
  "crypto_gcmp_decrypt = crypto_pn_decrypt gcmp_mode"

end
