(* ===== verification/TKIP_Props.thy ===== *)
theory TKIP_Props
  imports TKIP
begin

text \<open>
  Properties of TKIP: what a sender encrypts a receiver decrypts, the counter of 48 bits, and what a forged
  frame does to the cache of the first phase.
\<close>

section \<open>Counters and keys\<close>

definition tsc :: "tkip_ctx \<Rightarrow> nat" where
  "tsc ctx = unat (tk_iv32 ctx) * 65536 + unat (tk_iv16 ctx)"

lemma unat_lt16: "unat (w :: u16) < 65536" and unat_lt32: "unat (v :: u32) < 4294967296"
proof -
  have "unat w < 2 ^ LENGTH(16)" "unat v < 2 ^ LENGTH(32)" by (rule unsigned_less)+
  then show "unat w < 65536" "unat v < 4294967296" by simp_all
qed

lemma tsc_next: "tsc (tkip_next_iv ctx) = (tsc ctx + 1) mod 2 ^ 48"
proof -
  define a b where "a = unat (tk_iv16 ctx)" and "b = unat (tk_iv32 ctx)"
  have l: "a < 65536" "b < 4294967296"
    using unat_lt16 unat_lt32 by (simp_all add: a_def b_def)
  have u: "unat (tk_iv16 ctx + 1) = (a + 1) mod 65536" "unat (tk_iv32 ctx + 1) = (b + 1) mod 4294967296"
    by (simp_all add: unat_word_ariths(1) a_def b_def)
  have z: "tk_iv16 ctx + 1 = 0 \<longleftrightarrow> (a + 1) mod 65536 = 0"
    using u(1) by (metis unat_eq_0)
  consider "a < 65535" | "a = 65535" "b < 4294967295" | "a = 65535" "b = 4294967295" using l by linarith
  moreover have "b * 65536 + a + 1 < 281474976710656" if "a < 65535" using l that by linarith
  ultimately show ?thesis
    by cases (simp_all add: tsc_def tkip_next_iv_def Let_def u z flip: a_def b_def)
qed

lemma tkip_iv_read:
  assumes "unat (kc_keyidx (ky_conf key)) < 4" and "pos = tkip_add_iv key"
  shows "length pos = 8" "push_bit 8 (ucast (pos ! 0)) OR ucast (pos ! 2) = tk_iv16 (ky_tx key)"
    "ucast (pos ! 2) OR push_bit 8 (ucast (pos ! 0)) = tk_iv16 (ky_tx key)"
    "pos ! 3 AND 0x20 \<noteq> 0" "drop_bit 6 (pos ! 3) = kc_keyidx (ky_conf key)" "le32_at pos 4 = tk_iv32 (ky_tx key)"
proof -
  let ?k = "kc_keyidx (ky_conf key)"
  show "length pos = 8" by (simp add: assms(2) tkip_add_iv_def write_tkip_iv_def)
  have p: "pos ! 0 = ucast (drop_bit 8 (tk_iv16 (ky_tx key)))" "pos ! 2 = ucast (tk_iv16 (ky_tx key) AND 0xff)"
    "pos ! 3 = push_bit 6 ?k OR 0x20"
    by (simp_all add: assms(2) tkip_add_iv_def write_tkip_iv_def numeral_2_eq_2 numeral_3_eq_3)
  have m: "(0xff :: u16) = mask 8" by (simp add: mask_eq_exp_minus_1)
  show "push_bit 8 (ucast (pos ! 0)) OR ucast (pos ! 2) = tk_iv16 (ky_tx key)"
    unfolding p m by (rule bit_word_eqI) (auto simp: bit_simps)
  then show "ucast (pos ! 2) OR push_bit 8 (ucast (pos ! 0)) = tk_iv16 (ky_tx key)" by (simp only: or.commute)
  have b: "(0x20 :: u8) = push_bit 5 1" by simp
  have "bit (pos ! 3 AND 0x20) 5" unfolding p b by (simp add: bit_simps)
  then show "pos ! 3 AND 0x20 \<noteq> 0" by force
  have "drop_bit 6 (pos ! 3) = drop_bit 6 (push_bit 6 ?k) OR drop_bit 6 (0x20 :: u8)"
    unfolding p by (simp only: drop_bit_or)
  also have "drop_bit 6 (0x20 :: u8) = 0" by (simp add: drop_bit_eq_div)
  finally show "drop_bit 6 (pos ! 3) = ?k" using keyidx_byte [OF assms(1)] by simp
  show "le32_at pos 4 = tk_iv32 (ky_tx key)"
    by (simp add: assms(2) tkip_add_iv_def write_tkip_iv_def le32_at_def le32_bytes_def le32_roundtrip)
qed

section \<open>Round trip\<close>

text \<open>The cached first phase belongs to the counter the code compares with before it uses it.\<close>

definition tx_p1k_ok :: "tkip_key \<Rightarrow> bool" where
  "tx_p1k_ok key \<longleftrightarrow> (tk_state (ky_tx key) \<noteq> TKIP_STATE_NOT_INIT \<longrightarrow>
     tk_p1k (ky_tx key) = phase1 (kc_key (ky_conf key)) (ky_vif_addr key) (tk_p1k_iv32 (ky_tx key)))"

definition rx_p1k_ok :: "tkip_key \<Rightarrow> u8 list \<Rightarrow> nat \<Rightarrow> bool" where
  "rx_p1k_ok key ta queue \<longleftrightarrow> (tk_state (ky_rx key queue) \<noteq> TKIP_STATE_NOT_INIT \<longrightarrow>
     tk_p1k (ky_rx key queue) = phase1 (kc_key (ky_conf key)) ta (tk_iv32 (ky_rx key queue)))"

definition tkip_rc4key :: "u8 list \<Rightarrow> u8 list \<Rightarrow> tkip_ctx \<Rightarrow> u8 list" where
  "tkip_rc4key tk ta ctx = phase2 tk (phase1 tk ta (tk_iv32 ctx)) (tk_iv16 ctx)"

lemma compute_p1k:
  assumes "tx_p1k_ok key" "16 \<le> length (kc_key (ky_conf key))" "6 \<le> length (ky_vif_addr key)"
  shows "\<exists>key'. compute_tkip_p1k key iv32 = Some key' \<and> tx_p1k_ok key' \<and> ky_conf key' = ky_conf key \<and>
    tk_p1k (ky_tx key') = phase1 (kc_key (ky_conf key)) (ky_vif_addr key) iv32 \<and>
    tk_iv32 (ky_tx key') = tk_iv32 (ky_tx key) \<and> tk_iv16 (ky_tx key') = tk_iv16 (ky_tx key)"
  using assms by (simp add: compute_tkip_p1k_def Let_def tkip_mixing_phase1_def tx_p1k_ok_def)

lemma rx_phase1_ok:
  assumes "rx_p1k_ok key ta queue" "16 \<le> length (kc_key (ky_conf key))" "6 \<le> length ta"
  shows "\<exists>key'. rx_phase1 key ta queue iv32 = Some key' \<and> ky_conf key' = ky_conf key \<and>
    tk_p1k (ky_rx key' queue) = phase1 (kc_key (ky_conf key)) ta iv32"
  using assms by (auto simp: rx_phase1_def Let_def tkip_mixing_phase1_def rx_p1k_ok_def)

lemma tkip_encrypt_mk:
  assumes hdr: "2 \<le> length hdr" "ieee80211_hdrlen ops (hdr_fc hdr) = length hdr" and room: "length hs = 8" "length ts = 4"
    and key: "tx_p1k_ok key" "16 \<le> length tk" "6 \<le> length ta" "unat (kc_keyidx (ky_conf key)) < 4"
    and tk: "tk = kc_key (ky_conf key)" and ta: "ta = ky_vif_addr key"
    and iv: "iv = tkip_add_iv (key\<lparr>ky_tx := tkip_next_iv (ky_tx key)\<rparr>)" and icv: "icv = (\<lambda>ds. le32_bytes (NOT (crc (NOT 0) ds)))"
    and cs: "cs = crypt_bytes (encrypt_one tfm) (setkey tfm (tkip_rc4key tk ta (tkip_next_iv (ky_tx key)))) (payload @ icv payload)"
  shows "\<exists>key'. tkip_encrypt_skb ops crc (Some tfm) None key (skb_mk s (pre @ hs) (hdr @ payload) (ts @ post)) =
      Some (True, key', skb_mk s pre (hdr @ iv @ cs) post) \<and> tx_p1k_ok key' \<and> tsc (ky_tx key') = tsc (tkip_next_iv (ky_tx key))"
proof -
  let ?key = "key\<lparr>ky_tx := tkip_next_iv (ky_tx key)\<rparr>"
  have idx: "unat (kc_keyidx (ky_conf ?key)) < 4" using key(4) by simp
  note rd = tkip_iv_read [OF idx iv]
  have "tx_p1k_ok ?key" using key(1) by (auto simp: tx_p1k_ok_def tkip_next_iv_def Let_def)
  then obtain key' where key': "compute_tkip_p1k ?key (tk_iv32 (tkip_next_iv (ky_tx key))) = Some key'" "tx_p1k_ok key'" "ky_conf key' = ky_conf key"
      "tk_p1k (ky_tx key') = phase1 tk ta (tk_iv32 (tkip_next_iv (ky_tx key)))"
      "tk_iv32 (ky_tx key') = tk_iv32 (tkip_next_iv (ky_tx key))" "tk_iv16 (ky_tx key') = tk_iv16 (tkip_next_iv (ky_tx key))"
    using compute_p1k [of ?key] key(2,3) tk ta by auto
  obtain gap where gap: "length gap = 8" "open_gap 8 (length hdr) (skb_mk s (pre @ hs) (hdr @ payload) (ts @ post)) =
      Some (skb_mk s pre (hdr @ gap @ payload) (ts @ post))"
    using open_gap_mk [OF room(1) refl, of hdr s pre payload "ts @ post"] by blast
  have store: "skb_store (length hdr) iv (skb_mk s pre (hdr @ gap @ payload) (ts @ post)) = Some (skb_mk s pre (hdr @ iv @ payload) (ts @ post))"
    using gap rd(1) overwrite_mid [of iv gap hdr payload] by (simp add: skb_store_mk)
  have put: "skb_put 4 (skb_mk s pre (hdr @ iv @ payload) (ts @ post)) = Some (skb_mk s pre (hdr @ iv @ payload @ ts) post)"
    using skb_put_mk [OF room(2), of s pre "hdr @ iv @ payload" post] by simp
  have load: "skb_load (length hdr) 8 (skb_mk s pre (hdr @ iv @ payload @ ts) post) = Some iv"
    using rd(1) by (simp add: skb_load_mk)
  have p2k: "get_tkip_p2k ops ?key (skb_mk s pre (hdr @ iv @ payload @ ts) post) = Some (tkip_rc4key tk ta (tkip_next_iv (ky_tx key)), key')"
    using hdr rd key' key(2) load tk by (simp add: get_tkip_p2k_def skb_fc_mk tkip_mixing_phase2_def tkip_rc4key_def)
  have enc: "wep_encrypt_data crc (Some tfm) (tkip_rc4key tk ta (tkip_next_iv (ky_tx key))) (length hdr + 8) (length payload)
      (skb_mk s pre (hdr @ iv @ payload @ ts) post) = Some (True, skb_mk s pre (hdr @ iv @ cs) post)"
    using wep_encrypt_data_mk [of "hdr @ iv" "length hdr + 8" payload "length payload" ts crc tfm "tkip_rc4key tk ta (tkip_next_iv (ky_tx key))" s pre post]
      rd(1) room by (simp add: icv cs)
  have "tkip_encrypt_skb ops crc (Some tfm) None key (skb_mk s (pre @ hs) (hdr @ payload) (ts @ post)) = Some (True, key', skb_mk s pre (hdr @ iv @ cs) post)"
    using hdr room gap store put p2k enc
    by (simp add: tkip_encrypt_skb_def skb_fc_mk tkip_encrypt_data_def iv [symmetric] Let_def del: skb_put_Some)
  moreover have "tsc (ky_tx key') = tsc (tkip_next_iv (ky_tx key))" using key' by (simp add: tsc_def)
  ultimately show ?thesis using key'(2) by blast
qed

lemma tkip_decrypt_mk:
  assumes tfm: "stream_cipher tfm" and hdr: "frame_hdr ops hdr" "is_data ops (hdr_fc hdr OR FCTL_PROTECTED)"
    and key: "rx_p1k_ok rkey ta queue" "16 \<le> length (kc_key (ky_conf key))" "6 \<le> length ta" "unat (kc_keyidx (ky_conf key)) < 4"
      "ky_conf rkey = ky_conf key"
    and fresh: "\<not> tkip_replay (ky_rx rkey queue) (tk_iv32 (ky_tx key)) (tk_iv16 (ky_tx key))"
    and st: "\<not> st_decrypted status" "st_linearize_ok status"
    and iv: "iv = tkip_add_iv key" and icv: "icv = (\<lambda>ds. le32_bytes (NOT (crc (NOT 0) ds)))"
    and cs: "cs = crypt_bytes (encrypt_one tfm) (setkey tfm (tkip_rc4key (kc_key (ky_conf key)) ta (ky_tx key))) (payload @ icv payload)"
  shows "\<exists>rkey' ns. length ns = 8 \<and>
    crypto_tkip_decrypt ops crc (Some tfm) rkey (Some ta) status queue (skb_mk s pre (protect_hdr hdr @ iv @ cs) post) =
      Some (RX_CONTINUE, Some (tk_iv32 (ky_tx key), tk_iv16 (ky_tx key)), rkey', skb_mk s (pre @ ns) (protect_hdr hdr @ payload) (icv payload @ post))"
proof -
  let ?ph = "protect_hdr hdr" and ?tk = "kc_key (ky_conf key)" and ?iv32 = "tk_iv32 (ky_tx key)" and ?iv16 = "tk_iv16 (ky_tx key)"
  have h: "2 \<le> length ?ph" "length ?ph = length hdr" "ieee80211_hdrlen ops (hdr_fc ?ph) = length hdr" "is_data ops (hdr_fc ?ph)"
    using hdr by (simp_all add: frame_hdr_def)
  note rd = tkip_iv_read [OF key(4) iv]
  have len: "length cs = length payload + 4" by (simp add: cs icv)
  obtain rkey' where rkey': "rx_phase1 rkey ta queue ?iv32 = Some rkey'" "ky_conf rkey' = ky_conf key" "tk_p1k (ky_rx rkey' queue) = phase1 ?tk ta ?iv32"
    using rx_phase1_ok [of rkey ta queue ?iv32] key by auto
  have load: "skb_load (length hdr) 8 (skb_mk s pre (?ph @ iv @ cs) post) = Some iv"
    using rd(1) h by (simp add: skb_load_mk)
  have p2: "tkip_mixing_phase2 ?tk (ky_rx rkey' queue) ?iv16 = Some (tkip_rc4key ?tk ta (ky_tx key))"
    using key(2) rkey' by (simp add: tkip_mixing_phase2_def tkip_rc4key_def)
  have dec: "wep_decrypt_data crc (Some tfm) (tkip_rc4key ?tk ta (ky_tx key)) (length hdr + 8) (length payload) (skb_mk s pre (?ph @ iv @ cs) post) =
      Some (True, skb_mk s pre (?ph @ iv @ payload @ icv payload) post)"
    using wep_decrypt_data_mk [OF tfm, of "?ph @ iv" "length hdr + 8" payload "length payload" crc "tkip_rc4key ?tk ta (ky_tx key)" s pre post]
      rd(1) h by (simp add: icv cs)
  have data: "tkip_decrypt_data crc (Some tfm) rkey (length hdr) (length iv + length cs) ta False queue (skb_mk s pre (?ph @ iv @ cs) post) =
      Some (TKIP_DECRYPT_OK, Some (?iv32, ?iv16), rkey', skb_mk s pre (?ph @ iv @ payload @ icv payload) post)"
    using load rd fresh rkey' p2 dec key(5) len by (simp add: tkip_decrypt_data_def)
  have trim: "skb_trim n (skb_mk s pre (?ph @ iv @ payload @ icv payload) post) = skb_mk s pre (?ph @ iv @ payload) (icv payload @ post)"
    if "n = length hdr + length payload + 8" for n
    using skb_trim_mk [of "?ph @ iv @ payload" s pre "icv payload" post] h rd(1) that by (simp add: ac_simps)
  obtain ns where ns: "length ns = 8" "close_gap 8 (length hdr) (skb_mk s pre (?ph @ iv @ payload) (icv payload @ post)) =
      Some (skb_mk s (pre @ ns) (?ph @ payload) (icv payload @ post))"
    using close_gap_mk [OF rd(1) h(2), of s pre payload "icv payload @ post"] by blast
  have icv4: "length (icv payload) = 4" by (simp add: icv)
  show ?thesis
    using h st data trim [of "8 + length hdr + length payload"] ns rd(1) len icv4
    by (intro exI [of _ rkey'] exI [of _ ns]) (simp add: crypto_tkip_decrypt_def payload_length_def skb_fc_mk Let_def flip: add.assoc)
qed

text \<open>C18. A packet that TKIP encrypts with a fresh counter, the old one plus one modulo 2^48, is accepted by a
  receiver with the same key whose cached first phase is valid: it gets the header and the payload
  back and the counter reported for the replay test. The sender keeps a valid cache.\<close>

theorem tkip_roundtrip:
  assumes "stream_cipher tfm" and "frame_hdr ops hdr" and "is_data ops (hdr_fc hdr OR FCTL_PROTECTED)"
    and "tx_p1k_ok key" and "rx_p1k_ok rkey (ky_vif_addr key) queue" and "ky_conf rkey = ky_conf key"
    and "16 \<le> length (kc_key (ky_conf key))" and "6 \<le> length (ky_vif_addr key)" and "unat (kc_keyidx (ky_conf key)) < 4"
    and "\<not> tkip_replay (ky_rx rkey queue) (tk_iv32 (tkip_next_iv (ky_tx key))) (tk_iv16 (tkip_next_iv (ky_tx key)))"
    and "\<not> st_decrypted status" and "st_linearize_ok status"
    and "skb_bytes skb = hdr @ payload" and "can_encapsulate 8 4 skb"
  shows "\<exists>key' sent rkey' received.
    crypto_tkip_encrypt ops crc (Some tfm) None key [skb] = Some (TX_CONTINUE, key', [sent]) \<and> tx_p1k_ok key' \<and>
    tsc (ky_tx key') = (tsc (ky_tx key) + 1) mod 2 ^ 48 \<and> skb_len sent = skb_len skb + 12 \<and>
    crypto_tkip_decrypt ops crc (Some tfm) rkey (Some (ky_vif_addr key)) status queue sent =
      Some (RX_CONTINUE, Some (tk_iv32 (tkip_next_iv (ky_tx key)), tk_iv16 (tkip_next_iv (ky_tx key))), rkey', received) \<and>
    skb_bytes received = protect_hdr hdr @ payload"
proof -
  obtain pre hs ts post where v: "skb = skb_mk skb (pre @ hs) (hdr @ payload) (ts @ post)" and room: "length hs = 8" "length ts = 4"
    using can_encapsulateE [OF assms(14,13)] by blast
  let ?ph = "protect_hdr hdr" and ?key = "key\<lparr>ky_tx := tkip_next_iv (ky_tx key)\<rparr>"
  define icv where "icv = (\<lambda>ds. le32_bytes (NOT (crc (NOT 0) ds)))"
  define cs where "cs = crypt_bytes (encrypt_one tfm) (setkey tfm (tkip_rc4key (kc_key (ky_conf key)) (ky_vif_addr key) (tkip_next_iv (ky_tx key)))) (payload @ icv payload)"
  have h: "2 \<le> length hdr" "2 \<le> length ?ph" "length ?ph = length hdr" "ieee80211_hdrlen ops (hdr_fc ?ph) = length ?ph"
    using assms(2) by (simp_all add: frame_hdr_def)
  obtain key' where enc: "tkip_encrypt_skb ops crc (Some tfm) None key (skb_mk skb (pre @ hs) (?ph @ payload) (ts @ post)) =
      Some (True, key', skb_mk skb pre (?ph @ tkip_add_iv ?key @ cs) post)" "tx_p1k_ok key'" "tsc (ky_tx key') = tsc (tkip_next_iv (ky_tx key))"
    using tkip_encrypt_mk [where crc = crc and icv = icv and tfm = tfm and cs = cs and payload = payload and s = skb and pre = pre and post = post,
        OF h(2,4) room assms(4,7,8,9) refl refl refl icv_def cs_def] by blast
  have "set_protected skb = Some (skb_mk skb (pre @ hs) (?ph @ payload) (ts @ post))"
    using set_protected_mk [OF h(1), of skb "pre @ hs" payload "ts @ post"] by (simp only: v [symmetric])
  with enc(1) have all: "crypto_tkip_encrypt ops crc (Some tfm) None key [skb] = Some (TX_CONTINUE, key', [skb_mk skb pre (?ph @ tkip_add_iv ?key @ cs) post])"
    by (simp add: crypto_tkip_encrypt_def tx_set_protected_def)
  obtain rkey' ns where dec: "crypto_tkip_decrypt ops crc (Some tfm) rkey (Some (ky_vif_addr key)) status queue (skb_mk skb pre (?ph @ tkip_add_iv ?key @ cs) post) =
      Some (RX_CONTINUE, Some (tk_iv32 (tkip_next_iv (ky_tx key)), tk_iv16 (tkip_next_iv (ky_tx key))), rkey', skb_mk skb (pre @ ns) (?ph @ payload) (icv payload @ post))"
    using tkip_decrypt_mk [where key = ?key and crc = crc and icv = icv and cs = cs and payload = payload and s = skb and pre = pre and post = post,
        OF assms(1-3,5) _ assms(8) _ _ _ assms(11,12) refl icv_def] assms(6,7,9,10) cs_def by auto
  have "skb_len skb = length hdr + length payload" using v by (metis length_append skb_mk_fields(3))
  moreover have "length (tkip_add_iv ?key) = 8" "length cs = length payload + 4"
    by (simp_all add: tkip_add_iv_def write_tkip_iv_def cs_def icv_def)
  ultimately show ?thesis
    using all dec enc(2,3) h tsc_next [of "ky_tx key"] by auto
qed

definition tkip_key_ex :: "tkip_state \<Rightarrow> tkip_key" where
  "tkip_key_ex state = (let ctx = \<lparr>tk_iv32 = 0, tk_iv16 = 0xffff, tk_p1k = phase1 (replicate 32 7) [2, 2, 2, 2, 2, 2] 0, tk_p1k_iv32 = 0, tk_state = state\<rparr>
     in \<lparr>ky_conf = key_ex CIPHER_TKIP (replicate 32 7), ky_vif_addr = [2, 2, 2, 2, 2, 2], ky_drv_update = False, ky_uploaded = False,
         ky_tx = ctx, ky_rx = (\<lambda>_. ctx\<lparr>tk_iv16 := 5\<rparr>), ky_mic_failures = 0\<rparr>)"

definition status_ex :: rx_status where
  "status_ex = \<lparr>st_decrypted = False, st_iv_stripped = False, st_mmic_stripped = False, st_mmic_error = False,
     st_linearize_ok = True, st_may_pull_ok = True, st_trim_ok = True\<rparr>"

lemma tkip_key_ex_fields:
  "ky_conf (tkip_key_ex st) = key_ex CIPHER_TKIP (replicate 32 7)" "ky_vif_addr (tkip_key_ex st) = [2, 2, 2, 2, 2, 2]"
  "tx_p1k_ok (tkip_key_ex st)" "rx_p1k_ok (tkip_key_ex st) [2, 2, 2, 2, 2, 2] 0" "tk_state (ky_rx (tkip_key_ex st) q) = st"
  "tk_iv32 (ky_rx (tkip_key_ex st) q) = 0" "tk_iv16 (ky_rx (tkip_key_ex st) q) = 5" "ky_drv_update (tkip_key_ex st) = False"
  "tk_iv32 (tkip_next_iv (ky_tx (tkip_key_ex st))) = 1" "tk_iv16 (tkip_next_iv (ky_tx (tkip_key_ex st))) = 0"
  by (simp_all add: tkip_key_ex_def Let_def tx_p1k_ok_def rx_p1k_ok_def tkip_next_iv_def key_ex_def)

theorem tkip_roundtrip_witness:
  "\<exists>key' sent rkey' received.
    crypto_tkip_encrypt fops_ex (\<lambda>_ _. 7) (Some tfm_ex) None (tkip_key_ex TKIP_STATE_PHASE1_DONE) [packet_ex (hdr_ex @ [10, 20, 30])] =
      Some (TX_CONTINUE, key', [sent]) \<and> tx_p1k_ok key' \<and>
    tsc (ky_tx key') = (tsc (ky_tx (tkip_key_ex TKIP_STATE_PHASE1_DONE)) + 1) mod 2 ^ 48 \<and>
    skb_len sent = skb_len (packet_ex (hdr_ex @ [10, 20, 30])) + 12 \<and>
    crypto_tkip_decrypt fops_ex (\<lambda>_ _. 7) (Some tfm_ex) (tkip_key_ex TKIP_STATE_PHASE1_DONE)
        (Some (ky_vif_addr (tkip_key_ex TKIP_STATE_PHASE1_DONE))) status_ex 0 sent =
      Some (RX_CONTINUE, Some (tk_iv32 (tkip_next_iv (ky_tx (tkip_key_ex TKIP_STATE_PHASE1_DONE))),
        tk_iv16 (tkip_next_iv (ky_tx (tkip_key_ex TKIP_STATE_PHASE1_DONE)))), rkey', received) \<and>
    skb_bytes received = protect_hdr hdr_ex @ [10, 20, 30]"
  by (rule tkip_roundtrip)
    (simp_all add: tfm_ex_stream frame_hdr_ex hdr_ex_props packet_ex_props can_encapsulate_def tkip_key_ex_fields tkip_replay_def status_ex_def)

section \<open>A forged frame\<close>

text \<open>Behind the header a frame has eight bytes with the counters, the key number and the flag for the
  extended vector.\<close>

definition iv_of :: "u8 list \<Rightarrow> u32 \<times> u16" where
  "iv_of iv = (le32_at iv 4, push_bit 8 (ucast (iv ! 0)) OR ucast (iv ! 2))"

definition tkip_frame :: "tkip_key \<Rightarrow> u8 list \<Rightarrow> u8 list \<Rightarrow> bool" where
  "tkip_frame key iv cs \<longleftrightarrow> length iv = 8 \<and> iv ! 3 AND 0x20 \<noteq> 0 \<and> drop_bit 6 (iv ! 3) = kc_keyidx (ky_conf key) \<and> 4 \<le> length cs"

lemma skb_load_bytes:
  assumes "skb_wf skb" and "skb_bytes skb = bs" and "i + n \<le> length bs"
  shows "skb_load i n skb = Some (take n (drop i bs))"
  using skb_view [OF assms(1)] skb_load_mk [OF assms(3)] assms(2) by metis

lemma tkip_decrypt_data_frame:
  assumes "tkip_frame key iv cs" and "rx_phase1 key ta queue (fst (iv_of iv)) = Some key'" and "ky_conf key' = ky_conf key"
    and "16 \<le> length (kc_key (ky_conf key))" and "\<not> tkip_replay (ky_rx key queue) (fst (iv_of iv)) (snd (iv_of iv))"
    and "skb_bytes skb = hdr @ iv @ cs" and "skb_wf skb"
  shows "tkip_decrypt_data crc tfm key (length hdr) (8 + length cs) ta False queue skb =
    map_option (\<lambda>(ok, skb). (if ok then TKIP_DECRYPT_OK else -1, if ok then Some (iv_of iv) else None, key', skb))
      (wep_decrypt_data crc tfm (phase2 (kc_key (ky_conf key)) (tk_p1k (ky_rx key' queue)) (snd (iv_of iv))) (length hdr + 8) (length cs - 4) skb)"
proof -
  have l: "skb_load (length hdr) 8 skb = Some iv"
    using assms(1,6,7) by (simp add: skb_load_bytes tkip_frame_def)
  show ?thesis
    using assms l by (auto simp: tkip_decrypt_data_def tkip_frame_def tkip_mixing_phase2_def iv_of_def Let_def split: option.split bind_splits)
qed

text \<open>C37. The first phase is cached under the counter of the last authenticated frame although a frame that
  fails the checksum has replaced it. After one forged frame with a higher counter, the next genuine
  frame of the old counter is decrypted with the key of the forged counter.\<close>

theorem tkip_forged_frame_poisons_key:
  assumes "frame_hdr ops hdr" and "is_data ops (hdr_fc hdr OR FCTL_PROTECTED)"
    and "tk_state (ky_rx key queue) = TKIP_STATE_PHASE1_DONE" and "\<not> ky_drv_update key"
    and "16 \<le> length (kc_key (ky_conf key))" and "6 \<le> length ta" and "\<not> st_decrypted status" and "st_linearize_ok status"
    and "skb_wf forged" and "skb_bytes forged = protect_hdr hdr @ iv @ cs" and "tkip_frame key iv cs"
    and "tk_iv32 (ky_rx key queue) < fst (iv_of iv)"
    and "wep_decrypt_data crc (Some tfm) (phase2 (kc_key (ky_conf key)) (phase1 (kc_key (ky_conf key)) ta (fst (iv_of iv))) (snd (iv_of iv)))
           (length hdr + 8) (length cs - 4) forged = Some (False, garbage)"
    and "skb_wf genuine" and "skb_bytes genuine = protect_hdr hdr @ iv2 @ cs2" and "tkip_frame key iv2 cs2"
    and "fst (iv_of iv2) = tk_iv32 (ky_rx key queue)" and "tk_iv16 (ky_rx key queue) < snd (iv_of iv2)"
  shows "\<exists>key'. crypto_tkip_decrypt ops crc (Some tfm) key (Some ta) status queue forged = Some (RX_DROP_UNUSABLE, None, key', garbage) \<and>
    tkip_decrypt_data crc (Some tfm) key' (length hdr) (8 + length cs2) ta False queue genuine =
      map_option (\<lambda>(ok, skb). (if ok then TKIP_DECRYPT_OK else -1, if ok then Some (iv_of iv2) else None, key', skb))
        (wep_decrypt_data crc (Some tfm)
          (phase2 (kc_key (ky_conf key)) (phase1 (kc_key (ky_conf key)) ta (fst (iv_of iv))) (snd (iv_of iv2)))
          (length hdr + 8) (length cs2 - 4) genuine)"
proof -
  let ?ph = "protect_hdr hdr" and ?tk = "kc_key (ky_conf key)" and ?ctx = "ky_rx key queue"
  let ?ctx' = "?ctx\<lparr>tk_p1k := phase1 ?tk ta (fst (iv_of iv)), tk_state := TKIP_STATE_PHASE1_DONE, tk_p1k_iv32 := fst (iv_of iv)\<rparr>"
  define key' where "key' = key\<lparr>ky_rx := (ky_rx key)(queue := ?ctx')\<rparr>"
  have h: "2 \<le> length ?ph" "length ?ph = length hdr" "ieee80211_hdrlen ops (hdr_fc ?ph) = length hdr" "is_data ops (hdr_fc ?ph)"
    using assms(1,2) by (simp_all add: frame_hdr_def)
  have k: "ky_conf key' = ky_conf key" "tk_p1k (ky_rx key' queue) = phase1 ?tk ta (fst (iv_of iv))" by (simp_all add: key'_def)
  have r1: "rx_phase1 key ta queue (fst (iv_of iv)) = Some key'"
    using assms(3-6,12) by (auto simp: rx_phase1_def tkip_mixing_phase1_def key'_def)
  have r2: "rx_phase1 key' ta queue (fst (iv_of iv2)) = Some key'"
    using assms(4,17) by (auto simp: rx_phase1_def key'_def)
  have n: "\<not> tkip_replay ?ctx (fst (iv_of iv)) (snd (iv_of iv))" "\<not> tkip_replay (ky_rx key' queue) (fst (iv_of iv2)) (snd (iv_of iv2))"
    using assms(12,17,18) by (auto simp: tkip_replay_def key'_def)
  have d: "tkip_decrypt_data crc (Some tfm) key (length hdr) (8 + length cs) ta False queue forged = Some (-1, None, key', garbage)"
    using tkip_decrypt_data_frame [OF assms(11) r1 k(1) assms(5) n(1) assms(10,9), of crc "Some tfm"] assms(13) k(2) h(2) by simp
  have "skb_load 0 2 forged = Some (take 2 ?ph)"
    using skb_load_bytes [OF assms(9,10), of 0 2] h(1) by simp
  then have fc: "skb_fc forged = Some (hdr_fc ?ph)"
    using h(1) by (simp add: skb_fc_def get_le16_def hdr_fc_def)
  have "length (skb_bytes forged) = skb_len forged" using assms(9) by (simp add: skb_bytes_def skb_wf_def)
  then have len: "skb_len forged = length hdr + (8 + length cs)" using assms(10,11) h(2) by (simp add: tkip_frame_def)
  have "crypto_tkip_decrypt ops crc (Some tfm) key (Some ta) status queue forged = Some (RX_DROP_UNUSABLE, None, key', garbage)"
    using h fc len d assms(7,8,11) by (simp add: crypto_tkip_decrypt_def payload_length_def TKIP_DECRYPT_OK_def tkip_frame_def)
  moreover have "tkip_frame key' iv2 cs2" using assms(16) k(1) by (simp add: tkip_frame_def)
  ultimately show ?thesis
    using tkip_decrypt_data_frame [OF _ r2 refl _ n(2) assms(15,14), of crc "Some tfm"] assms(5) k h(2) by auto
qed

definition tfm_const :: "u8 cipher_ops" where
  "tfm_const = tfm_ex\<lparr>setkey := (\<lambda>_. 0)\<rparr>"

definition iv_ex :: "u8 \<Rightarrow> u8 \<Rightarrow> u8 list" where
  "iv_ex hi iv32 = [hi, 0x20, 0, 0x60, iv32, 0, 0, 0]"

lemma iv_ex_props: "iv_of (iv_ex hi iv32) = (ucast iv32, push_bit 8 (ucast hi))" "length cs \<ge> 4 \<Longrightarrow> tkip_frame (tkip_key_ex st) (iv_ex hi iv32) cs"
  by (auto simp: iv_of_def iv_ex_def le32_at_def le32_def tkip_frame_def tkip_key_ex_fields drop_bit_eq_div)

lemma garbage_ex:
  "\<exists>g. wep_decrypt_data (\<lambda>_ _. 7) (Some tfm_const) k 32 0 (packet_ex (protect_hdr hdr_ex @ iv_ex 0 1 @ [9, 9, 9, 9])) = Some (False, g)"
proof -
  have l: "length (protect_hdr hdr_ex @ iv_ex 0 1) = 32" by (simp add: hdr_ex_props iv_ex_def)
  have "wep_decrypt_data (\<lambda>_ _. 7) (Some tfm_const) k 32 0 (skb_mk s pre (as @ [9, 9, 9, 9]) post) =
    Some (False, skb_mk s pre (as @ [9, 8, 11, 10]) post)" if "length as = 32" for as s pre post
    using that by (simp add: wep_decrypt_data_def skb_load_mk skb_store_mk overwrite_def tfm_const_def tfm_ex_def le32_bytes_def)
  from this [OF l] show ?thesis by (simp add: packet_ex_def)
qed

theorem tkip_forged_frame_poisons_key_witness:
  "\<exists>garbage key'. crypto_tkip_decrypt fops_ex (\<lambda>_ _. 7) (Some tfm_const) (tkip_key_ex TKIP_STATE_PHASE1_DONE) (Some [2, 2, 2, 2, 2, 2]) status_ex 0
      (packet_ex (protect_hdr hdr_ex @ iv_ex 0 1 @ [9, 9, 9, 9])) = Some (RX_DROP_UNUSABLE, None, key', garbage) \<and>
    tkip_decrypt_data (\<lambda>_ _. 7) (Some tfm_const) key' (length hdr_ex) (8 + length [9, 9, 9, 9, 9 :: u8]) [2, 2, 2, 2, 2, 2] False 0
        (packet_ex (protect_hdr hdr_ex @ iv_ex 1 0 @ [9, 9, 9, 9, 9])) =
      map_option (\<lambda>(ok, skb). (if ok then TKIP_DECRYPT_OK else -1, if ok then Some (iv_of (iv_ex 1 0)) else None, key', skb))
        (wep_decrypt_data (\<lambda>_ _. 7) (Some tfm_const)
          (phase2 (kc_key (ky_conf (tkip_key_ex TKIP_STATE_PHASE1_DONE))) (phase1 (kc_key (ky_conf (tkip_key_ex TKIP_STATE_PHASE1_DONE)))
             [2, 2, 2, 2, 2, 2] (fst (iv_of (iv_ex 0 1)))) (snd (iv_of (iv_ex 1 0))))
          (length hdr_ex + 8) (length [9, 9, 9, 9, 9 :: u8] - 4) (packet_ex (protect_hdr hdr_ex @ iv_ex 1 0 @ [9, 9, 9, 9, 9])))"
proof -
  obtain g where g: "wep_decrypt_data (\<lambda>_ _. 7) (Some tfm_const)
      (phase2 (kc_key (ky_conf (tkip_key_ex TKIP_STATE_PHASE1_DONE))) (phase1 (kc_key (ky_conf (tkip_key_ex TKIP_STATE_PHASE1_DONE)))
         [2, 2, 2, 2, 2, 2] (fst (iv_of (iv_ex 0 1)))) (snd (iv_of (iv_ex 0 1))))
      (length hdr_ex + 8) (length [9, 9, 9, 9 :: u8] - 4) (packet_ex (protect_hdr hdr_ex @ iv_ex 0 1 @ [9, 9, 9, 9])) = Some (False, g)"
    using garbage_ex by (auto simp: hdr_ex_props)
  show ?thesis
    by (rule exI [of _ g], rule tkip_forged_frame_poisons_key [OF frame_hdr_ex _ _ _ _ _ _ _ _ _ _ _ g])
      (simp_all add: hdr_ex_props tkip_key_ex_fields status_ex_def packet_ex_props iv_ex_props)
qed

end
