(* ===== verification/CCMP_Props.thy ===== *)
theory CCMP_Props
  imports CCMP TKIP_Props
begin

text \<open>
  Properties of CCMP and GCMP: packet numbers as numbers of 48 bits, what the blocks of a frame depend on, the
  round trip of a packet, and that of the frames accepted on a queue the packet numbers go up. The
  interface of a mode is a locale, with the two modes of the code as its interpretations.
\<close>

section \<open>Packet numbers\<close>

definition pn_val :: "u8 list \<Rightarrow> nat" where
  "pn_val pn = foldl (\<lambda>n b. n * 256 + unat b) 0 pn"

lemma pn_val_snoc: "foldl (\<lambda>n b. n * 256 + unat (b :: u8)) m bs = m * 256 ^ length bs + pn_val bs"
proof (induction bs rule: rev_induct)
  case (snoc b bs)
  then show ?case by (simp add: pn_val_def algebra_simps)
qed (simp add: pn_val_def)

lemma pn_val_Cons [simp]: "pn_val (b # bs) = unat b * 256 ^ length bs + pn_val bs"
  using pn_val_snoc [of "unat b" bs] by (simp add: pn_val_def)

lemma unat_u8: "unat (b :: u8) < 256"
proof -
  have "unat b < 2 ^ LENGTH(8)" by (rule unsigned_less)
  then show ?thesis by simp
qed

lemma pn_val_bound: "pn_val bs < 256 ^ length bs"
proof (induction bs)
  case (Cons b bs)
  have "unat b * 256 ^ length bs \<le> 255 * 256 ^ length bs" using unat_u8 [of b] by (intro mult_right_mono; linarith)
  with Cons show ?case by (simp, linarith)
qed (simp add: pn_val_def)

lemma memcmp_le: "length as = length bs \<Longrightarrow> memcmp as bs \<le> 0 \<longleftrightarrow> pn_val as \<le> pn_val bs"
proof (induction as bs rule: list_induct2)
  case (Cons a as b bs)
  let ?m = "256 ^ length as :: nat"
  have bnd: "pn_val as < ?m" "pn_val bs < ?m" using pn_val_bound [of as] pn_val_bound [of bs] Cons.hyps by simp_all
  consider "a = b" | "unat a + 1 \<le> unat b" | "unat b + 1 \<le> unat a"
    using word_unat_eq_iff [of a b] by linarith
  then show ?case
  proof cases
    case 1
    then show ?thesis using Cons by simp
  next
    case 2
    then have "(unat a + 1) * ?m \<le> unat b * ?m" by (rule mult_right_mono) simp
    moreover have "a < b" "a \<noteq> b" using 2 by (auto simp: word_less_nat_alt)
    ultimately show ?thesis using bnd Cons.hyps by simp
  next
    case 3
    then have "(unat b + 1) * ?m \<le> unat a * ?m" by (rule mult_right_mono) simp
    moreover have "b < a" using 3 by (simp add: word_less_nat_alt)
    ultimately show ?thesis using bnd Cons.hyps by auto
  qed
qed simp

lemma length_pn [simp]: "length (pn_of_u64 w) = 6" "length (pn2hdr pn k) = 8" "length (hdr2pn h) = 6"
  by (simp_all add: pn_of_u64_def pn2hdr_def hdr2pn_def)

lemma hdr2pn_pn2hdr: "length pn = 6 \<Longrightarrow> hdr2pn (pn2hdr pn k) = pn"
  by (rule nth_equalityI) (auto simp: hdr2pn_def pn2hdr_def less_Suc_eq numeral_eq_Suc)

section \<open>Blocks of a header\<close>

definition pn_hdr :: "frame_ops \<Rightarrow> u8 list \<Rightarrow> bool" where
  "pn_hdr ops hdr \<longleftrightarrow> 24 \<le> length hdr \<and> length hdr \<le> 32 \<and> (has_a4 ops (hdr_fc hdr) \<longrightarrow> 30 \<le> length hdr) \<and>
     (is_data_qos ops (hdr_fc hdr) \<longrightarrow> qos_ctl_off ops (hdr_fc hdr) < length hdr) \<and> ieee80211_hdrlen ops (hdr_fc hdr) = length hdr"

lemma skb_load_hdr: "i + n \<le> length hdr \<Longrightarrow> skb_load i n (skb_mk s pre (hdr @ bs) post) = Some (take n (drop i hdr))"
  by (simp add: skb_load_mk)

lemma skb_get_hdr: "i < length hdr \<Longrightarrow> skb_get i (skb_mk s pre (hdr @ bs) post) = Some (hdr ! i)"
  by (simp add: skb_get_def head_get_def nth_append)

lemma aad_ok:
  assumes "2 \<le> n" "n \<le> 32" "length as = 30"
  shows "\<exists>assoc. aad_data (rev (le16_bytes (of_nat n - 2)) @ as) = Some assoc"
proof -
  have eq: "of_nat n - 2 = (of_nat (n - 2) :: u16)" using assms(1) by (simp add: of_nat_diff)
  have "(n - 2) mod 65536 = n - 2" using assms(2) by (intro mod_less) simp
  then have "unat (of_nat n - 2 :: u16) = n - 2" by (simp only: eq unat_of_nat) simp
  then show ?thesis
    using assms by (simp add: aad_data_def le16_bytes_def le16_roundtrip Let_def)
qed

lemma blocks_hdr:
  assumes "pn_hdr ops hdr" and "mode = ccmp_mode n \<or> mode = gcmp_mode"
  shows "\<exists>b aad assoc. aad_data aad = Some assoc \<and> (\<forall>s pre bs post. am_blocks mode ops pn (skb_mk s pre (hdr @ bs) post) = Some (b, aad))"
proof -
  let ?fc = "hdr_fc hdr"
  define tid where "tid = (if is_data_qos ops ?fc then hdr ! qos_ctl_off ops ?fc AND QOS_CTL_TID_MASK else 0)"
  define tail where "tail = (if has_a4 ops ?fc then take 6 (drop 24 hdr) @ [tid, 0] else tid # replicate 7 0)"
  define aad where "aad = rev (le16_bytes (of_nat (ieee80211_hdrlen ops ?fc) - 2)) @ le16_bytes (mask_fc ops ?fc) @ take 18 (drop 4 hdr) @ [hdr ! 22 AND 0x0f, 0] @ tail"
  have len: "24 \<le> length hdr" "length hdr \<le> 32" "has_a4 ops ?fc \<Longrightarrow> 30 \<le> length hdr"
    "is_data_qos ops ?fc \<Longrightarrow> qos_ctl_off ops ?fc < length hdr" "ieee80211_hdrlen ops ?fc = length hdr" "2 \<le> length hdr"
    using assms(1) by (simp_all add: pn_hdr_def)
  have "length (le16_bytes (mask_fc ops ?fc) @ take 18 (drop 4 hdr) @ [hdr ! 22 AND 0x0f, 0] @ tail) = 30"
    using len by (cases "has_a4 ops ?fc") (simp_all add: tail_def)
  then have "\<exists>assoc. aad_data aad = Some assoc"
    using aad_ok len unfolding aad_def by simp
  moreover have fc: "skb_fc (skb_mk s pre (hdr @ bs) post) = Some ?fc" for s pre bs post
    using skb_fc_mk len by simp
  moreover have tid: "qos_tid ops ?fc (skb_mk s pre (hdr @ bs) post) = Some tid" for s pre bs post
    using len(4) by (simp add: qos_tid_def tid_def skb_get_hdr)
  moreover have aad: "special_aad ops ?fc tid (skb_mk s pre (hdr @ bs) post) = Some aad" for s pre bs post
    using len(1,3) by (simp add: special_aad_def aad_def tail_def skb_get_hdr skb_load_hdr)
  moreover have "skb_load 10 6 (skb_mk s pre (hdr @ bs) post) = Some (take 6 (drop 10 hdr))" for s pre bs post
    using len(1) by (simp add: skb_load_hdr)
  ultimately show ?thesis
    using assms(2) by (auto simp: ccmp_mode_def gcmp_mode_def ccmp_special_blocks_def gcmp_special_blocks_def)
qed

lemma moved_mk: "mode = ccmp_mode n \<or> mode = gcmp_mode \<Longrightarrow> \<exists>s'. am_moved mode (skb_mk s pre bs post) = skb_mk s' pre bs post"
  by (auto simp: ccmp_mode_def gcmp_mode_def skb_set_network_header_def skb_mk_def
      intro: exI [of _ s] exI [of _ "s\<lparr>skb_network_header := nat (int (skb_network_header s) + 8)\<rparr>"])

section \<open>Replays\<close>

definition aead_sane :: "aead_ops \<Rightarrow> bool" where
  "aead_sane tfm \<longleftrightarrow> (\<forall>iv a ct mic. length (snd (aead_decrypt tfm iv a ct mic)) = length ct)"

definition carries_pn :: "frame_ops \<Rightarrow> sk_buff \<Rightarrow> bool" where
  "carries_pn ops skb \<longleftrightarrow> is_data ops (hdr_fc (skb_bytes skb)) \<or> is_robust_mgmt_frame ops (skb_bytes skb)"

definition frame_hdrlen :: "frame_ops \<Rightarrow> sk_buff \<Rightarrow> nat" where
  "frame_hdrlen ops skb = ieee80211_hdrlen ops (hdr_fc (skb_bytes skb))"

definition frame_pn :: "frame_ops \<Rightarrow> sk_buff \<Rightarrow> u8 list" where
  "frame_pn ops skb = hdr2pn (take 8 (drop (frame_hdrlen ops skb) (skb_bytes skb)))"

definition rx_ok :: "frame_ops \<Rightarrow> sk_buff \<Rightarrow> bool" where
  "rx_ok ops skb \<longleftrightarrow> skb_wf skb \<and> 2 \<le> skb_len skb \<and>
     (carries_pn ops skb \<and> frame_hdrlen ops skb + 8 \<le> skb_len skb \<longrightarrow> pn_hdr ops (take (frame_hdrlen ops skb) (skb_bytes skb)))"

lemma skb_len_bytes: "skb_wf skb \<Longrightarrow> length (skb_bytes skb) = skb_len skb"
  by (simp add: skb_bytes_def skb_wf_def)

lemma skb_fc_bytes: "skb_wf skb \<Longrightarrow> 2 \<le> skb_len skb \<Longrightarrow> skb_fc skb = Some (hdr_fc (skb_bytes skb))"
  using skb_load_bytes [OF _ refl, of skb 0 2] skb_len_bytes [of skb]
  by (simp add: skb_fc_def get_le16_def hdr_fc_def)

lemma strip_total:
  assumes "length as = 8"
  shows "\<exists>skb. close_gap 8 (length hdr) (skb_trim (length hdr + 8 + length pt) (skb_mk s pre (hdr @ as @ pt @ mic) post)) = Some skb"
proof -
  have "skb_trim (length hdr + 8 + length pt) (skb_mk s pre (hdr @ as @ pt @ mic) post) = skb_mk s pre (hdr @ as @ pt) (mic @ post)"
    using skb_trim_mk [of "hdr @ as @ pt" s pre mic post] assms by (simp add: add.assoc)
  with close_gap_mk [OF assms refl, of hdr s pre pt "mic @ post"] show ?thesis by auto
qed

lemma frame_parts:
  assumes "rx_ok ops skb" and "carries_pn ops skb" and "frame_hdrlen ops skb + 8 + m \<le> skb_len skb"
  obtains pre hdr as ct mic post where "skb = skb_mk skb pre (hdr @ as @ ct @ mic) post" "pn_hdr ops hdr" "frame_hdrlen ops skb = length hdr"
    "length as = 8" "length mic = m" "skb_bytes skb = hdr @ as @ ct @ mic" "frame_pn ops skb = hdr2pn as"
proof -
  let ?bs = "skb_bytes skb" and ?h = "frame_hdrlen ops skb"
  let ?n = "skb_len skb - (?h + 8 + m)"
  have wf: "skb_wf skb" "pn_hdr ops (take ?h ?bs)" using assms by (simp_all add: rx_ok_def)
  have len: "length ?bs = skb_len skb" using wf(1) by (rule skb_len_bytes)
  have bs: "?bs = take ?h ?bs @ take 8 (drop ?h ?bs) @ take ?n (drop (?h + 8) ?bs) @ drop (?h + 8 + ?n) ?bs"
    using append_take_drop_id [of ?h ?bs] append_take_drop_id [of 8 "drop ?h ?bs"] append_take_drop_id [of ?n "drop (?h + 8) ?bs"]
    by (simp add: add.commute)
  define hdr as ct mic where "hdr = take ?h ?bs" and "as = take 8 (drop ?h ?bs)" and "ct = take ?n (drop (?h + 8) ?bs)" and "mic = drop (?h + 8 + ?n) ?bs"
  note parts = bs [folded hdr_def as_def ct_def mic_def]
  have view: "skb = skb_mk skb (take (skb_data skb) (skb_buf skb)) (hdr @ as @ ct @ mic) (drop (skb_data skb + skb_len skb) (skb_buf skb))"
    using skb_view [OF wf(1)] parts by simp
  have "length hdr = ?h" "length as = 8" "length mic = m"
    using len assms(3) by (simp_all add: hdr_def as_def mic_def)
  moreover have "pn_hdr ops hdr" "frame_pn ops skb = hdr2pn as"
    using wf(2) by (simp_all add: hdr_def as_def frame_pn_def)
  ultimately show thesis using that [OF view] parts by simp
qed

definition rx_pn_ok :: "pn_key \<Rightarrow> bool" where
  "rx_pn_ok key \<longleftrightarrow> (\<forall>q. length (pk_rx_pn key q) = 6)"

section \<open>What the two modes share\<close>

text \<open>The proofs need two facts about a mode: its blocks depend on the header alone and fit into their buffer, and
  it does not touch the packet when it has made room.\<close>

locale aead_layer =
  fixes mode :: aead_mode
  assumes blocks: "pn_hdr ops hdr \<Longrightarrow> \<exists>b aad assoc. aad_data aad = Some assoc \<and>
      (\<forall>s pre bs post. am_blocks mode ops pn (skb_mk s pre (hdr @ bs) post) = Some (b, aad))"
    and moved: "\<exists>s'. am_moved mode (skb_mk s pre bs post) = skb_mk s' pre bs post"
begin

lemma seal_open:
  assumes "aead_correct tfm" and "pn_hdr ops hdr"
    and "length as = 8" and "length ts = am_mic_len mode" and "payload \<noteq> []"
  shows "\<exists>ct mic. length ct = length payload \<and> length mic = am_mic_len mode \<and>
    (\<forall>s pre post. aead_seal mode ops tfm pn (length hdr + 8) (length payload) (skb_mk s pre (hdr @ as @ payload) (ts @ post)) =
      Some (skb_mk s pre (hdr @ as @ ct @ mic) post)) \<and>
    (\<forall>s pre post. aead_open mode ops tfm pn (length hdr + 8) (length payload) (skb_mk s pre (hdr @ as @ ct @ mic) post) =
      Some (True, skb_mk s pre (hdr @ as @ payload @ mic) post))"
proof -
  let ?m = "am_mic_len mode"
  obtain b aad assoc where blocks: "aad_data aad = Some assoc" "\<And>s pre bs post. am_blocks mode ops pn (skb_mk s pre (hdr @ bs) post) = Some (b, aad)"
    using blocks [OF assms(2), of pn] by blast
  obtain ct mic where e: "aead_encrypt tfm b assoc payload ?m = (ct, mic)" by fastforce
  have c: "length ct = length payload" "length mic = ?m" "aead_decrypt tfm b assoc ct mic = (True, payload)"
    using assms(1) [unfolded aead_correct_def, rule_format, of b assoc payload ?m] by (simp_all add: e)
  have seal: "aead_seal mode ops tfm pn (length hdr + 8) (length payload) (skb_mk s pre (hdr @ as @ payload) (ts @ post)) =
      Some (skb_mk s pre (hdr @ as @ ct @ mic) post)" for s pre post
  proof -
    have "skb_load (length hdr + 8) (length payload) (skb_mk s pre (hdr @ as @ payload) (ts @ post)) = Some payload"
      using assms(3) by (simp add: skb_load_mk)
    moreover have "skb_put ?m (skb_mk s pre (hdr @ as @ payload) (ts @ post)) = Some (skb_mk s pre (hdr @ as @ payload @ ts) post)"
      using skb_put_mk [OF assms(4), of s pre "hdr @ as @ payload" post] by simp
    moreover have "skb_store (length hdr + 8) ct (skb_mk s pre (hdr @ as @ payload @ ts) post) = Some (skb_mk s pre (hdr @ as @ ct @ ts) post)"
      using assms(3,4) c overwrite_mid [of ct payload "hdr @ as" ts] by (simp add: skb_store_mk)
    moreover have "skb_store (length hdr + (8 + length payload)) mic (skb_mk s pre (hdr @ as @ ct @ ts) post) = Some (skb_mk s pre (hdr @ as @ ct @ mic) post)"
      using assms(3,4) c overwrite_mid [of mic ts "hdr @ as @ ct" "[]"] by (simp add: skb_store_mk)
    ultimately show ?thesis
      using blocks assms(3,4) c by (simp add: aead_seal_def aes_encrypt_def e del: skb_put_Some)
  qed
  have "aead_open mode ops tfm pn (length hdr + 8) (length payload) (skb_mk s pre (hdr @ as @ ct @ mic) post) =
      Some (True, skb_mk s pre (hdr @ as @ payload @ mic) post)" for s pre post
  proof -
    have "skb_load (length hdr + 8) (length payload) (skb_mk s pre (hdr @ as @ ct @ mic) post) = Some ct"
      using assms(3) c by (simp add: skb_load_mk)
    moreover have "skb_load (length hdr + (8 + length payload)) ?m (skb_mk s pre (hdr @ as @ ct @ mic) post) = Some mic"
      using assms(3) c by (simp add: skb_load_mk)
    moreover have "skb_store (length hdr + 8) payload (skb_mk s pre (hdr @ as @ ct @ mic) post) = Some (skb_mk s pre (hdr @ as @ payload @ mic) post)"
      using assms(3) c overwrite_mid [of payload ct "hdr @ as" mic] by (simp add: skb_store_mk)
    moreover have "ct \<noteq> []" using c(1) assms(5) by auto
    ultimately show ?thesis
      using blocks assms(3) c by (simp add: aead_open_def aes_decrypt_def)
  qed
  with seal c show ?thesis by blast
qed

lemma pn_roundtrip_mk:
  assumes "aead_correct tfm" and hdr: "pn_hdr ops hdr" "is_data ops (hdr_fc hdr)"
    and room: "length hs = 8" "length ts = am_mic_len mode" and pl: "payload \<noteq> []"
    and pn: "pn = pn_of_u64 (pk_tx_pn key + 1)" and fresh: "0 < memcmp pn (pk_rx_pn rkey queue)"
    and st: "\<not> st_decrypted status" "st_linearize_ok status" "st_trim_ok status"
  shows "\<exists>sent received. pn_encrypt_skb mode ops tfm None key (skb_mk s (pre @ hs) (hdr @ payload) (ts @ post)) =
      Some (True, key\<lparr>pk_tx_pn := pk_tx_pn key + 1\<rparr>, sent) \<and> skb_len sent = length hdr + length payload + 8 + am_mic_len mode \<and>
    crypto_pn_decrypt mode ops tfm rkey True status queue sent =
      Some (RX_CONTINUE, rkey\<lparr>pk_rx_pn := (pk_rx_pn rkey)(queue := pn)\<rparr>, received) \<and> skb_bytes received = hdr @ payload"
proof -
  let ?m = "am_mic_len mode" and ?as = "pn2hdr pn (kc_keyidx (pk_conf key))"
  have h: "2 \<le> length hdr" "ieee80211_hdrlen ops (hdr_fc hdr) = length hdr" using hdr(1) by (simp_all add: pn_hdr_def)
  obtain gap where gap: "length gap = 8" "open_gap 8 (length hdr) (skb_mk s (pre @ hs) (hdr @ payload) (ts @ post)) =
      Some (skb_mk s pre (hdr @ gap @ payload) (ts @ post))"
    using open_gap_mk [OF room(1) refl, of hdr s pre payload "ts @ post"] by blast
  obtain s' where moved: "am_moved mode (skb_mk s pre (hdr @ gap @ payload) (ts @ post)) = skb_mk s' pre (hdr @ gap @ payload) (ts @ post)"
    using moved [of s pre "hdr @ gap @ payload" "ts @ post"] by blast
  have store: "skb_store (length hdr) ?as (skb_mk s' pre (hdr @ gap @ payload) (ts @ post)) = Some (skb_mk s' pre (hdr @ ?as @ payload) (ts @ post))"
    using gap(1) overwrite_mid [of ?as gap hdr payload] by (simp add: skb_store_mk)
  obtain ct mic where c: "length ct = length payload" "length mic = ?m"
    "\<And>s pre post. aead_seal mode ops tfm pn (length hdr + 8) (length payload) (skb_mk s pre (hdr @ ?as @ payload) (ts @ post)) =
      Some (skb_mk s pre (hdr @ ?as @ ct @ mic) post)"
    "\<And>s pre post. aead_open mode ops tfm pn (length hdr + 8) (length payload) (skb_mk s pre (hdr @ ?as @ ct @ mic) post) =
      Some (True, skb_mk s pre (hdr @ ?as @ payload @ mic) post)"
    using seal_open [OF assms(1) hdr(1) _ room(2) pl, of ?as pn] by auto
  let ?sent = "skb_mk s' pre (hdr @ ?as @ ct @ mic) post"
  have enc: "pn_encrypt_skb mode ops tfm None key (skb_mk s (pre @ hs) (hdr @ payload) (ts @ post)) =
      Some (True, key\<lparr>pk_tx_pn := pk_tx_pn key + 1\<rparr>, ?sent)"
    using h room gap(2) moved store c(3) by (simp add: pn_encrypt_skb_def hw_alone_def skb_fc_mk pn [symmetric])
  have load: "skb_load (length hdr) 8 ?sent = Some ?as" by (simp add: skb_load_mk)
  have inv: "hdr2pn ?as = pn" by (simp add: hdr2pn_pn2hdr pn)
  have trim: "skb_trim k (skb_mk s' pre (hdr @ ?as @ payload @ mic) post) = skb_mk s' pre (hdr @ ?as @ payload) (mic @ post)"
    if "k = length hdr + (8 + length payload)" for k
    using skb_trim_mk [of "hdr @ ?as @ payload" s' pre mic post] that by simp
  obtain ns where ns: "close_gap 8 (length hdr) (skb_mk s' pre (hdr @ ?as @ payload) (mic @ post)) = Some (skb_mk s' (pre @ ns) (hdr @ payload) (mic @ post))"
    using close_gap_mk [of ?as 8 hdr "length hdr" s' pre payload "mic @ post"] by auto
  have "crypto_pn_decrypt mode ops tfm rkey True status queue ?sent =
      Some (RX_CONTINUE, rkey\<lparr>pk_rx_pn := (pk_rx_pn rkey)(queue := pn)\<rparr>, skb_mk s' (pre @ ns) (hdr @ payload) (mic @ post))"
    using h hdr(2) st load inv fresh c ns trim
    by (simp add: crypto_pn_decrypt_def pn_verify_def skb_fc_mk Let_def)
  with enc c(1,2) show ?thesis by (intro exI conjI) (assumption | simp)+
qed

lemma open_total:
  assumes "aead_sane tfm" and "pn_hdr ops hdr"
    and "length as = 8" and "length mic = am_mic_len mode"
  shows "\<exists>ok pt. length pt = length ct \<and> aead_open mode ops tfm pn (length hdr + 8) (length ct) (skb_mk s pre (hdr @ as @ ct @ mic) post) =
    Some (ok, skb_mk s pre (hdr @ as @ pt @ mic) post)"
proof -
  obtain b aad assoc where blocks: "aad_data aad = Some assoc" "\<And>s pre bs post. am_blocks mode ops pn (skb_mk s pre (hdr @ bs) post) = Some (b, aad)"
    using blocks [OF assms(2), of pn] by blast
  obtain ok pt where d: "aes_decrypt tfm b aad ct mic = Some (ok, pt)" "length pt = length ct"
  proof (cases "ct = []")
    case False
    obtain ok pt where "aead_decrypt tfm b assoc ct mic = (ok, pt)" by fastforce
    moreover from this have "length pt = length ct" using assms(1) unfolding aead_sane_def by (metis snd_conv)
    ultimately show thesis using that False blocks by (simp add: aes_decrypt_def)
  next
    case True
    then show thesis using that [where ok = False and pt = "[]"] by (simp add: aes_decrypt_def)
  qed
  have "skb_load (length hdr + 8) (length ct) (skb_mk s pre (hdr @ as @ ct @ mic) post) = Some ct"
    using assms(3) by (simp add: skb_load_mk)
  moreover have "skb_load (length hdr + (8 + length ct)) (am_mic_len mode) (skb_mk s pre (hdr @ as @ ct @ mic) post) = Some mic"
    using assms(3,4) by (simp add: skb_load_mk)
  moreover have "skb_store (length hdr + 8) pt (skb_mk s pre (hdr @ as @ ct @ mic) post) = Some (skb_mk s pre (hdr @ as @ pt @ mic) post)"
    using assms(3) d overwrite_mid [of pt ct "hdr @ as" mic] by (simp add: skb_store_mk)
  ultimately have "aead_open mode ops tfm pn (length hdr + 8) (length ct) (skb_mk s pre (hdr @ as @ ct @ mic) post) =
      Some (ok, skb_mk s pre (hdr @ as @ pt @ mic) post)"
    using blocks assms(3,4) d by (simp add: aead_open_def)
  with d(2) show ?thesis by blast
qed

text \<open>One received frame: either the counters stay and no payload is handed on, or the packet number of the
  frame is higher than the counter and becomes the counter.\<close>

lemma decrypt_step:
  assumes "rx_ok ops skb" and "rx_pn_ok key" and "aead_sane tfm"
  shows "\<exists>r key' skb'. crypto_pn_decrypt mode ops tfm key sta status q skb = Some (r, key', skb') \<and>
    (pk_rx_pn key' = pk_rx_pn key \<and> \<not> (r = RX_CONTINUE \<and> carries_pn ops skb) \<or>
     pn_val (pk_rx_pn key q) < pn_val (frame_pn ops skb) \<and> pk_rx_pn key' = (pk_rx_pn key)(q := frame_pn ops skb))"
proof -
  let ?m = "am_mic_len mode" and ?h = "frame_hdrlen ops skb"
  have wf: "skb_wf skb" "2 \<le> skb_len skb" using assms(1) by (simp_all add: rx_ok_def)
  note fc = skb_fc_bytes [OF wf]
  note d = crypto_pn_decrypt_def fc frame_hdrlen_def [symmetric] Let_def carries_pn_def [symmetric]
  show ?thesis
  proof (cases "carries_pn ops skb \<and> sta \<and> ?h + 8 + ?m \<le> skb_len skb \<and>
      (if st_decrypted status then st_may_pull_ok status else st_linearize_ok status)")
    case False
    then show ?thesis by (cases "carries_pn ops skb") (auto simp: crypto_pn_decrypt_def fc frame_hdrlen_def Let_def carries_pn_def split: if_splits)
  next
    case True
    then obtain pre hdr as ct mic post where v: "skb = skb_mk skb pre (hdr @ as @ ct @ mic) post" and p: "pn_hdr ops hdr" "?h = length hdr"
      "length as = 8" "length mic = ?m" "skb_bytes skb = hdr @ as @ ct @ mic" "frame_pn ops skb = hdr2pn as"
      using frame_parts [OF assms(1)] by (metis (no_types, lifting))
    have len: "skb_len skb = length hdr + (8 + (length ct + ?m))" using skb_len_bytes [OF wf(1)] p by simp
    have load: "skb_load (length hdr) 8 skb = Some as" using skb_load_bytes [OF wf(1) p(5), of "length hdr" 8] p by simp
    obtain ok pt where o: "length pt = length ct" "pn_verify mode ops tfm status (hdr2pn as) (length hdr + 8) (length ct) skb =
        Some (ok, skb_mk skb pre (hdr @ as @ pt @ mic) post)"
    proof (cases "st_decrypted status")
      case True
      then show thesis using that [of ct True] v by (simp add: pn_verify_def)
    next
      case False
      obtain ok pt where "length pt = length ct" "aead_open mode ops tfm (hdr2pn as) (length hdr + 8) (length ct) (skb_mk skb pre (hdr @ as @ ct @ mic) post) =
          Some (ok, skb_mk skb pre (hdr @ as @ pt @ mic) post)"
        using open_total [OF assms(3) p(1) p(3,4), of ct "hdr2pn as" skb pre post] by blast
      then show thesis using that [of pt ok] False v by (simp add: pn_verify_def)
    qed
    obtain skb' where s: "close_gap 8 (length hdr) (skb_trim (length hdr + 8 + length ct) (skb_mk skb pre (hdr @ as @ pt @ mic) post)) = Some skb'"
      using strip_total [OF p(3), of hdr pt skb pre mic post] o(1) by auto
    have le: "memcmp (hdr2pn as) (pk_rx_pn key q) \<le> 0 \<longleftrightarrow> pn_val (hdr2pn as) \<le> pn_val (pk_rx_pn key q)"
      using assms(2) by (intro memcmp_le) (simp add: rx_pn_ok_def)
    have n: "skb_len skb - length hdr - 8 - ?m = length ct" "length (hdr @ as @ pt @ mic) - ?m = length hdr + 8 + length ct"
      using len p o(1) by simp_all
    have chk: "carries_pn ops skb" "sta" "\<not> skb_len skb < length hdr + 8 + ?m" "\<not> (if st_decrypted status then \<not> st_may_pull_ok status else \<not> st_linearize_ok status)"
      using True p(2) by (auto split: if_splits)
    have "crypto_pn_decrypt mode ops tfm key sta status q skb =
      (if pn_val (hdr2pn as) \<le> pn_val (pk_rx_pn key q) then Some (RX_DROP_UNUSABLE, key\<lparr>pk_replays := pk_replays key + 1\<rparr>, skb)
       else if \<not> ok then Some (RX_DROP_UNUSABLE, key, skb_mk skb pre (hdr @ as @ pt @ mic) post)
       else if \<not> st_trim_ok status then Some (RX_DROP_UNUSABLE, key\<lparr>pk_rx_pn := (pk_rx_pn key)(q := hdr2pn as)\<rparr>, skb_mk skb pre (hdr @ as @ pt @ mic) post)
       else Some (RX_CONTINUE, key\<lparr>pk_rx_pn := (pk_rx_pn key)(q := hdr2pn as)\<rparr>, skb'))"
      using chk load o(2) s le n p(2) by (simp add: d de_Morgan_disj [symmetric] del: de_Morgan_disj length_append)
    with p(6) show ?thesis by (auto split: if_splits)
  qed
qed

end

interpretation ccmp: aead_layer "ccmp_mode n" for n
  by unfold_locales (rule blocks_hdr [where mode = "ccmp_mode n" and n = n] moved_mk [where mode = "ccmp_mode n" and n = n], simp_all)+

interpretation gcmp: aead_layer gcmp_mode
  by unfold_locales (rule blocks_hdr [where mode = gcmp_mode and n = 0] moved_mk [where mode = gcmp_mode and n = 0], simp_all)+

lemma aead_layer_mode: "mode = ccmp_mode n \<or> mode = gcmp_mode \<Longrightarrow> aead_layer mode"
  using ccmp.aead_layer_axioms gcmp.aead_layer_axioms by blast

section \<open>Properties\<close>

text \<open>C16. What CCMP or GCMP encrypts with the next packet number a receiver with the same key and a lower counter
  accepts: it gets the header and the payload back and its counter becomes that number. The
  payload must not be empty; the code refuses to decrypt an empty one.\<close>

theorem pn_roundtrip:
  assumes "mode = ccmp_mode mic_len \<or> mode = gcmp_mode" and "aead_correct tfm" and "2 \<le> length hdr" and "pn_hdr ops (protect_hdr hdr)"
    and "is_data ops (hdr_fc (protect_hdr hdr))" and "payload \<noteq> []" and "skb_bytes skb = hdr @ payload" and "can_encapsulate 8 (am_mic_len mode) skb"
    and "pn = pn_of_u64 (pk_tx_pn key + 1)" and "0 < memcmp pn (pk_rx_pn rkey queue)"
    and "\<not> st_decrypted status" and "st_linearize_ok status" and "st_trim_ok status"
  shows "\<exists>sent received.
    crypto_pn_encrypt mode ops tfm None key [skb] = Some (TX_CONTINUE, key\<lparr>pk_tx_pn := pk_tx_pn key + 1\<rparr>, [sent]) \<and>
    skb_len sent = skb_len skb + 8 + am_mic_len mode \<and>
    crypto_pn_decrypt mode ops tfm rkey True status queue sent =
      Some (RX_CONTINUE, rkey\<lparr>pk_rx_pn := (pk_rx_pn rkey)(queue := pn)\<rparr>, received) \<and>
    skb_bytes received = protect_hdr hdr @ payload"
proof -
  obtain pre hs ts post where v: "skb = skb_mk skb (pre @ hs) (hdr @ payload) (ts @ post)" and room: "length hs = 8" "length ts = am_mic_len mode"
    using can_encapsulateE [OF assms(8,7)] by blast
  obtain sent received where r: "pn_encrypt_skb mode ops tfm None key (skb_mk skb (pre @ hs) (protect_hdr hdr @ payload) (ts @ post)) =
      Some (True, key\<lparr>pk_tx_pn := pk_tx_pn key + 1\<rparr>, sent)" "skb_len sent = length (protect_hdr hdr) + length payload + 8 + am_mic_len mode"
    "crypto_pn_decrypt mode ops tfm rkey True status queue sent =
      Some (RX_CONTINUE, rkey\<lparr>pk_rx_pn := (pk_rx_pn rkey)(queue := pn)\<rparr>, received)" "skb_bytes received = protect_hdr hdr @ payload"
    using aead_layer.pn_roundtrip_mk [OF aead_layer_mode [OF assms(1)] assms(2,4,5) room assms(6,9-13), of skb pre post] by blast
  have "set_protected skb = Some (skb_mk skb (pre @ hs) (protect_hdr hdr @ payload) (ts @ post))"
    using set_protected_mk [OF assms(3), of skb "pre @ hs" payload "ts @ post"] by (simp only: v [symmetric])
  with r(1) have "crypto_pn_encrypt mode ops tfm None key [skb] = Some (TX_CONTINUE, key\<lparr>pk_tx_pn := pk_tx_pn key + 1\<rparr>, [sent])"
    by (simp add: crypto_pn_encrypt_def tx_set_protected_def)
  moreover have "skb_len skb = length hdr + length payload" using v by (metis length_append skb_mk_fields(3))
  ultimately show ?thesis using r(2-4) assms(3) by auto
qed

fun pn_run ::
  "aead_mode \<Rightarrow> frame_ops \<Rightarrow> aead_ops \<Rightarrow> pn_key \<Rightarrow> (bool \<times> rx_status \<times> nat \<times> sk_buff) list \<Rightarrow> (pn_key \<times> (nat \<times> u8 list) list) option" where
  "pn_run mode ops tfm key [] = Some (key, [])"
| "pn_run mode ops tfm key ((sta, status, q, skb) # fs) =
     do {
       (r, key, _) \<leftarrow> crypto_pn_decrypt mode ops tfm key sta status q skb;
       (key, acc) \<leftarrow> pn_run mode ops tfm key fs;
       Some (key, if r = RX_CONTINUE \<and> carries_pn ops skb then (q, frame_pn ops skb) # acc else acc)
     }"

definition accepted_on :: "nat \<Rightarrow> (nat \<times> u8 list) list \<Rightarrow> nat list" where
  "accepted_on q acc = map (pn_val \<circ> snd) (filter (\<lambda>a. fst a = q) acc)"

text \<open>C15. Whatever frames arrive, on every queue the packet numbers of the accepted frames go up strictly and start
  above the counter: no frame is accepted twice. The frames (\<open>rx_ok\<close>) are any in a well-formed buffer, with at least two bytes; excluded
  are frames that carry a packet number behind a header that is too short for its own fields, or has 36 bytes, which the code does not handle.\<close>

theorem pn_replays_rejected:
  assumes "mode = ccmp_mode mic_len \<or> mode = gcmp_mode" and "aead_sane tfm" and "rx_pn_ok key" and "\<forall>f\<in>set fs. rx_ok ops (snd (snd (snd f)))"
  shows "\<exists>key' acc. pn_run mode ops tfm key fs = Some (key', acc) \<and> (\<forall>q. sorted_wrt (<) (pn_val (pk_rx_pn key q) # accepted_on q acc))"
  using assms(3,4)
proof (induction fs arbitrary: key)
  case Nil
  then show ?case by (simp add: accepted_on_def)
next
  case (Cons f fs)
  obtain sta status q skb where f: "f = (sta, status, q, skb)" by (cases f) auto
  then obtain r key1 skb1 where d: "crypto_pn_decrypt mode ops tfm key sta status q skb = Some (r, key1, skb1)"
    "pk_rx_pn key1 = pk_rx_pn key \<and> \<not> (r = RX_CONTINUE \<and> carries_pn ops skb) \<or>
     pn_val (pk_rx_pn key q) < pn_val (frame_pn ops skb) \<and> pk_rx_pn key1 = (pk_rx_pn key)(q := frame_pn ops skb)"
    using aead_layer.decrypt_step [OF aead_layer_mode [OF assms(1)] _ Cons.prems(1) assms(2)] Cons.prems(2) by (metis list.set_intros(1) snd_conv)
  have "rx_pn_ok key1" using d(2) Cons.prems(1) by (auto simp: rx_pn_ok_def frame_pn_def)
  then obtain key' acc where r: "pn_run mode ops tfm key1 fs = Some (key', acc)" "\<And>p. sorted_wrt (<) (pn_val (pk_rx_pn key1 p) # accepted_on p acc)"
    using Cons.IH Cons.prems(2) by force
  have "sorted_wrt (<) (pn_val (pk_rx_pn key p) #
      accepted_on p (if r = RX_CONTINUE \<and> carries_pn ops skb then (q, frame_pn ops skb) # acc else acc))" for p
    using d(2) r(2) [of p] by (auto simp: accepted_on_def)
  with f d(1) r(1) show ?case by simp
qed

section \<open>Examples\<close>

definition aead_ex :: aead_ops where
  "aead_ex = \<lparr>aead_encrypt = (\<lambda>iv a pt n. (map (\<lambda>b. b XOR 0x55) pt, replicate n (foldr (XOR) (iv @ a @ pt) 0))),
     aead_decrypt = (\<lambda>iv a ct mic. let pt = map (\<lambda>b. b XOR 0x55) ct in (mic = replicate (length mic) (foldr (XOR) (iv @ a @ pt) 0), pt))\<rparr>"

lemma aead_ex_ok: "aead_correct aead_ex" "aead_sane aead_ex"
  by (simp_all add: aead_correct_def aead_sane_def aead_ex_def Let_def comp_def xor.assoc)

definition pn_key_ex :: pn_key where
  "pn_key_ex = \<lparr>pk_conf = key_ex CIPHER_CCMP (replicate 16 7), pk_tx_pn = 2, pk_rx_pn = (\<lambda>_. [0, 0, 0, 0, 0, 0]), pk_replays = 0\<rparr>"

definition pn_frame_ex :: sk_buff where
  "pn_frame_ex = packet_ex (protect_hdr hdr_ex @ pn2hdr (pn_of_u64 3) 1 @ replicate 12 9)"

lemma pn_hdr_ex: "pn_hdr fops_ex hdr_ex" "pn_hdr fops_ex (protect_hdr hdr_ex)"
  by (simp_all add: pn_hdr_def hdr_ex_props) (simp_all add: fops_ex_def)

lemma pn_frame_ex_ok: "rx_ok fops_ex pn_frame_ex"
  by (simp add: rx_ok_def pn_frame_ex_def packet_ex_props frame_hdrlen_def hdr_ex_props)
    (simp add: packet_ex_def pn_hdr_ex hdr_ex_props)

theorem pn_roundtrip_witness:
  "\<exists>sent received.
    crypto_pn_encrypt (ccmp_mode 8) fops_ex aead_ex None pn_key_ex [packet_ex (hdr_ex @ [10, 20, 30])] =
      Some (TX_CONTINUE, pn_key_ex\<lparr>pk_tx_pn := pk_tx_pn pn_key_ex + 1\<rparr>, [sent]) \<and>
    skb_len sent = skb_len (packet_ex (hdr_ex @ [10, 20, 30])) + 8 + am_mic_len (ccmp_mode 8) \<and>
    crypto_pn_decrypt (ccmp_mode 8) fops_ex aead_ex pn_key_ex True status_ex 0 sent =
      Some (RX_CONTINUE, pn_key_ex\<lparr>pk_rx_pn := (pk_rx_pn pn_key_ex)(0 := pn_of_u64 (pk_tx_pn pn_key_ex + 1))\<rparr>, received) \<and>
    skb_bytes received = protect_hdr hdr_ex @ [10, 20, 30]"
  by (rule pn_roundtrip [where mic_len = 8])
    (simp_all add: aead_ex_ok pn_hdr_ex hdr_ex_props packet_ex_props can_encapsulate_def ccmp_mode_def status_ex_def pn_key_ex_def pn_of_u64_def)

theorem pn_replays_rejected_witness:
  "\<exists>key' acc. pn_run gcmp_mode fops_ex aead_ex pn_key_ex [(True, status_ex, 0, pn_frame_ex), (True, status_ex, 0, pn_frame_ex)] = Some (key', acc) \<and>
    (\<forall>q. sorted_wrt (<) (pn_val (pk_rx_pn pn_key_ex q) # accepted_on q acc))"
  by (rule pn_replays_rejected) (simp_all add: aead_ex_ok pn_frame_ex_ok rx_pn_ok_def pn_key_ex_def)

end
