(* ===== verification/BIP.thy ===== *)
theory BIP
  imports CMAC CCMP_Props
begin

text \<open>
  Protection of management frames (BIP) and ciphers of the hardware, the rest of \<^verbatim>\<open>wpa.c\<close>, and \<^verbatim>\<open>aes_gmac.c\<close>. The code
  has the functions for management frames three times; here a mode gives the length of the code and
  how it is computed.
\<close>

section \<open>The element\<close>

definition EID_MMIE :: u8 where "EID_MMIE = 76"

text \<open>How a mode computes the code: from the associated data, the address of the sender, the packet number (most
  significant byte first) and the data with the room for the code. \<open>None\<close> is an error of the cipher.\<close>

record bip_mode =
  bm_mic_len :: nat
  bm_mic :: "u8 list \<Rightarrow> u8 list \<Rightarrow> u8 list \<Rightarrow> u8 list \<Rightarrow> u8 list option"

definition aes_gmac :: "aead_ops \<Rightarrow> u8 list \<Rightarrow> u8 list \<Rightarrow> u8 list \<Rightarrow> u8 list option" where
  "aes_gmac tfm aad nonce data =
     (if length data < 16 then None
      else Some (snd (aead_encrypt tfm (take 12 nonce @ [0, 0, 0, 1]) (take 20 aad @ take (length data - 16) data @ replicate 16 0) [] 16)))"

definition cmac_mode :: "(u8 list \<Rightarrow> u8 list) \<Rightarrow> bip_mode" where
  "cmac_mode enc = \<lparr>bm_mic_len = 8, bm_mic = (\<lambda>aad addr2 ipn data. map_option fst (aes_cmac enc aad data))\<rparr>"

definition cmac_256_mode :: "(u8 list \<Rightarrow> u8 list) \<Rightarrow> bip_mode" where
  "cmac_256_mode enc = \<lparr>bm_mic_len = 16, bm_mic = (\<lambda>aad addr2 ipn data. map_option fst (aes_cmac_256 enc aad data))\<rparr>"

definition gmac_mode :: "aead_ops \<Rightarrow> bip_mode" where
  "gmac_mode tfm = \<lparr>bm_mic_len = 16, bm_mic = (\<lambda>aad addr2 ipn data. aes_gmac tfm aad (addr2 @ ipn) data)\<rparr>"

definition bip_aad :: "sk_buff \<Rightarrow> u8 list option" where
  "bip_aad skb =
     do {
       fc \<leftarrow> skb_fc skb;
       addrs \<leftarrow> skb_load 4 18 skb;
       Some (le16_bytes (fc AND NOT (FCTL_RETRY OR FCTL_PM OR FCTL_MOREDATA)) @ addrs)
     }"

definition bip_ipn_set64 :: "u64 \<Rightarrow> u8 list" where
  "bip_ipn_set64 pn =
     [ucast pn, ucast (drop_bit 8 pn), ucast (drop_bit 16 pn), ucast (drop_bit 24 pn), ucast (drop_bit 32 pn), ucast (drop_bit 40 pn)]"

definition bip_ipn_swap :: "u8 list \<Rightarrow> u8 list" where
  "bip_ipn_swap s = [s ! 5, s ! 4, s ! 3, s ! 2, s ! 1, s ! 0]"

section \<open>Frames\<close>

record bip_key =
  bk_conf :: key_conf
  bk_tx_pn :: u64
  bk_rx_pn :: "u8 list"
  bk_replays :: u32
  bk_icverrors :: u32

text \<open>The code over the frame: the data behind the header, with the element at the end.\<close>

definition bip_mic :: "bip_mode \<Rightarrow> u8 list \<Rightarrow> sk_buff \<Rightarrow> u8 list option option" where
  "bip_mic mode ipn skb =
     do {
       aad \<leftarrow> bip_aad skb;
       addr2 \<leftarrow> skb_load 10 6 skb;
       data \<leftarrow> (if skb_len skb < 24 then None else skb_load 24 (skb_len skb - 24) skb);
       Some (bm_mic mode aad addr2 ipn data)
     }"

definition mmie :: "bip_mode \<Rightarrow> bip_key \<Rightarrow> u8 list" where
  "mmie mode key =
     [EID_MMIE, of_nat (10 + bm_mic_len mode - 2)] @ le16_bytes (ucast (kc_keyidx (bk_conf key))) @ bip_ipn_set64 (bk_tx_pn key)"

definition crypto_bip_encrypt ::
  "bip_mode \<Rightarrow> hw_key option \<Rightarrow> bip_key \<Rightarrow> sk_buff list \<Rightarrow> (tx_result \<times> bip_key \<times> sk_buff list) option" where
  "crypto_bip_encrypt mode hw key skbs =
     (case skbs of
        [skb] \<Rightarrow>
          if hw \<noteq> None then Some (TX_CONTINUE, key, skbs)
          else if skb_tailroom skb < 10 + bm_mic_len mode then Some (TX_DROP, key, skbs)
          else do {
            let at = skb_len skb;
            skb \<leftarrow> skb_put (10 + bm_mic_len mode) skb;
            let key = key\<lparr>bk_tx_pn := bk_tx_pn key + 1\<rparr>;
            skb \<leftarrow> skb_store at (mmie mode key) skb;
            mic \<leftarrow> bip_mic mode (bip_ipn_swap (bip_ipn_set64 (bk_tx_pn key))) skb;
            (case mic of
               None \<Rightarrow> Some (TX_DROP, key, [skb])
             | Some mic \<Rightarrow> do { skb \<leftarrow> skb_store (at + 10) mic skb; Some (TX_CONTINUE, key, [skb]) })
          }
      | _ \<Rightarrow> Some (TX_DROP, key, skbs))"

definition crypto_bip_decrypt ::
  "bip_mode \<Rightarrow> frame_ops \<Rightarrow> bip_key \<Rightarrow> rx_status \<Rightarrow> sk_buff \<Rightarrow> (rx_result \<times> bip_key \<times> sk_buff) option" where
  "crypto_bip_decrypt mode ops key status skb =
     do {
       let size = 10 + bm_mic_len mode;
       fc \<leftarrow> skb_fc skb;
       if \<not> is_mgmt ops fc then Some (RX_CONTINUE, key, skb)
       else if skb_len skb < 24 + size then Some (RX_DROP_UNUSABLE, key, skb)
       else do {
         el \<leftarrow> skb_load (skb_len skb - size) size skb;
         if el ! 0 \<noteq> EID_MMIE \<or> el ! 1 \<noteq> of_nat (size - 2) then Some (RX_DROP_UNUSABLE, key, skb)
         else do {
           let ipn = bip_ipn_swap (take 6 (drop 4 el));
           if memcmp ipn (bk_rx_pn key) \<le> 0 then Some (RX_DROP_UNUSABLE, key\<lparr>bk_replays := bk_replays key + 1\<rparr>, skb)
           else do {
             ok \<leftarrow> (if \<not> st_decrypted status then map_option (\<lambda>mic. mic = Some (drop 10 el)) (bip_mic mode ipn skb) else Some True);
             if \<not> ok then Some (RX_DROP_UNUSABLE, key\<lparr>bk_icverrors := bk_icverrors key + 1\<rparr>, skb)
             else Some (RX_CONTINUE, key\<lparr>bk_rx_pn := ipn\<rparr>, skb_trim (skb_len skb - size) skb)
           }
         }
       }
     }"

text \<open>The functions of the code.\<close>

definition crypto_aes_cmac_encrypt where
  "crypto_aes_cmac_encrypt enc = crypto_bip_encrypt (cmac_mode enc)"

definition crypto_aes_cmac_256_encrypt where
  "crypto_aes_cmac_256_encrypt enc = crypto_bip_encrypt (cmac_256_mode enc)"

definition crypto_aes_gmac_encrypt where
  "crypto_aes_gmac_encrypt tfm = crypto_bip_encrypt (gmac_mode tfm)"

definition crypto_aes_cmac_decrypt where
  "crypto_aes_cmac_decrypt enc = crypto_bip_decrypt (cmac_mode enc)"

definition crypto_aes_cmac_256_decrypt where
  "crypto_aes_cmac_256_decrypt enc = crypto_bip_decrypt (cmac_256_mode enc)"

definition crypto_aes_gmac_decrypt where
  "crypto_aes_gmac_decrypt tfm = crypto_bip_decrypt (gmac_mode tfm)"

section \<open>Ciphers of the hardware\<close>

text \<open>For a cipher the software does not know the code makes room for the initialisation vector when it sends and
  checks and removes what the scheme says when it receives. The packet number is compared as a
  number with its least significant byte first. \<open>expand\<close> says if the headroom could be enlarged.\<close>

record cipher_scheme =
  cs_hdr_len :: nat
  cs_pn_off :: nat
  cs_pn_len :: nat
  cs_mic_len :: nat

definition crypto_cs_pn_compare :: "u8 list \<Rightarrow> u8 list \<Rightarrow> nat \<Rightarrow> int" where
  "crypto_cs_pn_compare pn1 pn2 len = memcmp (rev (take len pn1)) (rev (take len pn2))"

definition crypto_cs_encrypt ::
  "frame_ops \<Rightarrow> nat \<Rightarrow> (sk_buff \<Rightarrow> sk_buff option) \<Rightarrow> hw_key option \<Rightarrow> sk_buff \<Rightarrow> (tx_result \<times> sk_buff) option" where
  "crypto_cs_encrypt ops iv_len expand hw skb =
     (if (case hw of None \<Rightarrow> False | Some k \<Rightarrow> \<not> hk_put_iv_space k) then Some (TX_CONTINUE, skb)
      else (case (if skb_headroom skb < iv_len then expand skb else Some skb) of
        None \<Rightarrow> Some (TX_DROP, skb)
      | Some skb \<Rightarrow>
          do {
            fc \<leftarrow> skb_fc skb;
            skb \<leftarrow> open_gap iv_len (ieee80211_hdrlen ops fc) skb;
            Some (TX_CONTINUE, skb)
          }))"

text \<open>\<open>cs\<close> is the scheme of the sending station, \<open>None\<close> if there is no station or no scheme; \<open>rx_pn\<close> the counters.\<close>

definition crypto_cs_decrypt ::
  "frame_ops \<Rightarrow> cipher_scheme option \<Rightarrow> (nat \<Rightarrow> u8 list) \<Rightarrow> rx_status \<Rightarrow> sk_buff \<Rightarrow> (rx_result \<times> (nat \<Rightarrow> u8 list) \<times> sk_buff) option" where
  "crypto_cs_decrypt ops cs rx_pn status skb =
     do {
       fc \<leftarrow> skb_fc skb;
       let hdrlen = ieee80211_hdrlen ops fc;
       (case cs of
          None \<Rightarrow> Some (RX_DROP_UNUSABLE, rx_pn, skb)
        | Some cs \<Rightarrow>
            if \<not> st_decrypted status then Some (RX_DROP_UNUSABLE, rx_pn, skb)
            else if \<not> is_data ops fc then Some (RX_CONTINUE, rx_pn, skb)
            else if skb_len skb < hdrlen + cs_hdr_len cs then Some (RX_DROP_UNUSABLE, rx_pn, skb)
            else do {
              tid \<leftarrow> qos_tid ops fc skb;
              if \<not> st_linearize_ok status then Some (RX_DROP_UNUSABLE, rx_pn, skb)
              else do {
                skb_pn \<leftarrow> skb_load (hdrlen + cs_pn_off cs) (cs_pn_len cs) skb;
                let old = rx_pn (unat tid);
                if crypto_cs_pn_compare skb_pn old (cs_pn_len cs) \<le> 0 then Some (RX_DROP_UNUSABLE, rx_pn, skb)
                else do {
                  let rx_pn = rx_pn(unat tid := skb_pn @ drop (cs_pn_len cs) old);
                  if \<not> st_trim_ok status then Some (RX_DROP_UNUSABLE, rx_pn, skb)
                  else do {
                    let skb = (if cs_mic_len cs \<le> skb_len skb then skb_trim (skb_len skb - cs_mic_len cs) skb else skb);
                    skb \<leftarrow> close_gap (cs_hdr_len cs) hdrlen skb;
                    Some (RX_CONTINUE, rx_pn, skb)
                  }
                }
              }
            })
     }"

fun hw_encrypt_skbs ::
  "frame_ops \<Rightarrow> bool \<Rightarrow> nat \<Rightarrow> (sk_buff \<Rightarrow> sk_buff option) \<Rightarrow> (hw_key option \<times> sk_buff) list \<Rightarrow> (tx_result \<times> sk_buff list) option" where
  "hw_encrypt_skbs ops scheme iv_len expand [] = Some (TX_CONTINUE, [])"
| "hw_encrypt_skbs ops scheme iv_len expand ((hw, skb) # skbs) =
     (if hw = None then Some (TX_DROP, skb # map snd skbs)
      else do {
        (res, skb) \<leftarrow> (if scheme then crypto_cs_encrypt ops iv_len expand hw skb else Some (TX_CONTINUE, skb));
        if res \<noteq> TX_CONTINUE then Some (res, skb # map snd skbs)
        else do { (res, rest) \<leftarrow> hw_encrypt_skbs ops scheme iv_len expand skbs; Some (res, skb # rest) }
      })"

text \<open>Here the bit for protected frames is set at the end.\<close>

definition crypto_hw_encrypt ::
  "frame_ops \<Rightarrow> bool \<Rightarrow> nat \<Rightarrow> (sk_buff \<Rightarrow> sk_buff option) \<Rightarrow> (hw_key option \<times> sk_buff) list \<Rightarrow> (tx_result \<times> sk_buff list) option" where
  "crypto_hw_encrypt ops scheme iv_len expand skbs =
     do {
       (res, skbs) \<leftarrow> hw_encrypt_skbs ops scheme iv_len expand skbs;
       if res \<noteq> TX_CONTINUE then Some (res, skbs)
       else do { skbs \<leftarrow> tx_set_protected skbs; Some (TX_CONTINUE, skbs) }
     }"

definition crypto_hw_decrypt ::
  "frame_ops \<Rightarrow> cipher_scheme option \<Rightarrow> (nat \<Rightarrow> u8 list) \<Rightarrow> rx_status \<Rightarrow> sk_buff \<Rightarrow> (rx_result \<times> (nat \<Rightarrow> u8 list) \<times> sk_buff) option" where
  "crypto_hw_decrypt ops cs rx_pn status skb =
     (if cs \<noteq> None then crypto_cs_decrypt ops cs rx_pn status skb else Some (RX_DROP_UNUSABLE, rx_pn, skb))"

section \<open>Round trip\<close>

definition aes_block :: "(u8 list \<Rightarrow> u8 list) \<Rightarrow> bool" where
  "aes_block enc \<longleftrightarrow> (\<forall>b. length b = 16 \<longrightarrow> length (enc b) = 16)"

lemma length_chain:
  "aes_block enc \<Longrightarrow> length k1 = 16 \<Longrightarrow> length k2 = 16 \<Longrightarrow> length c = 16 \<Longrightarrow> length (cmac_chain enc k1 k2 c m) = 16"
proof (induction enc k1 k2 c m rule: cmac_chain.induct)
  case (1 enc k1 k2 c m)
  have e: "length (enc (xor_block c b)) = 16" if "length b = 16" for b
    using 1(2,5) that by (auto simp: aes_block_def xor_block_simps)
  consider "16 < length m" | "length m = 16" | "length m < 16" by linarith
  then show ?case
  proof cases
    case 1
    with "1.IH" "1.prems" e [of "take 16 m"] show ?thesis by (simp add: cmac_chain.simps [of _ _ _ _ m])
  next
    case 2
    with 1(3) e [of "xor_block m k1"] show ?thesis by (simp add: cmac_chain.simps [of _ _ _ _ m] xor_block_simps)
  next
    case 3
    with 1(4) e [of "xor_block (m @ 0x80 # replicate (15 - length m) 0) k2"] show ?thesis
      by (simp add: cmac_chain.simps [of _ _ _ _ m] xor_block_simps)
  qed
qed

lemma length_cmac: "aes_block enc \<Longrightarrow> length (cmac_spec enc m) = 16"
  by (simp add: cmac_spec_def Let_def length_chain be_bytes_def)

text \<open>What a mode has to provide: a code of its length, that does not depend on what stands in its place.\<close>

definition bip_code :: "bip_mode \<Rightarrow> bool" where
  "bip_code mode \<longleftrightarrow> 8 \<le> bm_mic_len mode \<and> bm_mic_len mode \<le> 16 \<and> (\<forall>aad a2 ipn d m m'.
     length aad = 20 \<longrightarrow> d \<noteq> [] \<longrightarrow> length m = bm_mic_len mode \<longrightarrow> length m' = bm_mic_len mode \<longrightarrow>
       (\<exists>mic. bm_mic mode aad a2 ipn (d @ m) = Some mic \<and> bm_mic mode aad a2 ipn (d @ m') = Some mic \<and> length mic = bm_mic_len mode))"

lemma cmac_modes_code:
  assumes "aes_block enc"
  shows "bip_code (cmac_mode enc)" "bip_code (cmac_256_mode enc)"
proof -
  have v: "aes_cmac_vector enc [aad, d, replicate n 0] n = Some (take n (cmac_spec enc (aad @ d @ replicate n 0)), True)"
    if "length aad = 20" "d \<noteq> []" "0 < n" for aad d n
  proof -
    have "aad \<noteq> []" using that(1) by auto
    then show ?thesis
      using that cmac_vector [of "[aad, d, replicate n 0]" enc n] assms by (auto simp: aes_block_def)
  qed
  show "bip_code (cmac_mode enc)"
    by (auto simp: bip_code_def cmac_mode_def aes_cmac_def CMAC_TLEN_def v length_cmac assms)
  show "bip_code (cmac_256_mode enc)"
    by (auto simp: bip_code_def cmac_256_mode_def aes_cmac_256_def CMAC_TLEN_256_def v length_cmac assms)
qed

lemma gmac_mode_code: "aead_correct tfm \<Longrightarrow> bip_code (gmac_mode tfm)"
  by (auto simp: bip_code_def gmac_mode_def aes_gmac_def aead_correct_def)

lemma bip_pn: "bip_ipn_swap (bip_ipn_set64 w) = pn_of_u64 w" "length (bip_ipn_set64 w) = 6"
  by (simp_all add: bip_ipn_swap_def bip_ipn_set64_def pn_of_u64_def numeral_eq_Suc)

lemma bip_aad_mk: "24 \<le> length hdr \<Longrightarrow> \<exists>aad. length aad = 20 \<and> (\<forall>s pre bs post. bip_aad (skb_mk s pre (hdr @ bs) post) = Some aad)"
  by (simp add: bip_aad_def skb_fc_mk skb_load_hdr)

lemma bip_mic_mk:
  assumes "bip_code mode" and "24 \<le> length frame" and "length el = 10" and "length m = bm_mic_len mode"
  shows "\<exists>mic. length mic = bm_mic_len mode \<and> (\<forall>s pre post. bip_mic mode ipn (skb_mk s pre (frame @ el @ m) post) = Some (Some mic)) \<and>
    (\<forall>s pre post. bip_mic mode ipn (skb_mk s pre (frame @ el @ mic) post) = Some (Some mic))"
proof -
  obtain aad where aad: "length aad = 20" "\<And>s pre bs post. bip_aad (skb_mk s pre (frame @ bs) post) = Some aad"
    using bip_aad_mk [OF assms(2)] by blast
  let ?a2 = "take 6 (drop 10 frame)" and ?d = "drop 24 frame @ el"
  have ne: "?d \<noteq> []" using assms(3) by auto
  have m: "\<exists>mic. bm_mic mode aad ?a2 ipn (?d @ m) = Some mic \<and> bm_mic mode aad ?a2 ipn (?d @ m') = Some mic \<and> length mic = bm_mic_len mode"
    if "length m' = bm_mic_len mode" for m'
    using assms(1) [unfolded bip_code_def, THEN conjunct2, THEN conjunct2, rule_format, OF aad(1) ne assms(4) that] .
  obtain mic where mic: "bm_mic mode aad ?a2 ipn (?d @ m) = Some mic" "length mic = bm_mic_len mode" using m [OF assms(4)] by blast
  moreover have "bm_mic mode aad ?a2 ipn (?d @ mic) = Some mic" using m [OF mic(2)] mic(1) by auto
  moreover have "bip_mic mode ipn (skb_mk s pre (frame @ el @ m') post) = Some (bm_mic mode aad ?a2 ipn (?d @ m'))" for s pre m' post
    using assms(2) aad(2) by (simp add: bip_mic_def skb_load_hdr skb_load_mk)
  ultimately show ?thesis by auto
qed

text \<open>C19. A management frame that one side protects, with any of the three codes, the other side accepts and gets
  back without the element; its counter becomes the packet number, and the same frame is rejected as
  a replay when it comes again.\<close>

theorem bip_roundtrip:
  assumes "mode = cmac_mode enc \<or> mode = cmac_256_mode enc \<or> mode = gmac_mode tfm" and "aes_block enc" and "aead_correct tfm"
    and "24 \<le> length frame" and "is_mgmt ops (hdr_fc frame)" and "skb_bytes skb = frame" and "can_encapsulate 0 (10 + bm_mic_len mode) skb"
    and "pn = pn_of_u64 (bk_tx_pn key + 1)" and "0 < memcmp pn (bk_rx_pn rkey)" and "\<not> st_decrypted status"
  shows "\<exists>sent received. crypto_bip_encrypt mode None key [skb] = Some (TX_CONTINUE, key\<lparr>bk_tx_pn := bk_tx_pn key + 1\<rparr>, [sent]) \<and>
    skb_len sent = skb_len skb + 10 + bm_mic_len mode \<and>
    crypto_bip_decrypt mode ops rkey status sent = Some (RX_CONTINUE, rkey\<lparr>bk_rx_pn := pn\<rparr>, received) \<and> skb_bytes received = frame \<and>
    crypto_bip_decrypt mode ops (rkey\<lparr>bk_rx_pn := pn\<rparr>) status sent =
      Some (RX_DROP_UNUSABLE, rkey\<lparr>bk_rx_pn := pn, bk_replays := bk_replays rkey + 1\<rparr>, sent)"
proof -
  have code: "bip_code mode" using assms(1-3) cmac_modes_code gmac_mode_code by blast
  let ?m = "bm_mic_len mode"
  obtain pre hs ts post where v0: "skb = skb_mk skb (pre @ hs) frame (ts @ post)" and room: "length hs = 0" "length ts = 10 + ?m"
    using can_encapsulateE [OF assms(7,6)] by metis
  have v: "skb = skb_mk skb pre frame (ts @ post)" using v0 room(1) by simp
  define key' where "key' = key\<lparr>bk_tx_pn := bk_tx_pn key + 1\<rparr>"
  let ?el = "mmie mode key'"
  have el: "length ?el = 10" "?el ! 0 = EID_MMIE" "?el ! 1 = of_nat (10 + ?m - 2)" "take 6 (drop 4 ?el) = bip_ipn_set64 (bk_tx_pn key + 1)"
    by (simp_all add: mmie_def bip_pn le16_bytes_def key'_def)
  obtain mic where mic: "length mic = ?m" "\<And>s pre post. bip_mic mode pn (skb_mk s pre (frame @ ?el @ drop 10 ts) post) = Some (Some mic)"
    "\<And>s pre post. bip_mic mode pn (skb_mk s pre (frame @ ?el @ mic) post) = Some (Some mic)"
    using bip_mic_mk [OF code assms(4) el(1), of "drop 10 ts" pn] room(2) by auto
  let ?sent = "skb_mk skb pre (frame @ ?el @ mic) post"
  have put: "skb_put (10 + ?m) skb = Some (skb_mk skb pre (frame @ ts) post)"
    using skb_put_mk [OF room(2), of skb pre frame post] by (simp add: v [symmetric])
  have s1: "skb_store (length frame) ?el (skb_mk skb pre (frame @ ts) post) = Some (skb_mk skb pre (frame @ ?el @ drop 10 ts) post)"
    using room(2) el(1) overwrite_mid [of ?el "take 10 ts" frame "drop 10 ts"] by (simp add: skb_store_mk)
  have s2: "skb_store (length frame + 10) mic (skb_mk skb pre (frame @ ?el @ drop 10 ts) post) = Some ?sent"
    using room(2) el(1) mic(1) overwrite_mid [of mic "drop 10 ts" "frame @ ?el" "[]"] by (simp add: skb_store_mk)
  have len: "skb_len skb = length frame" by (subst v) simp
  have tail: "\<not> skb_tailroom skb < 10 + ?m" by (subst v) (simp add: room)
  have pn: "pn = bip_ipn_swap (bip_ipn_set64 (bk_tx_pn key'))" by (simp add: assms(8) bip_pn key'_def)
  have enc: "crypto_bip_encrypt mode None key [skb] = Some (TX_CONTINUE, key', [?sent])"
    using tail put s1 s2 mic(2) len pn by (simp add: crypto_bip_encrypt_def key'_def [symmetric] del: skb_put_Some)
  have fc: "skb_fc ?sent = Some (hdr_fc frame)" using assms(4) by (simp add: skb_fc_mk)
  have load: "skb_load (length frame) (10 + ?m) ?sent = Some (?el @ mic)" using el(1) mic(1) by (simp add: skb_load_mk)
  have trim: "skb_trim (length frame) ?sent = skb_mk skb pre frame (?el @ mic @ post)"
    using skb_trim_mk [of frame skb pre "?el @ mic" post] by simp
  note d = crypto_bip_decrypt_def fc el(1,2) el(3) [simplified] el(4) mic load assms(5,10) leD [OF assms(4)] nth_append pn [symmetric]
  have p: "bip_ipn_swap (take 6 (drop 4 (?el @ mic))) = pn" using el(1,4) by (simp add: pn key'_def bip_pn)
  have dec: "crypto_bip_decrypt mode ops rkey status ?sent = Some (RX_CONTINUE, rkey\<lparr>bk_rx_pn := pn\<rparr>, skb_mk skb pre frame (?el @ mic @ post))"
    using assms(9) p by (simp add: d trim Let_def)
  have "memcmp pn pn \<le> 0" by (simp add: memcmp_le)
  then have "crypto_bip_decrypt mode ops (rkey\<lparr>bk_rx_pn := pn\<rparr>) status ?sent =
      Some (RX_DROP_UNUSABLE, rkey\<lparr>bk_rx_pn := pn, bk_replays := bk_replays rkey + 1\<rparr>, ?sent)"
    using p by (simp add: d Let_def)
  with enc dec len el(1) mic(1) show ?thesis
    by (intro exI [of _ ?sent] exI [of _ "skb_mk skb pre frame (?el @ mic @ post)"]) (simp add: key'_def)
qed


definition bip_key_ex :: bip_key where
  "bip_key_ex = \<lparr>bk_conf = key_ex CIPHER_AES_CMAC (replicate 16 7), bk_tx_pn = 4, bk_rx_pn = [0, 0, 0, 0, 0, 4], bk_replays = 0, bk_icverrors = 0\<rparr>"

definition mgmt_ex :: "u8 list" where
  "mgmt_ex = 0xc0 # 0 # drop 2 hdr_ex @ [7, 0]"

lemma mgmt_ex_props: "length mgmt_ex = 26" "is_mgmt fops_ex (hdr_fc mgmt_ex)"
  by (simp_all add: mgmt_ex_def hdr_ex_props) (simp add: hdr_fc_def fops_ex_def le16_def)

theorem bip_roundtrip_witness:
  "\<exists>sent received. crypto_bip_encrypt (cmac_mode rev) None bip_key_ex [packet_ex mgmt_ex] =
      Some (TX_CONTINUE, bip_key_ex\<lparr>bk_tx_pn := bk_tx_pn bip_key_ex + 1\<rparr>, [sent]) \<and>
    skb_len sent = skb_len (packet_ex mgmt_ex) + 10 + bm_mic_len (cmac_mode rev) \<and>
    crypto_bip_decrypt (cmac_mode rev) fops_ex bip_key_ex status_ex sent =
      Some (RX_CONTINUE, bip_key_ex\<lparr>bk_rx_pn := pn_of_u64 (bk_tx_pn bip_key_ex + 1)\<rparr>, received) \<and> skb_bytes received = mgmt_ex \<and>
    crypto_bip_decrypt (cmac_mode rev) fops_ex (bip_key_ex\<lparr>bk_rx_pn := pn_of_u64 (bk_tx_pn bip_key_ex + 1)\<rparr>) status_ex sent =
      Some (RX_DROP_UNUSABLE, bip_key_ex\<lparr>bk_rx_pn := pn_of_u64 (bk_tx_pn bip_key_ex + 1), bk_replays := bk_replays bip_key_ex + 1\<rparr>, sent)"
  by (rule bip_roundtrip [where enc = rev and tfm = aead_ex])
    (simp_all add: aes_block_def aead_ex_ok mgmt_ex_props packet_ex_props can_encapsulate_def status_ex_def bip_key_ex_def pn_of_u64_def cmac_mode_def)

end
