(* ===== verification/Fragment.thy ===== *)
theory Fragment
  imports BIP
begin

text \<open>
  Sequence numbers and fragmentation of the sender (\<^verbatim>\<open>tx.c\<close>), and what the fragments of a frame are. Counters that only
  serve as statistics for the LEDs and debug files are left out.
\<close>

section \<open>Sequence numbers\<close>

definition FCTL_MOREFRAGS :: u16 where "FCTL_MOREFRAGS = 0x0400"
definition FCTL_FTYPE :: u16 where "FCTL_FTYPE = 0x000c"

text \<open>The counters of a station for each priority, and the number of frames sent; the last is for all frames that
  are numbered from the interface's counter.\<close>

record tx_sta =
  ts_tid_seq :: "nat \<Rightarrow> u16"
  ts_tx_msdu :: "nat \<Rightarrow> u32"
  ts_txq :: bool

definition tx_next_seq :: "tx_sta \<Rightarrow> nat \<Rightarrow> u16 \<times> tx_sta" where
  "tx_next_seq sta tid =
     (let seq = ts_tid_seq sta tid
      in (seq, sta\<lparr>ts_tid_seq := (ts_tid_seq sta)(tid := (seq + 0x10) AND SCTL_SEQ)\<rparr>))"

definition count_msdu :: "nat \<Rightarrow> tx_sta \<Rightarrow> tx_sta" where
  "count_msdu tid sta = sta\<lparr>ts_tx_msdu := (ts_tx_msdu sta)(tid := ts_tx_msdu sta tid + 1)\<rparr>"

text \<open>The result says if the driver shall assign the number; \<open>sequence_number\<close> is the counter of the interface.\<close>

definition tx_h_sequence ::
  "frame_ops \<Rightarrow> bool \<Rightarrow> tx_sta option \<Rightarrow> u16 \<Rightarrow> sk_buff \<Rightarrow> (bool \<times> tx_sta option \<times> u16 \<times> sk_buff) option" where
  "tx_h_sequence ops monitor sta sequence_number skb =
     do {
       fc \<leftarrow> skb_fc skb;
       if monitor \<or> is_ctl ops fc \<or> ieee80211_hdrlen ops fc < 24 \<or> is_qos_nullfunc ops fc then Some (False, sta, sequence_number, skb)
       else do {
         addr1 \<leftarrow> skb_load 4 6 skb;
         if \<not> is_data_qos ops fc \<or> is_multicast ops addr1 then
           do {
             skb \<leftarrow> skb_store 22 (le16_bytes sequence_number) skb;
             Some (True, map_option (count_msdu 16) sta, sequence_number + 0x10, skb)
           }
         else (case sta of
           None \<Rightarrow> Some (False, sta, sequence_number, skb)
         | Some sta \<Rightarrow> do {
             qc \<leftarrow> skb_get (qos_ctl_off ops fc) skb;
             let tid = unat (qc AND QOS_CTL_TID_MASK);
             let sta = count_msdu tid sta;
             if ts_txq sta then Some (False, Some sta, sequence_number, skb)
             else do {
               let (seq, sta) = tx_next_seq sta tid;
               skb \<leftarrow> skb_store 22 (le16_bytes seq) skb;
               Some (False, Some sta, sequence_number, skb)
             }
           })
       }
     }"

section \<open>Fragmentation\<close>

record tx_info =
  ti_dontfrag :: bool
  ti_ampdu :: bool
  ti_clear_ps_filt :: bool
  ti_first_fragment :: bool
  ti_more_frames :: bool
  ti_probe :: bool
  ti_rates :: "int list"
  ti_queue :: u16

record tx_frame =
  tf_skb :: sk_buff
  tf_info :: tx_info

definition FCS_LEN :: nat where "FCS_LEN = 4"
definition ENCRYPT_TAILROOM :: nat where "ENCRYPT_TAILROOM = 18"

text \<open>The room the driver and the cipher want in front of a frame.\<close>

record frag_env =
  fg_tx_headroom :: nat
  fg_encrypt_headroom :: nat

definition skb_reserve :: "nat \<Rightarrow> sk_buff \<Rightarrow> sk_buff" where
  "skb_reserve n s = s\<lparr>skb_data := skb_data s + n\<rparr>"

definition copy_fragment ::
  "frag_env \<Rightarrow> nat \<Rightarrow> tx_frame \<Rightarrow> nat \<Rightarrow> nat \<Rightarrow> bool \<Rightarrow> sk_buff \<Rightarrow> tx_frame option" where
  "copy_fragment fe hdrlen fr pos fraglen rest tmp =
     do {
       let skb = tf_skb fr;
       let tmp = skb_reserve (fg_tx_headroom fe + fg_encrypt_headroom fe) tmp;
       let info = (tf_info fr)\<lparr>ti_clear_ps_filt := False, ti_first_fragment := False\<rparr>;
       let info = (if rest then info\<lparr>ti_more_frames := True\<rparr> else info);
       let tmp = tmp\<lparr>skb_priority := skb_priority skb, skb_dev := skb_dev skb\<rparr>;
       hdr \<leftarrow> skb_load 0 hdrlen skb;
       tmp \<leftarrow> skb_put hdrlen tmp;
       tmp \<leftarrow> skb_store 0 hdr tmp;
       body \<leftarrow> skb_load pos fraglen skb;
       tmp \<leftarrow> skb_put fraglen tmp;
       tmp \<leftarrow> skb_store hdrlen body tmp;
       Some \<lparr>tf_skb = tmp, tf_info = info\<rparr>
     }"

text \<open>The loop keeps the bytes that remain, the position, the queue, and whether an allocation failed. A negative
  length for a fragment is no length.\<close>

type_synonym frag_state = "int \<times> int \<times> tx_frame list \<times> env \<times> bool"

definition fragment_body :: "frag_env \<Rightarrow> nat \<Rightarrow> nat \<Rightarrow> tx_frame \<Rightarrow> int \<Rightarrow> frag_state \<Rightarrow> frag_state option" where
  "fragment_body fe hdrlen frag_threshold fr per_fragm = (\<lambda>(rem, pos, skbs, e, failed).
     let fraglen = per_fragm;
         fraglen = (if fraglen > rem then rem else fraglen);
         rem = rem - fraglen
     in case dev_alloc_skb e (fg_tx_headroom fe + frag_threshold + fg_encrypt_headroom fe + ENCRYPT_TAILROOM) of
       (None, e) \<Rightarrow> Some (rem, pos, skbs, e, True)
     | (Some tmp, e) \<Rightarrow>
         if fraglen < 0 then None
         else do {
           f \<leftarrow> copy_fragment fe hdrlen fr (nat pos) (nat fraglen) (rem \<noteq> 0) tmp;
           Some (rem, pos + fraglen, skbs @ [f], e, False)
         })"

text \<open>The result says if the function returned 0, and has the first fragment and the others.\<close>

definition ieee80211_fragment ::
  "frag_env \<Rightarrow> nat \<Rightarrow> nat \<Rightarrow> tx_frame \<Rightarrow> env \<Rightarrow> (bool \<times> tx_frame \<times> tx_frame list \<times> env) option" where
  "ieee80211_fragment fe hdrlen frag_threshold fr e =
     (let per_fragm = int frag_threshold - int hdrlen - int FCS_LEN;
          pos = int hdrlen + per_fragm;
          rem = int (skb_len (tf_skb fr)) - int hdrlen - per_fragm
      in if rem < 0 then Some (False, fr, [], e)
         else do {
           (rem, pos, skbs, e, failed) \<leftarrow>
             loop_opt (\<lambda>(rem, pos, skbs, e, failed). rem \<noteq> 0 \<and> \<not> failed) (fragment_body fe hdrlen frag_threshold fr per_fragm)
               (rem, pos, [], e, False);
           if failed then Some (False, fr, skbs, e)
           else Some (True, fr\<lparr>tf_skb := skb_trim (nat (int hdrlen + per_fragm)) (tf_skb fr)\<rparr>, skbs, e)
         })"

text \<open>The flags, the frame control field and the fragment number of a fragment.\<close>

definition mark_fragment :: "bool \<Rightarrow> u16 \<Rightarrow> tx_frame \<Rightarrow> tx_frame option" where
  "mark_fragment is_last fragnum f =
     do {
       fc \<leftarrow> skb_fc (tf_skb f);
       skb \<leftarrow> skb_store 0 (le16_bytes (if is_last then fc AND NOT FCTL_MOREFRAGS else fc OR FCTL_MOREFRAGS)) (tf_skb f);
       let info = (if is_last then tf_info f
                   else (tf_info f)\<lparr>ti_rates := (ti_rates (tf_info f))[1 := -1, 2 := -1, 3 := -1], ti_probe := False\<rparr>);
       sb \<leftarrow> skb_load 22 2 skb;
       sc \<leftarrow> get_le16 sb 0;
       skb \<leftarrow> skb_store 22 (le16_bytes (sc OR (fragnum AND SCTL_FRAG))) skb;
       Some \<lparr>tf_skb = skb, tf_info = info\<rparr>
     }"

fun mark_fragments :: "u16 \<Rightarrow> tx_frame list \<Rightarrow> tx_frame list option" where
  "mark_fragments fragnum [] = Some []"
| "mark_fragments fragnum (f # fs) =
     do {
       f \<leftarrow> mark_fragment (fs = []) fragnum f;
       fs \<leftarrow> mark_fragments (fragnum + 1) fs;
       Some (f # fs)
     }"

definition tx_h_fragment ::
  "frame_ops \<Rightarrow> frag_env \<Rightarrow> bool \<Rightarrow> nat \<Rightarrow> tx_frame \<Rightarrow> env \<Rightarrow> (tx_result \<times> tx_frame list \<times> env) option" where
  "tx_h_fragment ops fe hw_fragments frag_threshold fr e =
     (if ti_dontfrag (tf_info fr) then Some (TX_CONTINUE, [fr], e)
      else if hw_fragments then Some (TX_CONTINUE, [fr], e)
      else if ti_ampdu (tf_info fr) then Some (TX_DROP, [fr], e)
      else do {
        fc \<leftarrow> skb_fc (tf_skb fr);
        let hdrlen = ieee80211_hdrlen ops fc;
        if skb_len (tf_skb fr) + FCS_LEN \<le> frag_threshold then Some (TX_DROP, [fr], e)
        else do {
          (ok, fr, skbs, e) \<leftarrow> ieee80211_fragment fe hdrlen frag_threshold fr e;
          if \<not> ok then Some (TX_DROP, fr # skbs, e)
          else do {
            skbs \<leftarrow> mark_fragments 0 (fr # skbs);
            Some (TX_CONTINUE, skbs, e)
          }
        }
      })"


section \<open>What the sender makes of a frame\<close>

text \<open>The pieces of the payload, the header of a fragment and the fragments as bytes.\<close>

function chunks :: "nat \<Rightarrow> 'a list \<Rightarrow> 'a list list" where
  "chunks n xs = (if n = 0 \<or> xs = [] then [] else take n xs # chunks n (drop n xs))"
  by auto
termination by (relation "measure (\<lambda>(n, xs). length xs)") auto

declare chunks.simps [simp del]

lemma chunks_simps: "chunks n [] = []" "0 < n \<Longrightarrow> xs \<noteq> [] \<Longrightarrow> chunks n xs = take n xs # chunks n (drop n xs)"
  by (simp_all add: chunks.simps)

lemma chunks_concat: "0 < n \<Longrightarrow> concat (chunks n xs) = xs"
  by (induction n xs rule: chunks.induct) (subst chunks.simps, simp)

definition frag_hdr :: "bool \<Rightarrow> u16 \<Rightarrow> u8 list \<Rightarrow> u8 list" where
  "frag_hdr is_last n hdr =
     le16_bytes (if is_last then hdr_fc hdr AND NOT FCTL_MOREFRAGS else hdr_fc hdr OR FCTL_MOREFRAGS) @
     take 20 (drop 2 hdr) @ le16_bytes (le16 (hdr ! 22) (hdr ! 23) OR (n AND SCTL_FRAG)) @ drop 24 hdr"

fun frag_frames :: "u16 \<Rightarrow> u8 list \<Rightarrow> u8 list list \<Rightarrow> u8 list list" where
  "frag_frames n hdr [] = []"
| "frag_frames n hdr (c # cs) = (frag_hdr (cs = []) n hdr @ c) # frag_frames (n + 1) hdr cs"

definition carries :: "sk_buff \<Rightarrow> u8 list \<Rightarrow> bool" where
  "carries s bs \<longleftrightarrow> skb_wf s \<and> skb_bytes s = bs"

lemma carries_mk [simp]: "carries (skb_mk s pre bs post) bs' \<longleftrightarrow> bs = bs'"
  by (auto simp: carries_def)

lemma carriesE:
  assumes "carries s bs" obtains pre post where "s = skb_mk s pre bs post"
  using assms skb_view [of s] by (auto simp: carries_def)

lemma carries_len: "carries s bs \<Longrightarrow> skb_len s = length bs"
  by (auto simp: carries_def skb_wf_def skb_bytes_def)

lemma carries_load: "carries s bs \<Longrightarrow> i + n \<le> length bs \<Longrightarrow> skb_load i n s = Some (take n (drop i bs))"
  by (metis carriesE skb_load_mk)

lemma carries_fc: "carries s (hdr @ bs) \<Longrightarrow> 2 \<le> length hdr \<Longrightarrow> skb_fc s = Some (hdr_fc hdr)"
  by (metis carriesE skb_fc_mk)

lemma carries_store:
  assumes "carries s bs" "i + length cs \<le> length bs"
  shows "\<exists>t. skb_store i cs s = Some t \<and> carries t (overwrite i cs bs)"
proof -
  from assms obtain pre post where s: "s = skb_mk s pre bs post" by (auto elim: carriesE)
  show ?thesis by (subst s) (simp add: skb_store_mk assms)
qed

lemma carries_pull:
  assumes "carries s (hdr @ bs)" shows "carries (skb_pull (length hdr) s) bs"
proof -
  from assms obtain pre post where s: "s = skb_mk s pre (hdr @ bs) post" by (auto elim: carriesE)
  show ?thesis by (subst s) (simp add: skb_pull_mk)
qed

lemma carries_trim:
  assumes "carries s (bs @ ts)" shows "carries (skb_trim (length bs) s) bs"
proof -
  from assms obtain pre post where s: "s = skb_mk s pre (bs @ ts) post" by (auto elim: carriesE)
  show ?thesis by (subst s) (simp add: skb_trim_mk)
qed

lemma skb_put_store:
  assumes "carries s bs" "length cs \<le> skb_tailroom s"
  shows "\<exists>t u. skb_put (length cs) s = Some t \<and> skb_store (length bs) cs t = Some u \<and> carries u (bs @ cs) \<and>
    skb_tailroom u = skb_tailroom s - length cs"
proof -
  from assms(1) obtain pre post where s: "s = skb_mk s pre bs post" by (auto elim: carriesE)
  with assms(2) have l: "length cs \<le> length post" by (metis skb_mk_fields(7))
  define old new where "old = take (length cs) post" and "new = drop (length cs) post"
  with l have post: "post = old @ new" "length old = length cs" by auto
  have "skb_put (length cs) s = Some (skb_mk s pre (bs @ old) new)"
    by (subst s) (simp add: post skb_put_mk)
  moreover have "skb_store (length bs) cs (skb_mk s pre (bs @ old) new) = Some (skb_mk s pre (bs @ cs) new)"
    using overwrite_mid [of cs old bs "[]"] post by (simp add: skb_store_mk)
  moreover have "skb_tailroom s = length post" by (metis s skb_mk_fields(7))
  ultimately show ?thesis by (simp add: post)
qed

lemma mark_fragment_carries:
  assumes c: "carries (tf_skb f) (hdr @ bs)" and h: "24 \<le> length hdr"
  shows "\<exists>f'. mark_fragment b n f = Some f' \<and> carries (tf_skb f') (frag_hdr b n hdr @ bs)"
proof -
  let ?fc = "le16_bytes (if b then hdr_fc hdr AND NOT FCTL_MOREFRAGS else hdr_fc hdr OR FCTL_MOREFRAGS)"
  define hdr1 where "hdr1 = ?fc @ drop 2 hdr"
  have l1: "length hdr1 = length hdr" using h by (simp add: hdr1_def)
  have "overwrite 0 ?fc (hdr @ bs) = hdr1 @ bs" using h by (simp add: overwrite_def hdr1_def numeral_2_eq_2)
  with carries_store [OF c, of 0 ?fc] h obtain t where t: "skb_store 0 ?fc (tf_skb f) = Some t" "carries t (hdr1 @ bs)"
    by auto
  have n: "hdr1 ! 22 = hdr ! 22" "hdr1 ! 23 = hdr ! 23"
    using h by (simp_all add: hdr1_def nth_append)
  have ld: "skb_load 22 2 t = Some (take 2 (drop 22 (hdr1 @ bs)))"
    by (rule carries_load [OF t(2)]) (use h l1 in simp)
  have "get_le16 (take 2 (drop 22 (hdr1 @ bs))) 0 = Some (le16 (hdr ! 22) (hdr ! 23))"
    using h l1 by (simp add: get_le16_def nth_append flip: n)
  note ld = ld this
  let ?sc = "le16_bytes (le16 (hdr ! 22) (hdr ! 23) OR (n AND SCTL_FRAG))"
  have "overwrite 22 ?sc (hdr1 @ bs) = frag_hdr b n hdr @ bs"
    using h by (simp add: overwrite_def hdr1_def frag_hdr_def)
  with carries_store [OF t(2), of 22 ?sc] h l1 obtain u where
    u: "skb_store 22 ?sc t = Some u" "carries u (frag_hdr b n hdr @ bs)"
    by auto
  show ?thesis
    using carries_fc [OF c] h t(1) ld u by (simp add: mark_fragment_def Let_def)
qed

lemma mark_fragments_carries:
  assumes "list_all2 (\<lambda>f c. carries (tf_skb f) (hdr @ c)) fs cs" and h: "24 \<le> length hdr"
  shows "\<exists>fs'. mark_fragments n fs = Some fs' \<and> list_all2 (\<lambda>f. carries (tf_skb f)) fs' (frag_frames n hdr cs)"
  using assms(1)
proof (induction fs cs arbitrary: n rule: list_all2_induct)
  case (Cons f fs c cs)
  have "(fs = []) = (cs = [])" using Cons.hyps(2) by auto
  with mark_fragment_carries [OF Cons.hyps(1) h, of "fs = []" n] Cons.IH [of "n + 1"] show ?case by auto
qed simp

definition allocs :: "env \<Rightarrow> bool" where "allocs e \<longleftrightarrow> (\<forall>i. env_alloc e i)"

lemma allocs_next [simp]: "allocs e \<Longrightarrow> allocs (alloc_next e)"
  by (simp add: allocs_def alloc_next_def)

lemma copy_fragment_carries:
  assumes c: "carries (tf_skb fr) (hdr @ as @ bs @ cs)" and e: "allocs e" and h: "length hdr = hdrlen"
    and room: "hdrlen + length bs \<le> frag_threshold" and pos: "pos = hdrlen + length as" and l: "fraglen = length bs"
  shows "\<exists>tmp f. dev_alloc_skb e (fg_tx_headroom fe + frag_threshold + fg_encrypt_headroom fe + ENCRYPT_TAILROOM) =
      (Some tmp, alloc_next e) \<and> copy_fragment fe hdrlen fr pos fraglen rest tmp = Some f \<and> carries (tf_skb f) (hdr @ bs)"
proof -
  let ?n = "fg_tx_headroom fe + frag_threshold + fg_encrypt_headroom fe + ENCRYPT_TAILROOM"
  have ea: "env_alloc e 0" using e by (simp add: allocs_def)
  then obtain tmp where tmp: "dev_alloc_skb e ?n = (Some tmp, alloc_next e)"
    and t: "skb_data tmp = 64" "skb_len tmp = 0" "length (skb_buf tmp) = 64 + ?n"
    by (simp add: dev_alloc_skb_def del: upt_Suc)
  let ?r = "(skb_reserve (fg_tx_headroom fe + fg_encrypt_headroom fe) tmp)\<lparr>skb_priority := skb_priority (tf_skb fr), skb_dev := skb_dev (tf_skb fr)\<rparr>"
  have r: "carries ?r []" "skb_tailroom ?r = frag_threshold + ENCRYPT_TAILROOM"
    using t by (simp_all add: carries_def skb_wf_def skb_bytes_def skb_reserve_def skb_tailroom_def)
  have "length hdr \<le> skb_tailroom ?r" using r(2) room h by simp
  from skb_put_store [OF r(1) this] h obtain p q where
    q: "skb_put hdrlen ?r = Some p" "skb_store 0 hdr p = Some q" "carries q hdr"
      "skb_tailroom q = frag_threshold + ENCRYPT_TAILROOM - hdrlen"
    using r(2) by auto
  have "length bs \<le> skb_tailroom q" using q(4) room by simp
  from skb_put_store [OF q(3) this] h l obtain v w where
    w: "skb_put fraglen q = Some v" "skb_store hdrlen bs v = Some w" "carries w (hdr @ bs)" by auto
  have "skb_load 0 hdrlen (tf_skb fr) = Some hdr" "skb_load pos fraglen (tf_skb fr) = Some bs"
    using carries_load [OF c] h pos l by simp_all
  with q w tmp show ?thesis by (simp add: copy_fragment_def Let_def)
qed

lemma fragment_loop:
  assumes h: "length hdr = hdrlen" and per: "0 < per" "hdrlen + per \<le> frag_threshold" and c: "carries (tf_skb fr) (hdr @ payload)"
  shows "payload = as @ bs \<Longrightarrow> allocs e \<Longrightarrow>
    \<exists>pos fs e'. loop_opt (\<lambda>(rem, pos, skbs, e, failed). rem \<noteq> 0 \<and> \<not> failed) (fragment_body fe hdrlen frag_threshold fr (int per))
        (int (length bs), int (hdrlen + length as), skbs, e, False) = Some (0, pos, skbs @ fs, e', False) \<and>
      list_all2 (\<lambda>f c. carries (tf_skb f) (hdr @ c)) fs (chunks per bs)"
proof (induction "length bs" arbitrary: as bs skbs e rule: less_induct)
  case less
  show ?case
  proof (cases "bs = []")
    case True
    then show ?thesis by (simp add: loop_opt_stop chunks_simps)
  next
    case False
    define x y where "x = take per bs" and "y = drop per bs"
    have bs: "bs = x @ y" "length x = (if length bs < per then length bs else per)"
      using x_def y_def by auto
    have ly: "length y < length bs" using False per(1) by (simp add: y_def)
    have "length x \<le> per" using bs(2) by simp
    with per(2) have rm: "hdrlen + length x \<le> frag_threshold" by simp
    from c less.prems(1) bs(1) have cx: "carries (tf_skb fr) (hdr @ as @ x @ y)" by simp
    from copy_fragment_carries [OF cx less.prems(2) h rm refl refl, where fe = fe and rest = "int (length bs) - int (length x) \<noteq> 0"]
    obtain tmp f where f: "dev_alloc_skb e (fg_tx_headroom fe + frag_threshold + fg_encrypt_headroom fe + ENCRYPT_TAILROOM) = (Some tmp, alloc_next e)"
      "copy_fragment fe hdrlen fr (hdrlen + length as) (length x) (int (length bs) - int (length x) \<noteq> 0) tmp = Some f"
      "carries (tf_skb f) (hdr @ x)" by blast
    have lx: "(if int per > int (length bs) then int (length bs) else int per) = int (length x)"
      using bs(2) by auto
    have lb: "int (length bs) - int (length x) = int (length y)" by (simp add: bs(1))
    have pa: "int (hdrlen + length as) + int (length x) = int (hdrlen + length (as @ x))" by simp
    have f2: "copy_fragment fe hdrlen fr (nat (int (hdrlen + length as))) (nat (int (length x))) (int (length y) \<noteq> 0) tmp = Some f"
      using f(2) unfolding lb nat_int .
    have step: "fragment_body fe hdrlen frag_threshold fr (int per) (int (length bs), int (hdrlen + length as), skbs, e, False) =
        Some (int (length y), int (hdrlen + length (as @ x)), skbs @ [f], alloc_next e, False)"
      unfolding fragment_body_def split_conv Let_def lx lb f(1) prod.case option.case pa f2 bind.bind_lunit by simp
    have "payload = (as @ x) @ y" using less.prems(1) bs(1) by simp
    from less.hyps [OF ly this allocs_next [OF less.prems(2)], of "skbs @ [f]"] obtain pos fs e' where
      "loop_opt (\<lambda>(rem, pos, skbs, e, failed). rem \<noteq> 0 \<and> \<not> failed) (fragment_body fe hdrlen frag_threshold fr (int per))
        (int (length y), int (hdrlen + length (as @ x)), skbs @ [f], alloc_next e, False) = Some (0, pos, (skbs @ [f]) @ fs, e', False)"
      "list_all2 (\<lambda>f c. carries (tf_skb f) (hdr @ c)) fs (chunks per y)" by blast
    note rest = this
    have "loop_opt (\<lambda>(rem, pos, skbs, e, failed). rem \<noteq> 0 \<and> \<not> failed) (fragment_body fe hdrlen frag_threshold fr (int per))
        (int (length bs), int (hdrlen + length as), skbs, e, False) = Some (0, pos, skbs @ (f # fs), e', False)"
      by (rule trans [OF loop_opt_step [where c = "fragment_body fe hdrlen frag_threshold fr (int per)", OF _ step]])
        (use False rest(1) in simp_all)
    moreover have "list_all2 (\<lambda>f c. carries (tf_skb f) (hdr @ c)) (f # fs) (chunks per bs)"
      using f(3) rest(2) False per(1) by (simp add: chunks_simps x_def y_def)
    ultimately show ?thesis by blast
  qed
qed

text \<open>The fragments of a frame whose payload does not fit.\<close>

lemma tx_fragments:
  assumes c: "carries (tf_skb fr) (hdr @ payload)" and e: "allocs e"
    and h: "ieee80211_hdrlen ops (hdr_fc hdr) = length hdr" "24 \<le> length hdr"
    and thr: "frag_threshold = length hdr + per + FCS_LEN" "0 < per" "per < length payload"
    and fl: "\<not> ti_dontfrag (tf_info fr)" "\<not> ti_ampdu (tf_info fr)"
  shows "\<exists>fs e'. tx_h_fragment ops fe False frag_threshold fr e = Some (TX_CONTINUE, fs, e') \<and>
    list_all2 (\<lambda>f. carries (tf_skb f)) fs (frag_frames 0 hdr (chunks per payload))"
proof -
  define x y where "x = take per payload" and "y = drop per payload"
  with thr have p: "payload = x @ y" "length x = per" "y \<noteq> []" "payload \<noteq> []" by auto
  have le: "length hdr + per \<le> frag_threshold" using thr(1) by simp
  from fragment_loop [OF refl thr(2) le c p(1) e, where fe = fe and skbs = "[]"] obtain pos fs e' where
    l: "loop_opt (\<lambda>(rem, pos, skbs, e, failed). rem \<noteq> 0 \<and> \<not> failed) (fragment_body fe (length hdr) frag_threshold fr (int per))
        (int (length y), int (length hdr + per), [], e, False) = Some (0, pos, fs, e', False)"
    "list_all2 (\<lambda>f c. carries (tf_skb f) (hdr @ c)) fs (chunks per y)" by (auto simp: p(2))
  have len: "skb_len (tf_skb fr) = length hdr + per + length y"
    using carries_len [OF c] p by simp
  let ?f0 = "fr\<lparr>tf_skb := skb_trim (length hdr + per) (tf_skb fr)\<rparr>"
  have f0: "carries (tf_skb ?f0) (hdr @ x)"
    using carries_trim [of "tf_skb fr" "hdr @ x" y] c p by simp
  have per_int: "int frag_threshold - int (length hdr) - int FCS_LEN = int per" using thr(1) by simp
  have rem_int: "int (skb_len (tf_skb fr)) - int (length hdr) - int per = int (length y)" by (simp add: len)
  have nn: "nat (int (length hdr) + int per) = length hdr + per" by simp
  have frag: "ieee80211_fragment fe (length hdr) frag_threshold fr e = Some (True, ?f0, fs, e')"
    unfolding ieee80211_fragment_def Let_def per_int rem_int nn using l(1) by simp
  have "list_all2 (\<lambda>f c. carries (tf_skb f) (hdr @ c)) (?f0 # fs) (chunks per payload)"
    using f0 l(2) thr(2) p by (simp add: chunks_simps)
  from mark_fragments_carries [OF this h(2), of 0] obtain fs' where
    m: "mark_fragments 0 (?f0 # fs) = Some fs'" "list_all2 (\<lambda>f. carries (tf_skb f)) fs' (frag_frames 0 hdr (chunks per payload))"
    by blast
  have "\<not> skb_len (tf_skb fr) + FCS_LEN \<le> frag_threshold" using len thr p(3) by simp
  moreover have "skb_fc (tf_skb fr) = Some (hdr_fc hdr)" using carries_fc [OF c] h(2) by simp
  ultimately show ?thesis using frag m fl h(1) by (simp add: tx_h_fragment_def del: mark_fragments.simps)
qed

end
