(* ===== verification/Defrag.thy ===== *)
theory Defrag
  imports Fragment
begin

text \<open>
  Reassembly of fragments in the receiver (\<^verbatim>\<open>rx.c\<close>): the cache of messages that wait for fragments, the handler, and that a
  receiver puts together what the sender has cut.
\<close>

section \<open>Reassembly\<close>

record fragment_entry =
  fe_first_frag_time :: u64
  fe_seq :: u16
  fe_rx_queue :: nat
  fe_last_frag :: u32
  fe_extra_len :: nat
  fe_skb_list :: "sk_buff list"
  fe_ccmp :: bool
  fe_last_pn :: "u8 list"

record fragment_cache =
  fc_fragments :: "fragment_entry list"
  fc_next :: nat

definition FRAGMENT_MAX :: nat where "FRAGMENT_MAX = 4"

definition set_entry :: "nat \<Rightarrow> fragment_entry \<Rightarrow> fragment_cache \<Rightarrow> fragment_cache" where
  "set_entry i en c = c\<lparr>fc_fragments := (fc_fragments c)[i := en]\<rparr>"

text \<open>The result has the place of the new entry.\<close>

definition reassemble_add ::
  "u64 \<Rightarrow> u32 \<Rightarrow> u16 \<Rightarrow> nat \<Rightarrow> sk_buff \<Rightarrow> fragment_cache \<Rightarrow> (nat \<times> fragment_cache) option" where
  "reassemble_add jiffies frag seq rx_queue skb c =
     (let i = fc_next c in
      if i < length (fc_fragments c) then
        let c = c\<lparr>fc_next := (if i + 1 \<ge> FRAGMENT_MAX then 0 else i + 1)\<rparr>;
            en = \<lparr>fe_first_frag_time = jiffies, fe_seq = seq, fe_rx_queue = rx_queue, fe_last_frag = frag, fe_extra_len = 0,
                  fe_skb_list = [skb], fe_ccmp = False, fe_last_pn = fe_last_pn (fc_fragments c ! i)\<rparr>
        in Some (i, set_entry i en c)
      else None)"

text \<open>Does an entry wait for this fragment, by number, queue, type and addresses?\<close>

definition entry_waits :: "u32 \<Rightarrow> u16 \<Rightarrow> nat \<Rightarrow> sk_buff \<Rightarrow> fragment_entry \<Rightarrow> bool option" where
  "entry_waits frag seq rx_queue skb en =
     (case fe_skb_list en of
        [] \<Rightarrow> Some False
      | f_skb # _ \<Rightarrow>
          if fe_seq en \<noteq> seq \<or> fe_rx_queue en \<noteq> rx_queue \<or> fe_last_frag en + 1 \<noteq> frag then Some False
          else do {
            fc \<leftarrow> skb_fc skb;
            f_fc \<leftarrow> skb_fc f_skb;
            addrs \<leftarrow> skb_load 4 12 skb;
            f_addrs \<leftarrow> skb_load 4 12 f_skb;
            Some ((fc XOR f_fc) AND FCTL_FTYPE = 0 \<and> addrs = f_addrs)
          })"

text \<open>The search goes backwards from the entry that was added last; entries that wait too long are emptied.\<close>

fun reassemble_search ::
  "frame_ops \<Rightarrow> u64 \<Rightarrow> u64 \<Rightarrow> u32 \<Rightarrow> u16 \<Rightarrow> nat \<Rightarrow> sk_buff \<Rightarrow> nat \<Rightarrow> nat \<Rightarrow> fragment_cache \<Rightarrow> (nat option \<times> fragment_cache) option" where
  "reassemble_search ops hz jiffies frag seq rx_queue skb 0 idx c = Some (None, c)"
| "reassemble_search ops hz jiffies frag seq rx_queue skb (Suc n) idx c =
     (let idx = (if idx = 0 then FRAGMENT_MAX - 1 else idx - 1) in
      if idx < length (fc_fragments c) then
        do {
          let en = fc_fragments c ! idx;
          waits \<leftarrow> entry_waits frag seq rx_queue skb en;
          if \<not> waits then reassemble_search ops hz jiffies frag seq rx_queue skb n idx c
          else if time_after ops jiffies (fe_first_frag_time en + 2 * hz) then
            reassemble_search ops hz jiffies frag seq rx_queue skb n idx (set_entry idx (en\<lparr>fe_skb_list := []\<rparr>) c)
          else Some (Some idx, c)
        }
      else None)"

definition reassemble_find ::
  "frame_ops \<Rightarrow> u64 \<Rightarrow> u64 \<Rightarrow> u32 \<Rightarrow> u16 \<Rightarrow> nat \<Rightarrow> sk_buff \<Rightarrow> fragment_cache \<Rightarrow> (nat option \<times> fragment_cache) option" where
  "reassemble_find ops hz jiffies frag seq rx_queue skb c =
     reassemble_search ops hz jiffies frag seq rx_queue skb FRAGMENT_MAX (fc_next c) c"

text \<open>The next packet number, with the most significant byte first.\<close>

fun inc_le :: "u8 list \<Rightarrow> u8 list" where
  "inc_le [] = []"
| "inc_le (b # bs) = (if b + 1 \<noteq> 0 then (b + 1) # bs else 0 # inc_le bs)"

definition pn_next :: "u8 list \<Rightarrow> u8 list" where
  "pn_next pn = rev (inc_le (rev pn))"

definition is_ccmp :: "pn_key option \<Rightarrow> bool" where
  "is_ccmp key = (case key of None \<Rightarrow> False | Some k \<Rightarrow> kc_cipher (pk_conf k) = CIPHER_CCMP \<or> kc_cipher (pk_conf k) = CIPHER_CCMP_256)"

definition rx_pn_of :: "pn_key option \<Rightarrow> nat \<Rightarrow> u8 list" where
  "rx_pn_of key queue = (case key of None \<Rightarrow> [] | Some k \<Rightarrow> pk_rx_pn k queue)"

text \<open>Fragments of one frame must have consecutive packet numbers: the entry afterwards, if they have.\<close>

definition check_pn :: "pn_key option \<Rightarrow> nat \<Rightarrow> fragment_entry \<Rightarrow> fragment_entry option" where
  "check_pn key security_idx en =
     (if \<not> fe_ccmp en then Some en
      else if \<not> is_ccmp key then None
      else (let pn = pn_next (fe_last_pn en)
            in if pn \<noteq> rx_pn_of key security_idx then None else Some (en\<lparr>fe_last_pn := pn\<rparr>)))"

definition skb_expand_tail :: "env \<Rightarrow> nat \<Rightarrow> sk_buff \<Rightarrow> sk_buff option \<times> env" where
  "skb_expand_tail e n s =
     (if env_alloc e 0 then Some (s\<lparr>skb_buf := skb_buf s @ map (env_junk e) [0..<n]\<rparr>) else None, alloc_next e)"

fun append_skbs :: "sk_buff list \<Rightarrow> sk_buff \<Rightarrow> sk_buff option" where
  "append_skbs [] skb = Some skb"
| "append_skbs (f # fs) skb =
     do {
       bs \<leftarrow> skb_load 0 (skb_len f) f;
       let at = skb_len skb;
       skb \<leftarrow> skb_put (skb_len f) skb;
       skb \<leftarrow> skb_store at bs skb;
       append_skbs fs skb
     }"

text \<open>The frame, and whether there was memory for all of it; without memory it is the first fragment alone.\<close>

definition join_fragments :: "nat \<Rightarrow> sk_buff list \<Rightarrow> env \<Rightarrow> (bool \<times> sk_buff \<times> env) option" where
  "join_fragments extra_len skb_list e =
     (case skb_list of
        [] \<Rightarrow> None
      | skb # skbs \<Rightarrow>
          (case (if skb_tailroom skb < extra_len then skb_expand_tail e extra_len skb else (Some skb, e)) of
             (None, e) \<Rightarrow> Some (False, skb, e)
           | (Some skb, e) \<Rightarrow> map_option (\<lambda>skb. (True, skb, e)) (append_skbs skbs skb)))"

record defrag_stats =
  ds_multicast :: u32
  ds_rx_packets :: "u32 option"

definition count_packet :: "defrag_stats \<Rightarrow> defrag_stats" where
  "count_packet st = st\<lparr>ds_rx_packets := map_option (\<lambda>n. n + 1) (ds_rx_packets st)\<rparr>"

text \<open>The result has the frame to go on with, if there is one, and whether it was put together from fragments.\<close>

record defrag =
  df_cache :: fragment_cache
  df_stats :: defrag_stats
  df_env :: env

definition first_fragment ::
  "frame_ops \<Rightarrow> u64 \<Rightarrow> pn_key option \<Rightarrow> nat \<Rightarrow> nat \<Rightarrow> u16 \<Rightarrow> u16 \<Rightarrow> sk_buff \<Rightarrow> fragment_cache \<Rightarrow> fragment_cache option" where
  "first_fragment ops jiffies key security_idx seqno_idx fc seq skb c =
     do {
       (i, c) \<leftarrow> reassemble_add jiffies 0 seq seqno_idx skb c;
       Some (if is_ccmp key \<and> has_protected ops fc
             then set_entry i ((fc_fragments c ! i)\<lparr>fe_ccmp := True, fe_last_pn := rx_pn_of key security_idx\<rparr>) c
             else c)
     }"

definition next_fragment ::
  "frame_ops \<Rightarrow> pn_key option \<Rightarrow> nat \<Rightarrow> u16 \<Rightarrow> u32 \<Rightarrow> sk_buff \<Rightarrow> nat \<Rightarrow> defrag \<Rightarrow>
   (rx_result \<times> (sk_buff \<times> bool) option \<times> defrag) option" where
  "next_fragment ops key security_idx fc frag skb i s =
     (let c = df_cache s in
      case check_pn key security_idx (fc_fragments c ! i) of
        None \<Rightarrow> Some (RX_DROP_UNUSABLE, Some (skb, False), s)
      | Some en \<Rightarrow>
          do {
            let skb = skb_pull (ieee80211_hdrlen ops fc) skb;
            let en = en\<lparr>fe_skb_list := fe_skb_list en @ [skb], fe_last_frag := frag, fe_extra_len := fe_extra_len en + skb_len skb\<rparr>;
            if has_morefrags ops fc then Some (RX_QUEUED, None, s\<lparr>df_cache := set_entry i en c\<rparr>)
            else do {
              (ok, skb, e) \<leftarrow> join_fragments (fe_extra_len en) (fe_skb_list en) (df_env s);
              let s = s\<lparr>df_cache := set_entry i (en\<lparr>fe_skb_list := []\<rparr>) c, df_env := e\<rparr>;
              if \<not> ok then Some (RX_DROP_UNUSABLE, Some (skb, False), s)
              else Some (RX_CONTINUE, Some (skb, True), s\<lparr>df_stats := count_packet (df_stats s)\<rparr>)
            }
          })"

definition rx_h_defragment ::
  "frame_ops \<Rightarrow> u64 \<Rightarrow> u64 \<Rightarrow> pn_key option \<Rightarrow> nat \<Rightarrow> nat \<Rightarrow> bool \<Rightarrow> sk_buff \<Rightarrow> defrag \<Rightarrow>
   (rx_result \<times> (sk_buff \<times> bool) option \<times> defrag) option" where
  "rx_h_defragment ops hz jiffies key security_idx seqno_idx linearize_ok skb s =
     do {
       fc \<leftarrow> skb_fc skb;
       if is_ctl ops fc then Some (RX_CONTINUE, Some (skb, False), s)
       else do {
         sb \<leftarrow> skb_load 22 2 skb;
         sc \<leftarrow> get_le16 sb 0;
         addr1 \<leftarrow> skb_load 4 6 skb;
         let frag = ucast (sc AND SCTL_FRAG);
         if is_multicast ops addr1 then
           Some (RX_CONTINUE, Some (skb, False),
                 s\<lparr>df_stats := count_packet ((df_stats s)\<lparr>ds_multicast := ds_multicast (df_stats s) + 1\<rparr>)\<rparr>)
         else if \<not> has_morefrags ops fc \<and> frag = 0 then
           Some (RX_CONTINUE, Some (skb, False), s\<lparr>df_stats := count_packet (df_stats s)\<rparr>)
         else if \<not> linearize_ok then Some (RX_DROP_UNUSABLE, Some (skb, False), s)
         else do {
           let seq = drop_bit 4 (sc AND SCTL_SEQ);
           if frag = 0 then do {
             c \<leftarrow> first_fragment ops jiffies key security_idx seqno_idx fc seq skb (df_cache s);
             Some (RX_QUEUED, None, s\<lparr>df_cache := c\<rparr>)
           }
           else do {
             (i, c) \<leftarrow> reassemble_find ops hz jiffies frag seq seqno_idx skb (df_cache s);
             (case i of
                None \<Rightarrow> Some (RX_DROP_MONITOR, Some (skb, False), s\<lparr>df_cache := c\<rparr>)
              | Some i \<Rightarrow> next_fragment ops key security_idx fc frag skb i (s\<lparr>df_cache := c\<rparr>))
           }
         }
       }
     }"

section \<open>Putting fragments together\<close>

lemma skb_tailroom_carries: "carries s bs \<Longrightarrow> skb_tailroom s = length (skb_buf s) - (skb_data s + length bs)"
  by (simp add: skb_tailroom_def carries_len)

lemma append_skbs_carries:
  assumes "list_all2 carries fs parts" "carries skb bs" "sum_list (map length parts) \<le> skb_tailroom skb"
  shows "\<exists>u. append_skbs fs skb = Some u \<and> carries u (bs @ concat parts)"
  using assms
proof (induction fs parts arbitrary: skb bs rule: list_all2_induct)
  case (Cons f fs p parts)
  have "length p \<le> skb_tailroom skb" using Cons.prems(2) by simp
  from skb_put_store [OF Cons.prems(1) this] obtain t u where u: "skb_put (length p) skb = Some t"
    "skb_store (length bs) p t = Some u" "carries u (bs @ p)" "skb_tailroom u = skb_tailroom skb - length p" by blast
  have "sum_list (map length parts) \<le> skb_tailroom u" using u(4) Cons.prems(2) by simp
  from Cons.IH [OF u(3) this] obtain v where "append_skbs fs u = Some v" "carries v ((bs @ p) @ concat parts)" by blast
  moreover have "skb_load 0 (length p) f = Some p" using carries_load [OF Cons.hyps(1), of 0 "length p"] by simp
  ultimately show ?case using u(1,2) carries_len [OF Cons.hyps(1)] carries_len [OF Cons.prems(1)]
    by (simp add: Let_def del: skb_put_Some)
qed simp

lemma expand_tail_carries:
  assumes "carries s bs"
  shows "carries (s\<lparr>skb_buf := skb_buf s @ js\<rparr>) bs \<and> length js \<le> skb_tailroom (s\<lparr>skb_buf := skb_buf s @ js\<rparr>)"
proof -
  from assms obtain pre post where s: "s = skb_mk s pre bs post" by (auto elim: carriesE)
  have "skb_buf s = pre @ bs @ post" "skb_data s = length pre" "skb_len s = length bs"
    using s skb_mk_fields(1-3) [of s pre bs post] by simp_all
  then have "s\<lparr>skb_buf := skb_buf s @ js\<rparr> = skb_mk s pre bs (post @ js)"
    by (cases s) (simp add: skb_mk_def)
  then show ?thesis by simp
qed

text \<open>Joining never overruns the buffer; without memory it gives the first fragment alone.\<close>

lemma join_fragments_carries:
  assumes "list_all2 carries fs parts" "carries skb bs" "extra_len = sum_list (map length parts)"
  shows "\<exists>ok u e'. join_fragments extra_len (skb # fs) e = Some (ok, u, e') \<and> carries u (if ok then bs @ concat parts else bs) \<and>
    (allocs e \<longrightarrow> ok \<and> allocs e')"
proof (cases "skb_tailroom skb < extra_len")
  case False
  then have "sum_list (map length parts) \<le> skb_tailroom skb" using assms(3) by simp
  from append_skbs_carries [OF assms(1,2) this] False show ?thesis by (auto simp: join_fragments_def)
next
  case True
  show ?thesis
  proof (cases "env_alloc e 0")
    case a: True
    let ?s = "skb\<lparr>skb_buf := skb_buf skb @ map (env_junk e) [0..<extra_len]\<rparr>"
    have s: "carries ?s bs" "sum_list (map length parts) \<le> skb_tailroom ?s"
      using expand_tail_carries [OF assms(2), of "map (env_junk e) [0..<extra_len]"] assms(3) by simp_all
    from append_skbs_carries [OF assms(1) s] True a show ?thesis
      by (auto simp: join_fragments_def skb_expand_tail_def)
  next
    case False
    with True assms(2) show ?thesis by (auto simp: join_fragments_def skb_expand_tail_def allocs_def)
  qed
qed

section \<open>The cache is well formed\<close>

text \<open>A waiting entry has its first fragment with at least the header's fixed part, and knows how many bytes the others
  have.\<close>

definition entry_wf :: "fragment_entry \<Rightarrow> bool" where
  "entry_wf en \<longleftrightarrow> (case fe_skb_list en of [] \<Rightarrow> True | f # fs \<Rightarrow>
     skb_wf f \<and> 24 \<le> skb_len f \<and> list_all skb_wf fs \<and> fe_extra_len en = sum_list (map skb_len fs))"

lemma entry_wf_cong:
  "fe_skb_list en' = fe_skb_list en \<Longrightarrow> fe_extra_len en' = fe_extra_len en \<Longrightarrow> entry_wf en' = entry_wf en"
  by (simp add: entry_wf_def split: list.split)

lemma entry_wf_updates [simp]: "entry_wf (en\<lparr>fe_ccmp := b, fe_last_pn := pn\<rparr>) = entry_wf en" "entry_wf (en\<lparr>fe_skb_list := []\<rparr>)"
  by (simp_all add: entry_wf_def split: list.split)

definition cache_wf :: "fragment_cache \<Rightarrow> bool" where
  "cache_wf c \<longleftrightarrow> length (fc_fragments c) = FRAGMENT_MAX \<and> fc_next c < FRAGMENT_MAX \<and> list_all entry_wf (fc_fragments c)"

lemma cache_wf_set: "cache_wf c \<Longrightarrow> entry_wf en \<Longrightarrow> cache_wf (set_entry i en c)"
  by (auto simp: cache_wf_def set_entry_def list_all_iff dest: set_update_subset_insert [THEN subsetD])

lemma cache_wf_nth: "cache_wf c \<Longrightarrow> i < FRAGMENT_MAX \<Longrightarrow> entry_wf (fc_fragments c ! i)"
  by (simp add: cache_wf_def list_all_length)

lemma skb_wf_carries: "skb_wf s \<longleftrightarrow> carries s (skb_bytes s)"
  by (simp add: carries_def)

lemma skb_wf_length: "skb_wf s \<Longrightarrow> length (skb_bytes s) = skb_len s"
  by (simp add: skb_wf_def skb_bytes_def)

lemma skb_wf_load: "skb_wf s \<Longrightarrow> i + n \<le> skb_len s \<Longrightarrow> skb_load i n s = Some (take n (drop i (skb_bytes s)))"
  using carries_load [of s "skb_bytes s" i n] by (simp add: carries_def skb_wf_length)

lemma skb_wf_fc: "skb_wf s \<Longrightarrow> 2 \<le> skb_len s \<Longrightarrow> skb_fc s = Some (hdr_fc (skb_bytes s))"
  using carries_fc [of s "skb_bytes s" "[]"] by (simp add: carries_def skb_wf_length)

lemma skb_wf_pull: "skb_wf s \<Longrightarrow> skb_wf (skb_pull n s)"
  by (simp add: skb_wf_def skb_pull_def)

lemma entry_waits_total:
  assumes "entry_wf en" "skb_wf skb" "24 \<le> skb_len skb"
  shows "\<exists>b. entry_waits frag seq q skb en = Some b \<and> (b \<longrightarrow> fe_skb_list en \<noteq> [])"
  using assms by (auto simp: entry_waits_def entry_wf_def skb_wf_load skb_wf_fc split: list.splits)

lemma reassemble_search_wf:
  assumes "cache_wf c" "skb_wf skb" "24 \<le> skb_len skb" "idx < FRAGMENT_MAX"
  shows "\<exists>r c'. reassemble_search ops hz j frag seq q skb n idx c = Some (r, c') \<and> cache_wf c' \<and>
    (case r of None \<Rightarrow> True | Some i \<Rightarrow> i < FRAGMENT_MAX \<and> fe_skb_list (fc_fragments c' ! i) \<noteq> [])"
  using assms
proof (induction n arbitrary: idx c)
  case (Suc n)
  let ?i = "if idx = 0 then FRAGMENT_MAX - 1 else idx - 1"
  let ?en = "fc_fragments c ! ?i"
  have i: "?i < FRAGMENT_MAX" using Suc.prems(4) by (auto simp: FRAGMENT_MAX_def)
  have l: "length (fc_fragments c) = FRAGMENT_MAX" using Suc.prems(1) by (simp add: cache_wf_def)
  obtain b where b: "entry_waits frag seq q skb ?en = Some b" "b \<Longrightarrow> fe_skb_list ?en \<noteq> []"
    using entry_waits_total [OF cache_wf_nth [OF Suc.prems(1) i] Suc.prems(2,3)] by blast
  have w: "cache_wf (set_entry ?i (?en\<lparr>fe_skb_list := []\<rparr>) c)"
    by (rule cache_wf_set [OF Suc.prems(1)]) (simp add: entry_wf_def)
  note IH = Suc.IH [OF Suc.prems(1-3) i] Suc.IH [OF w Suc.prems(2,3) i]
  have eq: "reassemble_search ops hz j frag seq q skb (Suc n) idx c =
    (if \<not> b then reassemble_search ops hz j frag seq q skb n ?i c
     else if time_after ops j (fe_first_frag_time ?en + 2 * hz)
          then reassemble_search ops hz j frag seq q skb n ?i (set_entry ?i (?en\<lparr>fe_skb_list := []\<rparr>) c)
          else Some (Some ?i, c))"
    using b(1) i l by (simp only: reassemble_search.simps Let_def if_True bind.bind_lunit)
  show ?case
  proof (cases "b \<and> \<not> time_after ops j (fe_first_frag_time ?en + 2 * hz)")
    case True
    with b(2) i Suc.prems(1) show ?thesis unfolding eq by simp
  next
    case False
    with IH show ?thesis unfolding eq by (cases b) (simp_all only: if_True if_False not_True_eq_False not_False_eq_True simp_thms)
  qed
qed simp

lemma reassemble_add_wf:
  assumes "cache_wf c" "skb_wf skb" "24 \<le> skb_len skb"
  shows "\<exists>i c'. reassemble_add j frag seq q skb c = Some (i, c') \<and> cache_wf c' \<and> entry_wf (fc_fragments c' ! i)"
proof -
  let ?n = "if fc_next c + 1 \<ge> FRAGMENT_MAX then 0 else fc_next c + 1"
  have "cache_wf (c\<lparr>fc_next := ?n\<rparr>)" using assms(1) by (auto simp: cache_wf_def FRAGMENT_MAX_def)
  moreover have "fc_next c < length (fc_fragments c)" using assms(1) by (simp add: cache_wf_def)
  moreover define en where "en = \<lparr>fe_first_frag_time = j, fe_seq = seq, fe_rx_queue = q, fe_last_frag = frag, fe_extra_len = 0,
    fe_skb_list = [skb], fe_ccmp = False, fe_last_pn = fe_last_pn (fc_fragments c ! fc_next c)\<rparr>"
  moreover have "entry_wf en" using assms(2,3) by (simp add: en_def entry_wf_def)
  ultimately show ?thesis using cache_wf_set [of "c\<lparr>fc_next := ?n\<rparr>" en "fc_next c"]
    by (simp add: reassemble_add_def Let_def set_entry_def)
qed

lemma check_pn_fields:
  "check_pn key sec en = Some en' \<Longrightarrow> fe_skb_list en' = fe_skb_list en \<and> fe_extra_len en' = fe_extra_len en"
  by (auto simp: check_pn_def Let_def split: if_splits)

lemma next_fragment_wf:
  assumes c: "cache_wf (df_cache s)" and i: "i < FRAGMENT_MAX" "fe_skb_list (fc_fragments (df_cache s) ! i) \<noteq> []" and skb: "skb_wf skb"
  shows "\<exists>r f s'. next_fragment ops key sec fc frag skb i s = Some (r, f, s') \<and> cache_wf (df_cache s')"
proof (cases "check_pn key sec (fc_fragments (df_cache s) ! i)")
  case None
  with c show ?thesis by (simp add: next_fragment_def Let_def)
next
  case (Some en)
  let ?skb = "skb_pull (ieee80211_hdrlen ops fc) skb"
  from i(2) check_pn_fields [OF Some] obtain f fs where l: "fe_skb_list en = f # fs" by (auto simp: neq_Nil_conv)
  have en: "entry_wf en" using cache_wf_nth [OF c i(1)] check_pn_fields [OF Some] entry_wf_cong by blast
  let ?en = "en\<lparr>fe_skb_list := fe_skb_list en @ [?skb], fe_last_frag := frag, fe_extra_len := fe_extra_len en + skb_len ?skb\<rparr>"
  have w: "entry_wf ?en" using en l skb_wf_pull [OF skb] by (simp add: entry_wf_def)
  have fs: "list_all2 carries (fs @ [?skb]) (map skb_bytes (fs @ [?skb]))" "carries f (skb_bytes f)"
    using w l by (auto simp: entry_wf_def list_all2_conv_all_nth list_all_iff skb_wf_carries nth_append)
  have "fe_extra_len ?en = sum_list (map length (map skb_bytes (fs @ [?skb])))"
    using w l by (auto simp: entry_wf_def list_all_iff skb_wf_length intro!: arg_cong [where f = sum_list])
  from join_fragments_carries [OF fs this, of "df_env s"] obtain ok u e' where
    "join_fragments (fe_extra_len ?en) (f # fs @ [?skb]) (df_env s) = Some (ok, u, e')" by blast
  then show ?thesis using Some l c w
    by (auto simp: next_fragment_def Let_def intro!: cache_wf_set simp: entry_wf_def)
qed

lemma rx_h_defragment_wf:
  assumes c: "cache_wf (df_cache s)" and skb: "skb_wf skb" "24 \<le> skb_len skb"
  shows "\<exists>r f s'. rx_h_defragment ops hz j key sec q lin skb s = Some (r, f, s') \<and> cache_wf (df_cache s')"
proof -
  have n: "fc_next (df_cache s) < FRAGMENT_MAX" using c by (simp add: cache_wf_def)
  have sc: "\<exists>sc. get_le16 (take 2 (drop 22 (skb_bytes skb))) 0 = Some sc"
    using skb by (simp add: get_le16_def skb_wf_length)
  have ff: "\<exists>c'. first_fragment ops j key sec q fc seq skb (df_cache s) = Some c' \<and> cache_wf c'" for fc seq
  proof -
    obtain i c' where c': "reassemble_add j 0 seq q skb (df_cache s) = Some (i, c')" "cache_wf c'" "entry_wf (fc_fragments c' ! i)"
      using reassemble_add_wf [OF c skb, of j 0 seq q] by blast
    then show ?thesis by (simp add: first_fragment_def cache_wf_set)
  qed
  have rf: "\<exists>r c'. reassemble_find ops hz j frag seq q skb (df_cache s) = Some (r, c') \<and> cache_wf c' \<and>
      (case r of None \<Rightarrow> True | Some i \<Rightarrow> i < FRAGMENT_MAX \<and> fe_skb_list (fc_fragments c' ! i) \<noteq> [])" for frag seq
    unfolding reassemble_find_def by (rule reassemble_search_wf [OF c skb n])
  obtain sc where sc: "get_le16 (take 2 (drop 22 (skb_bytes skb))) 0 = Some sc"
    using sc by blast
  have fc: "skb_fc skb = Some (hdr_fc (skb_bytes skb))" "skb_load 22 2 skb = Some (take 2 (drop 22 (skb_bytes skb)))"
    "skb_load 4 6 skb = Some (take 6 (drop 4 (skb_bytes skb)))"
    using skb by (simp_all add: skb_wf_fc skb_wf_load)
  let ?fc = "hdr_fc (skb_bytes skb)" and ?frag = "ucast (sc AND SCTL_FRAG) :: u32" and ?seq = "drop_bit 4 (sc AND SCTL_SEQ)"
  obtain c1 where c1: "first_fragment ops j key sec q ?fc ?seq skb (df_cache s) = Some c1" "cache_wf c1"
    using ff by blast
  obtain r c2 where c2: "reassemble_find ops hz j ?frag ?seq q skb (df_cache s) = Some (r, c2)" "cache_wf c2"
    "case r of None \<Rightarrow> True | Some i \<Rightarrow> i < FRAGMENT_MAX \<and> fe_skb_list (fc_fragments c2 ! i) \<noteq> []"
    using rf by blast
  have "\<exists>a f s'. (case r of None \<Rightarrow> Some (RX_DROP_MONITOR, Some (skb, False), s\<lparr>df_cache := c2\<rparr>)
      | Some i \<Rightarrow> next_fragment ops key sec ?fc ?frag skb i (s\<lparr>df_cache := c2\<rparr>)) = Some (a, f, s') \<and> cache_wf (df_cache s')"
    using c2(2,3) next_fragment_wf [of "s\<lparr>df_cache := c2\<rparr>", OF _ _ _ skb(1)] by (cases r) simp_all
  then show ?thesis using c c1 c2(1) fc sc by (simp add: rx_h_defragment_def Let_def)
qed

section \<open>What the receiver makes of the fragments\<close>

text \<open>What \<^verbatim>\<open>linux/ieee80211.h\<close> says of the functions on the frame control field: one tests the bit for more fragments, and
  the others do not look at it.\<close>

definition frag_ops_ok :: "frame_ops \<Rightarrow> bool" where
  "frag_ops_ok ops \<longleftrightarrow> (\<forall>fc. has_morefrags ops fc \<longleftrightarrow> fc AND FCTL_MOREFRAGS \<noteq> 0) \<and>
     (\<forall>fc fc'. fc OR FCTL_MOREFRAGS = fc' OR FCTL_MOREFRAGS \<longrightarrow>
       ieee80211_hdrlen ops fc = ieee80211_hdrlen ops fc' \<and> is_ctl ops fc = is_ctl ops fc' \<and> has_protected ops fc = has_protected ops fc')"

lemma frag_hdr_length [simp]: "24 \<le> length hdr \<Longrightarrow> length (frag_hdr b n hdr) = length hdr"
  by (simp add: frag_hdr_def)

lemma frag_hdr_fc: "hdr_fc (frag_hdr b n hdr @ bs) = (if b then hdr_fc hdr AND NOT FCTL_MOREFRAGS else hdr_fc hdr OR FCTL_MOREFRAGS)"
  by (simp add: frag_hdr_def hdr_fc_le16)

lemma frag_hdr_addrs:
  assumes "24 \<le> length hdr" "n' + i \<le> 22" "2 \<le> i"
  shows "take n' (drop i (frag_hdr b n hdr @ bs)) = take n' (drop i hdr)"
proof (rule nth_equalityI)
  obtain m where m: "i = Suc (Suc m)" using assms(3) by (metis Suc_le_D numeral_2_eq_2 Suc_le_mono)
  show "length (take n' (drop i (frag_hdr b n hdr @ bs))) = length (take n' (drop i hdr))"
    using assms by simp
  fix x assume "x < length (take n' (drop i (frag_hdr b n hdr @ bs)))"
  with assms show "take n' (drop i (frag_hdr b n hdr @ bs)) ! x = take n' (drop i hdr) ! x"
    by (simp add: frag_hdr_def nth_append m)
qed

lemma frag_hdr_seq:
  assumes "24 \<le> length hdr"
  shows "get_le16 (take 2 (drop 22 (frag_hdr b n hdr @ bs))) 0 = Some (le16 (hdr ! 22) (hdr ! 23) OR (n AND SCTL_FRAG))"
proof -
  have "drop 22 (frag_hdr b n hdr @ bs) = le16_bytes (le16 (hdr ! 22) (hdr ! 23) OR (n AND SCTL_FRAG)) @ drop 24 hdr @ bs"
    using assms by (simp add: frag_hdr_def)
  moreover have "get_le16 (le16_bytes w) 0 = Some w" for w using get_le16_append [of w "[]"] by simp
  ultimately show ?thesis by (simp only: take_append length_le_bytes) simp
qed

lemma frag_no_bits:
  assumes "sc AND SCTL_FRAG = 0" "k < 16"
  shows "ucast ((sc OR (of_nat k AND SCTL_FRAG)) AND SCTL_FRAG) = (of_nat k :: u32)"
    "(sc OR (of_nat k AND SCTL_FRAG)) AND SCTL_SEQ = sc AND SCTL_SEQ"
proof -
  have disj: "k = 0 \<or> k = 1 \<or> k = 2 \<or> k = 3 \<or> k = 4 \<or> k = 5 \<or> k = 6 \<or> k = 7 \<or>
      k = 8 \<or> k = 9 \<or> k = 10 \<or> k = 11 \<or> k = 12 \<or> k = 13 \<or> k = 14 \<or> k = 15"
    using assms(2) by arith
  have k: "(of_nat k :: u16) AND SCTL_FRAG = of_nat k" "ucast (of_nat k :: u16) = (of_nat k :: u32)"
    "(of_nat k :: u16) AND SCTL_SEQ = 0"
    using disj by (elim disjE; simp add: SCTL_FRAG_def SCTL_SEQ_def)+
  show "ucast ((sc OR (of_nat k AND SCTL_FRAG)) AND SCTL_FRAG) = (of_nat k :: u32)"
    using assms(1) k by (simp add: word_ao_dist)
  show "(sc OR (of_nat k AND SCTL_FRAG)) AND SCTL_SEQ = sc AND SCTL_SEQ"
    using k by (simp add: word_ao_dist)
qed

lemma more_bits:
  "(fc AND NOT FCTL_MOREFRAGS) OR FCTL_MOREFRAGS = fc OR FCTL_MOREFRAGS" "(fc OR FCTL_MOREFRAGS) OR FCTL_MOREFRAGS = fc OR FCTL_MOREFRAGS"
  "(fc AND NOT FCTL_MOREFRAGS) AND FCTL_MOREFRAGS = 0" "(fc OR FCTL_MOREFRAGS) AND FCTL_MOREFRAGS \<noteq> 0"
proof -
  show "(fc OR FCTL_MOREFRAGS) AND FCTL_MOREFRAGS \<noteq> 0"
    by (simp add: word_ao_absorbs FCTL_MOREFRAGS_def)
qed (auto intro!: bit_word_eqI simp: bit_simps or.assoc)

lemma frag_ops_fc:
  assumes "frag_ops_ok ops"
  shows "has_morefrags ops (hdr_fc (frag_hdr b n hdr @ bs)) = (\<not> b)"
    "ieee80211_hdrlen ops (hdr_fc (frag_hdr b n hdr @ bs)) = ieee80211_hdrlen ops (hdr_fc hdr)"
    "is_ctl ops (hdr_fc (frag_hdr b n hdr @ bs)) = is_ctl ops (hdr_fc hdr)"
    "has_protected ops (hdr_fc (frag_hdr b n hdr @ bs)) = has_protected ops (hdr_fc hdr)"
proof -
  have o: "hdr_fc (frag_hdr b n hdr @ bs) OR FCTL_MOREFRAGS = hdr_fc hdr OR FCTL_MOREFRAGS"
    by (simp add: frag_hdr_fc more_bits)
  show "has_morefrags ops (hdr_fc (frag_hdr b n hdr @ bs)) = (\<not> b)"
    using assms by (simp add: frag_ops_ok_def frag_hdr_fc more_bits) (simp add: FCTL_MOREFRAGS_def)
  from assms o show "ieee80211_hdrlen ops (hdr_fc (frag_hdr b n hdr @ bs)) = ieee80211_hdrlen ops (hdr_fc hdr)"
    "is_ctl ops (hdr_fc (frag_hdr b n hdr @ bs)) = is_ctl ops (hdr_fc hdr)"
    "has_protected ops (hdr_fc (frag_hdr b n hdr @ bs)) = has_protected ops (hdr_fc hdr)"
    unfolding frag_ops_ok_def by metis+
qed

lemma frag_ftype:
  "(hdr_fc (frag_hdr b n hdr @ bs) XOR hdr_fc (frag_hdr b' n' hdr' @ bs')) AND FCTL_FTYPE = (hdr_fc hdr XOR hdr_fc hdr') AND FCTL_FTYPE"
proof -
  have "(w AND NOT FCTL_MOREFRAGS) AND FCTL_FTYPE = w AND FCTL_FTYPE" "(w OR FCTL_MOREFRAGS) AND FCTL_FTYPE = w AND FCTL_FTYPE" for w
    by (auto simp: word_ao_dist and.assoc FCTL_MOREFRAGS_def FCTL_FTYPE_def)
  then show ?thesis by (simp add: frag_hdr_fc bit.conj_xor_distrib2)
qed

text \<open>The packet numbers of the keys, frame by frame: consecutive when the message is encrypted with CCMP.\<close>

fun keys_ok :: "nat \<Rightarrow> u8 list option \<Rightarrow> pn_key option list \<Rightarrow> bool" where
  "keys_ok sec None ks = True"
| "keys_ok sec (Some pn) [] = True"
| "keys_ok sec (Some pn) (k # ks) = (is_ccmp k \<and> rx_pn_of k sec = pn_next pn \<and> keys_ok sec (Some (pn_next pn)) ks)"

definition last_slot :: "fragment_cache \<Rightarrow> nat" where
  "last_slot c = (if fc_next c = 0 then FRAGMENT_MAX - 1 else fc_next c - 1)"

definition entry_pending :: "nat \<Rightarrow> u64 \<Rightarrow> u16 \<Rightarrow> nat \<Rightarrow> u8 list \<Rightarrow> u8 list list \<Rightarrow> u8 list option \<Rightarrow> fragment_entry \<Rightarrow> bool" where
  "entry_pending q j seq k first parts pn en \<longleftrightarrow>
     (\<exists>f fs. fe_skb_list en = f # fs \<and> carries f first \<and> list_all2 carries fs parts) \<and>
     fe_seq en = seq \<and> fe_rx_queue en = q \<and> fe_last_frag en = of_nat k \<and> fe_first_frag_time en = j \<and>
     fe_extra_len en = sum_list (map length parts) \<and>
     (case pn of None \<Rightarrow> \<not> fe_ccmp en | Some p \<Rightarrow> fe_ccmp en \<and> fe_last_pn en = p)"

definition pending :: "nat \<Rightarrow> u64 \<Rightarrow> u16 \<Rightarrow> nat \<Rightarrow> u8 list \<Rightarrow> u8 list list \<Rightarrow> u8 list option \<Rightarrow> fragment_cache \<Rightarrow> bool" where
  "pending q j seq k first parts pn c \<longleftrightarrow> cache_wf c \<and> entry_pending q j seq k first parts pn (fc_fragments c ! last_slot c)"

lemma last_slot_less: "cache_wf c \<Longrightarrow> last_slot c < FRAGMENT_MAX \<and> last_slot c < length (fc_fragments c)"
  by (auto simp: cache_wf_def last_slot_def FRAGMENT_MAX_def)

lemma set_entry_fields [simp]: "last_slot (set_entry i en c) = last_slot c"
  "i < length (fc_fragments c) \<Longrightarrow> fc_fragments (set_entry i en c) ! i = en"
  by (simp_all add: set_entry_def last_slot_def)

lemma search_finds_last:
  assumes "cache_wf c" "entry_waits frag seq q skb (fc_fragments c ! last_slot c) = Some True"
    "\<not> time_after ops j (fe_first_frag_time (fc_fragments c ! last_slot c) + 2 * hz)"
  shows "reassemble_find ops hz j frag seq q skb c = Some (Some (last_slot c), c)"
proof -
  have "reassemble_search ops hz j frag seq q skb (Suc 3) (fc_next c) c = Some (Some (last_slot c), c)"
    using assms(2,3) last_slot_less [OF assms(1)]
    by (simp only: reassemble_search.simps Let_def flip: last_slot_def) simp
  then show ?thesis by (simp add: reassemble_find_def FRAGMENT_MAX_def)
qed

lemma first_fragment_pending:
  assumes c: "cache_wf c" and skb: "carries skb bs" "24 \<le> length bs"
  shows "\<exists>c'. first_fragment ops j key sec q fc seq skb c = Some c' \<and>
    pending q j seq 0 bs [] (if is_ccmp key \<and> has_protected ops fc then Some (rx_pn_of key sec) else None) c'"
proof -
  have s: "skb_wf skb" "24 \<le> skb_len skb" using skb carries_len by (auto simp: carries_def)
  obtain i c' where c': "reassemble_add j 0 seq q skb c = Some (i, c')" "cache_wf c'" "entry_wf (fc_fragments c' ! i)"
    using reassemble_add_wf [OF c s] by blast
  from c'(1) c have i: "i = last_slot c'" "fe_skb_list (fc_fragments c' ! i) = [skb]" "\<not> fe_ccmp (fc_fragments c' ! i)"
    "fe_seq (fc_fragments c' ! i) = seq" "fe_rx_queue (fc_fragments c' ! i) = q" "fe_last_frag (fc_fragments c' ! i) = 0"
    "fe_first_frag_time (fc_fragments c' ! i) = j" "fe_extra_len (fc_fragments c' ! i) = 0"
    by (auto simp: reassemble_add_def Let_def set_entry_def last_slot_def cache_wf_def FRAGMENT_MAX_def split: if_splits)
  show ?thesis using c' i skb(1) last_slot_less [OF c'(2)] cache_wf_set [OF c'(2)]
    by (auto simp: first_fragment_def pending_def entry_pending_def)
qed

text \<open>A message as the sender describes it, and the receiver's parameters that make it acceptable.\<close>

definition message_ok :: "frame_ops \<Rightarrow> u8 list \<Rightarrow> bool" where
  "message_ok ops hdr \<longleftrightarrow> frag_ops_ok ops \<and> 24 \<le> length hdr \<and> ieee80211_hdrlen ops (hdr_fc hdr) = length hdr \<and>
     \<not> is_ctl ops (hdr_fc hdr) \<and> \<not> is_multicast ops (take 6 (drop 4 hdr)) \<and> le16 (hdr ! 22) (hdr ! 23) AND SCTL_FRAG = 0"

definition hdr_seq :: "u8 list \<Rightarrow> u16" where
  "hdr_seq hdr = drop_bit 4 (le16 (hdr ! 22) (hdr ! 23) AND SCTL_SEQ)"

definition same_message :: "u8 list \<Rightarrow> u8 list \<Rightarrow> bool" where
  "same_message hdr0 hdr \<longleftrightarrow> length hdr0 = length hdr \<and> take 12 (drop 4 hdr0) = take 12 (drop 4 hdr) \<and>
     hdr_seq hdr0 = hdr_seq hdr \<and> (hdr_fc hdr XOR hdr_fc hdr0) AND FCTL_FTYPE = 0"

lemma same_message_refl [simp]: "same_message hdr hdr"
  by (simp add: same_message_def)

lemma carries_lens: "list_all2 carries fs parts \<Longrightarrow> map skb_len fs = map length parts"
  by (induction rule: list_all2_induct) (simp_all add: carries_len)

text \<open>The handler on a fragment, up to the lookup in the cache.\<close>

lemma rx_fragment_eq:
  assumes m: "message_ok ops hdr" and skb: "carries skb (frag_hdr b (of_nat k) hdr @ p)" and k: "k < 16" "b \<longrightarrow> 0 < k"
  shows "rx_h_defragment ops hz j key sec q True skb s =
    (if k = 0 then
       do {
         c \<leftarrow> first_fragment ops j key sec q (hdr_fc (frag_hdr b (of_nat k) hdr @ p)) (hdr_seq hdr) skb (df_cache s);
         Some (RX_QUEUED, None, s\<lparr>df_cache := c\<rparr>)
       }
     else
       do {
         (i, c) \<leftarrow> reassemble_find ops hz j (of_nat k) (hdr_seq hdr) q skb (df_cache s);
         (case i of
            None \<Rightarrow> Some (RX_DROP_MONITOR, Some (skb, False), s\<lparr>df_cache := c\<rparr>)
          | Some i \<Rightarrow> next_fragment ops key sec (hdr_fc (frag_hdr b (of_nat k) hdr @ p)) (of_nat k) skb i (s\<lparr>df_cache := c\<rparr>))
       })"
proof -
  let ?h = "frag_hdr b (of_nat k) hdr @ p"
  let ?sc = "le16 (hdr ! 22) (hdr ! 23) OR (of_nat k AND SCTL_FRAG)"
  have o: "frag_ops_ok ops" and h: "24 \<le> length hdr" and z: "le16 (hdr ! 22) (hdr ! 23) AND SCTL_FRAG = 0"
    using m by (simp_all add: message_ok_def)
  have fc: "skb_fc skb = Some (hdr_fc ?h)"
    using carries_fc [of skb ?h "[]"] skb h by simp
  have ld: "skb_load 22 2 skb = Some (take 2 (drop 22 ?h))" "skb_load 4 6 skb = Some (take 6 (drop 4 ?h))"
    by (rule carries_load [OF skb]; use h in simp)+
  have gl: "get_le16 (take 2 (drop 22 ?h)) 0 = Some ?sc" by (rule frag_hdr_seq [OF h])
  have ad: "take 6 (drop 4 ?h) = take 6 (drop 4 hdr)" by (rule frag_hdr_addrs [OF h]) simp_all
  have fr: "ucast (?sc AND SCTL_FRAG) = (of_nat k :: u32)" "drop_bit 4 (?sc AND SCTL_SEQ) = hdr_seq hdr"
    using frag_no_bits [OF z k(1)] by (simp_all add: hdr_seq_def)
  have u: "unat (of_nat k :: u32) = k" using k(1) by (simp add: unat_of_nat take_bit_nat_eq_self)
  have z32: "(of_nat k :: u32) = 0 \<longleftrightarrow> k = 0"
  proof
    assume "(of_nat k :: u32) = 0"
    then have "unat (of_nat k :: u32) = 0" by (simp only: unsigned_0)
    then show "k = 0" by (simp only: u)
  qed simp
  have mf: "has_morefrags ops (hdr_fc ?h) = (\<not> b)" by (rule frag_ops_fc(1) [OF o])
  show ?thesis
    using frag_ops_fc(3) [OF o, of b "of_nat k" hdr p] m k(2)
    unfolding rx_h_defragment_def fc bind.bind_lunit ld gl Let_def fr ad z32 mf
    by (auto simp: message_ok_def)
qed

lemma entry_waits_pending:
  assumes m: "message_ok ops hdr" and same: "same_message hdr0 hdr" and skb: "carries skb (frag_hdr b (of_nat (Suc k)) hdr @ p)" and k: "Suc k < 16"
    and en: "entry_pending q j (hdr_seq hdr) k (frag_hdr False 0 hdr0 @ p0) parts pn en"
  shows "entry_waits (of_nat (Suc k)) (hdr_seq hdr) q skb en = Some True"
proof -
  have h: "24 \<le> length hdr" "24 \<le> length hdr0" using m same by (simp_all add: message_ok_def same_message_def)
  obtain f fs where f: "fe_skb_list en = f # fs" "carries f (frag_hdr False 0 hdr0 @ p0)"
    using en by (auto simp: entry_pending_def)
  have fc: "skb_fc skb = Some (hdr_fc (frag_hdr b (of_nat (Suc k)) hdr @ p))" "skb_fc f = Some (hdr_fc (frag_hdr False 0 hdr0 @ p0))"
    using carries_fc [of skb _ "[]"] carries_fc [of f _ "[]"] skb f(2) h by simp_all
  have "skb_load 4 12 skb = Some (take 12 (drop 4 (frag_hdr b (of_nat (Suc k)) hdr @ p)))"
    "skb_load 4 12 f = Some (take 12 (drop 4 (frag_hdr False 0 hdr0 @ p0)))"
    by (rule carries_load [OF skb], use h in simp) (rule carries_load [OF f(2)], use h in simp)
  moreover have "take 12 (drop 4 (frag_hdr b' n hdr @ p')) = take 12 (drop 4 hdr)" for b' n p'
    by (rule frag_hdr_addrs [OF h(1)]) simp_all
  moreover have "take 12 (drop 4 (frag_hdr b' n hdr0 @ p')) = take 12 (drop 4 hdr)" for b' n p'
    using frag_hdr_addrs [OF h(2), of 12 4 b' n p'] same by (simp add: same_message_def)
  ultimately show ?thesis using f(1) fc en
    by (simp only: entry_waits_def list.case) (use same in \<open>simp add: entry_pending_def frag_ftype same_message_def add.commute\<close>)
qed

lemma check_pn_pending:
  assumes "entry_pending q j seq k first parts pn en" "keys_ok sec pn (key # ks)"
  shows "\<exists>en'. check_pn key sec en = Some en' \<and> entry_pending q j seq k first parts (map_option pn_next pn) en' \<and>
    keys_ok sec (map_option pn_next pn) ks"
  using assms by (cases pn) (auto simp: check_pn_def entry_pending_def Let_def)

lemma rx_next_fragment:
  assumes m: "message_ok ops hdr" and same: "same_message hdr0 hdr" and skb: "carries skb (frag_hdr b (of_nat (Suc k)) hdr @ p)" and k: "Suc k < 16"
    and pend: "pending q j (hdr_seq hdr) k (frag_hdr False 0 hdr0 @ p0) parts pn (df_cache s)"
    and keys: "keys_ok sec pn (key # ks)" and e: "allocs (df_env s)" and t: "\<not> time_after ops j (j + 2 * hz)"
  shows "\<exists>s' u. rx_h_defragment ops hz j key sec q True skb s =
      Some (if b then (RX_CONTINUE, Some (u, True), s') else (RX_QUEUED, None, s')) \<and>
    (if b then carries u (frag_hdr False 0 hdr0 @ p0 @ concat parts @ p)
     else pending q j (hdr_seq hdr) (Suc k) (frag_hdr False 0 hdr0 @ p0) (parts @ [p]) (map_option pn_next pn) (df_cache s') \<and>
       allocs (df_env s') \<and> keys_ok sec (map_option pn_next pn) ks)"
proof -
  let ?c = "df_cache s" and ?fc = "hdr_fc (frag_hdr b (of_nat (Suc k)) hdr @ p)"
  let ?i = "last_slot ?c"
  have c: "cache_wf ?c" and en: "entry_pending q j (hdr_seq hdr) k (frag_hdr False 0 hdr0 @ p0) parts pn (fc_fragments ?c ! ?i)"
    using pend by (simp_all add: pending_def)
  have o: "frag_ops_ok ops" using m by (simp add: message_ok_def)
  have find: "reassemble_find ops hz j (of_nat (Suc k)) (hdr_seq hdr) q skb ?c = Some (Some ?i, ?c)"
    by (rule search_finds_last [OF c entry_waits_pending [OF m same skb k en]]) (use en t in \<open>simp add: entry_pending_def\<close>)
  obtain en' where en': "check_pn key sec (fc_fragments ?c ! ?i) = Some en'"
    "entry_pending q j (hdr_seq hdr) k (frag_hdr False 0 hdr0 @ p0) parts (map_option pn_next pn) en'"
    "keys_ok sec (map_option pn_next pn) ks"
    using check_pn_pending [OF en keys] by blast
  let ?skb = "skb_pull (ieee80211_hdrlen ops ?fc) skb"
  have len: "ieee80211_hdrlen ops ?fc = length (frag_hdr b (of_nat (Suc k)) hdr)"
    using frag_ops_fc(2) [OF o] m by (simp add: message_ok_def)
  have pull: "carries ?skb p" using carries_pull [OF skb] by (simp only: len)
  obtain f fs where f: "fe_skb_list en' = f # fs" "carries f (frag_hdr False 0 hdr0 @ p0)" "list_all2 carries fs parts"
    using en'(2) by (auto simp: entry_pending_def)
  define en2 where "en2 = en'\<lparr>fe_skb_list := fe_skb_list en' @ [?skb], fe_last_frag := of_nat (Suc k),
    fe_extra_len := fe_extra_len en' + skb_len ?skb\<rparr>"
  have fs2: "list_all2 carries (fs @ [?skb]) (parts @ [p])" using f(3) pull by (simp add: list_all2_appendI)
  have ex: "fe_extra_len en2 = sum_list (map length (parts @ [p]))"
    using en'(2) carries_len [OF pull] by (simp add: en2_def entry_pending_def)
  from join_fragments_carries [OF fs2 f(2) ex, of "df_env s"] e obtain u e' where
    j: "join_fragments (fe_extra_len en2) (f # fs @ [?skb]) (df_env s) = Some (True, u, e')" "carries u (frag_hdr False 0 hdr0 @ p0 @ concat parts @ p)"
    by auto
  have rx: "rx_h_defragment ops hz j key sec q True skb s = next_fragment ops key sec ?fc (of_nat (Suc k)) skb ?i s"
    using rx_fragment_eq [OF m skb k, of hz j key sec q s] find by simp
  have more: "has_morefrags ops ?fc = (\<not> b)" by (rule frag_ops_fc(1) [OF o])
  show ?thesis
  proof (cases b)
    case True
    have "\<exists>s'. next_fragment ops key sec ?fc (of_nat (Suc k)) skb ?i s = Some (RX_CONTINUE, Some (u, True), s')"
      using more True j(1) f(1)
      unfolding next_fragment_def Let_def en'(1) option.case en2_def [symmetric] by (simp add: en2_def del: of_nat_Suc)
    with True j(2) show ?thesis unfolding rx by auto
  next
    case False
    have "skb_wf f \<and> 24 \<le> skb_len f \<and> list_all skb_wf (fs @ [?skb])"
      using f(2) carries_len [OF f(2)] fs2 m same by (auto simp: carries_def message_ok_def same_message_def list_all2_conv_all_nth list_all_length)
    moreover have "map skb_len (fs @ [?skb]) = map length (parts @ [p])" by (rule carries_lens [OF fs2])
    ultimately have "entry_wf en2" using ex f(1) by (simp add: entry_wf_def en2_def)
    then have "cache_wf (set_entry ?i en2 ?c)" by (rule cache_wf_set [OF c])
    moreover have "entry_pending q j (hdr_seq hdr) (Suc k) (frag_hdr False 0 hdr0 @ p0) (parts @ [p]) (map_option pn_next pn) en2"
      using en'(2) f fs2 ex by (cases pn) (auto simp: entry_pending_def en2_def)
    ultimately have "pending q j (hdr_seq hdr) (Suc k) (frag_hdr False 0 hdr0 @ p0) (parts @ [p]) (map_option pn_next pn) (set_entry ?i en2 ?c)"
      using last_slot_less [OF c] by (simp add: pending_def)
    moreover have "next_fragment ops key sec ?fc (of_nat (Suc k)) skb ?i s = Some (RX_QUEUED, None, s\<lparr>df_cache := set_entry ?i en2 ?c\<rparr>)"
      using more False
      unfolding next_fragment_def Let_def en'(1) option.case en2_def [symmetric] by simp
    ultimately show ?thesis unfolding rx using False e en'(3)
      by (intro exI [of _ "s\<lparr>df_cache := set_entry ?i en2 ?c\<rparr>"]) simp
  qed
qed

text \<open>The handler on one frame after the other, each with the key the receiver found for it.\<close>

fun receive_all ::
  "frame_ops \<Rightarrow> u64 \<Rightarrow> u64 \<Rightarrow> nat \<Rightarrow> nat \<Rightarrow> (pn_key option \<times> sk_buff) list \<Rightarrow> defrag \<Rightarrow>
   ((rx_result \<times> (sk_buff \<times> bool) option) list \<times> defrag) option" where
  "receive_all ops hz j sec q [] s = Some ([], s)"
| "receive_all ops hz j sec q ((key, skb) # xs) s =
     do {
       (r, f, s) \<leftarrow> rx_h_defragment ops hz j key sec q True skb s;
       (rs, s) \<leftarrow> receive_all ops hz j sec q xs s;
       Some ((r, f) # rs, s)
     }"

lemma receive_rest:
  assumes m: "message_ok ops hdr" and t: "\<not> time_after ops j (j + 2 * hz)"
  shows "pending q j (hdr_seq hdr) k (frag_hdr False 0 hdr @ p0) parts pn (df_cache s) \<Longrightarrow> cs \<noteq> [] \<Longrightarrow> k + length cs < 16 \<Longrightarrow>
    list_all2 carries (map snd xs) (frag_frames (of_nat (Suc k)) hdr cs) \<Longrightarrow> keys_ok sec pn (map fst xs) \<Longrightarrow> allocs (df_env s) \<Longrightarrow>
    \<exists>u s'. receive_all ops hz j sec q xs s = Some (replicate (length cs - 1) (RX_QUEUED, None) @ [(RX_CONTINUE, Some (u, True))], s') \<and>
      carries u (frag_hdr False 0 hdr @ p0 @ concat parts @ concat cs)"
proof (induction cs arbitrary: k parts pn xs s)
  case (Cons c cs)
  from Cons.prems(4) obtain key skb xs' where xs: "xs = (key, skb) # xs'"
    and skb: "carries skb (frag_hdr (cs = []) (of_nat (Suc k)) hdr @ c)"
    and rest: "list_all2 carries (map snd xs') (frag_frames (of_nat (Suc (Suc k))) hdr cs)"
    by (cases xs) (auto simp: add.commute)
  have k: "Suc k < 16" using Cons.prems(3) by simp
  have keys: "keys_ok sec pn (key # map fst xs')" using Cons.prems(5) xs by simp
  from rx_next_fragment [OF m same_message_refl skb k Cons.prems(1) keys Cons.prems(6) t] obtain s1 u where
    step: "rx_h_defragment ops hz j key sec q True skb s =
      Some (if cs = [] then (RX_CONTINUE, Some (u, True), s1) else (RX_QUEUED, None, s1))"
    and post: "if cs = [] then carries u (frag_hdr False 0 hdr @ p0 @ concat parts @ c)
     else pending q j (hdr_seq hdr) (Suc k) (frag_hdr False 0 hdr @ p0) (parts @ [c]) (map_option pn_next pn) (df_cache s1) \<and>
       allocs (df_env s1) \<and> keys_ok sec (map_option pn_next pn) (map fst xs')" by blast
  show ?case
  proof (cases "cs = []")
    case True
    with rest step post xs show ?thesis by simp
  next
    case False
    with Cons.prems(3) post have l: "Suc k + length cs < 16"
      and p: "pending q j (hdr_seq hdr) (Suc k) (frag_hdr False 0 hdr @ p0) (parts @ [c]) (map_option pn_next pn) (df_cache s1)"
      and e: "allocs (df_env s1)" and ks: "keys_ok sec (map_option pn_next pn) (map fst xs')" by simp_all
    from Cons.IH [OF p False l rest ks e] obtain v s2 where
      "receive_all ops hz j sec q xs' s1 = Some (replicate (length cs - 1) (RX_QUEUED, None) @ [(RX_CONTINUE, Some (v, True))], s2)"
      "carries v (frag_hdr False 0 hdr @ p0 @ concat (parts @ [c]) @ concat cs)" by blast
    with False step xs show ?thesis by (cases cs) simp_all
  qed
qed simp

text \<open>The receiver's keys for the fragments of a message: any, unless the message is encrypted with CCMP.\<close>

definition message_keys_ok :: "frame_ops \<Rightarrow> u16 \<Rightarrow> nat \<Rightarrow> pn_key option list \<Rightarrow> bool" where
  "message_keys_ok ops fc sec ks \<longleftrightarrow>
     (case ks of [] \<Rightarrow> True
      | k # ks \<Rightarrow> keys_ok sec (if is_ccmp k \<and> has_protected ops fc then Some (rx_pn_of k sec) else None) ks)"

lemma receive_message:
  assumes m: "message_ok ops hdr" and t: "\<not> time_after ops j (j + 2 * hz)" and cs: "2 \<le> length cs" "length cs \<le> 16"
    and xs: "list_all2 carries (map snd xs) (frag_frames 0 hdr cs)" and keys: "message_keys_ok ops (hdr_fc hdr) sec (map fst xs)"
    and s: "cache_wf (df_cache s)" "allocs (df_env s)"
  shows "\<exists>u s'. receive_all ops hz j sec q xs s = Some (replicate (length cs - 1) (RX_QUEUED, None) @ [(RX_CONTINUE, Some (u, True))], s') \<and>
      carries u (frag_hdr False 0 hdr @ concat cs)"
proof -
  from cs obtain c0 cs' where c: "cs = c0 # cs'" "cs' \<noteq> []" by (cases cs; cases "tl cs") auto
  from xs c obtain key skb xs' where x: "xs = (key, skb) # xs'" and skb: "carries skb (frag_hdr False 0 hdr @ c0)"
    and rest: "list_all2 carries (map snd xs') (frag_frames (of_nat (Suc 0)) hdr cs')" by (cases xs) auto
  let ?pn = "if is_ccmp key \<and> has_protected ops (hdr_fc hdr) then Some (rx_pn_of key sec) else None"
  have skb': "carries skb (frag_hdr False (of_nat 0) hdr @ c0)" using skb by simp
  have o: "frag_ops_ok ops" and h: "24 \<le> length hdr" using m by (simp_all add: message_ok_def)
  have "24 \<le> length (frag_hdr False 0 hdr @ c0)" using h by simp
  from first_fragment_pending [OF s(1) skb this, of ops j key sec q "hdr_fc (frag_hdr False 0 hdr @ c0)" "hdr_seq hdr"] obtain c' where
    c': "first_fragment ops j key sec q (hdr_fc (frag_hdr False 0 hdr @ c0)) (hdr_seq hdr) skb (df_cache s) = Some c'"
    "pending q j (hdr_seq hdr) 0 (frag_hdr False 0 hdr @ c0) [] ?pn c'" by (auto simp: frag_ops_fc(4) [OF o])
  have step: "rx_h_defragment ops hz j key sec q True skb s = Some (RX_QUEUED, None, s\<lparr>df_cache := c'\<rparr>)"
    using rx_fragment_eq [OF m skb', of hz j key sec q s] c'(1) by simp
  have k: "keys_ok sec ?pn (map fst xs')" using keys x by (simp add: message_keys_ok_def)
  have p: "pending q j (hdr_seq hdr) 0 (frag_hdr False 0 hdr @ c0) [] ?pn (df_cache (s\<lparr>df_cache := c'\<rparr>))" using c'(2) by simp
  have e: "allocs (df_env (s\<lparr>df_cache := c'\<rparr>))" using s(2) by simp
  have l: "0 + length cs' < 16" using cs(2) c(1) by simp
  from receive_rest [OF m t p c(2) l rest k e] obtain u s' where
    "receive_all ops hz j sec q xs' (s\<lparr>df_cache := c'\<rparr>) =
       Some (replicate (length cs' - 1) (RX_QUEUED, None) @ [(RX_CONTINUE, Some (u, True))], s')"
    "carries u (frag_hdr False 0 hdr @ c0 @ concat [] @ concat cs')" by blast
  with step x c show ?thesis by (cases cs') simp_all
qed

lemma frag_frames_length [simp]: "length (frag_frames n hdr cs) = length cs"
  by (induction cs arbitrary: n) simp_all

lemma chunks_two: "0 < n \<Longrightarrow> n < length xs \<Longrightarrow> 2 \<le> length (chunks n xs)"
  using chunks_simps(2) [of n xs] chunks_simps(2) [of n "drop n xs"] by (cases xs) simp_all

lemma list_all2_carries_same:
  "list_all2 (\<lambda>f. carries (tf_skb f)) fs bss \<Longrightarrow> list_all2 (\<lambda>x f. skb_wf (snd x) \<and> skb_bytes (snd x) = skb_bytes (tf_skb f)) xs fs \<Longrightarrow>
   list_all2 carries (map snd xs) bss"
  by (auto simp: list_all2_conv_all_nth carries_def)

text \<open>C20. A frame that is too long is cut into fragments whose payloads make up its payload, each with the frame's header and its
  number and all but the last with the bit for more fragments. A receiver that gets these fragments in order, with consecutive packet
  numbers when they are encrypted with CCMP, keeps all but the last and then goes on with one frame that has the whole payload. There are at most
  16 fragments, and all allocations succeed.\<close>

theorem fragments_reassemble:
  assumes "skb_wf (tf_skb fr)" "skb_bytes (tf_skb fr) = hdr @ payload" "message_ok ops hdr" "allocs e"
    and "frag_threshold = length hdr + per + FCS_LEN" "0 < per" "per < length payload" "length (chunks per payload) \<le> 16"
    and "\<not> ti_dontfrag (tf_info fr)" "\<not> ti_ampdu (tf_info fr)"
    and "cache_wf (df_cache s)" "allocs (df_env s)" "\<not> time_after ops j (j + 2 * hz)"
  shows "\<exists>fs e'. tx_h_fragment ops fe False frag_threshold fr e = Some (TX_CONTINUE, fs, e') \<and>
    map (skb_bytes \<circ> tf_skb) fs = frag_frames 0 hdr (chunks per payload) \<and> list_all (skb_wf \<circ> tf_skb) fs \<and>
    (\<forall>xs. list_all2 (\<lambda>x f. skb_wf (snd x) \<and> skb_bytes (snd x) = skb_bytes (tf_skb f)) xs fs \<and>
        message_keys_ok ops (hdr_fc hdr) sec (map fst xs) \<longrightarrow>
      (\<exists>u s'. receive_all ops hz j sec q xs s =
         Some (replicate (length fs - 1) (RX_QUEUED, None) @ [(RX_CONTINUE, Some (u, True))], s') \<and>
         skb_bytes u = frag_hdr False 0 hdr @ payload))"
proof -
  have c: "carries (tf_skb fr) (hdr @ payload)" using assms(1,2) by (simp add: carries_def)
  have h: "ieee80211_hdrlen ops (hdr_fc hdr) = length hdr" "24 \<le> length hdr" using assms(3) by (simp_all add: message_ok_def)
  from tx_fragments [OF c assms(4) h assms(5-7,9,10)] obtain fs e' where
    tx: "tx_h_fragment ops fe False frag_threshold fr e = Some (TX_CONTINUE, fs, e')"
    and fs: "list_all2 (\<lambda>f. carries (tf_skb f)) fs (frag_frames 0 hdr (chunks per payload))" by blast
  have len: "length fs = length (chunks per payload)" using fs by (simp add: list_all2_conv_all_nth)
  have "map (skb_bytes \<circ> tf_skb) fs = frag_frames 0 hdr (chunks per payload)" "list_all (skb_wf \<circ> tf_skb) fs"
    using fs by (auto simp: list_all2_conv_all_nth list_all_length carries_def intro!: nth_equalityI)
  with tx receive_message [OF assms(3,13) chunks_two [OF assms(6,7)] assms(8) list_all2_carries_same [OF fs] _ assms(11,12)] show ?thesis
    by (fastforce simp: len chunks_concat [OF assms(6)] carries_def)
qed

text \<open>A sender and a receiver for the witnesses.\<close>

definition fr_ex :: tx_frame where
  "fr_ex = \<lparr>tf_skb = packet_ex (hdr_ex @ [1, 2, 3, 4, 5, 6, 7, 8, 9, 10]), tf_info = \<lparr>ti_dontfrag = False, ti_ampdu = False,
     ti_clear_ps_filt = False, ti_first_fragment = True, ti_more_frames = False, ti_probe = False, ti_rates = [0, 1, 2, 3], ti_queue = 0\<rparr>\<rparr>"

definition entry_ex :: fragment_entry where
  "entry_ex = \<lparr>fe_first_frag_time = 0, fe_seq = 0, fe_rx_queue = 0, fe_last_frag = 0, fe_extra_len = 0, fe_skb_list = [],
     fe_ccmp = False, fe_last_pn = []\<rparr>"

definition defrag_ex :: defrag where
  "defrag_ex = \<lparr>df_cache = \<lparr>fc_fragments = replicate FRAGMENT_MAX entry_ex, fc_next = 0\<rparr>,
     df_stats = \<lparr>ds_multicast = 0, ds_rx_packets = Some 0\<rparr>, df_env = plenty\<rparr>"

lemma defrag_ex_props: "cache_wf (df_cache defrag_ex)" "allocs (df_env defrag_ex)" "\<not> time_after fops_ex 0 (0 + 2 * 100)" "allocs plenty"
  by (simp_all add: defrag_ex_def cache_wf_def entry_wf_def entry_ex_def FRAGMENT_MAX_def allocs_def plenty_def fops_ex_def list_all_length)

lemma fops_ex_frag: "frag_ops_ok fops_ex"
proof -
  have p: "fc AND 0x4000 = (fc OR FCTL_MOREFRAGS) AND 0x4000" for fc :: u16
    by (simp add: word_ao_dist FCTL_MOREFRAGS_def)
  show ?thesis
    by (simp add: frag_ops_ok_def fops_ex_def FCTL_MOREFRAGS_def)
      (metis p FCTL_MOREFRAGS_def)
qed

lemma message_ex: "message_ok fops_ex hdr_ex"
  using fops_ex_frag by (simp add: message_ok_def hdr_ex_props) (simp add: fops_ex_def hdr_ex_def le16_def SCTL_FRAG_def)

theorem fragments_reassemble_witness:
  "\<exists>fs e' u s'. tx_h_fragment fops_ex \<lparr>fg_tx_headroom = 4, fg_encrypt_headroom = 8\<rparr> False 32 fr_ex plenty = Some (TX_CONTINUE, fs, e') \<and>
    receive_all fops_ex 100 0 0 0 (map (\<lambda>f. (None, tf_skb f)) fs) defrag_ex =
      Some (replicate (length fs - 1) (RX_QUEUED, None) @ [(RX_CONTINUE, Some (u, True))], s') \<and>
    skb_bytes u = frag_hdr False 0 hdr_ex @ [1, 2, 3, 4, 5, 6, 7, 8, 9, 10]"
proof -
  let ?p = "[1, 2, 3, 4, 5, 6, 7, 8, 9, 10] :: u8 list"
  have w: "skb_wf (tf_skb fr_ex)" "skb_bytes (tf_skb fr_ex) = hdr_ex @ ?p" "32 = length hdr_ex + 4 + FCS_LEN" "(0::nat) < 4" "4 < length ?p"
    "length (chunks 4 ?p) \<le> 16" "\<not> ti_dontfrag (tf_info fr_ex)" "\<not> ti_ampdu (tf_info fr_ex)"
    by (simp_all add: fr_ex_def packet_ex_props hdr_ex_props FCS_LEN_def chunks_simps)
  from fragments_reassemble [OF w(1,2) message_ex defrag_ex_props(4) w(3-8) defrag_ex_props(1-3),
      of "\<lparr>fg_tx_headroom = 4, fg_encrypt_headroom = 8\<rparr>" 0 0] obtain fs e' where
    tx: "tx_h_fragment fops_ex \<lparr>fg_tx_headroom = 4, fg_encrypt_headroom = 8\<rparr> False 32 fr_ex plenty = Some (TX_CONTINUE, fs, e')"
    "list_all (skb_wf \<circ> tf_skb) fs"
    and rx: "\<And>xs. list_all2 (\<lambda>x f. skb_wf (snd x) \<and> skb_bytes (snd x) = skb_bytes (tf_skb f)) xs fs \<Longrightarrow>
        message_keys_ok fops_ex (hdr_fc hdr_ex) 0 (map fst xs) \<Longrightarrow>
      \<exists>u s'. receive_all fops_ex 100 0 0 0 xs defrag_ex =
         Some (replicate (length fs - 1) (RX_QUEUED, None) @ [(RX_CONTINUE, Some (u, True))], s') \<and>
         skb_bytes u = frag_hdr False 0 hdr_ex @ ?p" by blast
  let ?xs = "map (\<lambda>f. (None, tf_skb f)) fs"
  have "list_all2 (\<lambda>x f. skb_wf (snd x) \<and> skb_bytes (snd x) = skb_bytes (tf_skb f)) ?xs fs"
    using tx(2) by (simp add: list_all2_conv_all_nth list_all_length)
  moreover have "message_keys_ok fops_ex (hdr_fc hdr_ex) 0 (map fst ?xs)"
    by (cases fs) (simp_all add: message_keys_ok_def is_ccmp_def)
  ultimately show ?thesis using tx(1) rx [of ?xs] by blast
qed

text \<open>C21. On a well-formed cache and a frame with a whole header the handler never reads or writes outside a buffer and never puts
  more into a buffer than fits, whatever the allocations do: it has a result, and the cache stays well formed.\<close>

theorem defragment_type_safe:
  assumes "cache_wf (df_cache s)" "skb_wf skb" "24 \<le> skb_len skb"
  shows "\<exists>r f s'. rx_h_defragment ops hz j key sec q linearize_ok skb s = Some (r, f, s') \<and> cache_wf (df_cache s')"
  by (rule rx_h_defragment_wf [OF assms])

theorem defragment_type_safe_witness:
  "\<exists>r f s'. rx_h_defragment fops_ex 100 0 None 0 0 True (packet_ex (frag_hdr False 0 hdr_ex @ [1, 2, 3])) defrag_ex = Some (r, f, s') \<and>
    cache_wf (df_cache s')"
  by (rule defragment_type_safe [OF defrag_ex_props(1)]) (simp_all add: packet_ex_def hdr_ex_props)

end
