(* ===== verification/RX_Decrypt.thy ===== *)
theory RX_Decrypt
  imports Defrag
begin

text \<open>
  Choice of the key for a received frame, decryption with the cipher of the key, and the tests for frames that
  should have been encrypted (their part of \<^verbatim>\<open>rx.c\<close>). Keys are shared between tables, so a table holds references; what is
  known of a key is found by its reference.
\<close>

section \<open>Keys\<close>

definition NUM_DEFAULT_KEYS :: nat where "NUM_DEFAULT_KEYS = 4"
definition NUM_DEFAULT_MGMT_KEYS :: nat where "NUM_DEFAULT_MGMT_KEYS = 2"

text \<open>The code has a union of what the ciphers keep; here each cipher has its own field, with \<open>rk_conf\<close> common to all.\<close>

record rx_key =
  rk_conf :: key_conf
  rk_tainted :: bool
  rk_tx_rx_count :: u32
  rk_tkip :: tkip_key
  rk_pn :: pn_key
  rk_bip :: bip_key
  rk_gen_pn :: "nat \<Rightarrow> u8 list"

type_synonym key_ref = nat

record key_scheme = cipher_scheme +
  cs_key_idx_off :: nat
  cs_key_idx_mask :: u8
  cs_key_idx_shift :: nat

record sta_keys =
  sk_addr :: "u8 list"
  sk_ptk_idx :: nat
  sk_ptk :: "key_ref option list"
  sk_gtk :: "key_ref option list"
  sk_scheme :: "key_scheme option"
  sk_mfp :: bool
  sk_authorized :: bool

record if_keys =
  ik_keys :: "key_ref option list"
  ik_default_mgmt :: "key_ref option"

definition key_slot :: "key_ref option list \<Rightarrow> nat \<Rightarrow> key_ref option option" where
  "key_slot ks i = (if i < length ks then Some (ks ! i) else None)"

text \<open>The first key among the default ones.\<close>

fun first_key :: "key_ref option list \<Rightarrow> key_ref option" where
  "first_key [] = None"
| "first_key (k # ks) = (if k \<noteq> None then k else first_key ks)"

section \<open>Key indices in the frame\<close>

text \<open>The result is \<open>Some None\<close> where the code returns a negative number.\<close>

definition get_mmie_keyidx :: "frame_ops \<Rightarrow> sk_buff \<Rightarrow> u16 option option" where
  "get_mmie_keyidx ops skb =
     (if skb_len skb < 24 + 18 then Some None
      else do {
        da \<leftarrow> skb_load 4 6 skb;
        if \<not> is_multicast ops da then Some None
        else if \<not> is_robust_mgmt_frame ops (skb_bytes skb) then Some None
        else do {
          el \<leftarrow> skb_load (skb_len skb - 18) 18 skb;
          if el ! 0 = EID_MMIE \<and> el ! 1 = 18 - 2 then map_option Some (get_le16 el 2)
          else if skb_len skb < 24 + 26 then Some None
          else do {
            el \<leftarrow> skb_load (skb_len skb - 26) 26 skb;
            if el ! 0 = EID_MMIE \<and> el ! 1 = 26 - 2 then map_option Some (get_le16 el 2)
            else Some None
          }
        }
      })"

definition get_cs_keyid :: "frame_ops \<Rightarrow> key_scheme \<Rightarrow> sk_buff \<Rightarrow> nat option option" where
  "get_cs_keyid ops cs skb =
     do {
       fc \<leftarrow> skb_fc skb;
       let hdrlen = ieee80211_hdrlen ops fc;
       if skb_len skb < hdrlen + cs_hdr_len cs then Some None
       else do {
         keyid \<leftarrow> (if hdrlen + cs_key_idx_off cs < skb_len skb then skb_get (hdrlen + cs_key_idx_off cs) skb else None);
         Some (Some (unat (drop_bit (cs_key_idx_shift cs) (keyid AND cs_key_idx_mask cs))))
       }
     }"

section \<open>Key selection\<close>

definition wep_cipher :: "cipher_suite \<Rightarrow> bool" where
  "wep_cipher c \<longleftrightarrow> c = CIPHER_WEP40 \<or> c = CIPHER_WEP104"

text \<open>The scheme and the pairwise key of the station; \<open>Some None\<close> when the frame is dropped for its index.\<close>

definition rx_sta_ptk :: "frame_ops \<Rightarrow> u16 \<Rightarrow> sta_keys option \<Rightarrow> sk_buff \<Rightarrow> (key_scheme option \<times> key_ref option) option option" where
  "rx_sta_ptk ops fc sta skb =
     (case sta of
        None \<Rightarrow> Some (Some (None, None))
      | Some st \<Rightarrow>
          (case (if has_protected ops fc then sk_scheme st else None) of
             None \<Rightarrow> map_option (\<lambda>k. Some (None, k)) (key_slot (sk_ptk st) (sk_ptk_idx st))
           | Some cs \<Rightarrow>
               do {
                 keyid \<leftarrow> get_cs_keyid ops cs skb;
                 (case keyid of
                    None \<Rightarrow> Some None
                  | Some i \<Rightarrow> map_option (\<lambda>k. Some (Some cs, k)) (key_slot (sk_ptk st) i))
               }))"

text \<open>The key an unprotected frame could have been encrypted with.\<close>

definition rx_expected_key :: "frame_ops \<Rightarrow> u16 \<Rightarrow> bool \<Rightarrow> sta_keys option \<Rightarrow> if_keys \<Rightarrow> key_ref option" where
  "rx_expected_key ops fc mc sta ifk =
     (if is_mgmt ops fc \<and> mc \<and> ik_default_mgmt ifk \<noteq> None then ik_default_mgmt ifk
      else (let key = (case sta of None \<Rightarrow> None | Some st \<Rightarrow> first_key (take NUM_DEFAULT_KEYS (sk_gtk st)))
            in if key \<noteq> None then key else first_key (take NUM_DEFAULT_KEYS (ik_keys ifk))))"

text \<open>A key of the station's group keys, or else of the interface's.\<close>

definition gtk_or_default :: "bool \<Rightarrow> sta_keys option \<Rightarrow> if_keys \<Rightarrow> nat \<Rightarrow> (bool \<times> key_ref option) option" where
  "gtk_or_default use_gtk sta ifk idx =
     do {
       key \<leftarrow> (case sta of None \<Rightarrow> Some None | Some st \<Rightarrow> if use_gtk then key_slot (sk_gtk st) idx else Some None);
       if key \<noteq> None then Some (False, key)
       else map_option (\<lambda>k. (True, k)) (key_slot (ik_keys ifk) idx)
     }"

text \<open>The index for a protected frame without a pairwise key; \<open>Some None\<close> when the frame is too short.\<close>

definition rx_keyidx :: "frame_ops \<Rightarrow> u16 \<Rightarrow> key_scheme option \<Rightarrow> sk_buff \<Rightarrow> nat option option" where
  "rx_keyidx ops fc cs skb =
     (case cs of
        Some cs \<Rightarrow> get_cs_keyid ops cs skb
      | None \<Rightarrow>
          (let hdrlen = ieee80211_hdrlen ops fc
           in if skb_len skb < 8 + hdrlen then Some None
              else map_option (\<lambda>keyid. Some (unat (drop_bit 6 keyid))) (skb_get (hdrlen + 3) skb)))"

text \<open>The first part of the result is what the handler returns, \<open>None\<close> when it goes on to decrypt.\<close>

definition rx_select_key ::
  "frame_ops \<Rightarrow> (key_ref \<Rightarrow> rx_key) \<Rightarrow> bool \<Rightarrow> rx_status \<Rightarrow> sta_keys option \<Rightarrow> if_keys \<Rightarrow> key_ref option \<Rightarrow> sk_buff \<Rightarrow>
   (rx_result option \<times> key_ref option) option" where
  "rx_select_key ops keys ra_match status sta ifk old_key skb =
     (if \<not> ra_match then Some (Some RX_CONTINUE, old_key)
      else do {
        fc \<leftarrow> skb_fc skb;
        ptk \<leftarrow> rx_sta_ptk ops fc sta skb;
        (case ptk of
           None \<Rightarrow> Some (Some RX_DROP_UNUSABLE, None)
         | Some (cs, sta_ptk) \<Rightarrow> do {
             mmie_keyidx \<leftarrow> (if has_protected ops fc then Some None else get_mmie_keyidx ops skb);
             addr1 \<leftarrow> skb_load 4 6 skb;
             let mc = is_multicast ops addr1;
             let plain = st_decrypted status \<and> st_iv_stripped status;
             if \<not> mc \<and> sta_ptk \<noteq> None then
               Some (if plain \<or> \<not> has_protected ops fc then Some RX_CONTINUE else None, sta_ptk)
             else (case mmie_keyidx of
               Some idx \<Rightarrow>
                 if plain then Some (Some RX_CONTINUE, None)
                 else if unat idx < NUM_DEFAULT_KEYS \<or> NUM_DEFAULT_KEYS + NUM_DEFAULT_MGMT_KEYS \<le> unat idx then Some (Some RX_DROP_MONITOR, None)
                 else map_option (\<lambda>(_, k). (None, k)) (gtk_or_default True sta ifk (unat idx))
             | None \<Rightarrow>
                 if \<not> has_protected ops fc then Some (Some RX_CONTINUE, rx_expected_key ops fc mc sta ifk)
                 else if plain then Some (Some RX_CONTINUE, None)
                 else do {
                   keyidx \<leftarrow> rx_keyidx ops fc cs skb;
                   (case keyidx of
                      None \<Rightarrow> Some (Some RX_DROP_UNUSABLE, None)
                    | Some i \<Rightarrow> do {
                        (default, key) \<leftarrow> gtk_or_default mc sta ifk i;
                        Some (None, if default \<and> \<not> mc then
                            (case key of None \<Rightarrow> None | Some k \<Rightarrow> if wep_cipher (kc_cipher (rk_conf (keys k))) then Some k else None)
                          else key)
                      })
                 })
           })
      })"

section \<open>Decryption\<close>

text \<open>The ciphers: the stream cipher and checksum of WEP and TKIP, and what AES makes of a key.\<close>

record 'c cipher_env =
  ce_crc32_le :: crc
  ce_rc4 :: "'c cipher_ops option"
  ce_aead :: "u8 list \<Rightarrow> aead_ops"
  ce_aes :: "u8 list \<Rightarrow> u8 list \<Rightarrow> u8 list"

definition key_tkip :: "rx_key \<Rightarrow> tkip_key" where
  "key_tkip key = (rk_tkip key)\<lparr>ky_conf := rk_conf key\<rparr>"

definition key_pn :: "rx_key \<Rightarrow> pn_key" where
  "key_pn key = (rk_pn key)\<lparr>pk_conf := rk_conf key\<rparr>"

definition key_bip :: "rx_key \<Rightarrow> bip_key" where
  "key_bip key = (rk_bip key)\<lparr>bk_conf := rk_conf key\<rparr>"

text \<open>The function for the cipher. The result has what TKIP reports of the packet number.\<close>

definition rx_crypto_decrypt ::
  "frame_ops \<Rightarrow> 'c cipher_env \<Rightarrow> rx_key \<Rightarrow> sta_keys option \<Rightarrow> rx_status \<Rightarrow> nat \<Rightarrow> sk_buff \<Rightarrow>
   (rx_result \<times> (u32 \<times> u16) option \<times> rx_key \<times> sk_buff) option" where
  "rx_crypto_decrypt ops ce key sta status sec skb =
     (let conf = rk_conf key;
          tfm = ce_aead ce (kc_key conf);
          aes = ce_aes ce (kc_key conf);
          with_pn = map_option (\<lambda>(r, k, skb). (r, None, key\<lparr>rk_pn := k\<rparr>, skb));
          with_bip = map_option (\<lambda>(r, k, skb). (r, None, key\<lparr>rk_bip := k\<rparr>, skb))
      in case kc_cipher conf of
        CIPHER_WEP40 \<Rightarrow> map_option (\<lambda>(r, skb). (r, None, key, skb)) (crypto_wep_decrypt ops (ce_crc32_le ce) (ce_rc4 ce) (Some conf) status skb)
      | CIPHER_WEP104 \<Rightarrow> map_option (\<lambda>(r, skb). (r, None, key, skb)) (crypto_wep_decrypt ops (ce_crc32_le ce) (ce_rc4 ce) (Some conf) status skb)
      | CIPHER_TKIP \<Rightarrow>
          map_option (\<lambda>(r, iv, k, skb). (r, iv, key\<lparr>rk_tkip := k\<rparr>, skb))
            (crypto_tkip_decrypt ops (ce_crc32_le ce) (ce_rc4 ce) (key_tkip key) (map_option sk_addr sta) status sec skb)
      | CIPHER_CCMP \<Rightarrow> with_pn (crypto_ccmp_decrypt 8 ops tfm (key_pn key) (sta \<noteq> None) status sec skb)
      | CIPHER_CCMP_256 \<Rightarrow> with_pn (crypto_ccmp_decrypt 16 ops tfm (key_pn key) (sta \<noteq> None) status sec skb)
      | CIPHER_AES_CMAC \<Rightarrow> with_bip (crypto_aes_cmac_decrypt aes ops (key_bip key) status skb)
      | CIPHER_BIP_CMAC_256 \<Rightarrow> with_bip (crypto_aes_cmac_256_decrypt aes ops (key_bip key) status skb)
      | CIPHER_BIP_GMAC_128 \<Rightarrow> with_bip (crypto_aes_gmac_decrypt tfm ops (key_bip key) status skb)
      | CIPHER_BIP_GMAC_256 \<Rightarrow> with_bip (crypto_aes_gmac_decrypt tfm ops (key_bip key) status skb)
      | CIPHER_GCMP \<Rightarrow> with_pn (crypto_gcmp_decrypt ops tfm (key_pn key) (sta \<noteq> None) status sec skb)
      | CIPHER_GCMP_256 \<Rightarrow> with_pn (crypto_gcmp_decrypt ops tfm (key_pn key) (sta \<noteq> None) status sec skb)
      | CIPHER_OTHER \<Rightarrow>
          map_option (\<lambda>(r, pn, skb). (r, None, key\<lparr>rk_gen_pn := pn\<rparr>, skb))
            (crypto_hw_decrypt ops (case sta of None \<Rightarrow> None | Some st \<Rightarrow> map_option cipher_scheme.truncate (sk_scheme st)) (rk_gen_pn key) status skb))"

record rx_data =
  rd_skb :: sk_buff
  rd_key :: "key_ref option"
  rd_status :: rx_status
  rd_tkip_iv :: "(u32 \<times> u16) option"

definition rx_h_decrypt ::
  "frame_ops \<Rightarrow> 'c cipher_env \<Rightarrow> bool \<Rightarrow> sta_keys option \<Rightarrow> if_keys \<Rightarrow> nat \<Rightarrow> (key_ref \<Rightarrow> rx_key) \<Rightarrow> rx_data \<Rightarrow>
   (rx_result \<times> (key_ref \<Rightarrow> rx_key) \<times> rx_data) option" where
  "rx_h_decrypt ops ce ra_match sta ifk sec keys rx =
     do {
       (r, key) \<leftarrow> rx_select_key ops keys ra_match (rd_status rx) sta ifk (rd_key rx) (rd_skb rx);
       let rx = rx\<lparr>rd_key := key\<rparr>;
       (case r of
          Some r \<Rightarrow> Some (r, keys, rx)
        | None \<Rightarrow>
            (case key of
               None \<Rightarrow> Some (RX_DROP_MONITOR, keys, rx)
             | Some k \<Rightarrow>
                 if rk_tainted (keys k) then Some (RX_DROP_MONITOR, keys, rx)
                 else do {
                   let key = (keys k)\<lparr>rk_tx_rx_count := rk_tx_rx_count (keys k) + 1\<rparr>;
                   (r, iv, key, skb) \<leftarrow> rx_crypto_decrypt ops ce key sta (rd_status rx) sec (rd_skb rx);
                   Some (r, keys(k := key),
                         rx\<lparr>rd_skb := skb, rd_status := (rd_status rx)\<lparr>st_decrypted := True\<rparr>,
                            rd_tkip_iv := (if iv = None then rd_tkip_iv rx else iv)\<rparr>)
                 }))
     }"

section \<open>Frames that should have been encrypted\<close>

record guard_ops =
  is_nullfunc :: "u16 \<Rightarrow> bool"
  is_deauth :: "u16 \<Rightarrow> bool"
  is_disassoc :: "u16 \<Rightarrow> bool"
  is_action :: "u16 \<Rightarrow> bool"

text \<open>The functions say whether the frame is dropped.\<close>

definition drop_unencrypted :: "frame_ops \<Rightarrow> guard_ops \<Rightarrow> rx_status \<Rightarrow> bool \<Rightarrow> u16 \<Rightarrow> bool" where
  "drop_unencrypted ops g status has_key fc =
     (if st_decrypted status then False
      else \<not> has_protected ops fc \<and> \<not> is_nullfunc g fc \<and> is_data ops fc \<and> has_key)"

text \<open>The second part of the result says if the event for an unprotected frame is sent.\<close>

definition drop_unencrypted_mgmt :: "frame_ops \<Rightarrow> guard_ops \<Rightarrow> rx_status \<Rightarrow> sta_keys option \<Rightarrow> bool \<Rightarrow> sk_buff \<Rightarrow> (bool \<times> bool) option" where
  "drop_unencrypted_mgmt ops g status sta has_key skb =
     do {
       fc \<leftarrow> skb_fc skb;
       addr1 \<leftarrow> skb_load 4 6 skb;
       mmie_keyidx \<leftarrow> get_mmie_keyidx ops skb;
       let robust = is_robust_mgmt_frame ops (skb_bytes skb);
       let event = is_deauth g fc \<or> is_disassoc g fc;
       Some (if st_decrypted status then (False, False)
             else (case sta of
               None \<Rightarrow> (False, False)
             | Some st \<Rightarrow>
                 if \<not> sk_mfp st then (False, False)
                 else if \<not> has_protected ops fc \<and> (\<not> is_multicast ops addr1 \<and> robust) \<and> has_key then (True, event)
                 else if (is_multicast ops addr1 \<and> robust) \<and> mmie_keyidx = None then (True, event)
                 else if is_action g fc \<and> \<not> has_key \<and> robust then (True, False)
                 else (False, False)))
     }"

definition port_control_denied :: "sta_keys option \<Rightarrow> bool" where
  "port_control_denied sta = (case sta of None \<Rightarrow> True | Some st \<Rightarrow> \<not> sk_authorized st)"

definition pae_group_addr :: "u8 list" where
  "pae_group_addr = [0x01, 0x80, 0xC2, 0x00, 0x00, 0x03]"

text \<open>The frame has an Ethernet header; its protocol and the one of the control port are two bytes, as they are sent.\<close>

definition frame_allowed :: "frame_ops \<Rightarrow> guard_ops \<Rightarrow> u8 list \<Rightarrow> u8 list \<Rightarrow> sta_keys option \<Rightarrow> rx_data \<Rightarrow> u16 \<Rightarrow> bool option" where
  "frame_allowed ops g control_port vif_addr sta rx fc =
     do {
       dest \<leftarrow> skb_load 0 6 (rd_skb rx);
       proto \<leftarrow> skb_load 12 2 (rd_skb rx);
       Some (if proto = control_port \<and> (dest = vif_addr \<or> dest = pae_group_addr) then True
             else \<not> (port_control_denied sta \<or> drop_unencrypted ops g (rd_status rx) (rd_key rx \<noteq> None) fc))
     }"

section \<open>Which key decrypts\<close>

lemma key_slot_mem: "key_slot ks i = Some k \<Longrightarrow> k \<in> set ks"
  by (auto simp: key_slot_def split: if_splits)

lemma gtk_or_default_cases:
  assumes "gtk_or_default g sta ifk i = Some (d, Some k)"
  shows "(d \<and> Some k \<in> set (ik_keys ifk)) \<or> (\<not> d \<and> g \<and> (\<exists>st. sta = Some st \<and> Some k \<in> set (sk_gtk st)))"
  using assms
  by (auto simp: gtk_or_default_def split: option.splits if_splits bind_splits dest: key_slot_mem)

lemma rx_sta_ptk_mem:
  assumes "rx_sta_ptk ops fc sta skb = Some (Some (cs, Some k))"
  shows "\<exists>st. sta = Some st \<and> Some k \<in> set (sk_ptk st)"
  using assms by (auto simp: rx_sta_ptk_def split: option.splits bind_splits dest: key_slot_mem)

lemma mmie_multicast:
  "get_mmie_keyidx ops skb = Some (Some i) \<Longrightarrow> skb_load 4 6 skb = Some addr1 \<Longrightarrow> is_multicast ops addr1"
  by (auto simp: get_mmie_keyidx_def split: if_splits)

text \<open>C22. A frame for one receiver is decrypted only with a pairwise key of its sender or with a WEP key, never with a group key;
  a frame for many only with a group key of the sender or a key of the interface.\<close>

theorem decryption_key_kind:
  assumes "rx_select_key ops keys ra_match status sta ifk old skb = Some (None, Some k)" "skb_load 4 6 skb = Some addr1"
  shows "if is_multicast ops addr1
    then (\<exists>st. sta = Some st \<and> Some k \<in> set (sk_gtk st)) \<or> Some k \<in> set (ik_keys ifk)
    else (\<exists>st. sta = Some st \<and> Some k \<in> set (sk_ptk st)) \<or> (Some k \<in> set (ik_keys ifk) \<and> wep_cipher (kc_cipher (rk_conf (keys k))))"
proof -
  have ra: "ra_match" using assms(1) by (auto simp: rx_select_key_def split: if_splits)
  obtain f where f: "skb_fc skb = Some f"
    using assms(1) ra by (cases "skb_fc skb") (auto simp: rx_select_key_def)
  obtain cs ptk where ptk: "rx_sta_ptk ops f sta skb = Some (Some (cs, ptk))"
    using assms(1) ra f by (cases "rx_sta_ptk ops f sta skb"; cases "the (rx_sta_ptk ops f sta skb)") (auto simp: rx_select_key_def)
  define M where "M = (if has_protected ops f then Some None else get_mmie_keyidx ops skb)"
  have "M \<noteq> None"
  proof
    assume "M = None"
    with assms(1) ra f ptk show False by (simp add: rx_select_key_def flip: M_def)
  qed
  then obtain mm where "M = Some mm" by blast
  with ra f ptk obtain fc where fc: "ra_match" "skb_fc skb = Some fc" "rx_sta_ptk ops fc sta skb = Some (Some (cs, ptk))"
    "(if has_protected ops fc then Some None else get_mmie_keyidx ops skb) = Some mm"
    by (simp add: M_def)
  let ?mc = "is_multicast ops addr1"
  show ?thesis
  proof (cases "\<not> ?mc \<and> ptk \<noteq> None")
    case True
    with assms fc rx_sta_ptk_mem [of ops fc sta skb cs k] show ?thesis
      by (auto simp: rx_select_key_def Let_def split: if_splits)
  next
    case False
    show ?thesis
    proof (cases mm)
      case (Some i)
      then have "?mc" using fc(4) mmie_multicast [OF _ assms(2)] by (auto split: if_splits)
      with assms fc Some gtk_or_default_cases [of True sta ifk "unat i" _ k] show ?thesis
        by (auto simp: rx_select_key_def Let_def split: if_splits)
    next
      case None
      with assms fc False obtain i d key where i: "gtk_or_default ?mc sta ifk i = Some (d, key)"
        "Some k = (if d \<and> \<not> ?mc then (case key of None \<Rightarrow> None | Some k \<Rightarrow> if wep_cipher (kc_cipher (rk_conf (keys k))) then Some k else None) else key)"
        by (auto simp: rx_select_key_def Let_def split: if_splits bind_splits option.splits)
      then obtain k' where "key = Some k'" by (cases key) (auto split: if_splits)
      with i gtk_or_default_cases [of ?mc sta ifk i d k'] show ?thesis by (auto split: if_splits)
    qed
  qed
qed

text \<open>C39. Fragments of an encrypted message must have consecutive packet numbers, but what is looked at is the counter of the key
  and not the fragment. When another frame with the next number has arrived after the first fragment, a second fragment that is not
  encrypted passes the decryption, is joined to the first, and the whole passes the test for unencrypted frames.\<close>

theorem plaintext_fragment_accepted:
  assumes "message_ok ops hdr0" "message_ok ops hdr" "same_message hdr0 hdr" "has_protected ops (hdr_fc hdr0)" "\<not> has_protected ops (hdr_fc hdr)"
    and "is_ccmp (Some (key_pn (keys0 k)))" "is_ccmp (Some (key_pn (keys1 k)))"
    and "pk_rx_pn (rk_pn (keys1 k)) sec = pn_next (pk_rx_pn (rk_pn (keys0 k)) sec)"
    and "key_slot (sk_ptk st) (sk_ptk_idx st) = Some (Some k)"
    and "skb_wf skb0" "skb_bytes skb0 = frag_hdr False 0 hdr0 @ p0" "skb_wf skb1" "skb_bytes skb1 = frag_hdr True 1 hdr @ p1"
    and "rd_skb rx = skb1" "cache_wf (df_cache s)" "allocs (df_env s)" "\<not> time_after ops j (j + 2 * hz)"
  shows "rx_h_decrypt ops ce True (Some st) ifk sec keys1 rx = Some (RX_CONTINUE, keys1, rx\<lparr>rd_key := Some k\<rparr>) \<and>
    (\<exists>u s'. receive_all ops hz j sec q [(Some (key_pn (keys0 k)), skb0), (Some (key_pn (keys1 k)), skb1)] s =
        Some ([(RX_QUEUED, None), (RX_CONTINUE, Some (u, True))], s') \<and>
      skb_bytes u = frag_hdr False 0 hdr0 @ p0 @ p1 \<and> \<not> drop_unencrypted ops g status has_key (hdr_fc (skb_bytes u)))"
proof
  have o: "frag_ops_ok ops" and h: "24 \<le> length hdr" "24 \<le> length hdr0" using assms(1,2) by (simp_all add: message_ok_def)
  have s0: "carries skb0 (frag_hdr False 0 hdr0 @ p0)" and s1: "carries skb1 (frag_hdr True (of_nat (Suc 0)) hdr @ p1)"
    using assms(10-13) by (simp_all add: carries_def)
  let ?h = "frag_hdr True (of_nat (Suc 0)) hdr @ p1"
  have fc1: "skb_fc skb1 = Some (hdr_fc ?h)" using carries_fc [of skb1 ?h "[]"] s1 h by simp
  have np: "\<not> has_protected ops (hdr_fc ?h)" by (simp only: frag_ops_fc(4) [OF o] assms(5) not_False_eq_True)
  have a1: "skb_load 4 6 skb1 = Some (take 6 (drop 4 hdr))"
    using carries_load [OF s1, of 4 6] frag_hdr_addrs [OF h(1), of 6 4 True 1 p1] h by simp
  have mm: "\<exists>i. get_mmie_keyidx ops skb1 = Some i"
    using a1 assms(2) by (simp add: get_mmie_keyidx_def message_ok_def)
  have "\<not> is_multicast ops (take 6 (drop 4 hdr))" using assms(2) by (simp add: message_ok_def)
  with fc1 np a1 mm assms(9,14) show "rx_h_decrypt ops ce True (Some st) ifk sec keys1 rx = Some (RX_CONTINUE, keys1, rx\<lparr>rd_key := Some k\<rparr>)"
    by (auto simp: rx_h_decrypt_def rx_select_key_def rx_sta_ptk_def Let_def)
  let ?pn = "Some (pk_rx_pn (rk_pn (keys0 k)) sec)" and ?k0 = "Some (key_pn (keys0 k))" and ?k1 = "Some (key_pn (keys1 k))"
  have s0': "carries skb0 (frag_hdr False (of_nat 0) hdr0 @ p0)" using s0 by simp
  have "24 \<le> length (frag_hdr False 0 hdr0 @ p0)" using h by simp
  from first_fragment_pending [OF assms(15) s0 this, of ops j ?k0 sec q "hdr_fc (frag_hdr False 0 hdr0 @ p0)" "hdr_seq hdr0"] obtain c' where
    c': "first_fragment ops j ?k0 sec q (hdr_fc (frag_hdr False 0 hdr0 @ p0)) (hdr_seq hdr0) skb0 (df_cache s) = Some c'"
    "pending q j (hdr_seq hdr) 0 (frag_hdr False 0 hdr0 @ p0) [] ?pn c'"
    using assms(3,4,6) by (auto simp: frag_ops_fc(4) [OF o] rx_pn_of_def key_pn_def same_message_def)
  have step: "rx_h_defragment ops hz j ?k0 sec q True skb0 s = Some (RX_QUEUED, None, s\<lparr>df_cache := c'\<rparr>)"
    using rx_fragment_eq [OF assms(1) s0', of hz j ?k0 sec q s] c'(1) by simp
  have p: "pending q j (hdr_seq hdr) 0 (frag_hdr False 0 hdr0 @ p0) [] ?pn (df_cache (s\<lparr>df_cache := c'\<rparr>))"
    and e: "allocs (df_env (s\<lparr>df_cache := c'\<rparr>))" using c'(2) assms(16) by simp_all
  have ks: "keys_ok sec ?pn [?k1]" using assms(7,8) by (simp add: rx_pn_of_def key_pn_def)
  have k: "Suc 0 < 16" by simp
  from rx_next_fragment [OF assms(2,3) s1 k p ks e assms(17)] obtain u s' where
    u: "rx_h_defragment ops hz j ?k1 sec q True skb1 (s\<lparr>df_cache := c'\<rparr>) = Some (RX_CONTINUE, Some (u, True), s')"
    "carries u (frag_hdr False 0 hdr0 @ p0 @ concat [] @ p1)" by auto
  have "has_protected ops (hdr_fc (frag_hdr False 0 hdr0 @ p0 @ p1))"
    by (simp only: frag_ops_fc(4) [OF o] assms(4))
  then have "\<not> drop_unencrypted ops g status has_key (hdr_fc (frag_hdr False 0 hdr0 @ p0 @ p1))"
    by (simp add: drop_unencrypted_def)
  with step u show "\<exists>u s'. receive_all ops hz j sec q [(?k0, skb0), (?k1, skb1)] s =
        Some ([(RX_QUEUED, None), (RX_CONTINUE, Some (u, True))], s') \<and>
      skb_bytes u = frag_hdr False 0 hdr0 @ p0 @ p1 \<and> \<not> drop_unencrypted ops g status has_key (hdr_fc (skb_bytes u))"
    by (auto simp: carries_def)
qed

text \<open>Keys and a station for the witnesses.\<close>

definition rx_key_ex :: "u8 list \<Rightarrow> rx_key" where
  "rx_key_ex pn = \<lparr>rk_conf = key_ex CIPHER_CCMP (replicate 16 1), rk_tainted = False, rk_tx_rx_count = 0,
     rk_tkip = tkip_key_ex TKIP_STATE_NOT_INIT, rk_pn = \<lparr>pk_conf = key_ex CIPHER_CCMP (replicate 16 1), pk_tx_pn = 0, pk_rx_pn = (\<lambda>_. pn), pk_replays = 0\<rparr>,
     rk_bip = bip_key_ex, rk_gen_pn = (\<lambda>_. [])\<rparr>"

definition sta_ex :: sta_keys where
  "sta_ex = \<lparr>sk_addr = [2, 2, 2, 2, 2, 2], sk_ptk_idx = 0, sk_ptk = [Some 7, None, None, None], sk_gtk = replicate 6 None,
     sk_scheme = None, sk_mfp = False, sk_authorized = True\<rparr>"

definition if_ex :: if_keys where
  "if_ex = \<lparr>ik_keys = [Some 3, None, None, None, None, None], ik_default_mgmt = None\<rparr>"

definition phdr_ex :: "u8 list" where
  "phdr_ex = [0x08, 0x40, 0, 0, 1, 1, 1, 1, 1, 1, 2, 2, 2, 2, 2, 2, 3, 3, 3, 3, 3, 3, 0x10, 0]"

lemma phdr_ex_props: "length phdr_ex = 24" "hdr_fc phdr_ex = 0x4008" "message_ok fops_ex phdr_ex" "same_message phdr_ex hdr_ex"
  "has_protected fops_ex (hdr_fc phdr_ex)" "\<not> has_protected fops_ex (hdr_fc hdr_ex)"
proof -
  show l: "length phdr_ex = 24" and f: "hdr_fc phdr_ex = 0x4008"
    by (simp_all add: phdr_ex_def hdr_fc_def le16_def)
  show "message_ok fops_ex phdr_ex"
    using fops_ex_frag by (simp add: message_ok_def l hdr_ex_props) (simp add: fops_ex_def phdr_ex_def le16_def SCTL_FRAG_def)
  show "same_message phdr_ex hdr_ex"
    by (simp add: same_message_def l f hdr_ex_props FCTL_FTYPE_def) (simp add: phdr_ex_def hdr_ex_def hdr_seq_def)
  show "has_protected fops_ex (hdr_fc phdr_ex)" "\<not> has_protected fops_ex (hdr_fc hdr_ex)"
    by (simp_all add: f hdr_ex_props fops_ex_def)
qed

theorem decryption_key_kind_witness:
  "(\<exists>st. Some sta_ex = Some st \<and> Some 7 \<in> set (sk_ptk st)) \<or>
     (Some 7 \<in> set (ik_keys if_ex) \<and> wep_cipher (kc_cipher (rk_conf (rx_key_ex [0, 0, 0, 0, 0, 1]))))"
proof -
  let ?skb = "packet_ex (phdr_ex @ replicate 20 0)"
  have fc: "skb_fc ?skb = Some 0x4008" "skb_load 4 6 ?skb = Some [1, 1, 1, 1, 1, 1]"
    using skb_fc_mk [of phdr_ex] phdr_ex_props(1,2) by (simp_all add: packet_ex_def skb_load_mk) (simp add: phdr_ex_def)
  have "has_protected fops_ex 0x4008" using phdr_ex_props(2,5) by simp
  with fc have "rx_select_key fops_ex (\<lambda>_. rx_key_ex [0, 0, 0, 0, 0, 1]) True status_ex (Some sta_ex) if_ex None ?skb = Some (None, Some 7)"
    by (simp add: rx_select_key_def rx_sta_ptk_def sta_ex_def key_slot_def Let_def status_ex_def) (simp add: fops_ex_def)
  from decryption_key_kind [OF this fc(2)] show ?thesis by (simp add: fops_ex_def)
qed

theorem plaintext_fragment_accepted_witness:
  "\<exists>u s'. receive_all fops_ex 100 0 0 0
      [(Some (key_pn (rx_key_ex [0, 0, 0, 0, 0, 1])), packet_ex (frag_hdr False 0 phdr_ex @ [1, 2, 3])),
       (Some (key_pn (rx_key_ex [0, 0, 0, 0, 0, 2])), packet_ex (frag_hdr True 1 hdr_ex @ [9, 9]))] defrag_ex =
      Some ([(RX_QUEUED, None), (RX_CONTINUE, Some (u, True))], s') \<and>
    skb_bytes u = frag_hdr False 0 phdr_ex @ [1, 2, 3] @ [9, 9]"
proof -
  let ?skb0 = "packet_ex (frag_hdr False 0 phdr_ex @ [1, 2, 3])" and ?skb1 = "packet_ex (frag_hdr True 1 hdr_ex @ [9, 9])"
  let ?keys0 = "\<lambda>_ :: nat. rx_key_ex [0, 0, 0, 0, 0, 1]" and ?keys1 = "\<lambda>_ :: nat. rx_key_ex [0, 0, 0, 0, 0, 2]"
  have c: "is_ccmp (Some (key_pn (?keys0 7)))" "is_ccmp (Some (key_pn (?keys1 7)))"
    by (simp_all add: is_ccmp_def key_pn_def rx_key_ex_def key_ex_def)
  have n: "pk_rx_pn (rk_pn (?keys1 7)) 0 = pn_next (pk_rx_pn (rk_pn (?keys0 7)) 0)" by (simp add: rx_key_ex_def pn_next_def)
  have k: "key_slot (sk_ptk sta_ex) (sk_ptk_idx sta_ex) = Some (Some 7)" by (simp add: key_slot_def sta_ex_def)
  have r: "rd_skb \<lparr>rd_skb = ?skb1, rd_key = None, rd_status = status_ex, rd_tkip_iv = None\<rparr> = ?skb1" by simp
  from conjunct2 [OF plaintext_fragment_accepted [OF phdr_ex_props(3) message_ex phdr_ex_props(4-6) c n k
        packet_ex_props(2,1) packet_ex_props(2,1) r defrag_ex_props(1-3)]]
  show ?thesis by blast
qed

end
