(* ===== verification/Elements.thy ===== *)
theory Elements
  imports WEP
begin

text \<open>
  Parsing of the information elements of a management frame (\<^verbatim>\<open>util.c\<close>). An element is a byte for its
  kind, a byte for its length, and that many bytes. The parser records where the elements it knows begin, as positions in the buffer, and
  for some also their length. The numbers of the kinds and the sizes of the structures are those of the standard
  (\<^verbatim>\<open>linux/ieee80211.h\<close>).
\<close>

section \<open>Kinds and sizes\<close>

definition EID_SSID :: u8 where "EID_SSID = 0"
definition EID_SUPP_RATES :: u8 where "EID_SUPP_RATES = 1"
definition EID_FH_PARAMS :: u8 where "EID_FH_PARAMS = 2"
definition EID_DS_PARAMS :: u8 where "EID_DS_PARAMS = 3"
definition EID_CF_PARAMS :: u8 where "EID_CF_PARAMS = 4"
definition EID_TIM :: u8 where "EID_TIM = 5"
definition EID_IBSS_PARAMS :: u8 where "EID_IBSS_PARAMS = 6"
definition EID_COUNTRY :: u8 where "EID_COUNTRY = 7"
definition EID_CHALLENGE :: u8 where "EID_CHALLENGE = 16"
definition EID_PWR_CONSTRAINT :: u8 where "EID_PWR_CONSTRAINT = 32"
definition EID_CHANNEL_SWITCH :: u8 where "EID_CHANNEL_SWITCH = 37"
definition EID_ERP_INFO :: u8 where "EID_ERP_INFO = 42"
definition EID_HT_CAPABILITY :: u8 where "EID_HT_CAPABILITY = 45"
definition EID_RSN :: u8 where "EID_RSN = 48"
definition EID_EXT_SUPP_RATES :: u8 where "EID_EXT_SUPP_RATES = 50"
definition EID_TIMEOUT_INTERVAL :: u8 where "EID_TIMEOUT_INTERVAL = 56"
definition EID_EXT_CHANSWITCH_ANN :: u8 where "EID_EXT_CHANSWITCH_ANN = 60"
definition EID_HT_OPERATION :: u8 where "EID_HT_OPERATION = 61"
definition EID_SECONDARY_CHANNEL_OFFSET :: u8 where "EID_SECONDARY_CHANNEL_OFFSET = 62"
definition EID_LINK_ID :: u8 where "EID_LINK_ID = 101"
definition EID_CHAN_SWITCH_TIMING :: u8 where "EID_CHAN_SWITCH_TIMING = 104"
definition EID_MESH_CONFIG :: u8 where "EID_MESH_CONFIG = 113"
definition EID_MESH_ID :: u8 where "EID_MESH_ID = 114"
definition EID_PEER_MGMT :: u8 where "EID_PEER_MGMT = 117"
definition EID_CHAN_SWITCH_PARAM :: u8 where "EID_CHAN_SWITCH_PARAM = 118"
definition EID_MESH_AWAKE_WINDOW :: u8 where "EID_MESH_AWAKE_WINDOW = 119"
definition EID_RANN :: u8 where "EID_RANN = 126"
definition EID_EXT_CAPABILITY :: u8 where "EID_EXT_CAPABILITY = 127"
definition EID_PREQ :: u8 where "EID_PREQ = 130"
definition EID_PREP :: u8 where "EID_PREP = 131"
definition EID_PERR :: u8 where "EID_PERR = 132"
definition EID_CISCO_VENDOR_SPECIFIC :: u8 where "EID_CISCO_VENDOR_SPECIFIC = 150"
definition EID_VHT_CAPABILITY :: u8 where "EID_VHT_CAPABILITY = 191"
definition EID_VHT_OPERATION :: u8 where "EID_VHT_OPERATION = 192"
definition EID_WIDE_BW_CHANNEL_SWITCH :: u8 where "EID_WIDE_BW_CHANNEL_SWITCH = 194"
definition EID_CHANNEL_SWITCH_WRAPPER :: u8 where "EID_CHANNEL_SWITCH_WRAPPER = 196"
definition EID_OPMODE_NOTIF :: u8 where "EID_OPMODE_NOTIF = 199"
definition EID_VENDOR_SPECIFIC :: u8 where "EID_VENDOR_SPECIFIC = 221"

lemmas eid_defs = EID_SSID_def EID_SUPP_RATES_def EID_FH_PARAMS_def EID_DS_PARAMS_def EID_CF_PARAMS_def EID_TIM_def
  EID_IBSS_PARAMS_def EID_COUNTRY_def EID_CHALLENGE_def EID_PWR_CONSTRAINT_def EID_CHANNEL_SWITCH_def EID_ERP_INFO_def
  EID_HT_CAPABILITY_def EID_RSN_def EID_EXT_SUPP_RATES_def EID_TIMEOUT_INTERVAL_def EID_EXT_CHANSWITCH_ANN_def
  EID_HT_OPERATION_def EID_SECONDARY_CHANNEL_OFFSET_def EID_LINK_ID_def EID_CHAN_SWITCH_TIMING_def EID_MESH_CONFIG_def
  EID_MESH_ID_def EID_PEER_MGMT_def EID_CHAN_SWITCH_PARAM_def EID_MESH_AWAKE_WINDOW_def EID_RANN_def EID_EXT_CAPABILITY_def
  EID_PREQ_def EID_PREP_def EID_PERR_def EID_CISCO_VENDOR_SPECIFIC_def EID_VHT_CAPABILITY_def EID_VHT_OPERATION_def
  EID_WIDE_BW_CHANNEL_SWITCH_def EID_CHANNEL_SWITCH_WRAPPER_def EID_OPMODE_NOTIF_def EID_VENDOR_SPECIFIC_def

text \<open>The pointers of the structure; those of the first group have a field for the length, too.\<close>

datatype elem_ptr =
  Ext_capab | Ssid | Supp_rates | Tim | Challenge | Rsn | Ext_supp_rates | Wmm_info | Wmm_param | Mesh_id | Peering |
  Preq | Prep | Perr | Country_elem |
  Lnk_id | Ch_sw_timing | Ds_params | Erp_info | Ht_cap_elem | Ht_operation | Vht_cap_elem | Vht_operation | Mesh_config |
  Awake_window | Rann | Ch_switch_ie | Ext_chansw_ie | Wide_bw_chansw_ie | Pwr_constr_elem | Cisco_dtpc_elem | Timeout_int |
  Opmode_notif | Sec_chan_offs | Mesh_chansw_params_ie

record elems =
  el_total_len :: nat
  el_ptr :: "elem_ptr \<Rightarrow> nat option"
  el_len :: "elem_ptr \<Rightarrow> u8"
  el_parse_error :: bool

text \<open>The size of what a pointer points to, 0 where the length is recorded.\<close>

fun elem_size :: "elem_ptr \<Rightarrow> nat" where
  "elem_size Lnk_id = 20"
| "elem_size Ch_sw_timing = 4"
| "elem_size Ds_params = 1"
| "elem_size Tim = 4"
| "elem_size Erp_info = 1"
| "elem_size Ht_cap_elem = 26"
| "elem_size Ht_operation = 22"
| "elem_size Vht_cap_elem = 12"
| "elem_size Vht_operation = 5"
| "elem_size Mesh_config = 7"
| "elem_size Awake_window = 2"
| "elem_size Rann = 21"
| "elem_size Ch_switch_ie = 3"
| "elem_size Ext_chansw_ie = 4"
| "elem_size Wide_bw_chansw_ie = 3"
| "elem_size Pwr_constr_elem = 1"
| "elem_size Cisco_dtpc_elem = 6"
| "elem_size Timeout_int = 5"
| "elem_size Opmode_notif = 1"
| "elem_size Sec_chan_offs = 1"
| "elem_size Mesh_chansw_params_ie = 6"
| "elem_size _ = 0"

section \<open>The parser\<close>

definition byte_at :: "u8 list \<Rightarrow> nat \<Rightarrow> u8 option" where
  "byte_at bs i = (if i < length bs then Some (bs ! i) else None)"

text \<open>The elements that are accepted only once.\<close>

definition once_elems :: "u8 list" where
  "once_elems = [EID_SSID, EID_SUPP_RATES, EID_FH_PARAMS, EID_DS_PARAMS, EID_CF_PARAMS, EID_TIM, EID_IBSS_PARAMS, EID_CHALLENGE,
     EID_RSN, EID_ERP_INFO, EID_EXT_SUPP_RATES, EID_HT_CAPABILITY, EID_HT_OPERATION, EID_VHT_CAPABILITY, EID_VHT_OPERATION,
     EID_MESH_ID, EID_MESH_CONFIG, EID_PEER_MGMT, EID_PREQ, EID_PREP, EID_PERR, EID_RANN, EID_CHANNEL_SWITCH,
     EID_EXT_CHANSWITCH_ANN, EID_COUNTRY, EID_PWR_CONSTRAINT, EID_TIMEOUT_INTERVAL, EID_SECONDARY_CHANNEL_OFFSET,
     EID_WIDE_BW_CHANNEL_SWITCH, EID_CHAN_SWITCH_PARAM, EID_EXT_CAPABILITY, EID_CHAN_SWITCH_TIMING, EID_LINK_ID]"

definition set_ptr :: "elem_ptr \<Rightarrow> nat \<Rightarrow> elems \<Rightarrow> elems" where
  "set_ptr k p e = e\<lparr>el_ptr := (el_ptr e)(k := Some p)\<rparr>"

definition set_var :: "elem_ptr \<Rightarrow> nat \<Rightarrow> u8 \<Rightarrow> elems \<Rightarrow> elems" where
  "set_var k p n e = e\<lparr>el_ptr := (el_ptr e)(k := Some p), el_len := (el_len e)(k := n)\<rparr>"

text \<open>What the cases share: an element that is accepted if its length is right, and then recorded. The result says if it failed.\<close>

definition sized :: "bool \<Rightarrow> elem_ptr \<Rightarrow> nat \<Rightarrow> elems \<Rightarrow> elems \<times> bool" where
  "sized ok k p e = (if ok then (set_ptr k p e, False) else (e, True))"

text \<open>\<open>find_ie\<close> is \<^verbatim>\<open>cfg80211_find_ie\<close>, which gives the position of an element in a list of elements; \<open>crc32_be\<close> the checksum.\<close>

definition vendor_elem :: "crc \<Rightarrow> bool \<Rightarrow> u8 list \<Rightarrow> u8 \<Rightarrow> nat \<Rightarrow> elems \<Rightarrow> u32 \<Rightarrow> (elems \<times> u32) option" where
  "vendor_elem crc32_be calc_crc bs elen pos e crc =
     (if unat elen < 4 then Some (e, crc)
      else do {
        b0 \<leftarrow> byte_at bs pos;
        b1 \<leftarrow> byte_at bs (pos + 1);
        b2 \<leftarrow> byte_at bs (pos + 2);
        if b0 = 0x00 \<and> b1 = 0x50 \<and> b2 = 0xf2 then do {
          let crc = (if calc_crc then crc32_be crc (take (unat elen + 2) (drop (pos - 2) bs)) else crc);
          b3 \<leftarrow> byte_at bs (pos + 3);
          if 5 \<le> unat elen \<and> b3 = 2 then do {
            b4 \<leftarrow> byte_at bs (pos + 4);
            Some (if b4 = 0 then set_var Wmm_info pos elen e else if b4 = 1 then set_var Wmm_param pos elen e else e, crc)
          }
          else Some (e, crc)
        }
        else Some (e, crc)
      })"

definition cisco_elem :: "crc \<Rightarrow> bool \<Rightarrow> u8 list \<Rightarrow> u8 \<Rightarrow> nat \<Rightarrow> elems \<Rightarrow> u32 \<Rightarrow> (elems \<times> bool \<times> u32) option" where
  "cisco_elem crc32_be calc_crc bs elen pos e crc =
     (if unat elen < 4 then Some (e, True, crc)
      else do {
        b0 \<leftarrow> byte_at bs pos;
        b1 \<leftarrow> byte_at bs (pos + 1);
        b2 \<leftarrow> byte_at bs (pos + 2);
        b3 \<leftarrow> byte_at bs (pos + 3);
        Some (if b0 \<noteq> 0x00 \<or> b1 \<noteq> 0x40 \<or> b2 \<noteq> 0x96 \<or> b3 \<noteq> 0x00 then (e, False, crc)
              else if unat elen \<noteq> 6 then (e, True, crc)
              else (set_ptr Cisco_dtpc_elem pos e, False,
                    if calc_crc then crc32_be crc (take (unat elen + 2) (drop (pos - 2) bs)) else crc))
      })"

definition wrapper_elem :: "(u8 \<Rightarrow> u8 list \<Rightarrow> nat option) \<Rightarrow> bool \<Rightarrow> u8 list \<Rightarrow> u8 \<Rightarrow> nat \<Rightarrow> elems \<Rightarrow> (elems \<times> bool) option" where
  "wrapper_elem find_ie action bs elen pos e =
     (if action then Some (e, True)
      else (case find_ie EID_WIDE_BW_CHANNEL_SWITCH (take (unat elen) (drop pos bs)) of
        None \<Rightarrow> Some (e, False)
      | Some ie \<Rightarrow> map_option (\<lambda>n. sized (unat n = 3) Wide_bw_chansw_ie (pos + ie + 2) e) (byte_at bs (pos + ie + 1))))"

definition parse_elem ::
  "(u8 \<Rightarrow> u8 list \<Rightarrow> nat option) \<Rightarrow> crc \<Rightarrow> bool \<Rightarrow> bool \<Rightarrow> u8 list \<Rightarrow> u8 \<Rightarrow> u8 \<Rightarrow> nat \<Rightarrow> elems \<Rightarrow> u32 \<Rightarrow>
   (elems \<times> bool \<times> u32) option" where
  "parse_elem find_ie crc32_be action calc_crc bs eid elen pos e crc =
     (let n = unat elen;
          plain = (\<lambda>(e, failed). Some (e, failed, crc));
          var = (\<lambda>k. Some (set_var k pos elen e, False, crc))
      in if eid = EID_LINK_ID then plain (sized (n + 2 = 20) Lnk_id (pos - 2) e)
      else if eid = EID_CHAN_SWITCH_TIMING then plain (sized (n = 4) Ch_sw_timing pos e)
      else if eid = EID_EXT_CAPABILITY then var Ext_capab
      else if eid = EID_SSID then var Ssid
      else if eid = EID_SUPP_RATES then var Supp_rates
      else if eid = EID_DS_PARAMS then plain (sized (1 \<le> n) Ds_params pos e)
      else if eid = EID_TIM then (if 4 \<le> n then var Tim else plain (e, True))
      else if eid = EID_CHALLENGE then var Challenge
      else if eid = EID_VENDOR_SPECIFIC then map_option (\<lambda>(e, crc). (e, False, crc)) (vendor_elem crc32_be calc_crc bs elen pos e crc)
      else if eid = EID_RSN then var Rsn
      else if eid = EID_ERP_INFO then plain (sized (1 \<le> n) Erp_info pos e)
      else if eid = EID_EXT_SUPP_RATES then var Ext_supp_rates
      else if eid = EID_HT_CAPABILITY then plain (sized (26 \<le> n) Ht_cap_elem pos e)
      else if eid = EID_HT_OPERATION then plain (sized (22 \<le> n) Ht_operation pos e)
      else if eid = EID_VHT_CAPABILITY then plain (sized (12 \<le> n) Vht_cap_elem pos e)
      else if eid = EID_VHT_OPERATION then plain (sized (5 \<le> n) Vht_operation pos e)
      else if eid = EID_OPMODE_NOTIF then plain (sized (0 < n) Opmode_notif pos e)
      else if eid = EID_MESH_ID then var Mesh_id
      else if eid = EID_MESH_CONFIG then plain (sized (7 \<le> n) Mesh_config pos e)
      else if eid = EID_PEER_MGMT then var Peering
      else if eid = EID_MESH_AWAKE_WINDOW then plain (if 2 \<le> n then set_ptr Awake_window pos e else e, False)
      else if eid = EID_PREQ then var Preq
      else if eid = EID_PREP then var Prep
      else if eid = EID_PERR then var Perr
      else if eid = EID_RANN then plain (sized (21 \<le> n) Rann pos e)
      else if eid = EID_CHANNEL_SWITCH then plain (sized (n = 3) Ch_switch_ie pos e)
      else if eid = EID_EXT_CHANSWITCH_ANN then plain (sized (n = 4) Ext_chansw_ie pos e)
      else if eid = EID_SECONDARY_CHANNEL_OFFSET then plain (sized (n = 1) Sec_chan_offs pos e)
      else if eid = EID_CHAN_SWITCH_PARAM then plain (sized (n = 6) Mesh_chansw_params_ie pos e)
      else if eid = EID_WIDE_BW_CHANNEL_SWITCH then plain (sized (action \<and> n = 3) Wide_bw_chansw_ie pos e)
      else if eid = EID_CHANNEL_SWITCH_WRAPPER then map_option (\<lambda>(e, failed). (e, failed, crc)) (wrapper_elem find_ie action bs elen pos e)
      else if eid = EID_COUNTRY then var Country_elem
      else if eid = EID_PWR_CONSTRAINT then plain (sized (n = 1) Pwr_constr_elem pos e)
      else if eid = EID_CISCO_VENDOR_SPECIFIC then cisco_elem crc32_be calc_crc bs elen pos e crc
      else if eid = EID_TIMEOUT_INTERVAL then plain (sized (5 \<le> n) Timeout_int pos e)
      else Some (e, False, crc))"

text \<open>The loop over the elements; \<open>seen\<close> is the set of the kinds seen so far.\<close>

function parse_loop ::
  "(u8 \<Rightarrow> u8 list \<Rightarrow> nat option) \<Rightarrow> crc \<Rightarrow> bool \<Rightarrow> u64 \<Rightarrow> u8 list \<Rightarrow> nat \<Rightarrow> nat \<Rightarrow> u8 list \<Rightarrow> elems \<Rightarrow> u32 \<Rightarrow> (elems \<times> u32) option" where
  "parse_loop find_ie crc32_be action filter_mask bs left pos seen e crc =
     (if left < 2 then Some (if left \<noteq> 0 then e\<lparr>el_parse_error := True\<rparr> else e, crc)
      else do {
        eid \<leftarrow> byte_at bs pos;
        elen \<leftarrow> byte_at bs (pos + 1);
        if left - 2 < unat elen then Some (e\<lparr>el_parse_error := True\<rparr>, crc)
        else if eid \<in> set once_elems \<and> eid \<in> set seen then
          parse_loop find_ie crc32_be action filter_mask bs (left - 2 - unat elen) (pos + 2 + unat elen) seen (e\<lparr>el_parse_error := True\<rparr>) crc
        else do {
          let crc = (if filter_mask \<noteq> 0 \<and> eid < 64 \<and> bit filter_mask (unat eid)
                     then crc32_be crc (take (unat elen + 2) (drop pos bs)) else crc);
          (e, failed, crc) \<leftarrow> parse_elem find_ie crc32_be action (filter_mask \<noteq> 0) bs eid elen (pos + 2) e crc;
          parse_loop find_ie crc32_be action filter_mask bs (left - 2 - unat elen) (pos + 2 + unat elen)
            (if failed then seen else eid # seen) (if failed then e\<lparr>el_parse_error := True\<rparr> else e) crc
        }
      })"
  by auto
termination
  by (relation "measure (\<lambda>(find_ie, crc32_be, action, filter_mask, bs, left, pos, seen, e, crc). left)") auto

declare parse_loop.simps [simp del]

definition no_elems :: "nat \<Rightarrow> elems" where
  "no_elems n = \<lparr>el_total_len = n, el_ptr = (\<lambda>_. None), el_len = (\<lambda>_. 0), el_parse_error = False\<rparr>"

definition parse_elems_crc ::
  "(u8 \<Rightarrow> u8 list \<Rightarrow> nat option) \<Rightarrow> crc \<Rightarrow> u8 list \<Rightarrow> nat \<Rightarrow> bool \<Rightarrow> u64 \<Rightarrow> u32 \<Rightarrow> (elems \<times> u32) option" where
  "parse_elems_crc find_ie crc32_be start len action filter_mask crc =
     parse_loop find_ie crc32_be action filter_mask start len 0 [] (no_elems len) crc"

definition parse_elems :: "(u8 \<Rightarrow> u8 list \<Rightarrow> nat option) \<Rightarrow> crc \<Rightarrow> u8 list \<Rightarrow> nat \<Rightarrow> bool \<Rightarrow> elems option" where
  "parse_elems find_ie crc32_be start len action = map_option fst (parse_elems_crc find_ie crc32_be start len action 0 0)"

section \<open>What the parser records lies in the buffer\<close>

text \<open>What \<^verbatim>\<open>cfg80211_find_ie\<close> promises: an element it finds lies in the list.\<close>

definition find_ie_ok :: "(u8 \<Rightarrow> u8 list \<Rightarrow> nat option) \<Rightarrow> bool" where
  "find_ie_ok find_ie \<longleftrightarrow> (\<forall>eid bs i. find_ie eid bs = Some i \<longrightarrow> i + 1 < length bs \<and> bs ! i = eid \<and> i + 2 + unat (bs ! (i + 1)) \<le> length bs)"

definition elems_within :: "nat \<Rightarrow> elems \<Rightarrow> bool" where
  "elems_within n e \<longleftrightarrow> (\<forall>k p. el_ptr e k = Some p \<longrightarrow> p + elem_size k \<le> n \<and> p + unat (el_len e k) \<le> n)"

lemma within_set_ptr: "elems_within n e \<Longrightarrow> p + elem_size k \<le> n \<Longrightarrow> p + unat (el_len e k) \<le> n \<Longrightarrow> elems_within n (set_ptr k p e)"
  by (simp add: elems_within_def set_ptr_def)

lemma within_set_var: "elems_within n e \<Longrightarrow> p + elem_size k \<le> n \<Longrightarrow> p + unat l \<le> n \<Longrightarrow> elems_within n (set_var k p l e)"
  by (simp add: elems_within_def set_var_def)

lemma within_error [simp]: "elems_within n (e\<lparr>el_parse_error := b\<rparr>) = elems_within n e"
  by (simp add: elems_within_def)

text \<open>Only the pointers of the first group have a length.\<close>

definition only_var_len :: "elems \<Rightarrow> bool" where
  "only_var_len e \<longleftrightarrow> (\<forall>k. elem_size k \<noteq> 0 \<and> k \<noteq> Tim \<longrightarrow> el_len e k = 0)"

definition elems_ok :: "nat \<Rightarrow> elems \<Rightarrow> bool" where
  "elems_ok n e \<longleftrightarrow> elems_within n e \<and> only_var_len e"

lemma elems_ok_ptr: "elems_ok n e \<Longrightarrow> elem_size k \<noteq> 0 \<Longrightarrow> k \<noteq> Tim \<Longrightarrow> p + elem_size k \<le> n \<Longrightarrow> elems_ok n (set_ptr k p e)"
  by (auto simp: elems_ok_def only_var_len_def set_ptr_def elems_within_def)

lemma elems_ok_var: "elems_ok n e \<Longrightarrow> elem_size k = 0 \<or> k = Tim \<Longrightarrow> p + elem_size k \<le> n \<Longrightarrow> p + unat l \<le> n \<Longrightarrow> elems_ok n (set_var k p l e)"
  by (auto simp: elems_ok_def only_var_len_def set_var_def elems_within_def)

lemma elems_ok_error [simp]: "elems_ok n (e\<lparr>el_parse_error := b\<rparr>) = elems_ok n e"
  by (simp add: elems_ok_def only_var_len_def)

lemma elems_ok_none [simp]: "elems_ok n (no_elems m)"
  by (simp add: elems_ok_def only_var_len_def elems_within_def no_elems_def)

lemma elems_ok_sized:
  "elems_ok n e \<Longrightarrow> elem_size k \<noteq> 0 \<Longrightarrow> k \<noteq> Tim \<Longrightarrow> (ok \<Longrightarrow> p + elem_size k \<le> n) \<Longrightarrow> elems_ok n (fst (sized ok k p e))"
  by (simp add: sized_def elems_ok_ptr)

lemma byte_at_Some: "i < length bs \<Longrightarrow> byte_at bs i = Some (bs ! i)"
  by (simp add: byte_at_def)

text \<open>An element that lies in the buffer is parsed without leaving it.\<close>

definition elem_step_ok :: "nat \<Rightarrow> (elems \<times> bool \<times> u32) option \<Rightarrow> bool" where
  "elem_step_ok n r \<longleftrightarrow> (\<exists>e failed crc. r = Some (e, failed, crc) \<and> elems_ok n e)"

lemma elem_step_if: "(b \<Longrightarrow> elem_step_ok n x) \<Longrightarrow> (\<not> b \<Longrightarrow> elem_step_ok n y) \<Longrightarrow> elem_step_ok n (if b then x else y)"
  by simp

lemma vendor_elem_ok:
  assumes "elems_ok (length bs) e" "pos + unat elen \<le> length bs"
  shows "\<exists>e' crc'. vendor_elem crc32_be cc bs elen pos e crc = Some (e', crc') \<and> elems_ok (length bs) e'"
  using assms by (auto simp: vendor_elem_def byte_at_Some Let_def intro!: elems_ok_var)

lemma cisco_elem_ok:
  assumes "elems_ok (length bs) e" "pos + unat elen \<le> length bs"
  shows "\<exists>e' b crc'. cisco_elem crc32_be cc bs elen pos e crc = Some (e', b, crc') \<and> elems_ok (length bs) e'"
  using assms by (auto simp: cisco_elem_def byte_at_Some Let_def intro!: elems_ok_ptr)

lemma wrapper_elem_ok:
  assumes "elems_ok (length bs) e" "pos + unat elen \<le> length bs" "find_ie_ok find_ie"
  shows "\<exists>e' b. wrapper_elem find_ie action bs elen pos e = Some (e', b) \<and> elems_ok (length bs) e'"
proof (cases "find_ie EID_WIDE_BW_CHANNEL_SWITCH (take (unat elen) (drop pos bs))")
  case None
  with assms(1) show ?thesis by (auto simp: wrapper_elem_def)
next
  case (Some ie)
  from assms(3) Some have i: "ie + 1 < unat elen" "ie + 2 + unat (bs ! (pos + ie + 1)) \<le> unat elen"
    unfolding find_ie_ok_def using assms(2) by (fastforce simp: add.assoc)+
  have "pos + ie + 2 + elem_size Wide_bw_chansw_ie \<le> length bs" if "unat (bs ! (pos + ie + 1)) = 3"
    using i that assms(2) by simp
  with elems_ok_sized [OF assms(1), of Wide_bw_chansw_ie "unat (bs ! (pos + ie + 1)) = 3" "pos + ie + 2"] i(1) Some assms(1,2)
  show ?thesis by (cases "sized (unat (bs ! (pos + ie + 1)) = 3) Wide_bw_chansw_ie (pos + ie + 2) e")
      (auto simp: wrapper_elem_def byte_at_Some)
qed

lemma parse_elem_ok:
  assumes e: "elems_ok (length bs) e" and p: "2 \<le> pos" "pos + unat elen \<le> length bs" and f: "find_ie_ok find_ie"
  shows "elem_step_ok (length bs) (parse_elem find_ie crc32_be action cc bs eid elen pos e crc)"
proof -
  have s: "elem_step_ok (length bs) (case sized ok k q e of (e, failed) \<Rightarrow> Some (e, failed, crc))"
    if "elem_size k \<noteq> 0" "k \<noteq> Tim" "ok \<Longrightarrow> q + elem_size k \<le> length bs" for ok k q
  proof -
    have "elems_ok (length bs) (fst (sized ok k q e))" by (rule elems_ok_sized [OF e that(1,2)]) (rule that(3))
    then show ?thesis by (cases "sized ok k q e") (simp add: elem_step_ok_def)
  qed
  have v: "elem_step_ok (length bs) (Some (set_var k pos elen e, False, crc))" if "elem_size k = 0 \<or> k = Tim" "pos + elem_size k \<le> length bs" for k
    using elems_ok_var [OF e that p(2)] by (auto simp: elem_step_ok_def)
  have ve: "elem_step_ok (length bs) (map_option (\<lambda>(e, crc). (e, False, crc)) (vendor_elem crc32_be cc bs elen pos e crc))"
    using vendor_elem_ok [OF e p(2), of crc32_be cc crc] by (auto simp: elem_step_ok_def)
  have ci: "elem_step_ok (length bs) (cisco_elem crc32_be cc bs elen pos e crc)"
    using cisco_elem_ok [OF e p(2), of crc32_be cc crc] by (auto simp: elem_step_ok_def)
  have wr: "elem_step_ok (length bs) (map_option (\<lambda>(e, failed). (e, failed, crc)) (wrapper_elem find_ie action bs elen pos e))"
    using wrapper_elem_ok [OF e p(2) f, of action] by (auto simp: elem_step_ok_def)
  have aw: "elem_step_ok (length bs) (case (if 2 \<le> unat elen then set_ptr Awake_window pos e else e, False) of (e, failed) \<Rightarrow> Some (e, failed, crc))"
    using e p(2) by (auto simp: elem_step_ok_def intro!: elems_ok_ptr)
  have no: "elem_step_ok (length bs) (Some (e, b, crc))" for b using e by (simp add: elem_step_ok_def)
  have no': "elem_step_ok (length bs) (case (e, b) of (e, failed) \<Rightarrow> Some (e, failed, crc))" for b using no by simp
  show ?thesis
    unfolding parse_elem_def Let_def
    by (intro elem_step_if s v ve ci wr aw no no'; use p in simp)
qed

lemma parse_loop_ok:
  assumes "find_ie_ok find_ie"
  shows "pos + left = length bs \<Longrightarrow> elems_ok (length bs) e \<Longrightarrow>
    \<exists>e' crc'. parse_loop find_ie crc32_be action flt bs left pos seen e crc = Some (e', crc') \<and> elems_ok (length bs) e'"
proof (induction left arbitrary: pos seen e crc rule: less_induct)
  case (less left)
  show ?case
  proof (cases "left < 2")
    case True
    with less.prems show ?thesis by (simp add: parse_loop.simps [of _ _ _ _ _ left])
  next
    case False
    then have b: "byte_at bs pos = Some (bs ! pos)" "byte_at bs (pos + 1) = Some (bs ! (pos + 1))"
      using less.prems(1) by (simp_all add: byte_at_Some)
    let ?eid = "bs ! pos" and ?n = "unat (bs ! (pos + 1))"
    show ?thesis
    proof (cases "left - 2 < ?n")
      case True
      with False b less.prems(2) show ?thesis by (simp add: parse_loop.simps [of _ _ _ _ _ left])
    next
      case fits: False
      have l: "left - 2 - ?n < left" "pos + 2 + ?n + (left - 2 - ?n) = length bs" "2 \<le> pos + 2" "pos + 2 + ?n \<le> length bs"
        using False fits less.prems(1) by simp_all
      let ?crc = "if flt \<noteq> 0 \<and> ?eid < 64 \<and> bit flt (unat ?eid) then crc32_be crc (take (?n + 2) (drop pos bs)) else crc"
      obtain e1 failed crc1 where e1: "parse_elem find_ie crc32_be action (flt \<noteq> 0) bs ?eid (bs ! (pos + 1)) (pos + 2) e ?crc = Some (e1, failed, crc1)"
        "elems_ok (length bs) e1"
        using parse_elem_ok [OF less.prems(2) l(3,4) assms, of crc32_be action "flt \<noteq> 0" ?eid ?crc] by (auto simp: elem_step_ok_def)
      have "elems_ok (length bs) (e\<lparr>el_parse_error := True\<rparr>)" "elems_ok (length bs) (if failed then e1\<lparr>el_parse_error := True\<rparr> else e1)"
        using less.prems(2) e1(2) by simp_all
      note IH = this [THEN less.IH [OF l(1,2)]]
      have eq: "parse_loop find_ie crc32_be action flt bs left pos seen e crc =
        (if ?eid \<in> set once_elems \<and> ?eid \<in> set seen
         then parse_loop find_ie crc32_be action flt bs (left - 2 - ?n) (pos + 2 + ?n) seen (e\<lparr>el_parse_error := True\<rparr>) crc
         else parse_loop find_ie crc32_be action flt bs (left - 2 - ?n) (pos + 2 + ?n) (if failed then seen else ?eid # seen)
                (if failed then e1\<lparr>el_parse_error := True\<rparr> else e1) crc1)"
        using False fits b e1(1) by (subst parse_loop.simps) (simp only: if_False bind.bind_lunit Let_def prod.case)
      show ?thesis unfolding eq
        by (cases "?eid \<in> set once_elems \<and> ?eid \<in> set seen") (simp_all only: if_True if_False simp_thms IH)
    qed
  qed
qed

text \<open>C26. For every frame body and every length up to its end the parser never reads outside the body, and every pointer it
  records points to a structure of its size, or to as many bytes as it says, inside the body.\<close>

theorem parsed_elems_in_bounds:
  assumes "find_ie_ok find_ie"
  shows "\<exists>e crc'. parse_elems_crc find_ie crc32_be bs (length bs) action filter_mask crc = Some (e, crc') \<and>
    elems_within (length bs) e"
proof -
  from parse_loop_ok [OF assms, of 0 "length bs" bs "no_elems (length bs)" crc32_be action filter_mask "[]" crc, OF _ elems_ok_none]
  show ?thesis by (auto simp: parse_elems_crc_def elems_ok_def)
qed

text \<open>A search for the witnesses, which follows the lengths of the elements.\<close>

fun find_ie_ex_from :: "nat \<Rightarrow> u8 \<Rightarrow> u8 list \<Rightarrow> nat \<Rightarrow> nat option" where
  "find_ie_ex_from 0 eid bs i = None"
| "find_ie_ex_from (Suc n) eid bs i =
     (if length bs < i + 2 \<or> length bs < i + 2 + unat (bs ! (i + 1)) then None
      else if bs ! i = eid then Some i else find_ie_ex_from n eid bs (i + 2 + unat (bs ! (i + 1))))"

definition find_ie_ex :: "u8 \<Rightarrow> u8 list \<Rightarrow> nat option" where
  "find_ie_ex eid bs = find_ie_ex_from (length bs) eid bs 0"

lemma find_ie_ex_ok: "find_ie_ok find_ie_ex"
proof -
  have "i' + 1 < length bs \<and> bs ! i' = eid \<and> i' + 2 + unat (bs ! (i' + 1)) \<le> length bs"
    if "find_ie_ex_from n eid bs i = Some i'" for n eid bs i i'
    using that by (induction n eid bs i rule: find_ie_ex_from.induct) (auto split: if_splits)
  then show ?thesis by (simp add: find_ie_ok_def find_ie_ex_def)
qed

theorem parsed_elems_in_bounds_witness:
  "\<exists>e crc'. parse_elems_crc find_ie_ex (\<lambda>_ _. 0) [0, 2, 65, 66, 1, 9] (length [0 :: u8, 2, 65, 66, 1, 9]) False 0 0 = Some (e, crc') \<and>
    elems_within (length [0 :: u8, 2, 65, 66, 1, 9]) e"
  by (rule parsed_elems_in_bounds [OF find_ie_ex_ok])

section \<open>Parsing what was written\<close>

text \<open>A list of elements as bytes.\<close>

fun elem_bytes :: "(u8 \<times> u8 list) list \<Rightarrow> u8 list" where
  "elem_bytes [] = []"
| "elem_bytes ((eid, body) # els) = eid # of_nat (length body) # body @ elem_bytes els"

text \<open>The kinds that are accepted once and recorded with their length.\<close>

definition var_elems :: "(u8 \<times> elem_ptr) list" where
  "var_elems = [(EID_SSID, Ssid), (EID_SUPP_RATES, Supp_rates), (EID_CHALLENGE, Challenge), (EID_RSN, Rsn),
     (EID_EXT_SUPP_RATES, Ext_supp_rates), (EID_MESH_ID, Mesh_id), (EID_PEER_MGMT, Peering), (EID_PREQ, Preq), (EID_PREP, Prep),
     (EID_PERR, Perr), (EID_COUNTRY, Country_elem), (EID_EXT_CAPABILITY, Ext_capab)]"

definition keeps :: "elem_ptr \<Rightarrow> elems \<Rightarrow> elems \<Rightarrow> bool" where
  "keeps k e e' \<longleftrightarrow> el_ptr e' k = el_ptr e k \<and> el_len e' k = el_len e k"

lemma keeps_simps [simp]: "keeps k e e" "k' \<noteq> k \<Longrightarrow> keeps k e (set_ptr k' p e)" "k' \<noteq> k \<Longrightarrow> keeps k e (set_var k' p l e)"
  "keeps k (e\<lparr>el_parse_error := b\<rparr>) e' = keeps k e e'" "keeps k e (e'\<lparr>el_parse_error := b\<rparr>) = keeps k e e'"
  by (simp_all add: keeps_def set_ptr_def set_var_def)

lemma keeps_trans: "keeps k a b \<Longrightarrow> keeps k b c \<Longrightarrow> keeps k a c"
  by (simp add: keeps_def)

definition step_keeps :: "elem_ptr \<Rightarrow> elems \<Rightarrow> (elems \<times> bool \<times> u32) option \<Rightarrow> bool" where
  "step_keeps k e r \<longleftrightarrow> (\<forall>e' failed crc. r = Some (e', failed, crc) \<longrightarrow> keeps k e e')"

lemma step_keeps_if: "(b \<Longrightarrow> step_keeps k e x) \<Longrightarrow> (\<not> b \<Longrightarrow> step_keeps k e y) \<Longrightarrow> step_keeps k e (if b then x else y)"
  by simp

lemma var_elems_inj: "(a, k) \<in> set var_elems \<Longrightarrow> (b, k) \<in> set var_elems \<Longrightarrow> a = b"
  by (auto simp: var_elems_def)

lemma parse_elem_keeps:
  assumes k: "(kid, k) \<in> set var_elems" and n: "eid \<noteq> kid"
  shows "step_keeps k e (parse_elem find_ie crc32_be action cc bs eid elen pos e crc)"
proof -
  have kv: "k = Ssid \<or> k = Supp_rates \<or> k = Challenge \<or> k = Rsn \<or> k = Ext_supp_rates \<or> k = Mesh_id \<or> k = Peering \<or>
      k = Preq \<or> k = Prep \<or> k = Perr \<or> k = Country_elem \<or> k = Ext_capab"
    using k by (auto simp: var_elems_def)
  then have z: "elem_size k = 0" "Tim \<noteq> k" "Wmm_info \<noteq> k" "Wmm_param \<noteq> k" "Cisco_dtpc_elem \<noteq> k" "Awake_window \<noteq> k" "Wide_bw_chansw_ie \<noteq> k"
    by auto
  have s: "step_keeps k e (case sized ok k' q e of (e, failed) \<Rightarrow> Some (e, failed, crc))" if "elem_size k' \<noteq> 0" for ok k' q
  proof -
    have "k' \<noteq> k" using that z(1) by auto
    then show ?thesis by (simp add: step_keeps_def sized_def)
  qed
  have v: "step_keeps k e (Some (set_var k' pos elen e, False, crc))" if "eid = eid'" "(eid', k') \<in> set var_elems" for eid' k'
  proof -
    have "k' \<noteq> k" using that n var_elems_inj [OF k] by blast
    then show ?thesis by (simp add: step_keeps_def)
  qed
  have tm: "step_keeps k e (Some (set_var Tim pos elen e, False, crc))" using z by (simp add: step_keeps_def)
  have ve: "step_keeps k e (map_option (\<lambda>(e, crc). (e, False, crc)) (vendor_elem crc32_be cc bs elen pos e crc))"
    using z by (auto simp: step_keeps_def vendor_elem_def Let_def split: if_splits bind_splits)
  have ci: "step_keeps k e (cisco_elem crc32_be cc bs elen pos e crc)"
    using z by (auto simp: step_keeps_def cisco_elem_def Let_def split: if_splits bind_splits)
  have wr: "step_keeps k e (map_option (\<lambda>(e, failed). (e, failed, crc)) (wrapper_elem find_ie action bs elen pos e))"
    using z by (auto simp: step_keeps_def wrapper_elem_def sized_def split: if_splits option.splits)
  have aw: "step_keeps k e (case (if 2 \<le> unat elen then set_ptr Awake_window pos e else e, False) of (e, failed) \<Rightarrow> Some (e, failed, crc))"
    using z by (auto simp: step_keeps_def)
  have no: "step_keeps k e (Some (e, b, crc))" for b by (simp add: step_keeps_def)
  have no': "step_keeps k e (case (e, b) of (e, failed) \<Rightarrow> Some (e, failed, crc))" for b using no by simp
  show ?thesis
    unfolding parse_elem_def Let_def
    by (intro step_keeps_if tm s v ve ci wr aw no no'; (assumption | simp add: var_elems_def))
qed

lemma parse_elem_var:
  assumes "(eid, k) \<in> set var_elems"
  shows "parse_elem find_ie crc32_be action cc bs eid elen pos e crc = Some (set_var k pos elen e, False, crc)"
proof -
  have "eid = EID_SSID \<and> k = Ssid \<or> eid = EID_SUPP_RATES \<and> k = Supp_rates \<or> eid = EID_CHALLENGE \<and> k = Challenge \<or>
      eid = EID_RSN \<and> k = Rsn \<or> eid = EID_EXT_SUPP_RATES \<and> k = Ext_supp_rates \<or> eid = EID_MESH_ID \<and> k = Mesh_id \<or>
      eid = EID_PEER_MGMT \<and> k = Peering \<or> eid = EID_PREQ \<and> k = Preq \<or> eid = EID_PREP \<and> k = Prep \<or>
      eid = EID_PERR \<and> k = Perr \<or> eid = EID_COUNTRY \<and> k = Country_elem \<or> eid = EID_EXT_CAPABILITY \<and> k = Ext_capab"
    using assms by (simp add: var_elems_def)
  then show ?thesis
    by (elim disjE conjE; hypsubst; simp add: parse_elem_def eid_defs)
qed

lemma var_once: "(eid, k) \<in> set var_elems \<Longrightarrow> eid \<in> set once_elems"
  by (auto simp: var_elems_def once_elems_def)

text \<open>One round of the loop on an element that fits.\<close>

lemma parse_loop_step:
  assumes "2 \<le> left" "byte_at bs pos = Some eid" "byte_at bs (pos + 1) = Some elen" "unat elen \<le> left - 2"
  shows "parse_loop find_ie crc32_be action flt bs left pos seen e crc =
    (if eid \<in> set once_elems \<and> eid \<in> set seen
     then parse_loop find_ie crc32_be action flt bs (left - 2 - unat elen) (pos + 2 + unat elen) seen (e\<lparr>el_parse_error := True\<rparr>) crc
     else do {
       (e, failed, crc) \<leftarrow> parse_elem find_ie crc32_be action (flt \<noteq> 0) bs eid elen (pos + 2) e
          (if flt \<noteq> 0 \<and> eid < 64 \<and> bit flt (unat eid) then crc32_be crc (take (unat elen + 2) (drop pos bs)) else crc);
       parse_loop find_ie crc32_be action flt bs (left - 2 - unat elen) (pos + 2 + unat elen)
         (if failed then seen else eid # seen) (if failed then e\<lparr>el_parse_error := True\<rparr> else e) crc
     })"
  using assms by (subst parse_loop.simps) (simp add: Let_def)

text \<open>An element of a kind that was seen keeps what was recorded; otherwise the first one is recorded.\<close>

lemma parse_loop_records:
  assumes f: "find_ie_ok find_ie" and k: "(kid, k) \<in> set var_elems"
  shows "list_all (\<lambda>x. length (snd x) < 256) els \<Longrightarrow> elems_ok (length (pre @ elem_bytes els)) e \<Longrightarrow>
    \<exists>e' crc'. parse_loop find_ie crc32_be action flt (pre @ elem_bytes els) (length (elem_bytes els)) (length pre) seen e crc = Some (e', crc') \<and>
      (kid \<in> set seen \<longrightarrow> keeps k e e') \<and>
      (kid \<notin> set seen \<longrightarrow> (case map_of els kid of None \<Rightarrow> keeps k e e'
        | Some body \<Rightarrow> \<exists>p. el_ptr e' k = Some p \<and> take (unat (el_len e' k)) (drop p (pre @ elem_bytes els)) = body))"
proof (induction els arbitrary: pre seen e crc rule: elem_bytes.induct)
  case 1
  then show ?case by (simp add: parse_loop.simps)
next
  case (2 eid body els)
  let ?bs = "pre @ elem_bytes ((eid, body) # els)" and ?elen = "of_nat (length body) :: u8"
  let ?left = "length (elem_bytes ((eid, body) # els))"
  have n: "unat ?elen = length body" using 2(2) by (simp add: unat_of_nat take_bit_nat_eq_self)
  define pre2 where "pre2 = pre @ eid # ?elen # body"
  have p2: "length pre2 = length pre + 2 + unat ?elen" "?bs = pre2 @ elem_bytes els" "length (elem_bytes els) = ?left - 2 - unat ?elen"
    by (simp_all add: pre2_def n)
  have b: "2 \<le> ?left" "byte_at ?bs (length pre) = Some eid" "byte_at ?bs (length pre + 1) = Some ?elen" "unat ?elen \<le> ?left - 2"
    by (simp_all add: byte_at_def n nth_append)
  have l: "list_all (\<lambda>x. length (snd x) < 256) els" using 2(2) by simp
  note step = parse_loop_step [OF b, of find_ie crc32_be action flt seen e crc, folded p2(3), folded p2(1)]
  note IH = 2(1) [OF l, of pre2, folded p2(2)]
  show ?case
  proof (cases "eid \<in> set once_elems \<and> eid \<in> set seen")
    case True
    have "elems_ok (length ?bs) (e\<lparr>el_parse_error := True\<rparr>)" using 2(3) by simp
    from IH [OF this, of seen crc, unfolded keeps_simps] obtain e' crc' where
      "parse_loop find_ie crc32_be action flt ?bs (length (elem_bytes els)) (length pre2) seen (e\<lparr>el_parse_error := True\<rparr>) crc = Some (e', crc')"
      "kid \<in> set seen \<longrightarrow> keeps k e e'"
      "kid \<notin> set seen \<longrightarrow> (case map_of els kid of None \<Rightarrow> keeps k e e'
        | Some body \<Rightarrow> \<exists>p. el_ptr e' k = Some p \<and> take (unat (el_len e' k)) (drop p ?bs) = body)" by blast
    with True show ?thesis unfolding step by (auto simp del: elem_bytes.simps)
  next
    case False
    let ?crc = "if flt \<noteq> 0 \<and> eid < 64 \<and> bit flt (unat eid) then crc32_be crc (take (unat ?elen + 2) (drop (length pre) ?bs)) else crc"
    have pos: "2 \<le> length pre + 2" "length pre + 2 + unat ?elen \<le> length ?bs" by (simp_all add: n)
    obtain e1 failed crc1 where e1: "parse_elem find_ie crc32_be action (flt \<noteq> 0) ?bs eid ?elen (length pre + 2) e ?crc = Some (e1, failed, crc1)"
      "elems_ok (length ?bs) e1"
      using parse_elem_ok [OF 2(3) pos f, of crc32_be action "flt \<noteq> 0" eid ?crc] unfolding elem_step_ok_def by blast
    let ?seen = "if failed then seen else eid # seen" and ?e = "if failed then e1\<lparr>el_parse_error := True\<rparr> else e1"
    have "elems_ok (length ?bs) ?e" using e1(2) by simp
    from IH [OF this, of ?seen crc1] obtain e' crc' where
      e': "parse_loop find_ie crc32_be action flt ?bs (length (elem_bytes els)) (length pre2) ?seen ?e crc1 = Some (e', crc')"
      "kid \<in> set ?seen \<longrightarrow> keeps k ?e e'"
      "kid \<notin> set ?seen \<longrightarrow> (case map_of els kid of None \<Rightarrow> keeps k ?e e'
        | Some body \<Rightarrow> \<exists>p. el_ptr e' k = Some p \<and> take (unat (el_len e' k)) (drop p ?bs) = body)" by blast
    have eq: "parse_loop find_ie crc32_be action flt ?bs ?left (length pre) seen e crc = Some (e', crc')"
      unfolding step using False e1(1) e'(1) by (simp only: if_False bind.bind_lunit prod.case)
    have ke: "keeps k ?e e' = keeps k e1 e'" by simp
    show ?thesis
    proof (cases "eid = kid")
      case True
      with False var_once [OF k] have ns: "kid \<notin> set seen" by simp
      have v: "e1 = set_var k (length pre + 2) ?elen e" "\<not> failed"
        using e1(1) parse_elem_var [OF k, of find_ie crc32_be action "flt \<noteq> 0" ?bs ?elen "length pre + 2" e ?crc] True by simp_all
      have "el_ptr e' k = Some (length pre + 2)" "el_len e' k = ?elen"
        using e'(2) v True by (simp_all add: keeps_def set_var_def)
      moreover have "take (unat ?elen) (drop (length pre + 2) ?bs) = body" by (simp add: n)
      ultimately show ?thesis using eq True ns by auto
    next
      case other: False
      have "keeps k e e1"
        using parse_elem_keeps [OF k other, of e find_ie crc32_be action "flt \<noteq> 0" ?bs ?elen "length pre + 2" ?crc] e1(1)
        by (simp add: step_keeps_def)
      moreover have "kid \<in> set ?seen \<longleftrightarrow> kid \<in> set seen" using other by simp
      moreover have "map_of ((eid, body) # els) kid = map_of els kid" using other by simp
      ultimately show ?thesis using eq e'(2,3) keeps_trans [of k e e1 e'] unfolding ke
        by (auto simp del: elem_bytes.simps split: option.splits)
    qed
  qed
qed

text \<open>C27. Elements that are written one after the other are found again: for each of the twelve kinds of \<open>var_elems\<close>, which are
  recorded with their length, the parser gives the contents of the first element of that kind, and nothing when there is none. The traffic map (TIM)
  and the vendor elements, which are recorded with a length as well, are not covered.\<close>

theorem elems_roundtrip:
  assumes "find_ie_ok find_ie" "(kid, k) \<in> set var_elems" "list_all (\<lambda>x. length (snd x) < 256) els"
  shows "\<exists>e. parse_elems find_ie crc32_be (elem_bytes els) (length (elem_bytes els)) action = Some e \<and>
    map_option (\<lambda>p. take (unat (el_len e k)) (drop p (elem_bytes els))) (el_ptr e k) = map_of els kid"
proof -
  from parse_loop_records [OF assms, of "[]" "no_elems (length (elem_bytes els))" crc32_be action 0 "[]" 0, unfolded append_Nil list.size, OF elems_ok_none] obtain e crc' where
    "parse_loop find_ie crc32_be action 0 (elem_bytes els) (length (elem_bytes els)) 0 [] (no_elems (length (elem_bytes els))) 0 = Some (e, crc')"
    "case map_of els kid of None \<Rightarrow> keeps k (no_elems (length (elem_bytes els))) e
        | Some body \<Rightarrow> \<exists>p. el_ptr e k = Some p \<and> take (unat (el_len e k)) (drop p (elem_bytes els)) = body" by auto
  then show ?thesis
    by (auto simp: parse_elems_def parse_elems_crc_def keeps_def no_elems_def split: option.splits)
qed

theorem elems_roundtrip_witness:
  "\<exists>e. parse_elems find_ie_ex (\<lambda>_ _. 0) (elem_bytes [(EID_SUPP_RATES, [2, 4]), (EID_SSID, [65, 66, 67]), (EID_SSID, [1])])
      (length (elem_bytes [(EID_SUPP_RATES, [2, 4]), (EID_SSID, [65, 66, 67]), (EID_SSID, [1])])) False = Some e \<and>
    map_option (\<lambda>p. take (unat (el_len e Ssid)) (drop p (elem_bytes [(EID_SUPP_RATES, [2, 4]), (EID_SSID, [65, 66, 67]), (EID_SSID, [1])])))
      (el_ptr e Ssid) = map_of [(EID_SUPP_RATES, [2, 4]), (EID_SSID, [65, 66, 67]), (EID_SSID, [1])] EID_SSID"
  by (rule elems_roundtrip [OF find_ie_ex_ok]) (simp_all add: var_elems_def)

end
