(* ===== verification/Minstrel.thy ===== *)
theory Minstrel
  imports SKB "HOL-Library.Signed_Division"
begin

text \<open>
  The rate control algorithm Minstrel (\<^verbatim>\<open>rc80211_minstrel.c\<close>, \<^verbatim>\<open>rc80211_minstrel.h\<close>) and the duration of a frame (\<^verbatim>\<open>util.c\<close>).
  Each station has an array of rates with statistics, the four rates with the highest throughput, the most
  robust rate, and a table with the order in which other rates are sampled. What only serves the debug files is left out.
\<close>

section \<open>Arithmetic\<close>

text \<open>A C \<open>int\<close> has 32 bits and wraps around; division rounds towards zero.\<close>

definition wrap32 :: "int \<Rightarrow> int" where
  "wrap32 = signed_take_bit 31"

definition EWMA_LEVEL :: int where "EWMA_LEVEL = 96"
definition EWMA_DIV :: int where "EWMA_DIV = 128"
definition SAMPLE_COLUMNS :: nat where "SAMPLE_COLUMNS = 10"
definition MAX_THR_RATES :: nat where "MAX_THR_RATES = 4"
definition MINSTREL_SCALE :: nat where "MINSTREL_SCALE = 16"

definition MINSTREL_FRAC :: "int \<Rightarrow> int \<Rightarrow> int" where
  "MINSTREL_FRAC val d = wrap32 (push_bit MINSTREL_SCALE val) sdiv d"

definition MINSTREL_TRUNC :: "int \<Rightarrow> int" where
  "MINSTREL_TRUNC val = drop_bit MINSTREL_SCALE val"

definition minstrel_ewma :: "int \<Rightarrow> int \<Rightarrow> int \<Rightarrow> int" where
  "minstrel_ewma old new weight =
     (let diff = wrap32 (new - old);
          incr = wrap32 ((EWMA_DIV - weight) * diff) sdiv EWMA_DIV
      in wrap32 (old + incr))"

text \<open>\<open>int_sqrt\<close> is the square root of the kernel.\<close>

definition minstrel_ewmsd :: "(u64 \<Rightarrow> u64) \<Rightarrow> int \<Rightarrow> int \<Rightarrow> int \<Rightarrow> int \<Rightarrow> u16" where
  "minstrel_ewmsd int_sqrt old_ewmsd cur_prob prob_ewma weight =
     (let diff = MINSTREL_TRUNC (wrap32 (wrap32 (cur_prob - prob_ewma) * 1000000));
          incr = wrap32 ((EWMA_DIV - weight) * diff) sdiv EWMA_DIV;
          tmp_var = wrap32 (old_ewmsd * old_ewmsd);
          tmp_var = wrap32 (weight * wrap32 (tmp_var + wrap32 (diff * incr) sdiv 1000000)) sdiv EWMA_DIV
      in ucast (int_sqrt (word_of_int tmp_var)))"

definition DIV_ROUND_UP :: "int \<Rightarrow> int \<Rightarrow> int" where
  "DIV_ROUND_UP n d = (n + d - 1) sdiv d"

text \<open>The rate is in units of 100 kbit/s; a rate of 0 is a division by zero.\<close>

definition frame_duration :: "bool \<Rightarrow> nat \<Rightarrow> int \<Rightarrow> bool \<Rightarrow> bool \<Rightarrow> nat \<Rightarrow> int option" where
  "frame_duration band_5ghz len rate erp short_preamble shift =
     (if rate = 0 then None
      else if band_5ghz \<or> erp then
        Some ((16 + 16 + 4) * push_bit shift 1 + 4 * DIV_ROUND_UP ((16 + 8 * (int len + 4) + 6) * 10) (4 * rate))
      else
        Some (10 + (if short_preamble then 72 + 24 else 144 + 48) + DIV_ROUND_UP (8 * (int len + 4) * 10) rate))"

section \<open>State\<close>

record rate_stats =
  rs_attempts :: u16
  rs_last_attempts :: u16
  rs_success :: u16
  rs_last_success :: u16
  rs_att_hist :: u64
  rs_succ_hist :: u64
  rs_cur_prob :: u32
  rs_prob_ewma :: u32
  rs_prob_ewmsd :: u16
  rs_retry_count :: u8
  rs_retry_count_rtscts :: u8
  rs_sample_skipped :: u8

record mrate =
  mr_bitrate :: int
  mr_rix :: int
  mr_retry_count_cts :: u8
  mr_adjusted_retry_count :: u8
  mr_perfect_tx_time :: u32
  mr_ack_time :: u32
  mr_sample_limit :: int
  mr_stats :: rate_stats

record minstrel_sta =
  mi_last_stats_update :: u64
  mi_sp_ack_dur :: u32
  mi_lowest_rix :: u32
  mi_max_tp_rate :: "u8 list"
  mi_max_prob_rate :: u8
  mi_total_packets :: u32
  mi_sample_packets :: u32
  mi_sample_deferred :: int
  mi_sample_row :: nat
  mi_sample_column :: nat
  mi_n_rates :: nat
  mi_r :: "mrate list"
  mi_prev_sample :: bool
  mi_sample_table :: "u8 list"

record minstrel_priv =
  mp_max_rates :: nat
  mp_has_mrr :: bool
  mp_cw_min :: u32
  mp_cw_max :: u32
  mp_max_retry :: u32
  mp_segment_size :: u32
  mp_update_interval :: u32
  mp_lookaround_rate :: u32
  mp_lookaround_rate_mrr :: u32
  mp_cck_rates :: "u8 list"

text \<open>Access to the arrays; outside there is no result.\<close>

definition at :: "'a list \<Rightarrow> nat \<Rightarrow> 'a option" where
  "at xs i = (if i < length xs then Some (xs ! i) else None)"

definition put :: "nat \<Rightarrow> 'a \<Rightarrow> 'a list \<Rightarrow> 'a list option" where
  "put i x xs = (if i < length xs then Some (xs[i := x]) else None)"

section \<open>Statistics\<close>

text \<open>The position of a rate index in the array, searched downwards; the inner \<open>None\<close> is -1.\<close>

fun rix_search :: "mrate list \<Rightarrow> int \<Rightarrow> nat \<Rightarrow> nat option option" where
  "rix_search r rix 0 = Some None"
| "rix_search r rix (Suc i) = do { x \<leftarrow> at r i; if mr_rix x = rix then Some (Some i) else rix_search r rix i }"

definition rix_to_ndx :: "mrate list \<Rightarrow> int \<Rightarrow> nat option option" where
  "rix_to_ndx r rix = rix_search r rix (nat (rix + 1))"

definition get_tp_avg :: "mrate \<Rightarrow> u32 \<Rightarrow> int" where
  "get_tp_avg mr prob_ewma =
     (let usecs = sint (mr_perfect_tx_time mr);
          usecs = (if usecs = 0 then 1000000 else usecs)
      in if rs_prob_ewma (mr_stats mr) < word_of_int (MINSTREL_FRAC 10 100) then 0
         else if sint prob_ewma > MINSTREL_FRAC 90 100 then MINSTREL_TRUNC (wrap32 (100000 * (MINSTREL_FRAC 90 100 sdiv usecs)))
         else MINSTREL_TRUNC (wrap32 (100000 * (sint prob_ewma sdiv usecs))))"

definition prob_of :: "mrate \<Rightarrow> u32" where "prob_of mr = rs_prob_ewma (mr_stats mr)"

text \<open>The place of rate \<open>i\<close> in the list of the best rates. \<open>tmp\<close> is the rate whose probability is compared; as in the
  code the search starts with the fourth rate of the array and the time of the fourth rate of the list. When the search arrives at the
  front the code also reads the byte before the list (\<open>below\<close>); the flag of the result says so.\<close>

fun tp_place :: "mrate list \<Rightarrow> mrate \<Rightarrow> u8 \<Rightarrow> u8 list \<Rightarrow> nat \<Rightarrow> nat \<Rightarrow> bool \<Rightarrow> (nat \<times> bool) option" where
  "tp_place r cur below tp_list 0 tmp over = Some (0, over)"
| "tp_place r cur below tp_list (Suc j) tmp over =
     do {
       t \<leftarrow> at tp_list j;
       mr \<leftarrow> at r (unat t);
       tmp_mr \<leftarrow> at r tmp;
       if get_tp_avg cur (prob_of cur) > get_tp_avg mr (prob_of tmp_mr)
       then do {
         t \<leftarrow> (if j = 0 then Some below else at tp_list (j - 1));
         tp_place r cur below tp_list j (unat t) (over \<or> j = 0)
       }
       else Some (Suc j, over)
     }"

definition sort_best_tp_rates :: "mrate list \<Rightarrow> nat \<Rightarrow> u8 \<Rightarrow> u8 list \<Rightarrow> (u8 list \<times> bool) option" where
  "sort_best_tp_rates r i below tp_list =
     do {
       cur \<leftarrow> at r i;
       (j, over) \<leftarrow> tp_place r cur below tp_list MAX_THR_RATES (MAX_THR_RATES - 1) False;
       Some (if j < MAX_THR_RATES then take MAX_THR_RATES (take j tp_list @ of_nat i # drop j tp_list) else tp_list, over)
     }"

definition calc_rate_stats :: "(u64 \<Rightarrow> u64) \<Rightarrow> rate_stats \<Rightarrow> rate_stats" where
  "calc_rate_stats int_sqrt mrs =
     (let mrs =
        (if rs_attempts mrs > 0 then
           let mrs = mrs\<lparr>rs_sample_skipped := 0,
                         rs_cur_prob := word_of_int (MINSTREL_FRAC (uint (rs_success mrs)) (uint (rs_attempts mrs)))\<rparr>;
               mrs = (if rs_att_hist mrs = 0 then mrs\<lparr>rs_prob_ewma := rs_cur_prob mrs\<rparr>
                      else let sd = minstrel_ewmsd int_sqrt (uint (rs_prob_ewmsd mrs)) (sint (rs_cur_prob mrs)) (sint (rs_prob_ewma mrs)) EWMA_LEVEL
                           in mrs\<lparr>rs_prob_ewmsd := sd,
                                  rs_prob_ewma := word_of_int (minstrel_ewma (sint (rs_prob_ewma mrs)) (sint (rs_cur_prob mrs)) EWMA_LEVEL)\<rparr>)
           in mrs\<lparr>rs_att_hist := rs_att_hist mrs + ucast (rs_attempts mrs), rs_succ_hist := rs_succ_hist mrs + ucast (rs_success mrs)\<rparr>
         else mrs\<lparr>rs_sample_skipped := rs_sample_skipped mrs + 1\<rparr>)
      in mrs\<lparr>rs_last_success := rs_success mrs, rs_last_attempts := rs_attempts mrs, rs_success := 0, rs_attempts := 0\<rparr>)"

text \<open>How often a rate is tried, and how often it may be sampled.\<close>

definition adjust_rate :: "mrate \<Rightarrow> mrate" where
  "adjust_rate mr =
     (let p = prob_of mr; n = rs_retry_count (mr_stats mr);
          mr = (if p > word_of_int (MINSTREL_FRAC 95 100) \<or> p < word_of_int (MINSTREL_FRAC 10 100)
                then let a = drop_bit 1 n in mr\<lparr>mr_adjusted_retry_count := (if a > 2 then 2 else a), mr_sample_limit := 4\<rparr>
                else mr\<lparr>mr_sample_limit := -1, mr_adjusted_retry_count := n\<rparr>)
      in if mr_adjusted_retry_count mr = 0 then mr\<lparr>mr_adjusted_retry_count := 2\<rparr> else mr)"

text \<open>One round of the update: the array, the best rates, the most robust rate so far, and whether the byte before the list of
  the best rates was read.\<close>

type_synonym update_state = "mrate list \<times> u8 list \<times> u8 \<times> bool"

definition update_rate :: "(u64 \<Rightarrow> u64) \<Rightarrow> (nat \<Rightarrow> u8) \<Rightarrow> nat \<Rightarrow> update_state \<Rightarrow> update_state option" where
  "update_rate int_sqrt below i = (\<lambda>(r, tp, prob, over).
     do {
       mr \<leftarrow> at r i;
       let mr = adjust_rate (mr\<lparr>mr_stats := calc_rate_stats int_sqrt (mr_stats mr)\<rparr>);
       r \<leftarrow> put i mr r;
       (tp, o1) \<leftarrow> sort_best_tp_rates r i (below i) tp;
       best \<leftarrow> at r (unat prob);
       let better = (if prob_of mr \<ge> word_of_int (MINSTREL_FRAC 95 100)
                     then get_tp_avg mr (prob_of mr) \<ge> get_tp_avg best (prob_of best)
                     else prob_of mr \<ge> prob_of best);
       Some (r, tp, if better then of_nat i else prob, over \<or> o1)
     })"

text \<open>The table of rates for the driver: index, and the number of tries without protection, with CTS and with RTS.\<close>

type_synonym rate_entry = "int \<times> u8 \<times> u8 \<times> u8"

definition rate_entry :: "mrate list \<Rightarrow> u8 \<Rightarrow> rate_entry option" where
  "rate_entry r idx =
     map_option (\<lambda>x. (mr_rix x, mr_adjusted_retry_count x, mr_retry_count_cts x, rs_retry_count_rtscts (mr_stats x))) (at r (unat idx))"

definition minstrel_update_rates :: "minstrel_priv \<Rightarrow> minstrel_sta \<Rightarrow> env \<Rightarrow> (rate_entry list option \<times> env) option" where
  "minstrel_update_rates mp mi e =
     (if \<not> env_alloc e 0 then Some (None, alloc_next e)
      else do {
        t0 \<leftarrow> at (mi_max_tp_rate mi) 0;
        a \<leftarrow> rate_entry (mi_r mi) t0;
        bs \<leftarrow> (if mp_max_rates mp \<ge> 3 then do { t1 \<leftarrow> at (mi_max_tp_rate mi) 1; b \<leftarrow> rate_entry (mi_r mi) t1; Some [b] } else Some []);
        cs \<leftarrow> (if mp_max_rates mp \<ge> 2 then do { c \<leftarrow> rate_entry (mi_r mi) (mi_max_prob_rate mi); Some [c] } else Some []);
        let n = ucast (mp_max_retry mp);
        Some (Some (a # bs @ cs @ [(sint (ucast (mi_lowest_rix mi) :: u8), n, n, n)]), alloc_next e)
      })"

text \<open>The list of the best rates is built on the stack; the bytes before it are part of the environment.\<close>

definition minstrel_update_stats ::
  "(u64 \<Rightarrow> u64) \<Rightarrow> u64 \<Rightarrow> minstrel_priv \<Rightarrow> minstrel_sta \<Rightarrow> env \<Rightarrow> (minstrel_sta \<times> bool \<times> rate_entry list option \<times> env) option" where
  "minstrel_update_stats int_sqrt jiffies mp mi e =
     do {
       (r, tp, prob, over) \<leftarrow> foldo (update_rate int_sqrt (env_junk e)) [0..<mi_n_rates mi] (mi_r mi, replicate MAX_THR_RATES 0, 0, False);
       let mi = mi\<lparr>mi_r := r, mi_max_tp_rate := tp, mi_max_prob_rate := prob, mi_last_stats_update := jiffies\<rparr>;
       (table, e) \<leftarrow> minstrel_update_rates mp mi e;
       Some (mi, over, table, e)
     }"

section \<open>Feedback\<close>

text \<open>What the driver reports: the rates it used with the number of tries, a negative index behind the last one.\<close>

record tx_report =
  tr_rates :: "(int \<times> u8) list"
  tr_ack :: bool
  tr_probe :: bool

definition TX_MAX_RATES :: nat where "TX_MAX_RATES = 4"

definition count_tries :: "mrate list \<Rightarrow> nat \<Rightarrow> u8 \<Rightarrow> bool \<Rightarrow> mrate list option" where
  "count_tries r ndx tries success =
     do {
       mr \<leftarrow> at r ndx;
       let mrs = mr_stats mr;
       let mrs = mrs\<lparr>rs_attempts := rs_attempts mrs + ucast tries, rs_success := rs_success mrs + (if success then 1 else 0)\<rparr>;
       put ndx (mr\<lparr>mr_stats := mrs\<rparr>) r
     }"

text \<open>The loop from rate \<open>i\<close> on, for \<open>n\<close> more rates.\<close>

fun status_loop :: "tx_report \<Rightarrow> nat \<Rightarrow> nat \<Rightarrow> mrate list \<Rightarrow> mrate list option" where
  "status_loop info 0 i r = Some r"
| "status_loop info (Suc n) i r =
     do {
       (idx, tries) \<leftarrow> at (tr_rates info) i;
       if idx < 0 then Some r
       else do {
         ndx \<leftarrow> rix_to_ndx r idx;
         (case ndx of
            None \<Rightarrow> status_loop info n (i + 1) r
          | Some ndx \<Rightarrow>
              do {
                is_last \<leftarrow> (if i = TX_MAX_RATES - 1 then Some False else map_option (\<lambda>x. fst x < 0) (at (tr_rates info) (i + 1)));
                r \<leftarrow> count_tries r ndx tries (is_last \<and> tr_ack info);
                status_loop info n (i + 1) r
              })
       }
     }"

text \<open>\<open>after\<close> is \<^verbatim>\<open>time_after\<close>.\<close>

definition minstrel_tx_status ::
  "(u64 \<Rightarrow> u64) \<Rightarrow> (u64 \<Rightarrow> u64 \<Rightarrow> bool) \<Rightarrow> u32 \<Rightarrow> u64 \<Rightarrow> minstrel_priv \<Rightarrow> tx_report \<Rightarrow> minstrel_sta \<Rightarrow> env \<Rightarrow>
   (minstrel_sta \<times> bool \<times> rate_entry list option \<times> env) option" where
  "minstrel_tx_status int_sqrt after hz jiffies mp info mi e =
     do {
       r \<leftarrow> status_loop info TX_MAX_RATES 0 (mi_r mi);
       let mi = mi\<lparr>mi_r := r\<rparr>;
       let mi = (if tr_probe info then mi\<lparr>mi_sample_packets := mi_sample_packets mi + 1\<rparr> else mi);
       let mi = (if mi_sample_deferred mi > 0 then mi\<lparr>mi_sample_deferred := mi_sample_deferred mi - 1\<rparr> else mi);
       if after jiffies (mi_last_stats_update mi + ucast (mp_update_interval mp * hz div 1000))
       then minstrel_update_stats int_sqrt jiffies mp mi e
       else Some (mi, False, None, e)
     }"

section \<open>Choice of a rate\<close>

definition get_retry_count :: "mrate \<Rightarrow> bool \<Rightarrow> bool \<Rightarrow> u8" where
  "get_retry_count mr use_rts use_cts_prot =
     (let retry = mr_adjusted_retry_count mr
      in if use_rts then max 2 (min (rs_retry_count_rtscts (mr_stats mr)) retry)
         else if use_cts_prot then max 2 (min (mr_retry_count_cts mr) retry)
         else retry)"

definition get_next_sample :: "minstrel_sta \<Rightarrow> (nat \<times> minstrel_sta) option" where
  "get_next_sample mi =
     do {
       ndx \<leftarrow> at (mi_sample_table mi) (mi_sample_row mi * SAMPLE_COLUMNS + mi_sample_column mi);
       let mi = mi\<lparr>mi_sample_row := mi_sample_row mi + 1\<rparr>;
       Some (unat ndx,
             if mi_sample_row mi \<ge> mi_n_rates mi
             then mi\<lparr>mi_sample_row := 0,
                     mi_sample_column := (if mi_sample_column mi + 1 \<ge> SAMPLE_COLUMNS then 0 else mi_sample_column mi + 1)\<rparr>
             else mi)
     }"

text \<open>The frame: is it sent at the lowest rate anyway, with RTS, with CTS protection?\<close>

record rate_query =
  rq_send_low :: bool
  rq_rts :: bool
  rq_bss_cts_prot :: bool
  rq_use_rts :: bool
  rq_use_cts_prot :: bool

text \<open>A rate that is sampled: the place in the chain of rates, the index, and the number of tries. The flag
  says if the frame is marked as a probe.\<close>

record rate_choice =
  rc_probe :: bool
  rc_rate :: "(nat \<times> int \<times> u8) option"

definition no_choice :: rate_choice where
  "no_choice = \<lparr>rc_probe = False, rc_rate = None\<rparr>"

text \<open>The sampled rate and how it is used; \<open>None\<close> as the inner result when it may not be sampled now.\<close>

definition sample_rate :: "bool \<Rightarrow> nat \<Rightarrow> minstrel_sta \<Rightarrow> ((bool \<times> minstrel_sta) option \<times> minstrel_sta) option" where
  "sample_rate mrr_capable ndx mi =
     do {
       msr \<leftarrow> at (mi_r mi) ndx;
       t0 \<leftarrow> at (mi_max_tp_rate mi) 0;
       mr \<leftarrow> at (mi_r mi) (unat t0);
       if mrr_capable \<and> mr_perfect_tx_time msr > mr_perfect_tx_time mr \<and> rs_sample_skipped (mr_stats msr) < 20
       then Some (Some (True, mi\<lparr>mi_sample_deferred := wrap32 (mi_sample_deferred mi + 1)\<rparr>), mi)
       else if mr_sample_limit msr = 0 then Some (None, mi)
       else do {
         r \<leftarrow> put ndx (if mr_sample_limit msr > 0 then msr\<lparr>mr_sample_limit := mr_sample_limit msr - 1\<rparr> else msr) (mi_r mi);
         Some (Some (False, mi\<lparr>mi_sample_packets := mi_sample_packets mi + 1, mi_r := r\<rparr>), mi)
       }
     }"

text \<open>The rest of the choice once it is clear that a rate is to be sampled.\<close>

definition choose_sample :: "bool \<Rightarrow> rate_query \<Rightarrow> minstrel_sta \<Rightarrow> (rate_choice \<times> minstrel_sta) option" where
  "choose_sample mrr_capable q mi =
     do {
       (ndx, mi) \<leftarrow> get_next_sample mi;
       (s, mi) \<leftarrow> sample_rate mrr_capable ndx mi;
       (case s of
          None \<Rightarrow> Some (no_choice, mi)
        | Some (probe, mi) \<Rightarrow>
            do {
              msr \<leftarrow> at (mi_r mi) ndx;
              if \<not> mrr_capable \<and> prob_of msr > word_of_int (MINSTREL_FRAC 95 100) then Some (\<lparr>rc_probe = probe, rc_rate = None\<rparr>, mi)
              else Some (\<lparr>rc_probe = probe,
                          rc_rate = Some (if probe then 1 else 0, mr_rix msr, get_retry_count msr (rq_use_rts q) (rq_use_cts_prot q))\<rparr>,
                         mi\<lparr>mi_prev_sample := True\<rparr>)
            })
     }"

definition minstrel_get_rate :: "minstrel_priv \<Rightarrow> rate_query \<Rightarrow> minstrel_sta \<Rightarrow> (rate_choice \<times> minstrel_sta) option" where
  "minstrel_get_rate mp q mi =
     (if rq_send_low q then Some (no_choice, mi)
      else
        let mrr_capable = (mp_has_mrr mp \<and> \<not> rq_rts q \<and> \<not> rq_bss_cts_prot q);
            sampling_ratio = (if mrr_capable then mp_lookaround_rate_mrr mp else mp_lookaround_rate mp);
            mi = mi\<lparr>mi_total_packets := mi_total_packets mi + 1\<rparr>;
            delta = sint (mi_total_packets mi * sampling_ratio div 100 - (mi_sample_packets mi + word_of_int (mi_sample_deferred mi sdiv 2)));
            prev_sample = mi_prev_sample mi;
            mi = mi\<lparr>mi_prev_sample := False\<rparr>
        in if delta < 0 \<or> (\<not> mrr_capable \<and> prev_sample) then Some (no_choice, mi)
           else
             let limit = int (mi_n_rates mi) * 2;
                 mi = (if mi_total_packets mi \<ge> 10000 then mi\<lparr>mi_sample_deferred := 0, mi_sample_packets := 0, mi_total_packets := 0\<rparr>
                       else if delta > limit then mi\<lparr>mi_sample_packets := mi_sample_packets mi + word_of_int (delta - limit)\<rparr>
                       else mi)
             in choose_sample mrr_capable q mi)"

definition get_expected_throughput :: "minstrel_sta \<Rightarrow> u32 option" where
  "get_expected_throughput mi =
     do {
       t0 \<leftarrow> at (mi_max_tp_rate mi) 0;
       mr \<leftarrow> at (mi_r mi) (unat t0);
       Some (word_of_int (wrap32 (get_tp_avg mr (prob_of mr) * 1200 * 8) sdiv 1024))
     }"

section \<open>Initialisation\<close>

text \<open>The search for a free row of a column, from a row on; it need not end when there is none.\<close>

definition free_row :: "nat \<Rightarrow> nat \<Rightarrow> u8 list \<Rightarrow> nat \<Rightarrow> nat option" where
  "free_row n col table row =
     loop_opt (\<lambda>row. at table (row * SAMPLE_COLUMNS + col) \<noteq> Some 0xff)
       (\<lambda>row. if at table (row * SAMPLE_COLUMNS + col) = None then None else Some ((row + 1) mod n)) row"

definition place_sample :: "nat \<Rightarrow> nat \<Rightarrow> u8 list \<Rightarrow> nat \<Rightarrow> u8 list \<Rightarrow> u8 list option" where
  "place_sample n col rnd i table =
     do {
       b \<leftarrow> at rnd (i mod 8);
       row \<leftarrow> free_row n col table ((i + unat b) mod n);
       put (row * SAMPLE_COLUMNS + col) (of_nat i) table
     }"

text \<open>\<open>rnd\<close> gives the eight random bytes for each column.\<close>

definition init_sample_table :: "(nat \<Rightarrow> u8 list) \<Rightarrow> minstrel_sta \<Rightarrow> minstrel_sta option" where
  "init_sample_table rnd mi =
     (let n = mi_n_rates mi
      in if length (mi_sample_table mi) < SAMPLE_COLUMNS * n then None
         else do {
           let table = replicate (SAMPLE_COLUMNS * n) 0xff @ drop (SAMPLE_COLUMNS * n) (mi_sample_table mi);
           table \<leftarrow> foldo (\<lambda>col. foldo (place_sample n col (rnd col)) [0..<n]) [0..<SAMPLE_COLUMNS] table;
           Some (mi\<lparr>mi_sample_column := 0, mi_sample_row := 0, mi_sample_table := table\<rparr>)
         })"

record band_rate =
  br_bitrate :: int
  br_flags :: u32
  br_erp_g :: bool
  br_supported :: bool

record rate_band =
  sb_5ghz :: bool
  sb_bitrates :: "band_rate list"

definition calc_rate_durations :: "bool \<Rightarrow> nat \<Rightarrow> band_rate \<Rightarrow> mrate \<Rightarrow> mrate option" where
  "calc_rate_durations band_5ghz shift rate d =
     do {
       let speed = DIV_ROUND_UP (br_bitrate rate) (push_bit shift 1);
       t \<leftarrow> frame_duration band_5ghz 1200 speed (br_erp_g rate) True shift;
       a \<leftarrow> frame_duration band_5ghz 10 speed (br_erp_g rate) True shift;
       Some (d\<lparr>mr_perfect_tx_time := word_of_int t, mr_ack_time := word_of_int a\<rparr>)
     }"

text \<open>The loop that counts the retransmissions that fit into a segment keeps the contention window, the three times and the rate; the
  flag says if it goes on.\<close>

type_synonym retry_state = "u32 \<times> u32 \<times> u32 \<times> u32 \<times> mrate \<times> bool"

definition retry_body :: "minstrel_priv \<Rightarrow> u32 \<Rightarrow> retry_state \<Rightarrow> retry_state option" where
  "retry_body mp sp_ack_dur = (\<lambda>(cw, tx_time, tx_time_cts, tx_time_rtscts, mr, _).
     let single = mr_ack_time mr + mr_perfect_tx_time mr + drop_bit 1 (9 * cw);
         cw = min (push_bit 1 cw OR 1) (mp_cw_max mp);
         tx_time = tx_time + single;
         tx_time_cts = tx_time_cts + single + sp_ack_dur;
         tx_time_rtscts = tx_time_rtscts + single + 2 * sp_ack_dur;
         mr = (if tx_time_cts < mp_segment_size mp \<and> ucast (mr_retry_count_cts mr) < mp_max_retry mp
               then mr\<lparr>mr_retry_count_cts := mr_retry_count_cts mr + 1\<rparr> else mr);
         mrs = mr_stats mr;
         mrs = (if tx_time_rtscts < mp_segment_size mp \<and> ucast (rs_retry_count_rtscts mrs) < mp_max_retry mp
                then mrs\<lparr>rs_retry_count_rtscts := rs_retry_count_rtscts mrs + 1\<rparr> else mrs)
     in if tx_time < mp_segment_size mp
        then let mrs = mrs\<lparr>rs_retry_count := rs_retry_count mrs + 1\<rparr>
             in Some (cw, tx_time, tx_time_cts, tx_time_rtscts, mr\<lparr>mr_stats := mrs\<rparr>, ucast (rs_retry_count mrs) < mp_max_retry mp)
        else Some (cw, tx_time, tx_time_cts, tx_time_rtscts, mr\<lparr>mr_stats := mrs\<rparr>, False))"

definition blank_stats :: rate_stats where
  "blank_stats = \<lparr>rs_attempts = 0, rs_last_attempts = 0, rs_success = 0, rs_last_success = 0, rs_att_hist = 0, rs_succ_hist = 0,
     rs_cur_prob = 0, rs_prob_ewma = 0, rs_prob_ewmsd = 0, rs_retry_count = 1, rs_retry_count_rtscts = 1, rs_sample_skipped = 0\<rparr>"

definition init_rate :: "minstrel_priv \<Rightarrow> u32 \<Rightarrow> bool \<Rightarrow> nat \<Rightarrow> nat \<Rightarrow> band_rate \<Rightarrow> mrate option" where
  "init_rate mp sp_ack_dur band_5ghz shift i rate =
     do {
       let mr = \<lparr>mr_bitrate = DIV_ROUND_UP (br_bitrate rate) (push_bit shift 1 * 5), mr_rix = sint (of_nat i :: u8), mr_retry_count_cts = 1,
                 mr_adjusted_retry_count = 0, mr_perfect_tx_time = 0, mr_ack_time = 0, mr_sample_limit = -1, mr_stats = blank_stats\<rparr>;
       mr \<leftarrow> calc_rate_durations band_5ghz shift rate mr;
       (_, _, _, _, mr, _) \<leftarrow> loop_opt (\<lambda>(_, _, _, _, _, more). more) (retry_body mp sp_ack_dur)
          (mp_cw_min mp, mr_perfect_tx_time mr + sp_ack_dur, 0, 0, mr, True);
       let mr = mr\<lparr>mr_adjusted_retry_count := rs_retry_count (mr_stats mr)\<rparr>;
       Some (if \<not> br_erp_g rate then mr\<lparr>mr_retry_count_cts := rs_retry_count (mr_stats mr)\<rparr> else mr)
     }"

text \<open>The rates the station supports go to the front of the array.\<close>

definition init_one :: "minstrel_priv \<Rightarrow> u32 \<Rightarrow> rate_band \<Rightarrow> nat \<Rightarrow> u32 \<Rightarrow> nat \<Rightarrow> nat \<times> mrate list \<Rightarrow> (nat \<times> mrate list) option" where
  "init_one mp sp_ack_dur sband shift rate_flags i = (\<lambda>(n, r).
     do {
       rate \<leftarrow> at (sb_bitrates sband) i;
       if \<not> br_supported rate \<or> rate_flags AND br_flags rate \<noteq> rate_flags then Some (n, r)
       else do {
         mr \<leftarrow> init_rate mp sp_ack_dur (sb_5ghz sband) shift i rate;
         r \<leftarrow> put n mr r;
         Some (n + 1, r)
       }
     })"

definition clear_rix :: "nat \<Rightarrow> mrate list \<Rightarrow> mrate list option" where
  "clear_rix i r = do { mr \<leftarrow> at r i; put i (mr\<lparr>mr_rix := -1\<rparr>) r }"

definition minstrel_rate_init ::
  "minstrel_priv \<Rightarrow> rate_band \<Rightarrow> nat \<Rightarrow> nat \<Rightarrow> u32 \<Rightarrow> u64 \<Rightarrow> (nat \<Rightarrow> u8 list) \<Rightarrow> minstrel_sta \<Rightarrow> env \<Rightarrow>
   (minstrel_sta \<times> rate_entry list option \<times> env) option" where
  "minstrel_rate_init mp sband lowest shift rate_flags jiffies rnd mi e =
     do {
       ctl \<leftarrow> at (sb_bitrates sband) lowest;
       ack \<leftarrow> frame_duration (sb_5ghz sband) 10 (br_bitrate ctl) (br_erp_g ctl) True shift;
       let mi = mi\<lparr>mi_lowest_rix := of_nat lowest, mi_sp_ack_dur := word_of_int ack, mi_max_tp_rate := replicate MAX_THR_RATES 0,
                   mi_max_prob_rate := 0\<rparr>;
       let m = length (sb_bitrates sband);
       (n, r) \<leftarrow> foldo (init_one mp (mi_sp_ack_dur mi) sband shift rate_flags) [0..<m] (0, mi_r mi);
       r \<leftarrow> foldo clear_rix [n..<m] r;
       let mi = mi\<lparr>mi_r := r, mi_n_rates := n, mi_last_stats_update := jiffies\<rparr>;
       mi \<leftarrow> init_sample_table rnd mi;
       (table, e) \<leftarrow> minstrel_update_rates mp mi e;
       Some (mi, table, e)
     }"

section \<open>Allocation\<close>

text \<open>What the driver says of the hardware, the flags of the channel, and the bands: first the one at 2.4 GHz.\<close>

record hw_caps =
  hw_max_rates :: nat
  hw_max_rate_tries :: u8
  hw_rate_flags :: u32
  hw_bands :: "rate_band option list"

definition cck_bitrates :: "int list" where
  "cck_bitrates = [10, 20, 55, 110]"

fun cck_search :: "int \<Rightarrow> nat \<Rightarrow> int list \<Rightarrow> nat option" where
  "cck_search b j [] = None"
| "cck_search b j (x # xs) = (if b \<noteq> x then cck_search b (j + 1) xs else Some j)"

definition note_cck :: "u32 \<Rightarrow> band_rate list \<Rightarrow> nat \<Rightarrow> u8 list \<Rightarrow> u8 list" where
  "note_cck rate_flags rates i cck =
     (let rate = rates ! i
      in if br_erp_g rate \<or> rate_flags AND br_flags rate \<noteq> rate_flags then cck
         else case cck_search (br_bitrate rate) 0 cck_bitrates of None \<Rightarrow> cck | Some j \<Rightarrow> cck[j := of_nat i])"

definition minstrel_init_cck_rates :: "hw_caps \<Rightarrow> minstrel_priv \<Rightarrow> minstrel_priv" where
  "minstrel_init_cck_rates hw mp =
     (case hw_bands hw of
        Some sband # _ \<Rightarrow>
          mp\<lparr>mp_cck_rates := fold (note_cck (hw_rate_flags hw) (sb_bitrates sband)) [0..<length (sb_bitrates sband)] (mp_cck_rates mp)\<rparr>
      | _ \<Rightarrow> mp)"

definition minstrel_alloc :: "hw_caps \<Rightarrow> env \<Rightarrow> minstrel_priv option \<times> env" where
  "minstrel_alloc hw e =
     (if \<not> env_alloc e 0 then (None, alloc_next e)
      else (Some (minstrel_init_cck_rates hw
              \<lparr>mp_max_rates = hw_max_rates hw, mp_has_mrr = (hw_max_rates hw \<ge> 4), mp_cw_min = 15, mp_cw_max = 1023,
               mp_max_retry = (if hw_max_rate_tries hw > 0 then ucast (hw_max_rate_tries hw) else 7), mp_segment_size = 6000,
               mp_update_interval = 100, mp_lookaround_rate = 5, mp_lookaround_rate_mrr = 10, mp_cck_rates = [0, 0, 0, 0]\<rparr>),
            alloc_next e))"

definition max_bitrates :: "rate_band option list \<Rightarrow> nat" where
  "max_bitrates bands =
     fold (\<lambda>b m. case b of Some sband \<Rightarrow> (if length (sb_bitrates sband) > m then length (sb_bitrates sband) else m) | None \<Rightarrow> m) bands 0"

definition zero_mrate :: mrate where
  "zero_mrate = \<lparr>mr_bitrate = 0, mr_rix = 0, mr_retry_count_cts = 0, mr_adjusted_retry_count = 0, mr_perfect_tx_time = 0, mr_ack_time = 0,
     mr_sample_limit = 0, mr_stats = blank_stats\<lparr>rs_retry_count := 0, rs_retry_count_rtscts := 0\<rparr>\<rparr>"

text \<open>Three allocations, for the station, its rates and its sampling table; the last is not cleared.\<close>

definition minstrel_alloc_sta :: "hw_caps \<Rightarrow> u64 \<Rightarrow> env \<Rightarrow> minstrel_sta option \<times> env" where
  "minstrel_alloc_sta hw jiffies e =
     (let max_rates = max_bitrates (hw_bands hw); e1 = alloc_next e; e2 = alloc_next e1
      in if \<not> env_alloc e 0 then (None, e1)
         else if \<not> env_alloc e1 0 then (None, e2)
         else if \<not> env_alloc e2 0 then (None, alloc_next e2)
         else (Some \<lparr>mi_last_stats_update = jiffies, mi_sp_ack_dur = 0, mi_lowest_rix = 0, mi_max_tp_rate = replicate MAX_THR_RATES 0,
                     mi_max_prob_rate = 0, mi_total_packets = 0, mi_sample_packets = 0, mi_sample_deferred = 0, mi_sample_row = 0,
                     mi_sample_column = 0, mi_n_rates = 0, mi_r = replicate max_rates zero_mrate, mi_prev_sample = False,
                     mi_sample_table = map (env_junk e2) [0..<SAMPLE_COLUMNS * max_rates]\<rparr>,
               alloc_next e2))"

end
