(* ===== verification/Minstrel_Props.thy ===== *)
theory Minstrel_Props
  imports Minstrel "HOL-Library.Multiset"
begin

text \<open>
  Properties of Minstrel: the sampling table, the invariant of a station over all reports and requests, and what the list of the best
  rates misses.
\<close>

section \<open>The sampling table\<close>

lemma at_Some: "i < length xs \<Longrightarrow> at xs i = Some (xs ! i)"
  by (simp add: at_def)

lemma at_iff [simp]: "at xs i = Some x \<longleftrightarrow> i < length xs \<and> x = xs ! i"
  by (auto simp: at_def)

lemma put_iff [simp]: "put i x xs = Some ys \<longleftrightarrow> i < length xs \<and> ys = xs[i := x]"
  by (auto simp: put_def)

text \<open>The column of a table with \<open>n\<close> rows.\<close>

definition column :: "nat \<Rightarrow> nat \<Rightarrow> u8 list \<Rightarrow> u8 list" where
  "column n col table = map (\<lambda>row. table ! (row * SAMPLE_COLUMNS + col)) [0..<n]"

lemma column_length [simp]: "length (column n col table) = n"
  by (simp add: column_def)

lemma column_nth [simp]: "row < n \<Longrightarrow> column n col table ! row = table ! (row * SAMPLE_COLUMNS + col)"
  by (simp add: column_def)

lemma cell_less: "row < n \<Longrightarrow> col < SAMPLE_COLUMNS \<Longrightarrow> row * SAMPLE_COLUMNS + col < SAMPLE_COLUMNS * n"
proof -
  assume "row < n" "col < SAMPLE_COLUMNS"
  then have "row * SAMPLE_COLUMNS + col < (row + 1) * SAMPLE_COLUMNS" by simp
  also have "\<dots> \<le> SAMPLE_COLUMNS * n" using \<open>row < n\<close> mult_le_mono2 [of "row + 1" n SAMPLE_COLUMNS] by (simp add: mult.commute)
  finally show ?thesis .
qed

lemma cell_inj: "col < SAMPLE_COLUMNS \<Longrightarrow> col' < SAMPLE_COLUMNS \<Longrightarrow>
  row * SAMPLE_COLUMNS + col = row' * SAMPLE_COLUMNS + col' \<longleftrightarrow> row = row' \<and> col = col'"
proof
  assume c: "col < SAMPLE_COLUMNS" "col' < SAMPLE_COLUMNS" and eq: "row * SAMPLE_COLUMNS + col = row' * SAMPLE_COLUMNS + col'"
  have "(row * SAMPLE_COLUMNS + col) div SAMPLE_COLUMNS = row" "(row' * SAMPLE_COLUMNS + col') div SAMPLE_COLUMNS = row'" using c by simp_all
  with eq have "row = row'" by simp
  with eq show "row = row' \<and> col = col'" by simp
qed simp

lemma column_update:
  assumes "row < n" "col < SAMPLE_COLUMNS" "col' < SAMPLE_COLUMNS" "SAMPLE_COLUMNS * n \<le> length table"
  shows "column n col' (table[row * SAMPLE_COLUMNS + col := v]) = (if col' = col then (column n col' table)[row := v] else column n col' table)"
proof (rule nth_equalityI)
  fix i assume "i < length (column n col' (table[row * SAMPLE_COLUMNS + col := v]))"
  with assms cell_less [of i n col'] cell_inj [of col col' row i]
  show "column n col' (table[row * SAMPLE_COLUMNS + col := v]) ! i =
      (if col' = col then (column n col' table)[row := v] else column n col' table) ! i"
    by (auto simp: nth_list_update)
qed simp

text \<open>The search finds a free row when there is one.\<close>

lemma free_row_finds:
  assumes n: "row < n" and col: "col < SAMPLE_COLUMNS" and len: "SAMPLE_COLUMNS * n \<le> length table"
    and free: "0xff \<in> set (column n col table)"
  shows "\<exists>row'. free_row n col table row = Some row' \<and> row' < n \<and> column n col table ! row' = 0xff"
proof -
  from free obtain t where t: "t < n" "column n col table ! t = 0xff" by (auto simp: in_set_conv_nth)
  have rd: "at table (r * SAMPLE_COLUMNS + col) = Some (column n col table ! r)" if "r < n" for r
    using that cell_less [OF that col] len by (simp add: at_def)
  have "\<exists>r. loop_opt (\<lambda>row. at table (row * SAMPLE_COLUMNS + col) \<noteq> Some 0xff)
      (\<lambda>row. if at table (row * SAMPLE_COLUMNS + col) = None then None else Some ((row + 1) mod n)) row = Some r \<and>
    r < n \<and> \<not> at table (r * SAMPLE_COLUMNS + col) \<noteq> Some 0xff"
  proof (rule loop_opt_measure [where I = "\<lambda>r. r < n" and m = "\<lambda>r. (if r \<le> t then t - r else t + n - r)"])
    fix r assume r: "r < n" "at table (r * SAMPLE_COLUMNS + col) \<noteq> Some 0xff"
    with rd [OF r(1)] t have "r \<noteq> t" by auto
    with r t(1) rd [OF r(1)] show "\<exists>s'. (if at table (r * SAMPLE_COLUMNS + col) = None then None else Some ((r + 1) mod n)) = Some s' \<and> s' < n \<and>
      (if s' \<le> t then t - s' else t + n - s') < (if r \<le> t then t - r else t + n - r)"
      by (cases "r + 1 = n") auto
  qed (rule n)
  with rd show ?thesis unfolding free_row_def by auto
qed

definition filled :: "nat \<Rightarrow> nat \<Rightarrow> nat \<Rightarrow> u8 list \<Rightarrow> bool" where
  "filled n col i table \<longleftrightarrow> mset (column n col table) = mset (map of_nat [0..<i]) + replicate_mset (n - i) 0xff"

lemma place_sample_fills:
  assumes i: "i < n" "n \<le> 255" and col: "col < SAMPLE_COLUMNS" and len: "SAMPLE_COLUMNS * n \<le> length table" and rnd: "length rnd = 8"
    and f: "filled n col i table"
  shows "\<exists>t. place_sample n col rnd i table = Some t \<and> length t = length table \<and> filled n col (Suc i) t \<and>
    (\<forall>col'. col' < SAMPLE_COLUMNS \<longrightarrow> col' \<noteq> col \<longrightarrow> column n col' t = column n col' table)"
proof -
  have "0xff \<in># mset (column n col table)" using f i(1) by (simp add: filled_def)
  then have "0xff \<in> set (column n col table)" by simp
  from free_row_finds [OF _ col len this, of "(i + unat (rnd ! (i mod 8))) mod n"] i(1) obtain row where
    r: "free_row n col table ((i + unat (rnd ! (i mod 8))) mod n) = Some row" "row < n" "column n col table ! row = 0xff" by auto
  let ?t = "table[row * SAMPLE_COLUMNS + col := of_nat i]"
  have c: "row * SAMPLE_COLUMNS + col < length table" using cell_less [OF r(2) col] len by simp
  have "mset (column n col ?t) = mset ((column n col table)[row := of_nat i])"
    using column_update [OF r(2) col col len, of "of_nat i"] by simp
  also have "\<dots> = add_mset (of_nat i) (mset (column n col table) - {#0xff#})"
    using r(2,3) by (simp add: mset_update)
  also have "\<dots> = add_mset (of_nat i) (mset (map of_nat [0..<i]) + replicate_mset (n - Suc i) 0xff)"
  proof -
    have "n - i = Suc (n - Suc i)" using i(1) by simp
    then show ?thesis using f by (simp add: filled_def)
  qed
  finally have "filled n col (Suc i) ?t" by (simp add: filled_def)
  moreover have "place_sample n col rnd i table = Some ?t" using rnd r(1) c by (simp add: place_sample_def at_Some)
  ultimately show ?thesis using column_update [OF r(2) col _ len] by simp
qed

lemma fill_column:
  assumes n: "n \<le> 255" and col: "col < SAMPLE_COLUMNS" and len: "SAMPLE_COLUMNS * n \<le> length table" and rnd: "length rnd = 8"
    and f: "column n col table = replicate n 0xff"
  shows "\<exists>t. foldo (place_sample n col rnd) [0..<n] table = Some t \<and> length t = length table \<and> filled n col n t \<and>
    (\<forall>col'. col' < SAMPLE_COLUMNS \<longrightarrow> col' \<noteq> col \<longrightarrow> column n col' t = column n col' table)"
proof -
  let ?P = "\<lambda>i t. length t = length table \<and> filled n col i t \<and>
    (\<forall>col'. col' < SAMPLE_COLUMNS \<longrightarrow> col' \<noteq> col \<longrightarrow> column n col' t = column n col' table)"
  have "\<exists>t. foldo (place_sample n col rnd) [0..<n] table = Some t \<and> ?P n t"
  proof (rule foldo_upt_rule [where P = ?P])
    show "?P 0 table" using f by (simp add: filled_def)
    fix i t assume "0 \<le> i" "i < n" "?P i t"
    with place_sample_fills [of i n col t rnd] n col len rnd show "\<exists>t'. place_sample n col rnd i t = Some t' \<and> ?P (Suc i) t'" by fastforce
  qed simp
  then show ?thesis .
qed

lemma sample_table_fills:
  assumes n: "mi_n_rates mi \<le> 255" and len: "SAMPLE_COLUMNS * mi_n_rates mi \<le> length (mi_sample_table mi)" and rnd: "\<And>col. col < SAMPLE_COLUMNS \<Longrightarrow> length (rnd col) = 8"
  shows "\<exists>table. init_sample_table rnd mi = Some (mi\<lparr>mi_sample_column := 0, mi_sample_row := 0, mi_sample_table := table\<rparr>) \<and>
    length table = length (mi_sample_table mi) \<and> (\<forall>col<SAMPLE_COLUMNS. filled (mi_n_rates mi) col (mi_n_rates mi) table)"
proof -
  let ?n = "mi_n_rates mi"
  let ?t0 = "replicate (SAMPLE_COLUMNS * ?n) 0xff @ drop (SAMPLE_COLUMNS * ?n) (mi_sample_table mi)"
  let ?P = "\<lambda>c t. length t = length ?t0 \<and> (\<forall>col<c. filled ?n col ?n t) \<and> (\<forall>col. c \<le> col \<longrightarrow> col < SAMPLE_COLUMNS \<longrightarrow> column ?n col t = replicate ?n 0xff)"
  have l: "length ?t0 = length (mi_sample_table mi)" using len by simp
  have "\<exists>t. foldo (\<lambda>col. foldo (place_sample ?n col (rnd col)) [0..<?n]) [0..<SAMPLE_COLUMNS] ?t0 = Some t \<and> ?P SAMPLE_COLUMNS t"
  proof (rule foldo_upt_rule [where P = ?P])
    have "column ?n col ?t0 = replicate ?n 0xff" if "col < SAMPLE_COLUMNS" for col
    proof (rule nth_equalityI)
      fix i assume "i < length (column ?n col ?t0)"
      then show "column ?n col ?t0 ! i = replicate ?n 0xff ! i" using cell_less [of i ?n col] that by (simp add: nth_append)
    qed simp
    then show "?P 0 ?t0" by simp
  next
    fix c t assume c: "0 \<le> c" "c < SAMPLE_COLUMNS" and P: "?P c t"
    have "SAMPLE_COLUMNS * ?n \<le> length t" using P len l by simp
    from fill_column [OF n c(2) this rnd [OF c(2)]] P c(2) obtain t' where
      t': "foldo (place_sample ?n c (rnd c)) [0..<?n] t = Some t'" "length t' = length t" "filled ?n c ?n t'"
      "\<forall>col'. col' < SAMPLE_COLUMNS \<longrightarrow> col' \<noteq> c \<longrightarrow> column ?n col' t' = column ?n col' t" by auto
    have "filled ?n col ?n t'" if "col < Suc c" for col
      using that P t'(3,4) c(2) by (cases "col = c") (auto simp: filled_def)
    moreover have "column ?n col t' = replicate ?n 0xff" if "Suc c \<le> col" "col < SAMPLE_COLUMNS" for col
      using that P t'(4) by simp
    ultimately show "\<exists>t'. foldo (place_sample ?n c (rnd c)) [0..<?n] t = Some t' \<and> ?P (Suc c) t'"
      using t'(1,2) P by auto
  qed simp
  then obtain t where t: "foldo (\<lambda>col. foldo (place_sample ?n col (rnd col)) [0..<?n]) [0..<SAMPLE_COLUMNS] ?t0 = Some t" "?P SAMPLE_COLUMNS t" by blast
  have "\<not> length (mi_sample_table mi) < SAMPLE_COLUMNS * ?n" using len by simp
  then have "init_sample_table rnd mi = Some (mi\<lparr>mi_sample_column := 0, mi_sample_row := 0, mi_sample_table := t\<rparr>)"
    unfolding init_sample_table_def Let_def by (simp only: if_False t(1) bind.bind_lunit)
  moreover have "length t = length (mi_sample_table mi)" using conjunct1 [OF t(2)] l by simp
  moreover note conjunct1 [OF conjunct2 [OF t(2)]]
  ultimately show ?thesis by blast
qed

lemma filled_values:
  assumes "filled n col n table" "n \<le> 255"
  shows "mset (map unat (column n col table)) = mset [0..<n]"
proof -
  have "mset (map unat (column n col table)) = image_mset unat (mset (map of_nat [0..<n] :: u8 list))"
    using assms(1) by (simp add: filled_def)
  also have "\<dots> = mset (map (\<lambda>i. unat (of_nat i :: u8)) [0..<n])" by (simp add: image_mset.compositionality comp_def)
  also have "map (\<lambda>i. unat (of_nat i :: u8)) [0..<n] = map id [0..<n]"
    using assms(2) by (intro map_cong refl) (simp add: unat_of_nat take_bit_nat_eq_self)
  finally show ?thesis by simp
qed

text \<open>C28. The search for a free place always ends, and each of the ten columns of the sampling table is a permutation of all rates of the
  station: in one pass over a column every rate is sampled once.\<close>

theorem sample_columns_permute:
  assumes "mi_n_rates mi \<le> 255" "SAMPLE_COLUMNS * mi_n_rates mi \<le> length (mi_sample_table mi)" "\<And>col. col < SAMPLE_COLUMNS \<Longrightarrow> length (rnd col) = 8"
  shows "\<exists>mi'. init_sample_table rnd mi = Some mi' \<and>
    (\<forall>col<SAMPLE_COLUMNS. mset (map (\<lambda>row. unat (mi_sample_table mi' ! (row * SAMPLE_COLUMNS + col))) [0..<mi_n_rates mi]) = mset [0..<mi_n_rates mi])"
proof -
  obtain table where t: "init_sample_table rnd mi = Some (mi\<lparr>mi_sample_column := 0, mi_sample_row := 0, mi_sample_table := table\<rparr>)"
    "\<forall>col<SAMPLE_COLUMNS. filled (mi_n_rates mi) col (mi_n_rates mi) table"
    using sample_table_fills [of mi rnd, OF assms] by blast
  have "mset (map (\<lambda>row. unat (table ! (row * SAMPLE_COLUMNS + col))) [0..<mi_n_rates mi]) = mset [0..<mi_n_rates mi]" if "col < SAMPLE_COLUMNS" for col
    using filled_values [OF _ assms(1), of col table] t(2) that by (simp add: column_def comp_def)
  with t(1) show ?thesis by simp
qed

section \<open>The state stays consistent\<close>

text \<open>A rate is tried at least once, and the countdown of its samples is in range: -1 for no limit, else at most 4.\<close>

definition rate_ok :: "mrate \<Rightarrow> bool" where
  "rate_ok mr \<longleftrightarrow> 0 < rs_retry_count (mr_stats mr) \<and> 0 < mr_adjusted_retry_count mr \<and> -1 \<le> mr_sample_limit mr \<and> mr_sample_limit mr \<le> 4"

definition minstrel_ok :: "minstrel_sta \<Rightarrow> bool" where
  "minstrel_ok mi \<longleftrightarrow>
     0 < mi_n_rates mi \<and> mi_n_rates mi \<le> 255 \<and> mi_n_rates mi \<le> length (mi_r mi) \<and> MAX_THR_RATES \<le> length (mi_r mi) \<and>
     (\<forall>i<mi_n_rates mi. 0 \<le> mr_rix (mi_r mi ! i) \<and> rate_ok (mi_r mi ! i)) \<and>
     SAMPLE_COLUMNS * mi_n_rates mi \<le> length (mi_sample_table mi) \<and>
     (\<forall>col<SAMPLE_COLUMNS. filled (mi_n_rates mi) col (mi_n_rates mi) (mi_sample_table mi)) \<and>
     mi_sample_row mi < mi_n_rates mi \<and> mi_sample_column mi < SAMPLE_COLUMNS \<and>
     length (mi_max_tp_rate mi) = MAX_THR_RATES \<and> (\<forall>t\<in>set (mi_max_tp_rate mi). unat t < mi_n_rates mi) \<and>
     unat (mi_max_prob_rate mi) < mi_n_rates mi"

definition same_rates :: "mrate list \<Rightarrow> mrate list \<Rightarrow> bool" where
  "same_rates r r' \<longleftrightarrow> length r' = length r \<and>
     (\<forall>i<length r. mr_rix (r' ! i) = mr_rix (r ! i) \<and> (rate_ok (r ! i) \<longrightarrow> rate_ok (r' ! i)))"

lemma same_rates_refl [simp]: "same_rates r r"
  by (simp add: same_rates_def)

lemma same_rates_trans: "same_rates a b \<Longrightarrow> same_rates b c \<Longrightarrow> same_rates a c"
  by (simp add: same_rates_def)

lemma same_rates_length: "same_rates r r' \<Longrightarrow> length r' = length r"
  by (simp add: same_rates_def)

lemma same_rates_update: "i < length r \<Longrightarrow> mr_rix x = mr_rix (r ! i) \<Longrightarrow> (rate_ok (r ! i) \<Longrightarrow> rate_ok x) \<Longrightarrow> same_rates r (r[i := x])"
  by (auto simp: same_rates_def nth_list_update)

lemma same_rates_nth: "same_rates r r' \<Longrightarrow> i < length r \<Longrightarrow> mr_rix (r' ! i) = mr_rix (r ! i)"
  "same_rates r r' \<Longrightarrow> i < length r \<Longrightarrow> rate_ok (r ! i) \<Longrightarrow> rate_ok (r' ! i)"
  by (simp_all add: same_rates_def)

text \<open>Changing the statistics and the counters keeps the state consistent.\<close>

lemma minstrel_ok_rates: "minstrel_ok mi \<Longrightarrow> same_rates (mi_r mi) r \<Longrightarrow> minstrel_ok (mi\<lparr>mi_r := r\<rparr>)"
  by (auto simp: minstrel_ok_def same_rates_length same_rates_nth)

lemma minstrel_ok_counters [simp]:
  "minstrel_ok (mi\<lparr>mi_total_packets := a\<rparr>) = minstrel_ok mi" "minstrel_ok (mi\<lparr>mi_sample_packets := b\<rparr>) = minstrel_ok mi"
  "minstrel_ok (mi\<lparr>mi_sample_deferred := c\<rparr>) = minstrel_ok mi" "minstrel_ok (mi\<lparr>mi_prev_sample := d\<rparr>) = minstrel_ok mi"
  "minstrel_ok (mi\<lparr>mi_last_stats_update := f\<rparr>) = minstrel_ok mi"
  by (simp_all add: minstrel_ok_def)

subsection \<open>Feedback\<close>

definition report_ok :: "nat \<Rightarrow> tx_report \<Rightarrow> bool" where
  "report_ok m info \<longleftrightarrow> length (tr_rates info) = TX_MAX_RATES \<and> (\<forall>x\<in>set (tr_rates info). fst x < int m)"

lemma rix_search_total: "i \<le> length r \<Longrightarrow> \<exists>x. rix_search r rix i = Some x \<and> (\<forall>k. x = Some k \<longrightarrow> k < i)"
  by (induction i) (auto simp: at_Some)

lemma rix_to_ndx_total: "rix < int (length r) \<Longrightarrow> \<exists>x. rix_to_ndx r rix = Some x \<and> (\<forall>k. x = Some k \<longrightarrow> k < length r)"
  using rix_search_total [of "nat (rix + 1)" r rix] unfolding rix_to_ndx_def by fastforce

lemma count_tries_total: "ndx < length r \<Longrightarrow> \<exists>r'. count_tries r ndx n s = Some r' \<and> same_rates r r'"
  by (auto simp: count_tries_def at_Some Let_def rate_ok_def intro!: same_rates_update)

lemma status_loop_total:
  assumes "report_ok (length r0) info"
  shows "i + n \<le> TX_MAX_RATES \<Longrightarrow> same_rates r0 r \<Longrightarrow> \<exists>r'. status_loop info n i r = Some r' \<and> same_rates r0 r'"
proof (induction n arbitrary: i r)
  case (Suc n)
  have i: "i < length (tr_rates info)" using assms Suc.prems(1) by (simp add: report_ok_def)
  obtain idx tries where x: "tr_rates info ! i = (idx, tries)" by fastforce
  have "idx < int (length r)" using assms nth_mem [OF i] x same_rates_length [OF Suc.prems(2)] by (auto simp: report_ok_def)
  from rix_to_ndx_total [OF this] obtain nd where nd: "rix_to_ndx r idx = Some nd" "\<And>k. nd = Some k \<Longrightarrow> k < length r" by blast
  have next_: "\<exists>r'. status_loop info n (i + 1) q = Some r' \<and> same_rates r0 r'" if "same_rates r0 q" for q
    using Suc.IH [of "i + 1" q] Suc.prems(1) that by simp
  show ?case
  proof (cases nd)
    case None
    with i x nd next_ [OF Suc.prems(2)] Suc.prems(2) show ?thesis by (auto simp: at_Some)
  next
    case (Some k)
    have "i = TX_MAX_RATES - 1 \<or> i + 1 < length (tr_rates info)" using i assms by (auto simp: report_ok_def)
    then obtain b where b: "(if i = TX_MAX_RATES - 1 then Some False else map_option (\<lambda>x. fst x < 0) (at (tr_rates info) (i + 1))) = Some b"
      by (cases "i = TX_MAX_RATES - 1"; simp only: if_True if_False at_Some option.map simp_thms; blast)
    from count_tries_total [of k r tries "b \<and> tr_ack info"] nd(2) Some obtain r1 where
      r1: "count_tries r k tries (b \<and> tr_ack info) = Some r1" "same_rates r r1" by blast
    from next_ [OF same_rates_trans [OF Suc.prems(2) r1(2)]] obtain r2 where
      "status_loop info n (i + 1) r1 = Some r2" "same_rates r0 r2" by blast
    with i x nd(1) Some b r1(1) Suc.prems(2) show ?thesis by (auto simp: at_Some simp del: One_nat_def)
  qed
qed simp

lemma tp_place_total:
  "j \<le> length tp \<Longrightarrow> (\<And>t. t \<in> set tp \<Longrightarrow> unat t < length r) \<Longrightarrow> (0 < j \<Longrightarrow> tmp < length r) \<Longrightarrow>
   \<exists>k o'. tp_place r cur below tp j tmp ov = Some (k, o') \<and> k \<le> j"
proof (induction j arbitrary: tmp ov)
  case (Suc j)
  have m: "unat (tp ! i) < length r" if "i < length tp" for i using Suc.prems(2) that by simp
  show ?case
  proof (cases "get_tp_avg cur (prob_of cur) > get_tp_avg (r ! unat (tp ! j)) (prob_of (r ! tmp))")
    case True
    let ?t = "if j = 0 then below else tp ! (j - 1)"
    have "\<exists>k o'. tp_place r cur below tp j (unat ?t) (ov \<or> j = 0) = Some (k, o') \<and> k \<le> j"
      by (rule Suc.IH) (use Suc.prems m [of "j - 1"] in auto)
    then obtain k o' where "tp_place r cur below tp j (unat ?t) (ov \<or> j = 0) = Some (k, o')" "k \<le> j" by blast
    moreover have "(if j = 0 then Some below else at tp (j - 1)) = Some ?t" using Suc.prems(1) by (simp add: at_Some)
    ultimately show ?thesis using True Suc.prems(1,3) m [of j] by (simp add: at_Some)
  next
    case False
    with Suc.prems(1,3) m [of j] show ?thesis by (auto simp: at_Some)
  qed
qed simp

text \<open>The byte before the list makes no difference.\<close>

lemma tp_place_below: "tp_place r cur below tp j tmp ov = tp_place r cur below' tp j tmp ov"
proof (induction j arbitrary: tmp ov)
  case (Suc j)
  then show ?case by (cases j) (simp_all cong: if_cong)
qed simp

lemma update_stats_junk:
  "minstrel_update_stats int_sqrt j mp mi (e\<lparr>env_junk := junk\<rparr>) =
   map_option (\<lambda>(mi', over, t, e'). (mi', over, t, e'\<lparr>env_junk := junk\<rparr>)) (minstrel_update_stats int_sqrt j mp mi e)"
proof -
  have sort: "sort_best_tp_rates r i x tp = sort_best_tp_rates r i x' tp" for r i x x' tp
    by (simp add: sort_best_tp_rates_def tp_place_below [where below = x and below' = x'])
  have "update_rate int_sqrt b i = update_rate int_sqrt b' i" for b b' i
    unfolding update_rate_def by (simp only: sort [where x = "b i" and x' = "b' i"])
  then have "update_rate int_sqrt b = update_rate int_sqrt b'" for b b' by blast
  then have u: "update_rate int_sqrt junk = update_rate int_sqrt (env_junk e)" .
  have "alloc_next (e\<lparr>env_junk := junk\<rparr>) = (alloc_next e)\<lparr>env_junk := junk\<rparr>" by (cases e) (simp add: alloc_next_def)
  then have "minstrel_update_rates mp x (e\<lparr>env_junk := junk\<rparr>) = map_option (\<lambda>(t, e'). (t, e'\<lparr>env_junk := junk\<rparr>)) (minstrel_update_rates mp x e)" for x
    by (simp add: minstrel_update_rates_def map_option_bind comp_def Let_def)
  with u show ?thesis
    by (simp add: minstrel_update_stats_def map_option_bind comp_def Let_def split_def bind_map_option)
qed

lemma tx_status_junk:
  "minstrel_tx_status int_sqrt after hz j mp info mi (e\<lparr>env_junk := junk\<rparr>) =
   map_option (\<lambda>(mi', over, t, e'). (mi', over, t, e'\<lparr>env_junk := junk\<rparr>)) (minstrel_tx_status int_sqrt after hz j mp info mi e)"
proof (cases "status_loop info TX_MAX_RATES 0 (mi_r mi)")
  case (Some r)
  then show ?thesis unfolding minstrel_tx_status_def Let_def Some bind.bind_lunit update_stats_junk by (simp only: if_distrib [where f = "map_option _"] option.map prod.case)
qed (simp add: minstrel_tx_status_def)

lemma unat_of_nat_u8: "i < 256 \<Longrightarrow> unat (of_nat i :: u8) = i"
  by (simp add: unat_of_nat take_bit_nat_eq_self)

lemma sort_best_total:
  assumes "i < n" "n \<le> 255" "n \<le> length r" "MAX_THR_RATES \<le> length r" "length tp = MAX_THR_RATES" "\<forall>t\<in>set tp. unat t < n"
  shows "\<exists>tp' over. sort_best_tp_rates r i below tp = Some (tp', over) \<and> length tp' = MAX_THR_RATES \<and> (\<forall>t\<in>set tp'. unat t < n)"
proof -
  have "unat t < length r" if "t \<in> set tp" for t using assms(3,6) that by fastforce
  moreover have "MAX_THR_RATES - 1 < length r" using assms(4) by (simp add: MAX_THR_RATES_def)
  ultimately obtain j over where
    j: "tp_place r (r ! i) below tp MAX_THR_RATES (MAX_THR_RATES - 1) False = Some (j, over)" "j \<le> MAX_THR_RATES"
    using tp_place_total [of MAX_THR_RATES tp r "MAX_THR_RATES - 1" "r ! i" below False] assms(5) by auto
  let ?tp = "if j < MAX_THR_RATES then take MAX_THR_RATES (take j tp @ of_nat i # drop j tp) else tp"
  have r: "sort_best_tp_rates r i below tp = Some (?tp, over)"
    using assms(1,3) j(1) by (simp add: sort_best_tp_rates_def at_Some)
  have "set (take j tp @ of_nat i # drop j tp) = insert (of_nat i) (set tp)"
    using set_append [of "take j tp" "drop j tp"] by auto
  then have "set ?tp \<subseteq> insert (of_nat i) (set tp)"
    using set_take_subset [of MAX_THR_RATES "take j tp @ of_nat i # drop j tp"] by auto
  moreover have "unat (of_nat i :: u8) = i" using assms(1,2) by (intro unat_of_nat_u8) simp
  ultimately have "\<forall>t\<in>set ?tp. unat t < n" using assms(1,6) by force
  moreover have "length ?tp = MAX_THR_RATES" using assms(5) j(2) by simp
  ultimately show ?thesis using r by blast
qed

lemma adjust_rate_rix [simp]: "mr_rix (adjust_rate mr) = mr_rix mr"
  by (simp add: adjust_rate_def Let_def)

lemma adjust_rate_ok: "0 < rs_retry_count (mr_stats mr) \<Longrightarrow> rate_ok (adjust_rate mr)"
  by (auto simp: adjust_rate_def Let_def rate_ok_def word_gt_0)

lemma calc_rate_retry [simp]: "rs_retry_count (calc_rate_stats int_sqrt mrs) = rs_retry_count mrs"
  by (simp add: calc_rate_stats_def Let_def)

definition update_ok :: "nat \<Rightarrow> mrate list \<Rightarrow> update_state \<Rightarrow> bool" where
  "update_ok n r0 = (\<lambda>(r, tp, prob, over). same_rates r0 r \<and> length tp = MAX_THR_RATES \<and> (\<forall>t\<in>set tp. unat t < n) \<and> unat prob < n)"

lemma update_rate_ok:
  assumes n: "i < n" "n \<le> 255" "n \<le> length r0" "MAX_THR_RATES \<le> length r0" and s: "update_ok n r0 s"
  shows "\<exists>s'. update_rate int_sqrt below i s = Some s' \<and> update_ok n r0 s'"
proof -
  obtain r tp prob over where s': "s = (r, tp, prob, over)" by (metis prod_cases4)
  with s have u: "same_rates r0 r" "length tp = MAX_THR_RATES" "\<forall>t\<in>set tp. unat t < n" "unat prob < n" by (simp_all add: update_ok_def)
  have l: "length r = length r0" by (rule same_rates_length [OF u(1)])
  define mr where "mr = adjust_rate ((r ! i)\<lparr>mr_stats := calc_rate_stats int_sqrt (mr_stats (r ! i))\<rparr>)"
  have "rate_ok (r ! i) \<Longrightarrow> rate_ok mr" unfolding mr_def by (rule adjust_rate_ok) (simp add: rate_ok_def)
  then have sr: "same_rates r0 (r[i := mr])"
    by (intro same_rates_trans [OF u(1)] same_rates_update) (use n l in \<open>simp_all add: mr_def\<close>)
  have "n \<le> length (r[i := mr])" "MAX_THR_RATES \<le> length (r[i := mr])" using n l by simp_all
  from sort_best_total [OF n(1,2) this u(2,3), of "below i"] obtain tp' o1 where
    tp': "sort_best_tp_rates (r[i := mr]) i (below i) tp = Some (tp', o1)" "length tp' = MAX_THR_RATES" "\<forall>t\<in>set tp'. unat t < n" by blast
  have "unat (of_nat i :: u8) < n" using n(1,2) by (subst unat_of_nat_u8) simp_all
  with tp' sr u(4) n l show ?thesis
    unfolding s' update_rate_def
    by (auto simp: at_Some put_def Let_def update_ok_def simp flip: mr_def)
qed

lemma rate_entry_total: "unat x < length r \<Longrightarrow> \<exists>y. rate_entry r x = Some y"
  by (simp add: rate_entry_def at_Some)

lemma update_rates_total:
  assumes "length (mi_max_tp_rate mi) = MAX_THR_RATES" "\<forall>t\<in>set (mi_max_tp_rate mi). unat t < length (mi_r mi)" "unat (mi_max_prob_rate mi) < length (mi_r mi)"
  shows "\<exists>t e'. minstrel_update_rates mp mi e = Some (t, e')"
proof -
  have l: "0 < length (mi_max_tp_rate mi)" "1 < length (mi_max_tp_rate mi)" using assms(1) by (simp_all add: MAX_THR_RATES_def)
  have "\<exists>y. rate_entry (mi_r mi) (mi_max_tp_rate mi ! 0) = Some y" "\<exists>y. rate_entry (mi_r mi) (mi_max_tp_rate mi ! 1) = Some y"
    "\<exists>y. rate_entry (mi_r mi) (mi_max_prob_rate mi) = Some y"
    by (rule rate_entry_total, use assms l in simp)+
  with l show ?thesis by (auto simp: minstrel_update_rates_def at_Some Let_def simp del: One_nat_def)
qed

lemma update_stats_ok:
  assumes "minstrel_ok mi"
  shows "\<exists>mi' over t e'. minstrel_update_stats int_sqrt j mp mi e = Some (mi', over, t, e') \<and> minstrel_ok mi' \<and> same_rates (mi_r mi) (mi_r mi') \<and>
    mi_n_rates mi' = mi_n_rates mi"
proof -
  let ?n = "mi_n_rates mi"
  have n: "0 < ?n" "?n \<le> 255" "?n \<le> length (mi_r mi)" "MAX_THR_RATES \<le> length (mi_r mi)" using assms by (simp_all add: minstrel_ok_def)
  have "\<exists>s. foldo (update_rate int_sqrt (env_junk e)) [0..<?n] (mi_r mi, replicate MAX_THR_RATES 0, 0, False) = Some s \<and> update_ok ?n (mi_r mi) s"
    by (rule foldo_upt_rule [where P = "\<lambda>i s. update_ok ?n (mi_r mi) s"]) (use n update_rate_ok in \<open>auto simp: update_ok_def\<close>)
  then obtain r tp prob over where s: "foldo (update_rate int_sqrt (env_junk e)) [0..<?n] (mi_r mi, replicate MAX_THR_RATES 0, 0, False) = Some (r, tp, prob, over)"
    and u: "same_rates (mi_r mi) r" "length tp = MAX_THR_RATES" "\<forall>t\<in>set tp. unat t < ?n" "unat prob < ?n"
    by (auto simp: update_ok_def)
  define mi2 where "mi2 = mi\<lparr>mi_r := r, mi_max_tp_rate := tp, mi_max_prob_rate := prob, mi_last_stats_update := j\<rparr>"
  have ok: "minstrel_ok mi2"
    using minstrel_ok_rates [OF assms u(1)] u(2-4) by (simp add: minstrel_ok_def mi2_def)
  have "length (mi_max_tp_rate mi2) = MAX_THR_RATES" "\<forall>t\<in>set (mi_max_tp_rate mi2). unat t < length (mi_r mi2)" "unat (mi_max_prob_rate mi2) < length (mi_r mi2)"
    using u same_rates_length [OF u(1)] n(3) by (fastforce simp: mi2_def)+
  from update_rates_total [OF this, of mp e] obtain t e' where "minstrel_update_rates mp mi2 e = Some (t, e')" by blast
  with s ok u(1) show ?thesis
    by (auto simp: minstrel_update_stats_def Let_def simp flip: mi2_def) (simp_all add: mi2_def)
qed

lemma tx_status_ok:
  assumes ok: "minstrel_ok mi" and rep: "report_ok (length (mi_r mi)) info"
  shows "\<exists>mi' over t e'. minstrel_tx_status int_sqrt after hz j mp info mi e = Some (mi', over, t, e') \<and> minstrel_ok mi' \<and> same_rates (mi_r mi) (mi_r mi') \<and>
    mi_n_rates mi' = mi_n_rates mi"
proof -
  obtain r where r: "status_loop info TX_MAX_RATES 0 (mi_r mi) = Some r" "same_rates (mi_r mi) r"
    using status_loop_total [OF rep, of 0 TX_MAX_RATES "mi_r mi"] by auto
  define mi1 where "mi1 = (if tr_probe info then (mi\<lparr>mi_r := r\<rparr>)\<lparr>mi_sample_packets := mi_sample_packets mi + 1\<rparr> else mi\<lparr>mi_r := r\<rparr>)"
  define mi2 where "mi2 = (if mi_sample_deferred mi1 > 0 then mi1\<lparr>mi_sample_deferred := mi_sample_deferred mi1 - 1\<rparr> else mi1)"
  have ok2: "minstrel_ok mi2" "mi_r mi2 = r" "mi_n_rates mi2 = mi_n_rates mi"
    using minstrel_ok_rates [OF ok r(2)] by (simp_all add: mi2_def mi1_def)
  have eq: "minstrel_tx_status int_sqrt after hz j mp info mi e =
    (if after j (mi_last_stats_update mi2 + ucast (mp_update_interval mp * hz div 1000))
     then minstrel_update_stats int_sqrt j mp mi2 e else Some (mi2, False, None, e))"
    using r(1) by (simp add: minstrel_tx_status_def Let_def mi2_def mi1_def)
  show ?thesis unfolding eq using update_stats_ok [OF ok2(1), of int_sqrt j mp e] ok2 r(2) same_rates_trans by fastforce
qed

subsection \<open>Choice of a rate\<close>

lemma filled_cell:
  assumes "filled n col n table" "n \<le> 255" "row < n"
  shows "unat (table ! (row * SAMPLE_COLUMNS + col)) < n"
proof -
  have "unat (column n col table ! row) \<in> set (map unat (column n col table))" using assms(3) nth_mem [of row "column n col table"] by (simp del: column_nth)
  also have "\<dots> = set [0..<n]" using filled_values [OF assms(1,2)] by (metis set_mset_mset)
  finally show ?thesis using assms(3) by simp
qed

lemma get_next_sample_ok:
  assumes "minstrel_ok mi"
  shows "\<exists>ndx mi'. get_next_sample mi = Some (ndx, mi') \<and> ndx < mi_n_rates mi \<and> minstrel_ok mi' \<and> mi_r mi' = mi_r mi \<and> mi_n_rates mi' = mi_n_rates mi"
proof -
  let ?n = "mi_n_rates mi"
  have m: "mi_sample_row mi < ?n" "mi_sample_column mi < SAMPLE_COLUMNS" "?n \<le> 255" "SAMPLE_COLUMNS * ?n \<le> length (mi_sample_table mi)"
    "filled ?n (mi_sample_column mi) ?n (mi_sample_table mi)"
    using assms by (simp_all add: minstrel_ok_def)
  have c: "mi_sample_row mi * SAMPLE_COLUMNS + mi_sample_column mi < length (mi_sample_table mi)" using cell_less [OF m(1,2)] m(4) by simp
  have v: "unat (mi_sample_table mi ! (mi_sample_row mi * SAMPLE_COLUMNS + mi_sample_column mi)) < ?n" by (rule filled_cell [OF m(5,3,1)])
  have "0 < SAMPLE_COLUMNS" by (simp add: SAMPLE_COLUMNS_def)
  with assms m(1,2) c v show ?thesis
    by (auto simp: get_next_sample_def at_Some Let_def minstrel_ok_def)
qed

lemma sample_rate_ok:
  assumes ok: "minstrel_ok mi" and ndx: "ndx < mi_n_rates mi"
  shows "\<exists>s. sample_rate mrr ndx mi = Some (s, mi) \<and>
    (\<forall>probe mi'. s = Some (probe, mi') \<longrightarrow> minstrel_ok mi' \<and> same_rates (mi_r mi) (mi_r mi') \<and> mi_n_rates mi' = mi_n_rates mi)"
proof -
  have l: "ndx < length (mi_r mi)" "0 < length (mi_max_tp_rate mi)" using ok ndx by (simp_all add: minstrel_ok_def MAX_THR_RATES_def)
  have "mi_max_tp_rate mi ! 0 \<in> set (mi_max_tp_rate mi)" using l(2) by simp
  with ok have t: "unat (mi_max_tp_rate mi ! 0) < length (mi_r mi)" unfolding minstrel_ok_def by fastforce
  let ?r = "(mi_r mi)[ndx := if mr_sample_limit (mi_r mi ! ndx) > 0 then (mi_r mi ! ndx)\<lparr>mr_sample_limit := mr_sample_limit (mi_r mi ! ndx) - 1\<rparr> else mi_r mi ! ndx]"
  have sr: "same_rates (mi_r mi) ?r" by (rule same_rates_update) (use l(1) in \<open>simp_all add: rate_ok_def\<close>)
  have ok2: "minstrel_ok (mi\<lparr>mi_sample_packets := mi_sample_packets mi + 1, mi_r := ?r\<rparr>)"
    by (rule minstrel_ok_rates) (use ok sr in simp_all)
  show ?thesis using l t sr ok ok2 by (auto simp: sample_rate_def at_Some put_def)
qed

definition choice_ok :: "minstrel_sta \<Rightarrow> rate_choice \<Rightarrow> bool" where
  "choice_ok mi c \<longleftrightarrow> (\<forall>slot rix tries. rc_rate c = Some (slot, rix, tries) \<longrightarrow>
     0 \<le> rix \<and> 0 < tries \<and> (\<exists>i<mi_n_rates mi. rix = mr_rix (mi_r mi ! i)))"

lemma retry_count_pos: "rate_ok mr \<Longrightarrow> 0 < get_retry_count mr rts cts"
  by (auto simp: get_retry_count_def rate_ok_def Let_def less_max_iff_disj)

lemma choose_sample_ok:
  assumes ok: "minstrel_ok mi"
  shows "\<exists>c mi'. choose_sample mrr q mi = Some (c, mi') \<and> minstrel_ok mi' \<and> choice_ok mi c \<and> same_rates (mi_r mi) (mi_r mi') \<and> mi_n_rates mi' = mi_n_rates mi"
proof -
  obtain ndx mi1 where 1: "get_next_sample mi = Some (ndx, mi1)" "ndx < mi_n_rates mi" "minstrel_ok mi1" "mi_r mi1 = mi_r mi" "mi_n_rates mi1 = mi_n_rates mi"
    using get_next_sample_ok [OF ok] by blast
  obtain s where s: "sample_rate mrr ndx mi1 = Some (s, mi1)"
    "\<And>probe mi'. s = Some (probe, mi') \<Longrightarrow> minstrel_ok mi' \<and> same_rates (mi_r mi1) (mi_r mi') \<and> mi_n_rates mi' = mi_n_rates mi1"
    using sample_rate_ok [of mi1 ndx mrr] 1(2,3,5) by (metis (no_types, lifting))
  show ?thesis
  proof (cases s)
    case None
    with 1 s(1) show ?thesis by (simp add: choose_sample_def choice_ok_def no_choice_def)
  next
    case (Some pm)
    obtain probe mi2 where pm: "pm = (probe, mi2)" by fastforce
    with s(2) Some 1 have m2: "minstrel_ok mi2" "same_rates (mi_r mi) (mi_r mi2)" "mi_n_rates mi2 = mi_n_rates mi" by auto
    have l: "ndx < length (mi_r mi2)" "ndx < length (mi_r mi)" using m2(1,3) 1(2) ok by (simp_all add: minstrel_ok_def)
    have r: "mr_rix (mi_r mi2 ! ndx) = mr_rix (mi_r mi ! ndx)" by (rule same_rates_nth(1) [OF m2(2) l(2)])
    have "rate_ok (mi_r mi2 ! ndx)" using m2(1,3) 1(2) by (simp add: minstrel_ok_def)
    note tries = retry_count_pos [OF this, of "rq_use_rts q" "rq_use_cts_prot q"]
    have z: "0 \<le> mr_rix (mi_r mi ! ndx)" using ok 1(2) by (simp add: minstrel_ok_def)
    have eq: "choose_sample mrr q mi =
      (if \<not> mrr \<and> prob_of (mi_r mi2 ! ndx) > word_of_int (MINSTREL_FRAC 95 100) then Some (\<lparr>rc_probe = probe, rc_rate = None\<rparr>, mi2)
       else Some (\<lparr>rc_probe = probe, rc_rate = Some (if probe then 1 else 0, mr_rix (mi_r mi2 ! ndx),
              get_retry_count (mi_r mi2 ! ndx) (rq_use_rts q) (rq_use_cts_prot q))\<rparr>, mi2\<lparr>mi_prev_sample := True\<rparr>))"
      unfolding choose_sample_def 1(1) bind.bind_lunit prod.case s(1) Some pm option.case at_Some [OF l(1)] by (rule refl)
    show ?thesis unfolding eq using m2 r z 1(2) tries by (auto simp: choice_ok_def)
  qed
qed

lemma get_rate_ok:
  assumes ok: "minstrel_ok mi"
  shows "\<exists>c mi'. minstrel_get_rate mp q mi = Some (c, mi') \<and> minstrel_ok mi' \<and> choice_ok mi c \<and> same_rates (mi_r mi) (mi_r mi') \<and> mi_n_rates mi' = mi_n_rates mi"
proof (cases "rq_send_low q")
  case True
  with ok show ?thesis by (simp add: minstrel_get_rate_def choice_ok_def no_choice_def)
next
  case False
  define mrr where "mrr = (mp_has_mrr mp \<and> \<not> rq_rts q \<and> \<not> rq_bss_cts_prot q)"
  define ratio where "ratio = (if mrr then mp_lookaround_rate_mrr mp else mp_lookaround_rate mp)"
  define m1 where "m1 = mi\<lparr>mi_total_packets := mi_total_packets mi + 1\<rparr>"
  define delta where "delta = sint (mi_total_packets m1 * ratio div 100 - (mi_sample_packets m1 + word_of_int (mi_sample_deferred m1 sdiv 2)))"
  define m2 where "m2 = m1\<lparr>mi_prev_sample := False\<rparr>"
  define limit where "limit = int (mi_n_rates m2) * 2"
  define m3 where "m3 = (if mi_total_packets m2 \<ge> 10000 then m2\<lparr>mi_sample_deferred := 0, mi_sample_packets := 0, mi_total_packets := 0\<rparr>
       else if delta > limit then m2\<lparr>mi_sample_packets := mi_sample_packets m2 + word_of_int (delta - limit)\<rparr> else m2)"
  note defs = mrr_def ratio_def m1_def delta_def m2_def limit_def m3_def
  have eq: "minstrel_get_rate mp q mi =
    (if delta < 0 \<or> (\<not> mrr \<and> mi_prev_sample m1) then Some (no_choice, m2) else choose_sample mrr q m3)"
    using False unfolding minstrel_get_rate_def Let_def defs by (simp only: if_False)
  have m: "minstrel_ok m2" "minstrel_ok m3" "mi_r m2 = mi_r mi" "mi_r m3 = mi_r mi" "mi_n_rates m2 = mi_n_rates mi" "mi_n_rates m3 = mi_n_rates mi"
    using ok by (simp_all add: m1_def m2_def m3_def)
  have c: "choice_ok m3 c = choice_ok mi c" for c using m(4,6) by (simp add: choice_ok_def)
  have no: "choice_ok mi no_choice" by (simp add: choice_ok_def no_choice_def)
  show ?thesis
  proof (cases "delta < 0 \<or> (\<not> mrr \<and> mi_prev_sample m1)")
    case True
    with m no show ?thesis unfolding eq by simp
  next
    case False
    have "\<exists>c mi'. choose_sample mrr q m3 = Some (c, mi') \<and> minstrel_ok mi' \<and> choice_ok mi c \<and> same_rates (mi_r mi) (mi_r mi') \<and> mi_n_rates mi' = mi_n_rates mi"
      using choose_sample_ok [OF m(2), of mrr q] m(4,6) by (simp only: c)
    with False show ?thesis unfolding eq by (simp only: if_False)
  qed
qed

subsection \<open>Initialisation\<close>

lemma frame_duration_total: "rate \<noteq> 0 \<Longrightarrow> \<exists>d. frame_duration b n rate erp sp shift = Some d"
  by (simp add: frame_duration_def)

lemma sdiv_pos: "0 \<le> a \<Longrightarrow> 0 < b \<Longrightarrow> (a :: int) sdiv b = a div b"
  by (cases "a = 0") (simp_all add: signed_divide_int_def)

lemma round_up_pos: "0 < n \<Longrightarrow> 0 < d \<Longrightarrow> 0 < DIV_ROUND_UP n d"
  by (simp add: DIV_ROUND_UP_def sdiv_pos pos_imp_zdiv_pos_iff)

lemma durations_total:
  assumes "0 < br_bitrate rate"
  shows "\<exists>d'. calc_rate_durations b shift rate d = Some d' \<and> mr_rix d' = mr_rix d \<and> mr_stats d' = mr_stats d \<and> mr_sample_limit d' = mr_sample_limit d"
proof -
  have "DIV_ROUND_UP (br_bitrate rate) (push_bit shift 1) \<noteq> 0"
    using round_up_pos [OF assms, of "push_bit shift 1"] by (simp add: push_bit_eq_mult)
  from frame_duration_total [OF this, of b 1200 "br_erp_g rate" True shift] frame_duration_total [OF this, of b 10 "br_erp_g rate" True shift]
  show ?thesis by (auto simp: calc_rate_durations_def Let_def)
qed

text \<open>The loop over the retransmissions ends because the count goes up to at most 255.\<close>

definition retry_ok :: "minstrel_priv \<Rightarrow> int \<Rightarrow> retry_state \<Rightarrow> bool" where
  "retry_ok mp rix = (\<lambda>(cw, tx, cts, rts, mr, goon). mr_rix mr = rix \<and> mr_sample_limit mr = -1 \<and> 0 < rs_retry_count (mr_stats mr) \<and>
     (goon \<longrightarrow> unat (rs_retry_count (mr_stats mr)) \<le> 254))"

lemma retry_step:
  assumes "unat (mp_max_retry mp) \<le> 255" "retry_ok mp rix s" "case s of (_, _, _, _, _, goon) \<Rightarrow> goon"
  shows "\<exists>s'. retry_body mp sp s = Some s' \<and> retry_ok mp rix s' \<and>
    (case s' of (_, _, _, _, mr, goon) \<Rightarrow> if goon then 256 - unat (rs_retry_count (mr_stats mr)) else 0) <
    (case s of (_, _, _, _, mr, goon) \<Rightarrow> if goon then 256 - unat (rs_retry_count (mr_stats mr)) else (0::nat))"
proof -
  obtain cw tx cts rts mr goon where s: "s = (cw, tx, cts, rts, mr, goon)" by (metis prod_cases6)
  with assms(2,3) have m: "goon" "mr_rix mr = rix" "unat (rs_retry_count (mr_stats mr)) \<le> 254" "mr_sample_limit mr = -1" "0 < rs_retry_count (mr_stats mr)"
    by (auto simp: retry_ok_def)
  have inc: "unat (rs_retry_count (mr_stats mr) + 1) = unat (rs_retry_count (mr_stats mr)) + 1"
    using m(3) by (subst unat_plus_if_size) (simp add: word_size)
  have lim: "unat c \<le> 254" if "(ucast c :: u32) < mp_max_retry mp" for c :: u8
  proof -
    have "unat (ucast c :: u32) < unat (mp_max_retry mp)" using that by (simp add: word_less_nat_alt)
    moreover have "unat (ucast c :: u32) = unat c" by (simp add: unsigned_ucast_eq take_bit_nat_eq_self less_trans [OF unat_u8_less])
    ultimately show ?thesis using assms(1) by linarith
  qed
  have "0 < rs_retry_count (mr_stats mr) + 1" using inc by (simp add: word_less_nat_alt)
  then show ?thesis
    using m inc lim [of "rs_retry_count (mr_stats mr) + 1"] unsigned_less [of "rs_retry_count (mr_stats mr)"]
    by (auto simp: s retry_body_def Let_def retry_ok_def)
qed

lemma init_rate_total:
  assumes "0 < br_bitrate rate" "unat (mp_max_retry mp) \<le> 255" "i \<le> 127"
  shows "\<exists>mr. init_rate mp sp b shift i rate = Some mr \<and> mr_rix mr = int i \<and> rate_ok mr"
proof -
  have rix: "sint (of_nat i :: u8) = int i"
    using assms(3) by (simp add: signed_of_nat signed_take_bit_int_eq_self)
  define mr0 where "mr0 = \<lparr>mr_bitrate = DIV_ROUND_UP (br_bitrate rate) (push_bit shift 1 * 5), mr_rix = int i, mr_retry_count_cts = 1,
      mr_adjusted_retry_count = 0, mr_perfect_tx_time = 0, mr_ack_time = 0, mr_sample_limit = -1, mr_stats = blank_stats\<rparr>"
  obtain mr1 where mr1: "calc_rate_durations b shift rate mr0 = Some mr1" "mr_rix mr1 = int i" "mr_stats mr1 = blank_stats" "mr_sample_limit mr1 = -1"
    using durations_total [OF assms(1), of b shift mr0] by (auto simp: mr0_def)
  define s0 :: retry_state where "s0 = (mp_cw_min mp, mr_perfect_tx_time mr1 + sp, 0, 0, mr1, True)"
  have "\<exists>r. loop_opt (\<lambda>(_, _, _, _, _, goon). goon) (retry_body mp sp) s0 = Some r \<and> retry_ok mp (int i) r \<and> \<not> (case r of (_, _, _, _, _, goon) \<Rightarrow> goon)"
  proof (rule loop_opt_measure [where m = "\<lambda>s. case s of (_, _, _, _, mr, goon) \<Rightarrow> if goon then 256 - unat (rs_retry_count (mr_stats mr)) else 0"])
    show "retry_ok mp (int i) s0" using mr1(2-4) by (simp add: retry_ok_def s0_def blank_stats_def)
  qed (rule retry_step [OF assms(2)])
  then obtain cw tx cts rts mr goon where l: "loop_opt (\<lambda>(_, _, _, _, _, goon). goon) (retry_body mp sp) s0 = Some (cw, tx, cts, rts, mr, goon)"
    "mr_rix mr = int i" "mr_sample_limit mr = -1" "0 < rs_retry_count (mr_stats mr)" by (auto simp: retry_ok_def)
  show ?thesis
    unfolding init_rate_def Let_def rix mr0_def [symmetric] mr1(1) bind.bind_lunit s0_def [symmetric] l(1) prod.case
    using l(2-4) by (auto simp: rate_ok_def)
qed

definition usable_rate :: "u32 \<Rightarrow> band_rate \<Rightarrow> bool" where
  "usable_rate flags rate \<longleftrightarrow> br_supported rate \<and> flags AND br_flags rate = flags"

definition band_ok :: "rate_band \<Rightarrow> bool" where
  "band_ok sband \<longleftrightarrow> length (sb_bitrates sband) \<le> 127 \<and> (\<forall>x\<in>set (sb_bitrates sband). 0 < br_bitrate x)"

definition init_inv :: "rate_band \<Rightarrow> u32 \<Rightarrow> nat \<Rightarrow> nat \<Rightarrow> nat \<times> mrate list \<Rightarrow> bool" where
  "init_inv sband flags m i = (\<lambda>(n, r). n \<le> i \<and> length r = m \<and> (\<forall>k<n. 0 \<le> mr_rix (r ! k) \<and> rate_ok (r ! k)) \<and>
     ((\<exists>k<i. usable_rate flags (sb_bitrates sband ! k)) \<longrightarrow> 0 < n))"

lemma init_one_ok:
  assumes b: "band_ok sband" "unat (mp_max_retry mp) \<le> 255" and i: "i < length (sb_bitrates sband)" "i < m" and s: "init_inv sband flags m i s"
  shows "\<exists>s'. init_one mp sp sband shift flags i s = Some s' \<and> init_inv sband flags m (Suc i) s'"
proof -
  obtain n r where nr: "s = (n, r)" by fastforce
  with s have n: "n \<le> i" "length r = m" "\<forall>k<n. 0 \<le> mr_rix (r ! k) \<and> rate_ok (r ! k)" "(\<exists>k<i. usable_rate flags (sb_bitrates sband ! k)) \<longrightarrow> 0 < n"
    by (simp_all add: init_inv_def)
  show ?thesis
  proof (cases "usable_rate flags (sb_bitrates sband ! i)")
    case False
    with i n show ?thesis by (auto simp: init_one_def nr at_Some usable_rate_def init_inv_def less_Suc_eq)
  next
    case True
    obtain mr where mr: "init_rate mp sp (sb_5ghz sband) shift i (sb_bitrates sband ! i) = Some mr" "mr_rix mr = int i" "rate_ok mr"
      using init_rate_total [OF _ b(2), of "sb_bitrates sband ! i" i sp "sb_5ghz sband" shift] b(1) i(1) by (auto simp: band_ok_def)
    with True i n show ?thesis
      by (auto simp: init_one_def nr at_Some usable_rate_def init_inv_def put_def nth_list_update less_Suc_eq)
  qed
qed

lemma clear_rix_ok:
  fixes r :: "mrate list"
  assumes "length r = m" "k \<le> m" "\<forall>i<n. 0 \<le> mr_rix (r ! i) \<and> rate_ok (r ! i)" "n \<le> k"
  shows "\<exists>r'. foldo clear_rix [n..<k] r = Some r' \<and> length r' = m \<and> (\<forall>i<n. 0 \<le> mr_rix (r' ! i) \<and> rate_ok (r' ! i))"
proof (rule foldo_upt_rule [where P = "\<lambda>i (r :: mrate list). length r = m \<and> (\<forall>i<n. 0 \<le> mr_rix (r ! i) \<and> rate_ok (r ! i))"])
  fix i and q :: "mrate list" assume "n \<le> i" "i < k" "length q = m \<and> (\<forall>i<n. 0 \<le> mr_rix (q ! i) \<and> rate_ok (q ! i))"
  with assms(2) show "\<exists>q'. clear_rix i q = Some q' \<and> length q' = m \<and> (\<forall>i<n. 0 \<le> mr_rix (q' ! i) \<and> rate_ok (q' ! i))"
    by (auto simp: clear_rix_def at_Some put_def nth_list_update rate_ok_def)
qed (use assms in auto)

lemma rate_init_ok:
  assumes b: "band_ok sband" "unat (mp_max_retry mp) \<le> 255" "lowest < length (sb_bitrates sband)"
    and use_: "\<exists>k<length (sb_bitrates sband). usable_rate flags (sb_bitrates sband ! k)"
    and mi: "length (sb_bitrates sband) \<le> length (mi_r mi)" "MAX_THR_RATES \<le> length (mi_r mi)"
      "SAMPLE_COLUMNS * length (sb_bitrates sband) \<le> length (mi_sample_table mi)"
    and rnd: "\<And>col. col < SAMPLE_COLUMNS \<Longrightarrow> length (rnd col) = 8"
  shows "\<exists>mi' t e'. minstrel_rate_init mp sband lowest shift flags j rnd mi e = Some (mi', t, e') \<and> minstrel_ok mi'"
proof -
  let ?m = "length (sb_bitrates sband)"
  have "br_bitrate (sb_bitrates sband ! lowest) \<noteq> 0" using b(1) nth_mem [OF b(3)] by (auto simp: band_ok_def)
  from frame_duration_total [OF this] obtain ack where
    ack: "frame_duration (sb_5ghz sband) 10 (br_bitrate (sb_bitrates sband ! lowest)) (br_erp_g (sb_bitrates sband ! lowest)) True shift = Some ack" by blast
  define m1 where "m1 = mi\<lparr>mi_lowest_rix := of_nat lowest, mi_sp_ack_dur := word_of_int ack, mi_max_tp_rate := replicate MAX_THR_RATES 0,
                   mi_max_prob_rate := 0\<rparr>"
  have "\<exists>s. foldo (init_one mp (mi_sp_ack_dur m1) sband shift flags) [0..<?m] (0, mi_r m1) = Some s \<and> init_inv sband flags (length (mi_r mi)) ?m s"
  proof (rule foldo_upt_rule [where P = "init_inv sband flags (length (mi_r mi))"])
    show "init_inv sband flags (length (mi_r mi)) 0 (0, mi_r m1)" by (simp add: init_inv_def m1_def)
  next
    fix i s assume "0 \<le> i" "i < ?m" "init_inv sband flags (length (mi_r mi)) i s"
    with init_one_ok [OF b(1,2)] mi(1) show "\<exists>s'. init_one mp (mi_sp_ack_dur m1) sband shift flags i s = Some s' \<and> init_inv sband flags (length (mi_r mi)) (Suc i) s'"
      by simp
  qed simp
  then obtain n r where nr: "foldo (init_one mp (mi_sp_ack_dur m1) sband shift flags) [0..<?m] (0, mi_r m1) = Some (n, r)"
    "n \<le> ?m" "length r = length (mi_r mi)" "\<forall>k<n. 0 \<le> mr_rix (r ! k) \<and> rate_ok (r ! k)" "0 < n"
    using use_ by (auto simp: init_inv_def)
  from clear_rix_ok [OF nr(3) mi(1) nr(4,2)] obtain r' where
    r': "foldo clear_rix [n..<?m] r = Some r'" "length r' = length (mi_r mi)" "\<forall>k<n. 0 \<le> mr_rix (r' ! k) \<and> rate_ok (r' ! k)" by blast
  define m2 where "m2 = m1\<lparr>mi_r := r', mi_n_rates := n, mi_last_stats_update := j\<rparr>"
  have n255: "n \<le> 255" using nr(2) b(1) by (simp add: band_ok_def)
  have "SAMPLE_COLUMNS * n \<le> SAMPLE_COLUMNS * ?m" using nr(2) by simp
  then have tl: "SAMPLE_COLUMNS * n \<le> length (mi_sample_table mi)" using mi(3) by linarith
  obtain table where table: "init_sample_table rnd m2 = Some (m2\<lparr>mi_sample_column := 0, mi_sample_row := 0, mi_sample_table := table\<rparr>)"
    "length table = length (mi_sample_table mi)" "\<forall>col<SAMPLE_COLUMNS. filled n col n table"
    using sample_table_fills [of m2 rnd] n255 tl rnd by (auto simp: m2_def m1_def)
  define m3 where "m3 = m2\<lparr>mi_sample_column := 0, mi_sample_row := 0, mi_sample_table := table\<rparr>"
  have ok: "minstrel_ok m3"
    using nr(2,5) n255 r'(2,3) mi(1,2) tl table(2,3)
    by (simp add: minstrel_ok_def m3_def m2_def m1_def SAMPLE_COLUMNS_def)
  have "length (mi_max_tp_rate m3) = MAX_THR_RATES" "\<forall>t\<in>set (mi_max_tp_rate m3). unat t < length (mi_r m3)" "unat (mi_max_prob_rate m3) < length (mi_r m3)"
    using ok by (fastforce simp: minstrel_ok_def)+
  from update_rates_total [OF this, of mp e] obtain t e' where t: "minstrel_update_rates mp m3 e = Some (t, e')" by blast
  have "minstrel_rate_init mp sband lowest shift flags j rnd mi e = Some (m3, t, e')"
    unfolding minstrel_rate_init_def Let_def at_Some [OF b(3)] bind.bind_lunit ack m1_def [symmetric] nr(1) prod.case r'(1) m2_def [symmetric]
      table(1) m3_def [symmetric] t by (rule refl)
  with ok show ?thesis by blast
qed

text \<open>The memory of a station has room for every band.\<close>

lemma max_bitrates_ge: "Some sband \<in> set bands \<Longrightarrow> length (sb_bitrates sband) \<le> max_bitrates bands"
proof -
  let ?f = "\<lambda>b m. case b of Some sband \<Rightarrow> (if length (sb_bitrates sband) > m then length (sb_bitrates sband) else m) | None \<Rightarrow> m"
  have ge: "m \<le> fold ?f bs m" for bs :: "rate_band option list" and m
  proof (induction bs arbitrary: m)
    case (Cons b bs)
    have "m \<le> ?f b m" by (simp split: option.splits)
    with Cons [of "?f b m"] show ?case by simp
  qed simp
  have "Some sband \<in> set bs \<Longrightarrow> length (sb_bitrates sband) \<le> fold ?f bs m" for bs m
  proof (induction bs arbitrary: m)
    case (Cons b bs)
    show ?case
    proof (cases "b = Some sband")
      case True
      then have "length (sb_bitrates sband) \<le> ?f b m" by simp
      also note ge [of "?f b m" bs]
      finally show ?thesis by simp
    next
      case False
      with Cons.prems have "Some sband \<in> set bs" by auto
      from Cons.IH [OF this, of "?f b m"] show ?thesis by simp
    qed
  qed simp
  then show "Some sband \<in> set bands \<Longrightarrow> length (sb_bitrates sband) \<le> max_bitrates bands" by (simp add: max_bitrates_def)
qed

lemma alloc_sta_room:
  assumes "minstrel_alloc_sta hw j e = (Some mi, e')" "Some sband \<in> set (hw_bands hw)"
  shows "length (sb_bitrates sband) \<le> length (mi_r mi)" "SAMPLE_COLUMNS * length (sb_bitrates sband) \<le> length (mi_sample_table mi)"
    "length (mi_r mi) = max_bitrates (hw_bands hw)"
  using assms(1) max_bitrates_ge [OF assms(2)] mult_le_mono2 [OF max_bitrates_ge [OF assms(2)], of SAMPLE_COLUMNS]
  by (auto simp: minstrel_alloc_sta_def Let_def split: if_splits)

lemma alloc_retry: "minstrel_alloc hw e = (Some mp, e') \<Longrightarrow> unat (mp_max_retry mp) \<le> 255"
proof -
  have "unat (ucast t :: u32) \<le> 255" for t :: u8
  proof -
    have "unat (ucast t :: u32) \<le> unat t" by (simp add: unsigned_ucast_eq)
    also have "unat t \<le> 255" using unat_u8_less [of t] by linarith
    finally show ?thesis .
  qed
  moreover assume "minstrel_alloc hw e = (Some mp, e')"
  ultimately show ?thesis
    by (auto simp: minstrel_alloc_def minstrel_init_cck_rates_def split: if_splits list.splits option.splits)
qed

text \<open>The states of a station: memory for it is allocated, it is set up with some supported rate, then come feedback of the driver and
  requests for a rate in any order, and it may be set up again.\<close>

inductive minstrel_reachable :: "(u64 \<Rightarrow> u64) \<Rightarrow> (u64 \<Rightarrow> u64 \<Rightarrow> bool) \<Rightarrow> u32 \<Rightarrow> hw_caps \<Rightarrow> minstrel_priv \<Rightarrow> minstrel_sta \<Rightarrow> bool"
  for int_sqrt after hz hw mp where
  start: "\<lbrakk>Some sband \<in> set (hw_bands hw); band_ok sband; lowest < length (sb_bitrates sband);
     \<exists>k<length (sb_bitrates sband). usable_rate flags (sb_bitrates sband ! k);
     \<forall>col<SAMPLE_COLUMNS. length (rnd col) = 8; minstrel_alloc_sta hw j0 e0 = (Some mi, e1);
     minstrel_rate_init mp sband lowest shift flags j rnd mi e = Some (mi', t, e')\<rbrakk> \<Longrightarrow> minstrel_reachable int_sqrt after hz hw mp mi'"
| again: "\<lbrakk>minstrel_reachable int_sqrt after hz hw mp mi; band_ok sband; lowest < length (sb_bitrates sband);
     \<exists>k<length (sb_bitrates sband). usable_rate flags (sb_bitrates sband ! k);
     length (sb_bitrates sband) \<le> length (mi_r mi); SAMPLE_COLUMNS * length (sb_bitrates sband) \<le> length (mi_sample_table mi);
     \<forall>col<SAMPLE_COLUMNS. length (rnd col) = 8;
     minstrel_rate_init mp sband lowest shift flags j rnd mi e = Some (mi', t, e')\<rbrakk> \<Longrightarrow> minstrel_reachable int_sqrt after hz hw mp mi'"
| status: "\<lbrakk>minstrel_reachable int_sqrt after hz hw mp mi; report_ok (length (mi_r mi)) info;
     minstrel_tx_status int_sqrt after hz j mp info mi e = Some (mi', over, t, e')\<rbrakk> \<Longrightarrow> minstrel_reachable int_sqrt after hz hw mp mi'"
| choose: "\<lbrakk>minstrel_reachable int_sqrt after hz hw mp mi; minstrel_get_rate mp q mi = Some (c, mi')\<rbrakk> \<Longrightarrow>
     minstrel_reachable int_sqrt after hz hw mp mi'"

lemma minstrel_reachable_ok:
  assumes "unat (mp_max_retry mp) \<le> 255" "MAX_THR_RATES \<le> max_bitrates (hw_bands hw)" "minstrel_reachable int_sqrt after hz hw mp mi"
  shows "minstrel_ok mi"
  using assms(3)
proof (induction rule: minstrel_reachable.induct)
  case (start sband lowest flags rnd j0 e0 mi e1 shift j e mi' t e')
  note room = alloc_sta_room [OF start(6,1)]
  have "MAX_THR_RATES \<le> length (mi_r mi)" using room(3) assms(2) by simp
  from rate_init_ok [OF start(2) assms(1) start(3,4) room(1) this room(2), of rnd shift j e] start(5,7) show ?case by auto
next
  case (again mi sband lowest flags rnd shift j e mi' t e')
  have "MAX_THR_RATES \<le> length (mi_r mi)" using again.IH by (simp add: minstrel_ok_def)
  from rate_init_ok [OF again(2) assms(1) again(3-5) this again(6), of rnd shift j e] again(7,8) show ?case by auto
next
  case (status mi info j e mi' over t e')
  with tx_status_ok [OF status.IH status(2), of int_sqrt after hz j mp e] show ?case by auto
next
  case (choose mi q c mi')
  with get_rate_ok [OF choose.IH, of mp q] show ?case by auto
qed

text \<open>C25. A driver whose widest band has at least four rates: in every state of a station, over all sequences of reports about known
  rates, requests and set-ups with some supported rate, every rate the station supports has a driver index and is tried at least once, the lists of the best rates
  and the sampling table only name such rates, and the countdown of samples is between -1 and 4. A request for a rate is answered without leaving the arrays, and
  a rate that is sampled is one the station supports and is tried at least once. A report about known rates is processed, and all
  accesses to arrays are inside but one: the code reads the byte before the list of the best rates (the flag \<open>over\<close>), and its value changes neither the state nor the table
  for the driver.\<close>

theorem minstrel_invariant:
  assumes "minstrel_alloc hw e0 = (Some mp, e1)" "MAX_THR_RATES \<le> max_bitrates (hw_bands hw)" "minstrel_reachable int_sqrt after hz hw mp mi"
    and "report_ok (length (mi_r mi)) info"
  shows "minstrel_ok mi \<and>
    (\<exists>c mi'. minstrel_get_rate mp q mi = Some (c, mi') \<and> choice_ok mi c) \<and>
    (\<exists>mi' over t e'. \<forall>before. minstrel_tx_status int_sqrt after hz j mp info mi (e\<lparr>env_junk := before\<rparr>) =
       Some (mi', over, t, e'\<lparr>env_junk := before\<rparr>))"
proof -
  have ok: "minstrel_ok mi" by (rule minstrel_reachable_ok [OF alloc_retry [OF assms(1)] assms(2,3)])
  obtain mi' over t e' where "minstrel_tx_status int_sqrt after hz j mp info mi e = Some (mi', over, t, e')"
    using tx_status_ok [OF ok assms(4), of int_sqrt after hz j mp e] by blast
  then have "\<forall>before. minstrel_tx_status int_sqrt after hz j mp info mi (e\<lparr>env_junk := before\<rparr>) = Some (mi', over, t, e'\<lparr>env_junk := before\<rparr>)"
    by (simp add: tx_status_junk)
  with ok get_rate_ok [OF ok, of mp q] show ?thesis by blast
qed

text \<open>A band with four rates, a driver and a station without statistics for the witnesses.\<close>

definition band_ex :: rate_band where
  "band_ex = \<lparr>sb_5ghz = False, sb_bitrates = map (\<lambda>b. \<lparr>br_bitrate = b, br_flags = 0, br_erp_g = False, br_supported = True\<rparr>) [10, 20, 55, 110]\<rparr>"

definition caps_ex :: hw_caps where
  "caps_ex = \<lparr>hw_max_rates = 4, hw_max_rate_tries = 0, hw_rate_flags = 0, hw_bands = [Some band_ex, None]\<rparr>"

definition priv_ex :: minstrel_priv where
  "priv_ex = \<lparr>mp_max_rates = 4, mp_has_mrr = True, mp_cw_min = 15, mp_cw_max = 1023, mp_max_retry = 7, mp_segment_size = 6000,
     mp_update_interval = 100, mp_lookaround_rate = 5, mp_lookaround_rate_mrr = 10, mp_cck_rates = [0, 1, 2, 3]\<rparr>"

definition mrate_ex :: "u32 \<Rightarrow> u32 \<Rightarrow> mrate" where
  "mrate_ex usecs prob = \<lparr>mr_bitrate = 0, mr_rix = 0, mr_retry_count_cts = 1, mr_adjusted_retry_count = 2, mr_perfect_tx_time = usecs,
     mr_ack_time = 0, mr_sample_limit = -1, mr_stats = blank_stats\<lparr>rs_prob_ewma := prob\<rparr>\<rparr>"

definition minstrel_ex :: "mrate list \<Rightarrow> minstrel_sta" where
  "minstrel_ex r = \<lparr>mi_last_stats_update = 0, mi_sp_ack_dur = 0, mi_lowest_rix = 0, mi_max_tp_rate = replicate 4 0, mi_max_prob_rate = 0,
     mi_total_packets = 0, mi_sample_packets = 0, mi_sample_deferred = 0, mi_sample_row = 0, mi_sample_column = 0, mi_n_rates = length r,
     mi_r = r, mi_prev_sample = False, mi_sample_table = replicate (10 * length r) 0\<rparr>"

lemma band_ex_ok: "band_ok band_ex" "length (sb_bitrates band_ex) = 4" "usable_rate 0 (sb_bitrates band_ex ! 0)"
  by (simp_all add: band_ok_def band_ex_def usable_rate_def)

lemma priv_ex_alloc: "\<exists>e. minstrel_alloc caps_ex plenty = (Some priv_ex, e)"
  by (simp add: minstrel_alloc_def plenty_def minstrel_init_cck_rates_def caps_ex_def priv_ex_def band_ex_def note_cck_def cck_bitrates_def upt_rec)

lemma minstrel_reachable_ex: "\<exists>mi. minstrel_reachable (\<lambda>_. 0) (\<lambda>a b. b < a) 100 caps_ex priv_ex mi"
proof -
  have u: "\<exists>k<length (sb_bitrates band_ex). usable_rate 0 (sb_bitrates band_ex ! k)" using band_ex_ok by (intro exI [of _ 0]) simp
  have l: "Some band_ex \<in> set (hw_bands caps_ex)" "0 < length (sb_bitrates band_ex)" by (simp_all add: caps_ex_def band_ex_ok)
  have p: "unat (mp_max_retry priv_ex) \<le> 255" by (simp add: priv_ex_def)
  obtain mi0 e1 where a: "minstrel_alloc_sta caps_ex 0 plenty = (Some mi0, e1)"
    by (simp add: minstrel_alloc_sta_def plenty_def alloc_next_def Let_def)
  note room = alloc_sta_room [OF a l(1)]
  have m: "MAX_THR_RATES \<le> length (mi_r mi0)" using room(1) by (simp add: band_ex_ok MAX_THR_RATES_def)
  from rate_init_ok [OF band_ex_ok(1) p l(2) u room(1) m room(2), of "\<lambda>_. replicate 8 0" 0 0 plenty] obtain mi t e' where
    i: "minstrel_rate_init priv_ex band_ex 0 0 0 0 (\<lambda>_. replicate 8 0) mi0 plenty = Some (mi, t, e')" by auto
  have "minstrel_reachable (\<lambda>_. 0) (\<lambda>a b. b < a) 100 caps_ex priv_ex mi"
    by (rule minstrel_reachable.start [OF l(1) band_ex_ok(1) l(2) u _ a i]) simp
  then show ?thesis by blast
qed

definition query_ex :: rate_query where
  "query_ex = \<lparr>rq_send_low = False, rq_rts = False, rq_bss_cts_prot = False, rq_use_rts = False, rq_use_cts_prot = False\<rparr>"

definition report_ex :: tx_report where
  "report_ex = \<lparr>tr_rates = [(1, 2), (0, 1), (-1, 0), (-1, 0)], tr_ack = True, tr_probe = False\<rparr>"

theorem minstrel_invariant_witness:
  "\<exists>mi. minstrel_reachable (\<lambda>_. 0) (\<lambda>a b. b < a) 100 caps_ex priv_ex mi \<and> minstrel_ok mi \<and>
    (\<exists>c mi'. minstrel_get_rate priv_ex query_ex mi = Some (c, mi') \<and> choice_ok mi c) \<and>
    (\<exists>mi' over t e'. \<forall>before. minstrel_tx_status (\<lambda>_. 0) (\<lambda>a b. b < a) 100 9 priv_ex report_ex mi (plenty\<lparr>env_junk := before\<rparr>) =
       Some (mi', over, t, e'\<lparr>env_junk := before\<rparr>))"
proof -
  obtain mi where mi: "minstrel_reachable (\<lambda>_. 0) (\<lambda>a b. b < a) 100 caps_ex priv_ex mi" using minstrel_reachable_ex by blast
  obtain e where p: "minstrel_alloc caps_ex plenty = (Some priv_ex, e)" using priv_ex_alloc by blast
  have m: "MAX_THR_RATES \<le> max_bitrates (hw_bands caps_ex)" by (simp add: max_bitrates_def caps_ex_def band_ex_ok MAX_THR_RATES_def)
  have "MAX_THR_RATES \<le> length (mi_r mi)" using minstrel_reachable_ok [OF _ m mi] by (simp add: minstrel_ok_def priv_ex_def)
  then have "report_ok (length (mi_r mi)) report_ex" by (auto simp: report_ok_def report_ex_def TX_MAX_RATES_def MAX_THR_RATES_def)
  from minstrel_invariant [OF p m mi this, of query_ex 9 plenty] mi show ?thesis by blast
qed

theorem sample_columns_permute_witness:
  "\<exists>mi'. init_sample_table (\<lambda>col. [7, 3, 0, 255, 1, 2, 9, 4]) (minstrel_ex (replicate 4 (mrate_ex 0 0))) = Some mi' \<and>
    (\<forall>col<SAMPLE_COLUMNS. mset (map (\<lambda>row. unat (mi_sample_table mi' ! (row * SAMPLE_COLUMNS + col))) [0..<mi_n_rates (minstrel_ex (replicate 4 (mrate_ex 0 0)))]) =
      mset [0..<mi_n_rates (minstrel_ex (replicate 4 (mrate_ex 0 0)))])"
  by (rule sample_columns_permute) (simp_all add: minstrel_ex_def SAMPLE_COLUMNS_def)

section \<open>The best rates\<close>

lemma tp_place_4:
  assumes "length tp = 4" "unat (tp ! 3) < length r" "tmp < length r"
  shows "tp_place r cur below tp 4 tmp over =
    (if get_tp_avg cur (prob_of cur) > get_tp_avg (r ! unat (tp ! 3)) (prob_of (r ! tmp))
     then tp_place r cur below tp 3 (unat (tp ! 2)) over else Some (4, over))"
  using tp_place.simps(2) [of r cur below tp 3 tmp over] assms by (simp add: at_Some)

text \<open>C38. The first comparison of the insertion takes the probability of the fourth rate of the array instead of that of the
  fourth rate of the list. A rate that is faster than the fourth of the best rates, but not faster than the throughput
  computed with the wrong probability, is left out: the list of the best rates does not change. With the probability of the fourth of the
  best rates the same search would find a place for it.\<close>

theorem best_rate_missed:
  assumes "i < length r" "4 \<le> length r" "length tp = 4" "\<forall>t\<in>set tp. unat t < length r"
    and "get_tp_avg (r ! unat (tp ! 3)) (prob_of (r ! unat (tp ! 3))) < get_tp_avg (r ! i) (prob_of (r ! i))"
    and "get_tp_avg (r ! i) (prob_of (r ! i)) \<le> get_tp_avg (r ! unat (tp ! 3)) (prob_of (r ! 3))"
  shows "sort_best_tp_rates r i below tp = Some (tp, False) \<and>
    (\<exists>k over. tp_place r (r ! i) below tp MAX_THR_RATES (unat (tp ! 3)) False = Some (k, over) \<and> k < MAX_THR_RATES)"
proof -
  have m: "unat (tp ! k) < length r" if "k < 4" for k using assms(3,4) that by simp
  have "sort_best_tp_rates r i below tp = Some (tp, False)"
    using assms m [of 3] by (simp add: sort_best_tp_rates_def MAX_THR_RATES_def tp_place_4 at_Some)
  moreover obtain k over where "tp_place r (r ! i) below tp 3 (unat (tp ! 2)) False = Some (k, over)" "k \<le> 3"
    using tp_place_total [of 3 tp r "unat (tp ! 2)" "r ! i" below False] assms(3,4) m [of 2] by auto
  ultimately show ?thesis using assms(3,5) m [of 3] by (simp add: MAX_THR_RATES_def tp_place_4)
qed

text \<open>A slow rate with few losses in the fourth place hides a rate with a throughput of 299 behind one of 53, and still does at the end of a
  whole update.\<close>

definition rates_ex :: "mrate list" where
  "rates_ex = [mrate_ex 200 7000, mrate_ex 300 58982, mrate_ex 400 58982, mrate_ex 20000 60000]"

theorem best_rate_missed_witness:
  "sort_best_tp_rates rates_ex 1 0xAA [0, 0, 0, 0] = Some ([0, 0, 0, 0], False) \<and>
    (\<exists>k over. tp_place rates_ex (rates_ex ! 1) 0xAA [0, 0, 0, 0] MAX_THR_RATES (unat ([0, 0, 0, 0 :: u8] ! 3)) False = Some (k, over) \<and> k < MAX_THR_RATES)"
proof (rule best_rate_missed)
  show "get_tp_avg (rates_ex ! unat ([0, 0, 0, 0 :: u8] ! 3)) (prob_of (rates_ex ! unat ([0, 0, 0, 0 :: u8] ! 3))) <
      get_tp_avg (rates_ex ! 1) (prob_of (rates_ex ! 1))" by code_simp
  show "get_tp_avg (rates_ex ! 1) (prob_of (rates_ex ! 1)) \<le> get_tp_avg (rates_ex ! unat ([0, 0, 0, 0 :: u8] ! 3)) (prob_of (rates_ex ! 3))" by code_simp
qed (simp_all add: rates_ex_def)

lemma best_rate_missed_update:
  "map_option (\<lambda>(mi', _). (mi_max_tp_rate mi', map (\<lambda>mr. get_tp_avg mr (prob_of mr)) (mi_r mi')))
     (minstrel_update_stats (\<lambda>_. 0) 0 priv_ex (minstrel_ex rates_ex) plenty) = Some ([0, 0, 0, 0], [53, 299, 224, 3])"
  by code_simp

end
