(* ===== verification/Spec2Isabelle.thy ===== *)
theory Spec2Isabelle
  imports MNC_Node AGG_RX RX_Decrypt Elements Minstrel_Props
begin

text \<open>
  A verification development for a fork of the Linux 802.11 stack with network coding and topology learning.
  The theories model the C code under \<^verbatim>\<open>src/\<close> as functions on explicit state, with the names of the code, and
  prove what makes it correct; where the code does not do what it means to do, a theorem says so.

  \<^bold>\<open>The program.\<close> A sending node collects the packets of a UDP flow in generations, codes each generation over the
  field with 256 elements (\<^verbatim>\<open>mnc_tx.c\<close>, \<^verbatim>\<open>gf.c\<close>) and broadcasts the coded packets; a receiving node decodes a
  generation when enough packets have arrived (\<^verbatim>\<open>mnc_rx.c\<close>). Before that, topology learning measures the links
  with training frames and chooses relays and the numbers of transmissions (\<^verbatim>\<open>tl_rx*.c\<close>). Below lies the
  802.11 stack: received frames pass the test for duplicates and the reorder buffer of a block-ack
  session (\<^verbatim>\<open>rx.c\<close>, \<^verbatim>\<open>agg-rx.c\<close>, \<^verbatim>\<open>ht.c\<close>), are decrypted (\<^verbatim>\<open>wep.c\<close>, \<^verbatim>\<open>tkip.c\<close>, \<^verbatim>\<open>michael.c\<close>, \<^verbatim>\<open>wpa.c\<close>, \<^verbatim>\<open>aes_*.c\<close>), and put together
  from fragments (\<^verbatim>\<open>rx.c\<close>),
  and frames to be sent go the same way back.

  \<^bold>\<open>Theories and code.\<close>
  \<^item> \<open>Prelude\<close>: loops that may fail or run for ever (\<open>foldo\<close>, \<open>loop_opt\<close>), postconditions of partial functions, and the
    collections of rules the other theories extend.
  \<^item> \<open>GF\<close>: \<^verbatim>\<open>gf.c\<close> with its two tables. The bytes are shown to be a field, and become an instance of the class
    \<open>field\<close>, so that linear algebra can be done with the library.
  \<^item> \<open>LU\<close>: \<^verbatim>\<open>lu_fac\<close> and \<^verbatim>\<open>skb_substi\<close> of \<^verbatim>\<open>mnc_rx.c\<close> on matrices.
  \<^item> \<open>SKB\<close>: socket buffers as headroom, packet and tailroom; access outside the buffer has no result. What the kernel
    provides (random bytes, whether an allocation succeeds, the contents of fresh memory) is an input.
  \<^item> \<open>MNC_Decode\<close>, \<open>MNC_Encode\<close>: decoding and encoding of one generation (\<^verbatim>\<open>skbs_decoding\<close>, \<^verbatim>\<open>mnc_encoding_tx\<close> and all they
    call). \<open>MNC_Node\<close>: a node with its queues and timers, \<^verbatim>\<open>ieee80211_matrix_network_coding\<close> and the receive path.
  \<^item> \<open>DLL\<close>, \<open>Node_List\<close>: the doubly linked lists of the code, once on a heap with pointers and once as sequences; the
    locale \<open>linked_list\<close> is their interface and both are interpretations of it.
  \<^item> \<open>TL_Param\<close>, \<open>TL_List\<close>, \<open>TL_Src\<close>, \<open>TL_Dst\<close>: parameters, records and relay selection, the source and the client of
    topology learning with their timers and frames (\<^verbatim>\<open>tl_rx_param.c\<close>, \<^verbatim>\<open>tl_rx.c\<close>, \<^verbatim>\<open>tl_rx_list.c\<close>, \<^verbatim>\<open>tl_rx_src.c\<close>,
    \<^verbatim>\<open>tl_rx_dst.c\<close>); each side is a step relation over its handlers.
  \<^item> \<open>RX_Reorder\<close>: the reorder buffer and the test for duplicates of \<^verbatim>\<open>rx.c\<close>. \<open>RX_Window\<close>, \<open>RX_Release\<close>, \<open>RX_Order\<close> and
    \<open>RX_Session\<close> show that it is a sorted list of frames of which a prefix is handed on; \<open>RX_Any\<close> shows, for every window
    size and every frame, that the buffer always returns, stays consistent and only moves frames. \<open>AGG_RX\<close>: the
    block-ack sessions around it (\<^verbatim>\<open>agg-rx.c\<close>, the receiving half of \<^verbatim>\<open>ht.c\<close>) as a step relation.
  \<^item> \<open>Frame_Buf\<close>: numbers in memory, the view of a buffer as three lists, the gap behind the header that encryption
    opens and closes, and stream ciphers. \<open>Michael\<close>, \<open>WEP\<close>, \<open>TKIP\<close>: \<^verbatim>\<open>michael.c\<close>, \<^verbatim>\<open>wep.c\<close>, \<^verbatim>\<open>tkip.c\<close> and the TKIP
    functions of \<^verbatim>\<open>wpa.c\<close>. \<open>CCMP\<close>: CCMP and GCMP of \<^verbatim>\<open>wpa.c\<close> with \<^verbatim>\<open>aes_ccm.c\<close> and \<^verbatim>\<open>aes_gcm.c\<close>; \<open>CMAC\<close>: \<^verbatim>\<open>aes_cmac.c\<close>; \<open>BIP\<close>: the
    rest of \<^verbatim>\<open>wpa.c\<close> and \<^verbatim>\<open>aes_gmac.c\<close>. \<open>TKIP_Props\<close> and \<open>CCMP_Props\<close> hold their properties; the locale
    \<open>aead_layer\<close> is what the proofs need to know of a mode of encryption. \<open>Fragment\<close>: the sequence numbers and the
    fragmentation of \<^verbatim>\<open>tx.c\<close>; \<open>Defrag\<close>: the reassembly of \<^verbatim>\<open>rx.c\<close>, with the proof that it undoes the fragmentation.
    \<open>RX_Decrypt\<close>: \<^verbatim>\<open>ieee80211_rx_h_decrypt\<close>, which chooses the key and calls the function of its cipher, and the tests for
    frames that should have been encrypted.
  \<^item> \<open>Elements\<close>: the parser of information elements of \<^verbatim>\<open>util.c\<close>, which every management frame goes through. \<open>Minstrel\<close>: the rate
    control of \<^verbatim>\<open>rc80211_minstrel.c\<close> with the duration of a frame (\<^verbatim>\<open>util.c\<close>); \<open>Minstrel_Props\<close>: a station as a step relation over
    set-up, feedback and requests, and its properties.

  \<^bold>\<open>State and errors.\<close> Structures are records, pointers that may be null are options, machine integers are words of
  their width. A function whose C text can read outside an object, use a freed record, divide by zero
  or loop for ever has an option as its result, with \<open>None\<close> for that; the theorems say when there is
  a result. Errors the code handles are values of the result. Locks, reference counts and RCU do
  not appear: each handler is one atomic step, and the step relations interleave the handlers.

  \<^bold>\<open>What the lemmas show.\<close> For each component: that its operations keep its invariant and always return; what they
  compute, against a definition that does not follow the code (products of polynomials, solutions of
  linear systems, sorted lists, CMAC and Michael as the standards define them); round trips of
  encoding and decoding, encryption and decryption, reports, parameters and elements; and, for the errors
  found, that the model has them.

  \<^bold>\<open>Parameters.\<close> The functions of \<^verbatim>\<open>linux/ieee80211.h\<close> on the header of a frame (\<open>hdr_ops\<close>, \<open>frame_ops\<close>), RC4 (\<open>stream_cipher\<close>),
  CRC-32, \<^verbatim>\<open>cfg80211_find_ie\<close>, the square root of the kernel, one block of AES (\<open>aes_block\<close>) and AES in CCM and GCM mode (\<open>aead_correct\<close>) are arguments; the
  hypotheses named after them state what their documentation promises, and every property that has
  one has a witness with a concrete function.

  \<^bold>\<open>Bounds and fuel.\<close> Loops that may run for ever use \<open>loop_opt\<close>, which has no result then, not fuel; all other recursion is
  structural or ends by a measure. The definitions bound nothing the code does not bound. Some theorems have hypotheses
  the code does not check; outside them it does something else, and the text above each theorem says which it has:
  the encoder sends decodable packets for sources with equal, even payload lengths and fewer than 64 packets in a generation (the
  header has six bits for their number, and an odd last byte is not sent); the buffer sorts frames when its
  size is between 2 and 1024 and divides 4096 and no frame is part of an A-MSDU (the invariant of the sessions in \<open>AGG_RX\<close> and the
  conservation of frames hold for every size and every frame); fragments are at most 16; the rate control has a band of
  at least four and at most 127 rates, all named by the driver; decoding, delivery and reassembly succeed when allocations do, and
  a node that relays is covered by the invariant of the node but not by the delivery of originals.

  \<^bold>\<open>Not modelled.\<close> The management of interfaces, keys and stations (\<^verbatim>\<open>mlme.c\<close>, \<^verbatim>\<open>cfg.c\<close>, \<^verbatim>\<open>iface.c\<close>, \<^verbatim>\<open>key.c\<close>, \<^verbatim>\<open>sta_info.c\<close> and
  others), mesh and ad-hoc networks, scanning, rate control for 802.11n (\<^verbatim>\<open>rc80211_minstrel_ht.c\<close>), the rest of the transmit and receive
  paths, aggregation of the sender (\<^verbatim>\<open>agg-tx.c\<close>), tracing and debug files. They are the original stack of the
  kernel, driven by the configuration interface and by drivers that are not part of the
  repository. The functions that set up and free ciphers, print or write to the log are left out
  everywhere.
\<close>

end
